(* ===== verification/Minix_Prelude.thy ===== *)
theory Minix_Prelude
  imports Main "HOL-Library.Word" "HOL-Library.Monad_Syntax"
begin

text \<open>
  Shared vocabulary of the development: the machine types of the C sources, error numbers and
  call results, the console that \<^verbatim>\<open>printf\<close> writes to, and the generic lemmas on
  tables (arrays as lists), words and options that the component theories use.

  Conventions. A C \<^verbatim>\<open>unsigned\<close> is a \<^typ>\<open>32 word\<close>, so its arithmetic wraps; a C
  \<^verbatim>\<open>int\<close> that is only compared or passed on is an \<^typ>\<open>int\<close>. A field of flag bits is the
  finite set of the flag macros that are set in it, so \<^verbatim>\<open>x |= A\<close> is union,
  \<^verbatim>\<open>x &= ~A\<close> is difference and \<^verbatim>\<open>x & A\<close> tests membership. A pointer into a static table
  (\<^verbatim>\<open>rmp = &mproc[n]\<close>) is the index \<open>n\<close>. A \<^verbatim>\<open>panic\<close> or a failed \<^verbatim>\<open>assert\<close> is \<^const>\<open>None\<close>.
\<close>

unbundle bit_operations_syntax

section \<open>Machine types and results\<close>

type_synonym u8 = "8 word"
type_synonym u16 = "16 word"
type_synonym u32 = "32 word"
type_synonym u64 = "64 word"
type_synonym endpoint_t = int

text \<open>
  The error numbers and pseudo results the sources return. In the servers they are negative
  numbers, so a test such as \<^verbatim>\<open>r >= 0\<close> is false of every \<open>Err\<close>.
\<close>

datatype errno =
    EPERM | ENOENT | EIO | ENXIO | EBADF | ECHILD | EAGAIN | EBUSY | EEXIST | EXDEV
  | ENOTDIR | EISDIR | EINVAL | EFBIG | ENOSPC | ESPIPE | EROFS | EPIPE | EOVERFLOW
  | ENAMETOOLONG | EBADEPT | EDEADEPT | EBADCPU | EBADREQUEST | ECALLDENIED | EDEADSRCDST
  | SUSPEND | EDONTREPLY | VMSUSPEND | EOTHER int

datatype ret = Ret int | Err errno

abbreviation OK :: ret where "OK \<equiv> Ret 0"

fun ret_nonneg :: "ret \<Rightarrow> bool" where
  "ret_nonneg (Ret n) = (0 \<le> n)"
| "ret_nonneg (Err e) = False"

fun ret_pos :: "ret \<Rightarrow> bool" where
  "ret_pos (Ret n) = (0 < n)"
| "ret_pos (Err e) = False"

section \<open>Console output\<close>

text \<open>A \<^verbatim>\<open>printf\<close> appends its format (without the newline) and its arguments.\<close>

datatype parg = AInt int | ARet ret | AStr string

type_synonym console = "(string \<times> parg list) list"

definition printf :: "string \<Rightarrow> parg list \<Rightarrow> console \<Rightarrow> console" where
  "printf fmt args c = c @ [(fmt, args)]"

section \<open>Tables\<close>

text \<open>Updating one slot of a table in place, the effect of a write through a pointer to it.\<close>

definition upd_at :: "nat \<Rightarrow> ('a \<Rightarrow> 'a) \<Rightarrow> 'a list \<Rightarrow> 'a list" where
  "upd_at i f xs = xs[i := f (xs ! i)]"

named_theorems table_simps "facts on slots of tables after an in-place update"

lemma length_upd_at [simp, table_simps]: "length (upd_at i f xs) = length xs"
  by (simp add: upd_at_def)

lemma nth_upd_at [table_simps]:
  "j < length xs \<Longrightarrow> upd_at i f xs ! j = (if j = i then f (xs ! i) else xs ! j)"
  by (simp add: upd_at_def nth_list_update)

lemma nth_upd_at_same [simp, table_simps]: "i < length xs \<Longrightarrow> upd_at i f xs ! i = f (xs ! i)"
  by (simp add: upd_at_def)

lemma nth_upd_at_other [simp, table_simps]: "j \<noteq> i \<Longrightarrow> upd_at i f xs ! j = xs ! j"
  by (simp add: upd_at_def)

lemma upd_at_upd_at_same [simp]:
  "upd_at i f (upd_at i g xs) = upd_at i (\<lambda>x. f (g x)) xs"
  by (cases "i < length xs") (simp_all add: upd_at_def list_update_beyond)

lemma map_upd_at_inv:
  assumes "\<And>x. g (f x) = g x"
  shows "map g (upd_at i f xs) = map g xs"
proof (cases "i < length xs")
  case True
  then have "(map g xs)[i := g (xs ! i)] = map g xs"
    by (metis list_update_id map_update)
  then show ?thesis by (simp add: upd_at_def map_update assms)
next
  case False
  then show ?thesis by (simp add: upd_at_def list_update_beyond)
qed

lemma upd_at_cong: "f (xs ! i) = g (xs ! i) \<Longrightarrow> upd_at i f xs = upd_at i g xs"
  by (simp add: upd_at_def)

lemma map_upd_at_comm:
  assumes "\<And>x. g (f x) = h (g x)"
  shows "map g (upd_at i f xs) = upd_at i h (map g xs)"
  by (cases "i < length xs") (auto simp: upd_at_def map_update assms list_update_beyond)

lemma nth_upd_at_inv [table_simps]:
  assumes "\<And>x. g (f x) = g x"
  shows "g (upd_at i f xs ! j) = g (xs ! j)"
  by (cases "i < length xs") (auto simp: upd_at_def nth_list_update list_update_beyond assms)

lemma upd_at_beyond: "length xs \<le> i \<Longrightarrow> upd_at i f xs = xs"
  by (simp add: upd_at_def list_update_beyond)

lemma list_all_upd_at:
  assumes "\<forall>x\<in>set xs. P x" and "i < length xs \<Longrightarrow> P (xs ! i) \<Longrightarrow> P (f (xs ! i))"
  shows "\<forall>x\<in>set (upd_at i f xs). P x"
proof (cases "i < length xs")
  case True
  have "set (upd_at i f xs) \<subseteq> insert (f (xs ! i)) (set xs)"
    by (simp add: upd_at_def set_update_subset_insert)
  moreover have "P (f (xs ! i))" using assms True by simp
  ultimately show ?thesis using assms(1) by auto
next
  case False
  then show ?thesis using assms(1) by (simp add: upd_at_beyond)
qed

lemma upt_split: "c < n \<Longrightarrow> [0..<n] = [0..<c] @ c # [Suc c..<n]"
  using upt_add_eq_append [of 0 c "n - c"] upt_conv_Cons [of c n] by simp

text \<open>Counting the slots of a table with a property, as the servers' usage counters do.\<close>

definition count_slots :: "('a \<Rightarrow> bool) \<Rightarrow> 'a list \<Rightarrow> nat" where
  "count_slots P xs = length (filter P xs)"

lemma count_slots_le: "count_slots P xs \<le> length xs"
  by (simp add: count_slots_def)

lemma count_slots_upd_at:
  assumes "i < length xs"
  shows "count_slots P (upd_at i f xs) + (if P (xs ! i) then 1 else 0)
       = count_slots P xs + (if P (f (xs ! i)) then 1 else 0)"
proof -
  let ?a = "take i xs" and ?b = "drop (Suc i) xs"
  have xs: "xs = ?a @ xs ! i # ?b" using assms by (rule id_take_nth_drop)
  have up: "upd_at i f xs = ?a @ f (xs ! i) # ?b"
    using assms by (simp add: upd_at_def upd_conv_take_nth_drop)
  have "count_slots P xs = count_slots P (?a @ xs ! i # ?b)" using xs by simp
  then show ?thesis unfolding up by (simp add: count_slots_def)
qed

lemma count_slots_upd_at_same:
  assumes "\<And>x. P (f x) = P x"
  shows "count_slots P (upd_at i f xs) = count_slots P xs"
  using count_slots_upd_at [of i xs P f] assms
  by (cases "i < length xs") (auto simp: upd_at_beyond split: if_splits)

lemma count_slots_full: "count_slots P xs = length xs \<longleftrightarrow> (\<forall>x\<in>set xs. P x)"
  by (induction xs) (auto simp: count_slots_def dest: le_Suc_eq [THEN iffD1, rotated]
      intro: le_neq_implies_less length_filter_le,
      metis Suc_n_not_le_n length_filter_le)

lemma count_slots_less_ex: "count_slots P xs < length xs \<Longrightarrow> \<exists>i<length xs. \<not> P (xs ! i)"
  using count_slots_full [of P xs] by (metis in_set_conv_nth less_irrefl)

section \<open>Words\<close>

named_theorems u32_simps "facts on unsigned 32-bit values"

lemma u32_less_max [u32_simps]: "(x :: u32) < - 1 \<longleftrightarrow> x \<noteq> - 1"
  by (metis word_order.not_eq_extremum)

lemma u32_not_less_max [simp]: "\<not> (- 1 :: u32) < x"
  by (simp add: word_order.extremum_strict)

lemma u32_max_le [u32_simps]: "(- 1 :: u32) \<le> x \<longleftrightarrow> x = - 1"
  by (rule word_order.extremum_unique)

lemma unat_add1_less [u32_simps]: "(x :: u32) < y \<Longrightarrow> unat (x + 1) = unat x + 1"
proof -
  assume "x < y"
  then have "unat x < unat y" by (simp add: word_less_nat_alt)
  moreover have "unat y < 2 ^ LENGTH(32)" by (rule unsigned_less)
  ultimately have "unat x + 1 < 2 ^ LENGTH(32)" by linarith
  then show ?thesis by (simp add: unat_word_ariths)
qed

lemma unat_sub1 [u32_simps]: "(x :: u32) \<noteq> 0 \<Longrightarrow> unat (x - 1) = unat x - 1"
  by (metis unat_minus_one)

section \<open>Sequences of operations\<close>

text \<open>
  Operations that report success, run one after the other until one fails. An implementation refines a
  specification if every successful operation on a good state acts on the abstraction as specified and leads
  to a good state; then so does every successful sequence.
\<close>

fun run_ops :: "('s \<Rightarrow> 'op \<Rightarrow> bool \<times> 's) \<Rightarrow> 's \<Rightarrow> 'op list \<Rightarrow> bool \<times> 's" where
  "run_ops f s [] = (True, s)"
| "run_ops f s (x # xs) = (case f s x of (b, s1) \<Rightarrow> if b then run_ops f s1 xs else (False, s1))"

locale op_refinement =
  fixes good :: "'s \<Rightarrow> bool" and allowed :: "'s \<Rightarrow> 'op \<Rightarrow> bool" and impl :: "'s \<Rightarrow> 'op \<Rightarrow> bool \<times> 's"
    and abst :: "'s \<Rightarrow> 'a" and spec :: "'op \<Rightarrow> 'a \<Rightarrow> 'a"
  assumes impl_spec: "good s \<Longrightarrow> allowed s x \<Longrightarrow> impl s x = (True, s') \<Longrightarrow> good s' \<and> allowed s' = allowed s \<and> abst s' = spec x (abst s)"
begin

lemma run_refines:
  assumes "good s" and "list_all (allowed s) xs" and "run_ops impl s xs = (True, s')"
  shows "good s' \<and> allowed s' = allowed s \<and> abst s' = fold spec xs (abst s)"
  using assms
proof (induction xs arbitrary: s)
  case (Cons x xs)
  then obtain s1 where s1: "impl s x = (True, s1)" "run_ops impl s1 xs = (True, s')" by (auto split: prod.splits if_splits)
  have "good s1 \<and> allowed s1 = allowed s \<and> abst s1 = spec x (abst s)" using Cons.prems(1,2) s1(1) by (intro impl_spec) simp_all
  then show ?case using Cons.IH [of s1] Cons.prems(2) s1(2) by simp
qed simp

end

end
