(* ===== verification/Sched.thy ===== *)
theory Sched
  imports Minix_Prelude
begin

text \<open>
  The user-space scheduler SCHED: \<^verbatim>\<open>src/Lab-05/schedule.c\<close> and its Lab 3 variant
  \<^verbatim>\<open>src/Lab-03/schedule.c\<close>. The two files share every routine except the quantum handler and
  the periodic rebalancing; the shared routines are modelled once and the two policies
  separately (\<open>do_noquantum_lab3\<close>, \<open>do_noquantum_lab5\<close>, \<open>balance_queues_lab3\<close>,
  \<open>balance_queues_lab5\<close>).

  The state is the process table \<^verbatim>\<open>schedproc\<close>, the per-CPU load counters \<^verbatim>\<open>cpu_proc\<close>, the
  balance timer, the console, and the kernel behind \<^verbatim>\<open>sys_schedule\<close> and \<^verbatim>\<open>sys_schedctl\<close>.
  The configuration constants, the endpoint checks of \<^verbatim>\<open>utility.c\<close> and the kernel calls are
  not part of the repository: they are the fields of the record \<open>sched_env\<close>, an argument of
  every operation.
\<close>

section \<open>Data\<close>

datatype sched_flag = IN_USE

record schedproc =
  sp_endpoint :: endpoint_t
  sp_parent :: endpoint_t
  sp_flags :: "sched_flag set"
  sp_max_priority :: u32
  sp_priority :: u32
  sp_time_slice :: u32
  sp_cpu :: nat

datatype sched_mtype = SCHEDULING_START | SCHEDULING_INHERIT | SCHEDULING_OTHER

text \<open>
  A request message with the payload fields the handlers read
  (\<^verbatim>\<open>m_lsys_sched_scheduling_start\<close>, \<^verbatim>\<open>m_lsys_sched_scheduling_stop\<close>,
  \<^verbatim>\<open>m_pm_sched_scheduling_set_nice\<close>) and the reply field the start handler writes.
\<close>

record sched_msg =
  sm_source :: endpoint_t
  sm_type :: sched_mtype
  sm_endpoint :: endpoint_t
  sm_parent :: endpoint_t
  sm_maxprio :: u32
  sm_quantum :: u32
  sm_scheduler :: endpoint_t

record 'k sched_env =
  NR_SCHED_QUEUES :: u32
  MIN_USER_Q :: u32
  USER_Q :: u32
  RS_PROC_NR :: endpoint_t
  SCHED_PROC_NR :: endpoint_t
  CONFIG_SMP :: bool
  processors_count :: nat
  bsp_id :: nat
  sys_hz :: u32
  ENDPOINT_P :: "endpoint_t \<Rightarrow> int"
  accept_message :: "sched_msg \<Rightarrow> bool"
  sched_isokendpt :: "schedproc list \<Rightarrow> endpoint_t \<Rightarrow> errno + nat"
  sched_isemtyendpt :: "schedproc list \<Rightarrow> endpoint_t \<Rightarrow> errno + nat"
  sys_schedule :: "endpoint_t \<Rightarrow> int \<Rightarrow> int \<Rightarrow> int \<Rightarrow> 'k \<Rightarrow> ret \<times> 'k"
  sys_schedctl :: "u32 \<Rightarrow> endpoint_t \<Rightarrow> int \<Rightarrow> int \<Rightarrow> int \<Rightarrow> 'k \<Rightarrow> ret \<times> 'k"

record 'k sched_state =
  sp_tab :: "schedproc list"
  cpu_proc :: "u32 list"
  balance_timeout :: u32
  sched_timer :: "u32 option"
  sc_console :: console
  sc_kernel :: 'k

abbreviation slot :: "'k sched_state \<Rightarrow> nat \<Rightarrow> schedproc" where
  "slot s i \<equiv> sp_tab s ! i"

definition upd_slot :: "nat \<Rightarrow> (schedproc \<Rightarrow> schedproc) \<Rightarrow> 'k sched_state \<Rightarrow> 'k sched_state" where
  "upd_slot i f s = s\<lparr>sp_tab := upd_at i f (sp_tab s)\<rparr>"

definition sched_print :: "string \<Rightarrow> parg list \<Rightarrow> 'k sched_state \<Rightarrow> 'k sched_state" where
  "sched_print fmt args s = s\<lparr>sc_console := printf fmt args (sc_console s)\<rparr>"

definition sched_print_if :: "bool \<Rightarrow> string \<Rightarrow> parg list \<Rightarrow> 'k sched_state \<Rightarrow> 'k sched_state" where
  "sched_print_if b fmt args s = (if b then sched_print fmt args s else s)"

section \<open>Constants of schedule.c\<close>

definition BALANCE_TIMEOUT :: u32 where "BALANCE_TIMEOUT = 5"
definition SCHEDULE_CHANGE_PRIO :: u32 where "SCHEDULE_CHANGE_PRIO = 1"
definition SCHEDULE_CHANGE_QUANTUM :: u32 where "SCHEDULE_CHANGE_QUANTUM = 2"
definition SCHEDULE_CHANGE_CPU :: u32 where "SCHEDULE_CHANGE_CPU = 4"
definition SCHEDULE_CHANGE_ALL :: u32 where
  "SCHEDULE_CHANGE_ALL = SCHEDULE_CHANGE_PRIO OR SCHEDULE_CHANGE_QUANTUM OR SCHEDULE_CHANGE_CPU"
definition CPU_DEAD :: u32 where "CPU_DEAD = - 1"
definition DEFAULT_USER_TIME_SLICE :: u32 where "DEFAULT_USER_TIME_SLICE = 200"

lemmas sched_consts = BALANCE_TIMEOUT_def SCHEDULE_CHANGE_PRIO_def SCHEDULE_CHANGE_QUANTUM_def
  SCHEDULE_CHANGE_CPU_def SCHEDULE_CHANGE_ALL_def CPU_DEAD_def DEFAULT_USER_TIME_SLICE_def

section \<open>Operations\<close>

text \<open>\<^verbatim>\<open>cpu_proc\<close> is an array of \<^verbatim>\<open>unsigned\<close>, so the comparison with 0 is unsigned.\<close>

definition cpu_is_available :: "u32 list \<Rightarrow> nat \<Rightarrow> bool" where
  "cpu_is_available cp c \<longleftrightarrow> cp ! c \<ge> 0"

definition is_system_proc :: "'k sched_env \<Rightarrow> schedproc \<Rightarrow> bool" where
  "is_system_proc e p \<longleftrightarrow> sp_parent p = RS_PROC_NR e"

text \<open>One iteration of the CPU scan, on the running minimum load and the CPU that has it.\<close>

definition pick_cpu_step :: "'k sched_env \<Rightarrow> u32 list \<Rightarrow> nat \<Rightarrow> u32 \<times> nat \<Rightarrow> u32 \<times> nat" where
  "pick_cpu_step e cp c = (\<lambda>(cpu_load, cpu).
     if \<not> cpu_is_available cp c then (cpu_load, cpu)
     else if c \<noteq> bsp_id e \<and> cpu_load > cp ! c then (cp ! c, c)
     else (cpu_load, cpu))"

definition pick_cpu_scan :: "'k sched_env \<Rightarrow> u32 list \<Rightarrow> nat \<Rightarrow> u32 \<times> nat" where
  "pick_cpu_scan e cp n = fold (pick_cpu_step e cp) [0..<n] (- 1, bsp_id e)"

definition pick_cpu :: "'k sched_env \<Rightarrow> nat \<Rightarrow> 'k sched_state \<Rightarrow> 'k sched_state" where
  "pick_cpu e i s =
     (if CONFIG_SMP e then
        (if processors_count e = 1 then upd_slot i (\<lambda>p. p\<lparr>sp_cpu := bsp_id e\<rparr>) s
         else if is_system_proc e (slot s i) then upd_slot i (\<lambda>p. p\<lparr>sp_cpu := bsp_id e\<rparr>) s
         else (let c = snd (pick_cpu_scan e (cpu_proc s) (processors_count e));
                   s1 = upd_slot i (\<lambda>p. p\<lparr>sp_cpu := c\<rparr>) s
               in s1\<lparr>cpu_proc := upd_at c (\<lambda>n. n + 1) (cpu_proc s1)\<rparr>))
      else upd_slot i (\<lambda>p. p\<lparr>sp_cpu := 0\<rparr>) s)"

definition schedule_process :: "'k sched_env \<Rightarrow> nat \<Rightarrow> u32 \<Rightarrow> 'k sched_state \<Rightarrow> ret \<times> 'k sched_state" where
  "schedule_process e i flags s =
     (let s1 = pick_cpu e i s;
          p = slot s1 i;
          new_prio = (if flags AND SCHEDULE_CHANGE_PRIO \<noteq> 0 then sint (sp_priority p) else -1);
          new_quantum = (if flags AND SCHEDULE_CHANGE_QUANTUM \<noteq> 0 then sint (sp_time_slice p) else -1);
          new_cpu = (if flags AND SCHEDULE_CHANGE_CPU \<noteq> 0 then int (sp_cpu p) else -1);
          (err, k) = sys_schedule e (sp_endpoint p) new_prio new_quantum new_cpu (sc_kernel s1);
          s2 = s1\<lparr>sc_kernel := k\<rparr>;
          s3 = sched_print_if (err \<noteq> OK)
                 ''PM: An error occurred when trying to schedule %d: %d'' [AInt (sp_endpoint p), ARet err] s2;
          s4 = sched_print_if (sp_priority p \<ge> USER_Q e)
                 ''Minix (200010004): PID %d swapped in'' [AInt (ENDPOINT_P e (sp_endpoint p))] s3
      in (err, s4))"

definition schedule_process_local :: "'k sched_env \<Rightarrow> nat \<Rightarrow> 'k sched_state \<Rightarrow> ret \<times> 'k sched_state" where
  "schedule_process_local e i s =
     schedule_process e i (SCHEDULE_CHANGE_PRIO OR SCHEDULE_CHANGE_QUANTUM) s"

text \<open>Lab 3: a process that used up its quantum moves one queue down.\<close>

definition do_noquantum_lab3 :: "'k sched_env \<Rightarrow> sched_msg \<Rightarrow> 'k sched_state \<Rightarrow> ret \<times> 'k sched_state" where
  "do_noquantum_lab3 e m s =
     (case sched_isokendpt e (sp_tab s) (sm_source m) of
        Inl _ \<Rightarrow> (Err EBADEPT,
           sched_print ''SCHED: WARNING: got an invalid endpoint in OOQ msg %u.'' [AInt (sm_source m)] s)
      | Inr n \<Rightarrow>
          (let s1 = (if sp_priority (slot s n) < MIN_USER_Q e
                     then upd_slot n (\<lambda>p. p\<lparr>sp_priority := sp_priority p + 1\<rparr>) s else s);
               (rv, s2) = schedule_process_local e n s1
           in (if rv \<noteq> OK then (rv, s2) else (OK, s2))))"

text \<open>Lab 5: the same handler moves it one queue up.\<close>

definition do_noquantum_lab5 :: "'k sched_env \<Rightarrow> sched_msg \<Rightarrow> 'k sched_state \<Rightarrow> ret \<times> 'k sched_state" where
  "do_noquantum_lab5 e m s =
     (case sched_isokendpt e (sp_tab s) (sm_source m) of
        Inl _ \<Rightarrow> (Err EBADEPT,
           sched_print ''SCHED: WARNING: got an invalid endpoint in OOQ msg %u.'' [AInt (sm_source m)] s)
      | Inr n \<Rightarrow>
          (let s1 = (if sp_priority (slot s n) < MIN_USER_Q e
                     then upd_slot n (\<lambda>p. p\<lparr>sp_priority := sp_priority p - 1\<rparr>) s else s);
               (rv, s2) = schedule_process_local e n s1
           in (if rv \<noteq> OK then (rv, s2) else (OK, s2))))"

definition do_stop_scheduling :: "'k sched_env \<Rightarrow> sched_msg \<Rightarrow> 'k sched_state \<Rightarrow> ret \<times> 'k sched_state" where
  "do_stop_scheduling e m s =
     (if \<not> accept_message e m then (Err EPERM, s)
      else (case sched_isokendpt e (sp_tab s) (sm_endpoint m) of
        Inl _ \<Rightarrow> (Err EBADEPT,
           sched_print ''SCHED: WARNING: got an invalid endpoint in OOQ msg %d'' [AInt (sm_endpoint m)] s)
      | Inr n \<Rightarrow>
          (let s1 = (if CONFIG_SMP e
                     then s\<lparr>cpu_proc := upd_at (sp_cpu (slot s n)) (\<lambda>k. k - 1) (cpu_proc s)\<rparr> else s)
           in (OK, upd_slot n (\<lambda>p. p\<lparr>sp_flags := {}\<rparr>) s1))))"

text \<open>The retry loop of the start handler; \<^const>\<open>None\<close> when it never ends.\<close>

partial_function (option) start_retry :: "'k sched_env \<Rightarrow> nat \<Rightarrow> 'k sched_state \<Rightarrow> (ret \<times> 'k sched_state) option" where
  "start_retry e i s =
     (case schedule_process e i SCHEDULE_CHANGE_ALL s of (rv, s1) \<Rightarrow>
        if rv = Err EBADCPU
        then start_retry e i
               (pick_cpu e i (s1\<lparr>cpu_proc := (cpu_proc s1)[sp_cpu (slot s1 i) := CPU_DEAD]\<rparr>))
        else Some (rv, s1))"

declare start_retry.simps [code]

text \<open>
  Filling the slot, up to and including the inherited or explicit priority and quantum.
  The slot's fields are written before the priority check, so an \<^const>\<open>EINVAL\<close> leaves them.
\<close>

definition start_populate :: "'k sched_env \<Rightarrow> sched_msg \<Rightarrow> nat \<Rightarrow> 'k sched_state \<Rightarrow> ret \<times> 'k sched_state" where
  "start_populate e m n s =
     (let s1 = upd_slot n (\<lambda>p. p\<lparr>sp_endpoint := sm_endpoint m, sp_parent := sm_parent m,
                                sp_max_priority := sm_maxprio m\<rparr>) s
      in if sm_maxprio m \<ge> NR_SCHED_QUEUES e then (Err EINVAL, s1)
      else
        (let s2 = (if sm_endpoint m = sm_parent m
                   then upd_slot n (\<lambda>p. (p\<lparr>sp_priority := USER_Q e,
                                         sp_time_slice := DEFAULT_USER_TIME_SLICE\<rparr>)
                                        \<lparr>sp_cpu := (if CONFIG_SMP e then bsp_id e else sp_cpu p)\<rparr>) s1
                   else s1)
         in (if sm_type m = SCHEDULING_START
             then (OK, upd_slot n (\<lambda>p. p\<lparr>sp_priority := sp_max_priority p,
                                         sp_time_slice := sm_quantum m\<rparr>) s2)
             else (case sched_isokendpt e (sp_tab s2) (sm_parent m) of
                     Inl rv \<Rightarrow> (Err rv, s2)
                   | Inr pn \<Rightarrow> (OK, upd_slot n (\<lambda>p. p\<lparr>sp_priority := sp_priority (slot s2 pn),
                                                     sp_time_slice := sp_time_slice (slot s2 pn)\<rparr>) s2)))))"

definition do_start_scheduling ::
    "'k sched_env \<Rightarrow> sched_msg \<Rightarrow> 'k sched_state \<Rightarrow> (ret \<times> sched_msg \<times> 'k sched_state) option" where
  "do_start_scheduling e m s =
     (if \<not> (sm_type m = SCHEDULING_START \<or> sm_type m = SCHEDULING_INHERIT) then None
      else if \<not> accept_message e m then Some (Err EPERM, m, s)
      else (case sched_isemtyendpt e (sp_tab s) (sm_endpoint m) of
        Inl rv \<Rightarrow> Some (Err rv, m, s)
      | Inr n \<Rightarrow>
          (case start_populate e m n s of (r, s1) \<Rightarrow>
             if r \<noteq> OK then Some (r, m, s1)
             else (case sys_schedctl e 0 (sp_endpoint (slot s1 n)) 0 0 0 (sc_kernel s1) of (rv, k) \<Rightarrow>
               (let s2 = s1\<lparr>sc_kernel := k\<rparr>
                in if rv \<noteq> OK
                   then Some (rv, m, sched_print ''Sched: Error taking over scheduling for %d, kernel said %d''
                                       [AInt (sp_endpoint (slot s2 n)), ARet rv] s2)
                   else (case start_retry e n (pick_cpu e n (upd_slot n (\<lambda>p. p\<lparr>sp_flags := {IN_USE}\<rparr>) s2)) of
                       None \<Rightarrow> None
                     | Some (rv', s3) \<Rightarrow>
                         if rv' \<noteq> OK
                         then Some (rv', m, sched_print ''Sched: Error while scheduling process, kernel replied %d'' [ARet rv'] s3)
                         else Some (OK, m\<lparr>sm_scheduler := SCHED_PROC_NR e\<rparr>, s3)))))))"

definition do_nice :: "'k sched_env \<Rightarrow> sched_msg \<Rightarrow> 'k sched_state \<Rightarrow> ret \<times> 'k sched_state" where
  "do_nice e m s =
     (if \<not> accept_message e m then (Err EPERM, s)
      else (case sched_isokendpt e (sp_tab s) (sm_endpoint m) of
        Inl _ \<Rightarrow> (Err EBADEPT,
           sched_print ''SCHED: WARNING: got an invalid endpoint in OoQ msg %d'' [AInt (sm_endpoint m)] s)
      | Inr n \<Rightarrow>
          (let new_q = sm_maxprio m in
           if new_q \<ge> NR_SCHED_QUEUES e then (Err EINVAL, s)
           else
             (let old_q = sp_priority (slot s n);
                  old_max_q = sp_max_priority (slot s n);
                  s1 = upd_slot n (\<lambda>p. p\<lparr>sp_priority := new_q, sp_max_priority := new_q\<rparr>) s;
                  (rv, s2) = schedule_process_local e n s1
              in (if rv \<noteq> OK
                  then (rv, upd_slot n (\<lambda>p. p\<lparr>sp_priority := old_q, sp_max_priority := old_max_q\<rparr>) s2)
                  else (rv, s2))))))"

definition init_scheduling :: "'k sched_env \<Rightarrow> 'k sched_state \<Rightarrow> 'k sched_state" where
  "init_scheduling e s =
     (let s1 = s\<lparr>balance_timeout := BALANCE_TIMEOUT * sys_hz e\<rparr>;
          s2 = s1\<lparr>sched_timer := None\<rparr>
      in s2\<lparr>sched_timer := Some (balance_timeout s2)\<rparr>)"

text \<open>Lab 3: one slot of the periodic rebalancing, then the loop over the table.\<close>

definition balance_slot_lab3 :: "'k sched_env \<Rightarrow> nat \<Rightarrow> 'k sched_state \<Rightarrow> 'k sched_state" where
  "balance_slot_lab3 e i s =
     (if IN_USE \<in> sp_flags (slot s i)
      then (if sp_priority (slot s i) > sp_max_priority (slot s i)
            then snd (schedule_process_local e i (upd_slot i (\<lambda>p. p\<lparr>sp_priority := sp_priority p - 1\<rparr>) s))
            else s)
      else s)"

definition balance_queues_lab3 :: "'k sched_env \<Rightarrow> 'k sched_state \<Rightarrow> 'k sched_state" where
  "balance_queues_lab3 e s =
     (let s1 = fold (balance_slot_lab3 e) [0..<length (sp_tab s)] s
      in s1\<lparr>sched_timer := Some (balance_timeout s1)\<rparr>)"

text \<open>Lab 5: the increment is commented out, the rescheduling stays.\<close>

definition balance_slot_lab5 :: "'k sched_env \<Rightarrow> nat \<Rightarrow> 'k sched_state \<Rightarrow> 'k sched_state" where
  "balance_slot_lab5 e i s =
     (if IN_USE \<in> sp_flags (slot s i)
      then (if sp_priority (slot s i) > sp_max_priority (slot s i)
            then snd (schedule_process_local e i s)
            else s)
      else s)"

definition balance_queues_lab5 :: "'k sched_env \<Rightarrow> 'k sched_state \<Rightarrow> 'k sched_state" where
  "balance_queues_lab5 e s =
     (let s1 = fold (balance_slot_lab5 e) [0..<length (sp_tab s)] s
      in s1\<lparr>sched_timer := Some (balance_timeout s1)\<rparr>)"

section \<open>What one rescheduling changes\<close>

text \<open>
  Both \<^verbatim>\<open>pick_cpu\<close> and \<^verbatim>\<open>schedule_process\<close> write one field of the process table, the CPU of
  the process at hand.
\<close>

definition chosen_cpu :: "'k sched_env \<Rightarrow> nat \<Rightarrow> 'k sched_state \<Rightarrow> nat" where
  "chosen_cpu e i s =
     (if \<not> CONFIG_SMP e then 0
      else if processors_count e = 1 \<or> is_system_proc e (slot s i) then bsp_id e
      else snd (pick_cpu_scan e (cpu_proc s) (processors_count e)))"

lemma sp_tab_pick_cpu:
  "sp_tab (pick_cpu e i s) = upd_at i (\<lambda>p. p\<lparr>sp_cpu := chosen_cpu e i s\<rparr>) (sp_tab s)"
  by (auto simp: pick_cpu_def chosen_cpu_def upd_slot_def Let_def)

lemma sched_print_frame [simp]:
  "sp_tab (sched_print x a s) = sp_tab s" "cpu_proc (sched_print x a s) = cpu_proc s"
  "balance_timeout (sched_print x a s) = balance_timeout s"
  "sched_timer (sched_print x a s) = sched_timer s" "sc_kernel (sched_print x a s) = sc_kernel s"
  by (simp_all add: sched_print_def)

lemma sched_print_if_frame [simp]:
  "sp_tab (sched_print_if b x a s) = sp_tab s" "cpu_proc (sched_print_if b x a s) = cpu_proc s"
  "balance_timeout (sched_print_if b x a s) = balance_timeout s"
  "sched_timer (sched_print_if b x a s) = sched_timer s"
  "sc_kernel (sched_print_if b x a s) = sc_kernel s"
  by (simp_all add: sched_print_if_def)

lemma pick_cpu_timer [simp]:
  "balance_timeout (pick_cpu e i s) = balance_timeout s"
  "sched_timer (pick_cpu e i s) = sched_timer s"
  "sc_kernel (pick_cpu e i s) = sc_kernel s"
  by (simp_all add: pick_cpu_def upd_slot_def Let_def)

lemma schedule_process_frame [simp]:
  "sp_tab (snd (schedule_process e i f s)) = sp_tab (pick_cpu e i s)"
  "cpu_proc (snd (schedule_process e i f s)) = cpu_proc (pick_cpu e i s)"
  "balance_timeout (snd (schedule_process e i f s)) = balance_timeout s"
  "sched_timer (snd (schedule_process e i f s)) = sched_timer s"
  by (simp_all add: schedule_process_def Let_def case_prod_beta)

lemma sp_tab_local:
  "sp_tab (snd (schedule_process_local e i s)) = upd_at i (\<lambda>p. p\<lparr>sp_cpu := chosen_cpu e i s\<rparr>) (sp_tab s)"
  by (simp add: schedule_process_local_def sp_tab_pick_cpu)

lemma sp_tab_upd_slot [simp]: "sp_tab (upd_slot i f s) = upd_at i f (sp_tab s)"
  by (simp add: upd_slot_def)

text \<open>The fields of a slot that the handlers reason about, that is all but the CPU.\<close>

type_synonym slot_core = "endpoint_t \<times> endpoint_t \<times> sched_flag set \<times> u32 \<times> u32 \<times> u32"

definition core :: "schedproc \<Rightarrow> slot_core" where
  "core p = (sp_endpoint p, sp_parent p, sp_flags p, sp_max_priority p, sp_priority p, sp_time_slice p)"

lemma core_cpu [simp]: "core (p\<lparr>sp_cpu := c\<rparr>) = core p"
  by (simp add: core_def)

lemma map_core_local [simp]: "map core (sp_tab (snd (schedule_process_local e i s))) = map core (sp_tab s)"
  by (simp add: sp_tab_local map_upd_at_inv)

lemma map_core_pick_cpu [simp]: "map core (sp_tab (pick_cpu e i s)) = map core (sp_tab s)"
  by (simp add: sp_tab_pick_cpu map_upd_at_inv)

lemma map_core_nth:
  assumes "map core xs = map core ys"
  shows "j < length xs \<Longrightarrow> core (xs ! j) = core (ys ! j)" and "length xs = length ys"
  using assms by (metis length_map nth_map, metis length_map)

lemma core_eqD:
  assumes "core p = core q"
  shows "sp_endpoint p = sp_endpoint q" "sp_parent p = sp_parent q" "sp_flags p = sp_flags q"
    "sp_max_priority p = sp_max_priority q" "sp_priority p = sp_priority q"
    "sp_time_slice p = sp_time_slice q"
  using assms by (simp_all add: core_def)

section \<open>Choosing a CPU\<close>

lemma cpu_is_available_True [simp]: "cpu_is_available cp c"
  by (simp add: cpu_is_available_def)

lemma pick_cpu_scan_Suc:
  "pick_cpu_scan e cp (Suc n) = pick_cpu_step e cp n (pick_cpu_scan e cp n)"
  by (simp add: pick_cpu_scan_def)

lemma pick_cpu_scan_invariant:
  "pick_cpu_scan e cp n = (l, c) \<Longrightarrow>
     (c = bsp_id e \<and> l = - 1 \<and> (\<forall>d<n. d \<noteq> bsp_id e \<longrightarrow> cp ! d = - 1))
     \<or> (c < n \<and> c \<noteq> bsp_id e \<and> l = cp ! c \<and> l \<noteq> - 1 \<and> (\<forall>d<n. d \<noteq> bsp_id e \<longrightarrow> l \<le> cp ! d))"
proof (induction n arbitrary: l c)
  case 0
  then show ?case by (simp add: pick_cpu_scan_def)
next
  case (Suc n)
  obtain l0 c0 where p: "pick_cpu_scan e cp n = (l0, c0)" by fastforce
  show ?case
    using Suc.prems Suc.IH [OF p]
    by (auto simp: pick_cpu_scan_Suc p pick_cpu_step_def u32_simps less_Suc_eq not_less
        split: if_splits dest: order_trans)
qed

definition live_cpus :: "'k sched_env \<Rightarrow> u32 list \<Rightarrow> nat set" where
  "live_cpus e cp = {c. c < processors_count e \<and> c \<noteq> bsp_id e \<and> cp ! c \<noteq> CPU_DEAD}"

lemma finite_live_cpus [simp]: "finite (live_cpus e cp)"
  by (simp add: live_cpus_def)

lemma pick_cpu_scan_live:
  "snd (pick_cpu_scan e cp (processors_count e)) = bsp_id e
   \<or> snd (pick_cpu_scan e cp (processors_count e)) \<in> live_cpus e cp"
proof -
  obtain l c where p: "pick_cpu_scan e cp (processors_count e) = (l, c)" by fastforce
  show ?thesis using pick_cpu_scan_invariant [OF p]
    by (auto simp: p live_cpus_def CPU_DEAD_def)
qed

lemma live_cpus_pick_cpu: "live_cpus e (cpu_proc (pick_cpu e i s)) \<subseteq> live_cpus e (cpu_proc s)"
proof -
  let ?c = "snd (pick_cpu_scan e (cpu_proc s) (processors_count e))"
  have "live_cpus e (upd_at ?c (\<lambda>n. n + 1) (cpu_proc s)) \<subseteq> live_cpus e (cpu_proc s)"
  proof
    fix d assume "d \<in> live_cpus e (upd_at ?c (\<lambda>n. n + 1) (cpu_proc s))"
    then show "d \<in> live_cpus e (cpu_proc s)"
      using pick_cpu_scan_live [of e "cpu_proc s"]
      by (cases "d = ?c") (auto simp: live_cpus_def)
  qed
  then show ?thesis by (simp add: pick_cpu_def Let_def upd_slot_def)
qed

section \<open>The retry loop of the start handler ends\<close>

definition boot_cpu :: "'k sched_env \<Rightarrow> nat" where
  "boot_cpu e = (if CONFIG_SMP e then bsp_id e else 0)"

text \<open>What the loop needs of the kernel: the boot CPU is never reported as unusable.\<close>

definition boot_cpu_usable :: "'k sched_env \<Rightarrow> bool" where
  "boot_cpu_usable e \<longleftrightarrow> (\<forall>ep p q k. fst (sys_schedule e ep p q (int (boot_cpu e)) k) \<noteq> Err EBADCPU)"

lemma schedule_process_all_rv:
  assumes "i < length (sp_tab s)" and "boot_cpu_usable e"
    and "fst (schedule_process e i SCHEDULE_CHANGE_ALL s) = Err EBADCPU"
  shows "chosen_cpu e i s \<in> live_cpus e (cpu_proc s)"
    and "chosen_cpu e i s = snd (pick_cpu_scan e (cpu_proc s) (processors_count e))"
proof -
  have "chosen_cpu e i s \<noteq> boot_cpu e"
    using assms
    by (auto simp: schedule_process_def Let_def case_prod_beta sp_tab_pick_cpu sched_consts
        boot_cpu_usable_def)
  then show "chosen_cpu e i s \<in> live_cpus e (cpu_proc s)"
    and "chosen_cpu e i s = snd (pick_cpu_scan e (cpu_proc s) (processors_count e))"
    using pick_cpu_scan_live [of e "cpu_proc s"]
    by (auto simp: chosen_cpu_def boot_cpu_def split: if_splits)
qed

text \<open>The state the loop continues from after the kernel rejected the chosen CPU.\<close>

abbreviation after_bad_cpu :: "'k sched_env \<Rightarrow> nat \<Rightarrow> 'k sched_state \<Rightarrow> 'k sched_state" where
  "after_bad_cpu e i s \<equiv>
     (let s1 = snd (schedule_process e i SCHEDULE_CHANGE_ALL s)
      in pick_cpu e i (s1\<lparr>cpu_proc := (cpu_proc s1)[sp_cpu (slot s1 i) := CPU_DEAD]\<rparr>))"

lemma start_retry_bad:
  "fst (schedule_process e i SCHEDULE_CHANGE_ALL s) = Err EBADCPU \<Longrightarrow>
     start_retry e i s = start_retry e i (after_bad_cpu e i s)"
  by (subst start_retry.simps) (simp add: case_prod_beta Let_def)

lemma start_retry_ok:
  "fst (schedule_process e i SCHEDULE_CHANGE_ALL s) \<noteq> Err EBADCPU \<Longrightarrow>
     start_retry e i s = Some (schedule_process e i SCHEDULE_CHANGE_ALL s)"
  by (subst start_retry.simps) (simp add: case_prod_beta)

lemma after_bad_cpu_frame:
  assumes "i < length (sp_tab s)"
  shows "length (sp_tab (after_bad_cpu e i s)) = length (sp_tab s)"
    and "length (cpu_proc (after_bad_cpu e i s)) = length (cpu_proc s)"
    and "map core (sp_tab (after_bad_cpu e i s)) = map core (sp_tab s)"
  using assms
  by (simp_all add: Let_def sp_tab_pick_cpu map_upd_at_inv)
     (auto simp: pick_cpu_def Let_def upd_slot_def)

lemma after_bad_cpu_live:
  assumes "i < length (sp_tab s)" and "processors_count e \<le> length (cpu_proc s)"
    and "boot_cpu_usable e"
    and bad: "fst (schedule_process e i SCHEDULE_CHANGE_ALL s) = Err EBADCPU"
  shows "live_cpus e (cpu_proc (after_bad_cpu e i s)) \<subset> live_cpus e (cpu_proc s)"
proof -
  let ?c = "chosen_cpu e i s"
  let ?s1 = "snd (schedule_process e i SCHEDULE_CHANGE_ALL s)"
  note c = schedule_process_all_rv [OF assms(1,3) bad]
  have slot: "sp_cpu (slot ?s1 i) = ?c"
    using assms(1) by (simp add: sp_tab_pick_cpu)
  have "?c < length (cpu_proc ?s1)"
    using c(1) assms(2) by (auto simp: live_cpus_def pick_cpu_def Let_def upd_slot_def)
  then have "live_cpus e ((cpu_proc ?s1)[?c := CPU_DEAD]) \<subseteq> live_cpus e (cpu_proc ?s1) - {?c}"
    by (auto simp: live_cpus_def nth_list_update)
  also have "\<dots> \<subseteq> live_cpus e (cpu_proc s) - {?c}"
    using live_cpus_pick_cpu [of e i s] by auto
  finally have "live_cpus e ((cpu_proc ?s1)[?c := CPU_DEAD]) \<subseteq> live_cpus e (cpu_proc s) - {?c}" .
  then show ?thesis
    using live_cpus_pick_cpu [of e i "?s1\<lparr>cpu_proc := (cpu_proc ?s1)[?c := CPU_DEAD]\<rparr>"] c(1)
    by (simp only: Let_def slot) auto
qed

lemma start_retry_returns:
  assumes "i < length (sp_tab s)" and "processors_count e \<le> length (cpu_proc s)"
    and "boot_cpu_usable e"
  shows "\<exists>r s'. start_retry e i s = Some (r, s') \<and> r \<noteq> Err EBADCPU"
  using assms
proof (induction "card (live_cpus e (cpu_proc s))" arbitrary: s rule: less_induct)
  case less
  show ?case
  proof (cases "fst (schedule_process e i SCHEDULE_CHANGE_ALL s) = Err EBADCPU")
    case True
    have "card (live_cpus e (cpu_proc (after_bad_cpu e i s))) < card (live_cpus e (cpu_proc s))"
      by (rule psubset_card_mono) (use after_bad_cpu_live [OF less.prems True] in simp_all)
    moreover note after_bad_cpu_frame [OF less.prems(1), of e]
    ultimately show ?thesis
      using less.hyps [of "after_bad_cpu e i s"] less.prems start_retry_bad [OF True] by simp
  next
    case False
    then show ?thesis by (simp add: start_retry_ok prod_eq_iff)
  qed
qed

lemma start_retry_core:
  assumes "start_retry e i s = Some (r, s')"
  shows "map core (sp_tab s') = map core (sp_tab s)"
proof -
  have "case rs of (r, s') \<Rightarrow> map core (sp_tab s') = map core (sp_tab s)"
    if "start_retry e i s = Some rs" for rs
  proof (rule start_retry.raw_induct [OF _ that,
        where P = "\<lambda>e i s rs. case rs of (r, s') \<Rightarrow> map core (sp_tab s') = map core (sp_tab s)"],
      goal_cases)
    case (1 f e i s rs)
    show ?case
      using "1"(1) [of e i "after_bad_cpu e i s" rs] "1"(2)
      by (auto simp: case_prod_beta Let_def sp_tab_pick_cpu map_upd_at_inv split: if_splits)
  qed
  from this [OF assms] show ?thesis by simp
qed

section \<open>Priorities stay within the scheduling queues\<close>

text \<open>
  The endpoint checks of \<^verbatim>\<open>utility.c\<close>: a valid endpoint names the slot in use that carries
  it, an empty one names a slot that is not in use.
\<close>

definition endpt_laws :: "'k sched_env \<Rightarrow> bool" where
  "endpt_laws e \<longleftrightarrow>
     (\<forall>t ep n. sched_isokendpt e t ep = Inr n \<longrightarrow>
        n < length t \<and> sp_endpoint (t ! n) = ep \<and> IN_USE \<in> sp_flags (t ! n))
     \<and> (\<forall>t ep n. sched_isemtyendpt e t ep = Inr n \<longrightarrow> n < length t \<and> IN_USE \<notin> sp_flags (t ! n))"

lemma endpt_ok:
  assumes "endpt_laws e" and "sched_isokendpt e t ep = Inr n"
  shows "n < length t" "sp_endpoint (t ! n) = ep" "IN_USE \<in> sp_flags (t ! n)"
  using assms by (auto simp: endpt_laws_def)

lemma endpt_empty:
  assumes "endpt_laws e" and "sched_isemtyendpt e t ep = Inr n"
  shows "n < length t" "IN_USE \<notin> sp_flags (t ! n)"
  using assms by (auto simp: endpt_laws_def)

definition sched_config :: "'k sched_env \<Rightarrow> bool" where
  "sched_config e \<longleftrightarrow> MIN_USER_Q e < NR_SCHED_QUEUES e \<and> endpt_laws e"

fun core_ok :: "u32 \<Rightarrow> slot_core \<Rightarrow> bool" where
  "core_ok nq (ep, pa, fl, mp, pr, ts) = (IN_USE \<in> fl \<longrightarrow> pr < nq \<and> mp < nq)"

definition slot_ok :: "'k sched_env \<Rightarrow> schedproc \<Rightarrow> bool" where
  "slot_ok e p \<longleftrightarrow> (IN_USE \<in> sp_flags p \<longrightarrow>
     sp_priority p < NR_SCHED_QUEUES e \<and> sp_max_priority p < NR_SCHED_QUEUES e)"

definition sched_inv :: "'k sched_env \<Rightarrow> 'k sched_state \<Rightarrow> bool" where
  "sched_inv e s \<longleftrightarrow> (\<forall>p\<in>set (sp_tab s). slot_ok e p)"

lemma slot_ok_core: "slot_ok e p = core_ok (NR_SCHED_QUEUES e) (core p)"
  by (simp add: slot_ok_def core_def)

lemma sched_inv_core: "sched_inv e s \<longleftrightarrow> (\<forall>c\<in>set (map core (sp_tab s)). core_ok (NR_SCHED_QUEUES e) c)"
  by (simp add: sched_inv_def slot_ok_core)

lemma sched_inv_cong: "map core (sp_tab s) = map core (sp_tab t) \<Longrightarrow> sched_inv e s = sched_inv e t"
  by (simp only: sched_inv_core)

lemma sched_inv_print [simp]: "sched_inv e (sched_print x a s) = sched_inv e s"
  by (rule sched_inv_cong) simp

lemma sched_inv_kernel [simp]: "sched_inv e (s\<lparr>sc_kernel := k\<rparr>) = sched_inv e s"
  "sched_inv e (s\<lparr>sched_timer := t\<rparr>) = sched_inv e s"
  "sched_inv e (s\<lparr>cpu_proc := cp\<rparr>) = sched_inv e s"
  by (simp_all add: sched_inv_def)

lemma sched_inv_pick_cpu [simp]: "sched_inv e (pick_cpu e' i s) = sched_inv e s"
  by (rule sched_inv_cong) simp

lemma sched_inv_local [simp]: "sched_inv e (snd (schedule_process_local e' i s)) = sched_inv e s"
  by (rule sched_inv_cong) simp

lemma sched_inv_local_pair:
  "schedule_process_local e' i s = (r, t) \<Longrightarrow> sched_inv e t = sched_inv e s"
  using sched_inv_local [of e e' i s] by simp

lemma sched_inv_upd_slot:
  assumes "sched_inv e s"
    and "i < length (sp_tab s) \<Longrightarrow> slot_ok e (slot s i) \<Longrightarrow> slot_ok e (f (slot s i))"
  shows "sched_inv e (upd_slot i f s)"
  using list_all_upd_at [of "sp_tab s" "slot_ok e" i f] assms by (simp add: sched_inv_def)

lemma sched_inv_slot: "sched_inv e s \<Longrightarrow> i < length (sp_tab s) \<Longrightarrow> slot_ok e (slot s i)"
  by (simp add: sched_inv_def)

lemma u32_inc_below: "(x :: u32) < y \<Longrightarrow> y < z \<Longrightarrow> x + 1 < z"
  by (metis inc_le le_less_trans)

lemma u32_dec_below: "(m :: u32) < x \<Longrightarrow> x < z \<Longrightarrow> x - 1 < z"
proof -
  assume m: "m < x" and z: "x < z"
  from m have "x \<noteq> 0" by auto
  then have "unat (x - 1) = unat x - 1" by (rule unat_sub1)
  with z show ?thesis by (simp add: word_less_nat_alt)
qed

lemma do_noquantum_lab3_inv:
  assumes "sched_config e" and "sched_inv e s"
  shows "sched_inv e (snd (do_noquantum_lab3 e m s))"
proof -
  have "sched_inv e (if sp_priority (slot s n) < MIN_USER_Q e
          then upd_slot n (\<lambda>p. p\<lparr>sp_priority := sp_priority p + 1\<rparr>) s else s)" for n
    using assms
    by (auto intro!: sched_inv_upd_slot simp: slot_ok_def sched_config_def elim: u32_inc_below)
  then show ?thesis
    using assms(2)
    by (simp add: do_noquantum_lab3_def Let_def case_prod_beta split: sum.split)
qed

lemma balance_slot_lab3_inv:
  assumes "sched_inv e s"
  shows "sched_inv e (balance_slot_lab3 e i s)"
  using assms
  by (auto simp: balance_slot_lab3_def intro!: sched_inv_upd_slot simp: slot_ok_def elim: u32_dec_below)

lemma balance_queues_lab3_inv:
  assumes "sched_inv e s"
  shows "sched_inv e (balance_queues_lab3 e s)"
proof -
  have "sched_inv e (fold (balance_slot_lab3 e) is s)" for "is"
    using assms by (induction "is" arbitrary: s) (simp_all add: balance_slot_lab3_inv)
  then show ?thesis by (simp add: balance_queues_lab3_def Let_def)
qed

lemma do_stop_scheduling_inv:
  assumes "sched_inv e s"
  shows "sched_inv e (snd (do_stop_scheduling e m s))"
  using assms
  by (auto simp: do_stop_scheduling_def Let_def slot_ok_def intro!: sched_inv_upd_slot split: sum.split)

lemma do_nice_inv:
  assumes "endpt_laws e" and "sched_inv e s"
  shows "sched_inv e (snd (do_nice e m s))"
proof (cases "sched_isokendpt e (sp_tab s) (sm_endpoint m)")
  case (Inl a)
  with assms show ?thesis by (simp add: do_nice_def)
next
  case (Inr n)
  let ?s1 = "upd_slot n (\<lambda>p. p\<lparr>sp_priority := sm_maxprio m, sp_max_priority := sm_maxprio m\<rparr>) s"
  note n = endpt_ok [OF assms(1) Inr]
  have s1: "sched_inv e ?s1" if "sm_maxprio m < NR_SCHED_QUEUES e"
    using that assms(2) by (auto intro!: sched_inv_upd_slot simp: slot_ok_def)
  have old: "slot_ok e (slot s n)" using assms(2) n(1) by (rule sched_inv_slot)
  have "sched_inv e (upd_slot n (\<lambda>p. p\<lparr>sp_priority := sp_priority (slot s n),
           sp_max_priority := sp_max_priority (slot s n)\<rparr>) (snd (schedule_process_local e n ?s1)))"
    if "sm_maxprio m < NR_SCHED_QUEUES e"
    using s1 [OF that] old n(3) by (intro sched_inv_upd_slot) (simp_all add: slot_ok_def)
  then show ?thesis using assms(2) Inr s1
    by (simp add: do_nice_def Let_def case_prod_beta not_le)
qed

subsection \<open>Starting to schedule a process\<close>

lemma start_populate_length [simp]: "length (sp_tab (snd (start_populate e m n s))) = length (sp_tab s)"
  by (simp add: start_populate_def Let_def split: sum.split)

lemma start_populate_other:
  "j \<noteq> n \<Longrightarrow> slot (snd (start_populate e m n s)) j = slot s j"
  by (simp add: start_populate_def Let_def split: sum.split)

lemma start_populate_flags:
  assumes "n < length (sp_tab s)"
  shows "sp_flags (slot (snd (start_populate e m n s)) n) = sp_flags (slot s n)"
    and "sp_endpoint (slot (snd (start_populate e m n s)) n) = sm_endpoint m"
    and "sp_parent (slot (snd (start_populate e m n s)) n) = sm_parent m"
    and "sp_max_priority (slot (snd (start_populate e m n s)) n) = sm_maxprio m"
  using assms by (simp_all add: start_populate_def Let_def split: sum.split)

lemma start_populate_START:
  assumes "n < length (sp_tab s)" and "sm_type m = SCHEDULING_START"
  shows "fst (start_populate e m n s) = (if sm_maxprio m < NR_SCHED_QUEUES e then OK else Err EINVAL)"
    and "sm_maxprio m < NR_SCHED_QUEUES e \<Longrightarrow>
           sp_priority (slot (snd (start_populate e m n s)) n) = sm_maxprio m
         \<and> sp_time_slice (slot (snd (start_populate e m n s)) n) = sm_quantum m"
  using assms by (simp_all add: start_populate_def Let_def not_le [symmetric])

lemma start_populate_INHERIT:
  assumes law: "endpt_laws e" and n: "n < length (sp_tab s)" "IN_USE \<notin> sp_flags (slot s n)"
    and ty: "sm_type m = SCHEDULING_INHERIT" and ok: "fst (start_populate e m n s) = OK"
  shows "\<exists>pn. pn < length (sp_tab s) \<and> pn \<noteq> n \<and> IN_USE \<in> sp_flags (slot s pn)
           \<and> sp_endpoint (slot s pn) = sm_parent m
           \<and> sm_maxprio m < NR_SCHED_QUEUES e
           \<and> sp_priority (slot (snd (start_populate e m n s)) n) = sp_priority (slot s pn)
           \<and> sp_time_slice (slot (snd (start_populate e m n s)) n) = sp_time_slice (slot s pn)"
proof -
  define s2 where "s2 = (let s1 = upd_slot n (\<lambda>p. p\<lparr>sp_endpoint := sm_endpoint m, sp_parent := sm_parent m,
                                sp_max_priority := sm_maxprio m\<rparr>) s
      in (if sm_endpoint m = sm_parent m
          then upd_slot n (\<lambda>p. (p\<lparr>sp_priority := USER_Q e, sp_time_slice := DEFAULT_USER_TIME_SLICE\<rparr>)
                               \<lparr>sp_cpu := (if CONFIG_SMP e then bsp_id e else sp_cpu p)\<rparr>) s1
          else s1))"
  have len: "length (sp_tab s2) = length (sp_tab s)"
    and fl: "sp_flags (slot s2 n) = sp_flags (slot s n)"
    and oth: "j \<noteq> n \<Longrightarrow> slot s2 j = slot s j" for j
    using n(1) by (simp_all add: s2_def Let_def)
  from ok ty have lt: "sm_maxprio m < NR_SCHED_QUEUES e"
    by (auto simp: start_populate_def Let_def not_le [symmetric] split: if_splits)
  with ok ty obtain pn where pn: "sched_isokendpt e (sp_tab s2) (sm_parent m) = Inr pn"
    and res: "snd (start_populate e m n s) =
       upd_slot n (\<lambda>p. p\<lparr>sp_priority := sp_priority (slot s2 pn), sp_time_slice := sp_time_slice (slot s2 pn)\<rparr>) s2"
    by (cases "sched_isokendpt e (sp_tab s2) (sm_parent m)")
       (simp_all add: start_populate_def s2_def Let_def not_le [symmetric])
  note p = endpt_ok [OF law pn]
  from p(3) fl n(2) have "pn \<noteq> n" by auto
  with p oth [of pn] len lt n(1) show ?thesis by (intro exI [of _ pn]) (simp add: res)
qed

lemma start_populate_slot_ok:
  assumes "endpt_laws e" and "sched_inv e s"
    and "n < length (sp_tab s)" "IN_USE \<notin> sp_flags (slot s n)"
    and "sm_type m = SCHEDULING_START \<or> sm_type m = SCHEDULING_INHERIT"
    and "fst (start_populate e m n s) = OK"
  shows "sp_priority (slot (snd (start_populate e m n s)) n) < NR_SCHED_QUEUES e"
    and "sp_max_priority (slot (snd (start_populate e m n s)) n) < NR_SCHED_QUEUES e"
proof -
  have lt: "sm_maxprio m < NR_SCHED_QUEUES e"
    using assms(6) by (auto simp: start_populate_def Let_def not_le [symmetric] split: if_splits)
  then show "sp_max_priority (slot (snd (start_populate e m n s)) n) < NR_SCHED_QUEUES e"
    using assms(3) by (simp add: start_populate_flags)
  from assms(5) show "sp_priority (slot (snd (start_populate e m n s)) n) < NR_SCHED_QUEUES e"
  proof
    assume "sm_type m = SCHEDULING_START"
    with lt assms(3) show ?thesis by (simp add: start_populate_START)
  next
    assume "sm_type m = SCHEDULING_INHERIT"
    from start_populate_INHERIT [OF assms(1,3,4) this assms(6)] sched_inv_slot [OF assms(2)]
    show ?thesis by (auto simp: slot_ok_def)
  qed
qed

lemma start_populate_inv:
  assumes "sched_inv e s" and "n < length (sp_tab s)" "IN_USE \<notin> sp_flags (slot s n)"
  shows "sched_inv e (snd (start_populate e m n s))"
  unfolding sched_inv_def
proof
  fix p assume "p \<in> set (sp_tab (snd (start_populate e m n s)))"
  then obtain j where j: "j < length (sp_tab s)" "p = slot (snd (start_populate e m n s)) j"
    by (auto simp: in_set_conv_nth)
  with assms start_populate_other [of j n e m s] sched_inv_slot [OF assms(1) j(1)]
  show "slot_ok e p" by (cases "j = n") (auto simp: slot_ok_def start_populate_flags)
qed

text \<open>The handler by cases: refused before the slot is claimed, or handed to the retry loop.\<close>

lemma do_start_scheduling_cases:
  assumes "do_start_scheduling e m s = Some (r, m', s')"
  obtains (refused) "r \<noteq> OK" "map core (sp_tab s') = map core (sp_tab s)"
  | (bad) n where "sched_isemtyendpt e (sp_tab s) (sm_endpoint m) = Inr n" "r \<noteq> OK"
      "map core (sp_tab s') = map core (sp_tab (snd (start_populate e m n s)))"
  | (claimed) n where "sched_isemtyendpt e (sp_tab s) (sm_endpoint m) = Inr n"
      "sm_type m = SCHEDULING_START \<or> sm_type m = SCHEDULING_INHERIT"
      "fst (start_populate e m n s) = OK"
      "map core (sp_tab s') =
         map core (sp_tab (upd_slot n (\<lambda>p. p\<lparr>sp_flags := {IN_USE}\<rparr>) (snd (start_populate e m n s))))"
      "r = OK \<Longrightarrow> m' = m\<lparr>sm_scheduler := SCHED_PROC_NR e\<rparr>"
proof -
  show thesis
  proof (cases "(sm_type m = SCHEDULING_START \<or> sm_type m = SCHEDULING_INHERIT) \<and> accept_message e m")
    case False
    with assms show ?thesis by (intro refused) (auto simp: do_start_scheduling_def split: if_splits)
  next
    case acc: True
    show ?thesis
    proof (cases "sched_isemtyendpt e (sp_tab s) (sm_endpoint m)")
      case (Inl a)
      with assms acc show ?thesis by (intro refused) (auto simp: do_start_scheduling_def)
    next
      case (Inr n)
      let ?s1 = "snd (start_populate e m n s)"
      let ?ctl = "sys_schedctl e 0 (sp_endpoint (slot ?s1 n)) 0 0 0 (sc_kernel ?s1)"
      let ?s2 = "?s1\<lparr>sc_kernel := snd ?ctl\<rparr>"
      let ?claim = "pick_cpu e n (upd_slot n (\<lambda>p. p\<lparr>sp_flags := {IN_USE}\<rparr>) ?s2)"
      show ?thesis
      proof (cases "fst (start_populate e m n s) = OK \<and> fst ?ctl = OK")
        case False
        with assms acc Inr show ?thesis
          by (intro bad [OF Inr]) (auto simp: do_start_scheduling_def case_prod_beta Let_def split: if_splits)
      next
        case True
        with assms acc Inr obtain r1 s3 where st: "start_retry e n ?claim = Some (r1, s3)"
          and s': "map core (sp_tab s') = map core (sp_tab s3)"
          and m': "r = OK \<Longrightarrow> m' = m\<lparr>sm_scheduler := SCHED_PROC_NR e\<rparr>"
          by (auto simp: do_start_scheduling_def case_prod_beta Let_def split: option.splits if_splits)
        from start_retry_core [OF st] s' True acc m' show ?thesis
          by (intro claimed [OF Inr]) simp_all
      qed
    qed
  qed
qed

lemma do_start_scheduling_inv:
  assumes "endpt_laws e" and "sched_inv e s" and "do_start_scheduling e m s = Some (r, m', s')"
  shows "sched_inv e s'"
  using assms(3)
proof (cases rule: do_start_scheduling_cases)
  case refused
  then show ?thesis using assms(2) sched_inv_cong by blast
next
  case (bad n)
  then show ?thesis
    using start_populate_inv [OF assms(2) endpt_empty [OF assms(1) bad(1)]] sched_inv_cong by blast
next
  case (claimed n)
  note n = endpt_empty [OF assms(1) claimed(1)]
  have "sched_inv e (upd_slot n (\<lambda>p. p\<lparr>sp_flags := {IN_USE}\<rparr>) (snd (start_populate e m n s)))"
    using start_populate_inv [OF assms(2) n] start_populate_slot_ok [OF assms(1,2) n claimed(2,3)]
    by (intro sched_inv_upd_slot) (simp_all add: slot_ok_def)
  with claimed(4) show ?thesis using sched_inv_cong by blast
qed

subsection \<open>Every reachable state\<close>

text \<open>
  The server's main loop hands each message to its handler and the timer runs the
  rebalancing: one step per handler, in any order, for any messages. The relation is
  parametric in the two routines Lab 5 changes.
\<close>

inductive sched_step for e :: "'k sched_env"
    and noq :: "'k sched_env \<Rightarrow> sched_msg \<Rightarrow> 'k sched_state \<Rightarrow> ret \<times> 'k sched_state"
    and bal :: "'k sched_env \<Rightarrow> 'k sched_state \<Rightarrow> 'k sched_state" where
  noquantum: "noq e m s = (r, t) \<Longrightarrow> sched_step e noq bal s t"
| stop: "do_stop_scheduling e m s = (r, t) \<Longrightarrow> sched_step e noq bal s t"
| start: "do_start_scheduling e m s = Some (r, m', t) \<Longrightarrow> sched_step e noq bal s t"
| nice: "do_nice e m s = (r, t) \<Longrightarrow> sched_step e noq bal s t"
| balance: "sched_step e noq bal s (bal e s)"

inductive sched_reach for e :: "'k sched_env"
    and noq :: "'k sched_env \<Rightarrow> sched_msg \<Rightarrow> 'k sched_state \<Rightarrow> ret \<times> 'k sched_state"
    and bal :: "'k sched_env \<Rightarrow> 'k sched_state \<Rightarrow> 'k sched_state"
    and s0 :: "'k sched_state" where
  init: "sched_reach e noq bal s0 (init_scheduling e s0)"
| step: "sched_reach e noq bal s0 s \<Longrightarrow> sched_step e noq bal s t \<Longrightarrow> sched_reach e noq bal s0 t"

text \<open>
  What a quantum policy promises: both its routines keep every priority inside the queues.
\<close>

locale quantum_policy =
  fixes noq :: "'k sched_env \<Rightarrow> sched_msg \<Rightarrow> 'k sched_state \<Rightarrow> ret \<times> 'k sched_state"
    and bal :: "'k sched_env \<Rightarrow> 'k sched_state \<Rightarrow> 'k sched_state"
  assumes noq_keeps: "sched_config e \<Longrightarrow> sched_inv e s \<Longrightarrow> sched_inv e (snd (noq e m s))"
    and bal_keeps: "sched_config e \<Longrightarrow> sched_inv e s \<Longrightarrow> sched_inv e (bal e s)"
begin

lemma step_keeps:
  assumes "sched_config e" and "sched_step e noq bal s t" and "sched_inv e s"
  shows "sched_inv e t"
  using assms(2,3)
proof cases
  case (noquantum m r)
  then show ?thesis using noq_keeps [OF assms(1,3), of m] by simp
next
  case (stop m r)
  then show ?thesis using do_stop_scheduling_inv [OF assms(3), of m] by simp
next
  case (start m r m')
  then show ?thesis using assms(1,3) do_start_scheduling_inv by (auto simp: sched_config_def)
next
  case (nice m r)
  then show ?thesis using do_nice_inv [OF _ assms(3), of m] assms(1) by (simp add: sched_config_def)
next
  case balance
  then show ?thesis using bal_keeps [OF assms(1,3)] by simp
qed

lemma reach_keeps:
  assumes "sched_config e" and "sched_inv e s0" and "sched_reach e noq bal s0 s"
  shows "sched_inv e s"
  using assms(3)
proof induction
  case init
  then show ?case using assms(2) by (simp add: init_scheduling_def Let_def sched_inv_def)
next
  case (step s t)
  then show ?case using step_keeps [OF assms(1)] by blast
qed

end

interpretation lab3: quantum_policy do_noquantum_lab3 balance_queues_lab3
  by unfold_locales (simp_all add: do_noquantum_lab3_inv balance_queues_lab3_inv)

section \<open>Rebalancing\<close>

fun balance_core :: "slot_core \<Rightarrow> slot_core" where
  "balance_core (ep, pa, fl, mp, pr, ts) =
     (ep, pa, fl, mp, (if IN_USE \<in> fl \<and> pr > mp then pr - 1 else pr), ts)"

lemma core_local:
  "j < length (sp_tab s) \<Longrightarrow> core (slot (snd (schedule_process_local e i s)) j) = core (slot s j)"
  by (rule map_core_nth(1)) (simp_all add: sp_tab_local map_upd_at_inv)

lemma core_balance_slot_lab3:
  assumes "i < length (sp_tab s)" "j < length (sp_tab s)"
  shows "core (slot (balance_slot_lab3 e i s) j)
       = (if j = i then balance_core (core (slot s i)) else core (slot s j))"
  using assms by (auto simp: balance_slot_lab3_def core_local) (auto simp: core_def)

lemma length_balance_slot_lab3 [simp]: "length (sp_tab (balance_slot_lab3 e i s)) = length (sp_tab s)"
  by (simp add: balance_slot_lab3_def sp_tab_local)

lemma core_balance_fold:
  assumes "k \<le> length (sp_tab s)" "j < length (sp_tab s)"
  shows "length (sp_tab (fold (balance_slot_lab3 e) [0..<k] s)) = length (sp_tab s)
       \<and> core (slot (fold (balance_slot_lab3 e) [0..<k] s) j)
         = (if j < k then balance_core (core (slot s j)) else core (slot s j))"
  using assms by (induction k) (auto simp: core_balance_slot_lab3)

lemma core_balance_queues_lab3:
  assumes "j < length (sp_tab s)"
  shows "core (slot (balance_queues_lab3 e s) j) = balance_core (core (slot s j))"
    and "length (sp_tab (balance_queues_lab3 e s)) = length (sp_tab s)"
  using core_balance_fold [of "length (sp_tab s)" s j e] assms
  by (simp_all add: balance_queues_lab3_def Let_def)

lemma balance_queues_lab3_iter:
  assumes "j < length (sp_tab s)"
  shows "core (slot ((balance_queues_lab3 e ^^ k) s) j) = (balance_core ^^ k) (core (slot s j))
       \<and> length (sp_tab ((balance_queues_lab3 e ^^ k) s)) = length (sp_tab s)"
  using assms by (induction k) (simp_all add: core_balance_queues_lab3)

lemma balance_core_iter:
  "\<exists>pr'. (balance_core ^^ k) (ep, pa, fl, mp, pr, ts) = (ep, pa, fl, mp, pr', ts)
     \<and> (IN_USE \<in> fl \<longrightarrow> unat pr' = (if pr > mp then max (unat mp) (unat pr - k) else unat pr))"
proof (induction k)
  case 0
  then show ?case by (simp add: word_less_nat_alt)
next
  case (Suc k)
  then obtain pr' where it: "(balance_core ^^ k) (ep, pa, fl, mp, pr, ts) = (ep, pa, fl, mp, pr', ts)"
    and v: "IN_USE \<in> fl \<longrightarrow> unat pr' = (if pr > mp then max (unat mp) (unat pr - k) else unat pr)"
    by blast
  have d: "unat (pr' - 1) = unat pr' - 1" if "pr' > mp"
    using that by (intro unat_sub1) auto
  show ?case
    using v d by (auto simp: it word_less_nat_alt max_def)
qed

section \<open>Instances for the witnesses\<close>

definition demo_isok :: "schedproc list \<Rightarrow> endpoint_t \<Rightarrow> errno + nat" where
  "demo_isok t ep = (if 0 \<le> ep \<and> nat ep < length t \<and> sp_endpoint (t ! nat ep) = ep
                        \<and> IN_USE \<in> sp_flags (t ! nat ep) then Inr (nat ep) else Inl EDEADEPT)"

definition demo_isempty :: "schedproc list \<Rightarrow> endpoint_t \<Rightarrow> errno + nat" where
  "demo_isempty t ep = (if 0 \<le> ep \<and> nat ep < length t \<and> IN_USE \<notin> sp_flags (t ! nat ep)
                        then Inr (nat ep) else Inl EDEADEPT)"

definition demo_env :: "unit sched_env" where
  "demo_env = \<lparr>NR_SCHED_QUEUES = 16, MIN_USER_Q = 15, USER_Q = 7, RS_PROC_NR = 2, SCHED_PROC_NR = 4,
     CONFIG_SMP = True, processors_count = 3, bsp_id = 0, sys_hz = 60, ENDPOINT_P = (\<lambda>e. e),
     accept_message = (\<lambda>_. True), sched_isokendpt = demo_isok, sched_isemtyendpt = demo_isempty,
     sys_schedule = (\<lambda>ep p q c k. (if c = 2 then Err EBADCPU else OK, k)),
     sys_schedctl = (\<lambda>f ep a b c k. (OK, k))\<rparr>"

definition demo_proc :: "endpoint_t \<Rightarrow> u32 \<Rightarrow> u32 \<Rightarrow> schedproc" where
  "demo_proc ep mp pr = \<lparr>sp_endpoint = ep, sp_parent = 0, sp_flags = {IN_USE}, sp_max_priority = mp,
     sp_priority = pr, sp_time_slice = 200, sp_cpu = 0\<rparr>"

definition demo_state :: "unit sched_state" where
  "demo_state = \<lparr>sp_tab = [demo_proc 0 7 7, demo_proc 1 7 9, (demo_proc 2 0 0)\<lparr>sp_flags := {}\<rparr>],
     cpu_proc = [0, 0, 0], balance_timeout = 0, sched_timer = None, sc_console = [], sc_kernel = ()\<rparr>"

definition demo_msg :: "endpoint_t \<Rightarrow> sched_mtype \<Rightarrow> sched_msg" where
  "demo_msg ep t = \<lparr>sm_source = ep, sm_type = t, sm_endpoint = ep, sm_parent = 1, sm_maxprio = 8,
     sm_quantum = 100, sm_scheduler = 0\<rparr>"

lemmas demo_defs = demo_env_def demo_state_def demo_msg_def demo_proc_def demo_isok_def demo_isempty_def

lemma demo_NR_SCHED_QUEUES: "NR_SCHED_QUEUES demo_env = 16"
  by (simp add: demo_env_def)

lemma demo_endpt_laws [simp]: "endpt_laws demo_env"
  by (auto simp: endpt_laws_def demo_env_def demo_isok_def demo_isempty_def split: if_splits)

lemma demo_sched_config [simp]: "sched_config demo_env"
  by (simp add: sched_config_def) (simp add: demo_env_def)

lemma demo_sched_inv [simp]: "sched_inv demo_env demo_state"
  by (simp add: sched_inv_def slot_ok_def demo_defs)

lemma demo_boot_cpu_usable [simp]: "boot_cpu_usable demo_env"
  by (simp add: boot_cpu_usable_def boot_cpu_def demo_env_def)

section \<open>Properties\<close>

text \<open>
  C1. With the Lab 3 policy, from any table whose used slots have priorities inside the
  scheduling queues, every sequence of handler calls (quantum expiry, start, stop, nice,
  rebalancing, with any messages and any kernel answers) keeps the current and the maximum
  priority of every used slot below \<^verbatim>\<open>NR_SCHED_QUEUES\<close>.
\<close>

theorem sched_priorities_in_queues:
  assumes "sched_config e" and "sched_inv e s0"
    and "sched_reach e do_noquantum_lab3 balance_queues_lab3 s0 s"
    and "p \<in> set (sp_tab s)" and "IN_USE \<in> sp_flags p"
  shows "sp_priority p < NR_SCHED_QUEUES e \<and> sp_max_priority p < NR_SCHED_QUEUES e"
  using lab3.reach_keeps [OF assms(1-3)] assms(4,5) by (auto simp: sched_inv_def slot_ok_def)

theorem sched_priorities_in_queues_witness:
  "sp_priority (slot (snd (do_noquantum_lab3 demo_env (demo_msg 1 SCHEDULING_OTHER)
     (init_scheduling demo_env demo_state))) 1) < 16"
proof -
  let ?t = "snd (do_noquantum_lab3 demo_env (demo_msg 1 SCHEDULING_OTHER) (init_scheduling demo_env demo_state))"
  have r: "sched_reach demo_env do_noquantum_lab3 balance_queues_lab3 demo_state ?t"
    by (rule sched_reach.step [OF sched_reach.init])
       (rule sched_step.noquantum [of _ _ "demo_msg 1 SCHEDULING_OTHER" _
          "fst (do_noquantum_lab3 demo_env (demo_msg 1 SCHEDULING_OTHER) (init_scheduling demo_env demo_state))"], simp)
  have l: "length (sp_tab ?t) = 3" and f: "IN_USE \<in> sp_flags (slot ?t 1)"
    by (simp_all add: do_noquantum_lab3_def init_scheduling_def Let_def case_prod_beta demo_defs
        schedule_process_local_def sp_tab_pick_cpu upd_at_def)
  from l have "slot ?t 1 \<in> set (sp_tab ?t)" by (intro nth_mem) simp
  from sched_priorities_in_queues [OF demo_sched_config demo_sched_inv r this f]
  show ?thesis by (simp only: demo_NR_SCHED_QUEUES)
qed

text \<open>
  C15. The start handler always answers: whatever the table, the message (of one of the two
  types it accepts) and the CPUs the kernel reports as unusable, its retry loop ends as long
  as the kernel never reports the boot CPU, and the answer is never \<^const>\<open>EBADCPU\<close> of a retry.
\<close>

theorem do_start_scheduling_terminates:
  assumes "endpt_laws e" and "boot_cpu_usable e" and "processors_count e \<le> length (cpu_proc s)"
    and "sm_type m \<noteq> SCHEDULING_OTHER"
  shows "\<exists>r m' s'. do_start_scheduling e m s = Some (r, m', s')"
proof -
  have ty: "sm_type m = SCHEDULING_START \<or> sm_type m = SCHEDULING_INHERIT"
    using assms(4) by (cases "sm_type m") auto
  show ?thesis
  proof (cases "sched_isemtyendpt e (sp_tab s) (sm_endpoint m)")
    case (Inl a)
    with ty show ?thesis by (auto simp: do_start_scheduling_def)
  next
    case (Inr n)
    let ?s1 = "snd (start_populate e m n s)"
    let ?ctl = "sys_schedctl e 0 (sp_endpoint (slot ?s1 n)) 0 0 0 (sc_kernel ?s1)"
    let ?s2 = "pick_cpu e n (upd_slot n (\<lambda>p. p\<lparr>sp_flags := {IN_USE}\<rparr>) (?s1\<lparr>sc_kernel := snd ?ctl\<rparr>))"
    have "length (cpu_proc ?s2) = length (cpu_proc s)"
      by (simp add: pick_cpu_def start_populate_def Let_def upd_slot_def split: sum.split)
    moreover have "n < length (sp_tab ?s2)"
      using endpt_empty(1) [OF assms(1) Inr] by (simp add: sp_tab_pick_cpu)
    ultimately obtain r s3 where "start_retry e n ?s2 = Some (r, s3)"
      using start_retry_returns [of n ?s2 e] assms(2,3) by auto
    with ty Inr show ?thesis
      by (auto simp: do_start_scheduling_def case_prod_beta Let_def split: option.splits)
  qed
qed

theorem do_start_scheduling_terminates_witness:
  "\<exists>r m' s'. do_start_scheduling demo_env (demo_msg 2 SCHEDULING_INHERIT) demo_state = Some (r, m', s')"
  by (rule do_start_scheduling_terminates) (simp_all, simp_all add: demo_defs)

text \<open>
  C29. Lab 3 rebalancing is gradual and converges: after \<open>k\<close> rounds a used slot below its
  maximum priority has moved up by \<open>k\<close> queues, stopping exactly at its maximum priority, and
  a slot at or above its maximum priority is left alone; nothing else of the slot changes.
\<close>

theorem balance_queues_lab3_converges:
  assumes "j < length (sp_tab s)" and "IN_USE \<in> sp_flags (slot s j)"
  shows "unat (sp_priority (slot ((balance_queues_lab3 e ^^ k) s) j))
       = (if sp_priority (slot s j) > sp_max_priority (slot s j)
          then max (unat (sp_max_priority (slot s j))) (unat (sp_priority (slot s j)) - k)
          else unat (sp_priority (slot s j)))
     \<and> sp_max_priority (slot ((balance_queues_lab3 e ^^ k) s) j) = sp_max_priority (slot s j)
     \<and> sp_flags (slot ((balance_queues_lab3 e ^^ k) s) j) = sp_flags (slot s j)
     \<and> sp_time_slice (slot ((balance_queues_lab3 e ^^ k) s) j) = sp_time_slice (slot s j)"
proof -
  let ?p = "slot s j"
  obtain pr' where "(balance_core ^^ k) (core ?p) =
      (sp_endpoint ?p, sp_parent ?p, sp_flags ?p, sp_max_priority ?p, pr', sp_time_slice ?p)"
    and "unat pr' = (if sp_priority ?p > sp_max_priority ?p
           then max (unat (sp_max_priority ?p)) (unat (sp_priority ?p) - k) else unat (sp_priority ?p))"
    using balance_core_iter [of k "sp_endpoint ?p" "sp_parent ?p" "sp_flags ?p" "sp_max_priority ?p"
        "sp_priority ?p" "sp_time_slice ?p"] assms(2) unfolding core_def by blast
  with balance_queues_lab3_iter [OF assms(1), where e = e and k = k] show ?thesis by (simp add: core_def)
qed

theorem balance_queues_lab3_converges_witness:
  "unat (sp_priority (slot ((balance_queues_lab3 demo_env ^^ 5) demo_state) 1)) = 7"
  using balance_queues_lab3_converges [where j = 1 and s = demo_state and e = demo_env and k = 5] by (simp add: demo_defs)

text \<open>
  C9. \<^verbatim>\<open>do_nice\<close> is all or nothing. When it answers OK the process has the requested queue
  as its priority and maximum priority; on every other answer (not permitted, bad endpoint,
  queue out of range, or the kernel refusing the new priority) every slot has the fields it
  had before. In both cases only the CPU of the process may have been picked anew.
\<close>

theorem do_nice_all_or_nothing:
  assumes "endpt_laws e" and "do_nice e m s = (r, s')"
  shows "(r \<noteq> OK \<longrightarrow> map core (sp_tab s') = map core (sp_tab s))
       \<and> (r = OK \<longrightarrow> (\<exists>n. sched_isokendpt e (sp_tab s) (sm_endpoint m) = Inr n \<and> n < length (sp_tab s)
            \<and> sm_maxprio m < NR_SCHED_QUEUES e
            \<and> sp_priority (slot s' n) = sm_maxprio m \<and> sp_max_priority (slot s' n) = sm_maxprio m
            \<and> (\<forall>j<length (sp_tab s). j \<noteq> n \<longrightarrow> core (slot s' j) = core (slot s j))))"
proof (cases "accept_message e m \<and> sm_maxprio m < NR_SCHED_QUEUES e")
  case False
  with assms(2) show ?thesis
    by (auto simp: do_nice_def Let_def not_le [symmetric] split: sum.splits if_splits)
next
  case acc: True
  show ?thesis
  proof (cases "sched_isokendpt e (sp_tab s) (sm_endpoint m)")
    case (Inl a)
    with assms(2) acc show ?thesis by (auto simp: do_nice_def)
  next
    case (Inr n)
    let ?s1 = "upd_slot n (\<lambda>p. p\<lparr>sp_priority := sm_maxprio m, sp_max_priority := sm_maxprio m\<rparr>) s"
    let ?q = "schedule_process_local e n ?s1"
    let ?s2 = "upd_slot n (\<lambda>p. p\<lparr>sp_priority := sp_priority (slot s n),
                          sp_max_priority := sp_max_priority (slot s n)\<rparr>) (snd ?q)"
    have n: "n < length (sp_tab s)" by (rule endpt_ok(1) [OF assms(1) Inr])
    have res: "r = fst ?q" "s' = (if fst ?q = OK then snd ?q else ?s2)"
      using assms(2) acc Inr by (auto simp: do_nice_def Let_def case_prod_beta not_le [symmetric] split: if_splits)
    have same: "core (slot ?s2 j) = core (slot s j)" if "j < length (sp_tab s)" for j
      using that n core_local [where s = ?s1 and j = j and e = e and i = n]
      by (cases "j = n") (auto simp: sp_tab_local core_def)
    have "map core (sp_tab ?s2) = map core (sp_tab s)"
      by (rule nth_equalityI) (use same in \<open>simp_all add: sp_tab_local\<close>)
    moreover have "core (slot (snd ?q) j) = core (slot s j)" if "j < length (sp_tab s)" "j \<noteq> n" for j
      using that core_local [where s = ?s1 and j = j and e = e and i = n] by simp
    moreover have "sp_priority (slot (snd ?q) n) = sm_maxprio m"
      "sp_max_priority (slot (snd ?q) n) = sm_maxprio m"
      using n by (simp_all add: sp_tab_local)
    ultimately show ?thesis using res acc Inr n by auto
  qed
qed

theorem do_nice_all_or_nothing_witness:
  "\<exists>n. sched_isokendpt demo_env (sp_tab demo_state) 1 = Inr n
     \<and> sp_priority (slot (snd (do_nice demo_env (demo_msg 1 SCHEDULING_OTHER) demo_state)) n) = 8"
proof -
  let ?d = "do_nice demo_env (demo_msg 1 SCHEDULING_OTHER) demo_state"
  have "fst ?d = OK"
    by (simp add: do_nice_def Let_def case_prod_beta schedule_process_local_def schedule_process_def
        sched_consts demo_defs)
  then have "?d = (OK, snd ?d)" by (simp add: prod_eq_iff)
  from do_nice_all_or_nothing [OF demo_endpt_laws this] show ?thesis by (auto simp: demo_msg_def)
qed

text \<open>
  On a multiprocessor a user process goes to a least loaded CPU other than the boot CPU,
  and never to a CPU marked dead: although the macro \<^verbatim>\<open>cpu_is_available\<close> compares an unsigned
  counter with 0 and so accepts every CPU, a dead CPU holds the largest counter and loses
  every comparison. Only when all other CPUs are dead is the boot CPU used. The counter of
  the chosen CPU goes up by one and no other counter changes.
\<close>

theorem pick_cpu_least_loaded:
  assumes "CONFIG_SMP e" and "processors_count e \<noteq> 1" and "\<not> is_system_proc e (slot s i)"
    and "i < length (sp_tab s)" and "processors_count e \<le> length (cpu_proc s)"
  shows "let c = sp_cpu (slot (pick_cpu e i s) i) in
     (c = bsp_id e \<and> (\<forall>d<processors_count e. d \<noteq> bsp_id e \<longrightarrow> cpu_proc s ! d = CPU_DEAD)
      \<or> c < processors_count e \<and> c \<noteq> bsp_id e \<and> cpu_proc s ! c \<noteq> CPU_DEAD
        \<and> (\<forall>d<processors_count e. d \<noteq> bsp_id e \<longrightarrow> cpu_proc s ! c \<le> cpu_proc s ! d))
     \<and> cpu_proc (pick_cpu e i s) = upd_at c (\<lambda>k. k + 1) (cpu_proc s)"
proof -
  obtain l c where p: "pick_cpu_scan e (cpu_proc s) (processors_count e) = (l, c)" by fastforce
  have "sp_cpu (slot (pick_cpu e i s) i) = c" "cpu_proc (pick_cpu e i s) = upd_at c (\<lambda>k. k + 1) (cpu_proc s)"
    using assms p by (simp_all add: pick_cpu_def upd_slot_def)
  with pick_cpu_scan_invariant [OF p] show ?thesis by (auto simp: CPU_DEAD_def)
qed

theorem pick_cpu_least_loaded_witness:
  "sp_cpu (slot (pick_cpu demo_env 1 (demo_state\<lparr>cpu_proc := [0, CPU_DEAD, 4]\<rparr>)) 1) = 2"
  using pick_cpu_least_loaded [of demo_env "demo_state\<lparr>cpu_proc := [0, CPU_DEAD, 4]\<rparr>" 1]
  by (auto simp: demo_defs is_system_proc_def CPU_DEAD_def Let_def less_Suc_eq numeral_3_eq_3)

text \<open>
  The Lab 5 quantum handler has no lower bound: when a process in queue 0 uses up its
  quantum, its unsigned priority wraps to the largest value, the kernel is asked for priority
  -1, which leaves the kernel's priority as it is, and the handler returns the kernel's answer
  as if the change had happened; every later quantum expiry leaves the wrapped value in place.
\<close>

theorem do_noquantum_lab5_wraps:
  assumes "sched_isokendpt e (sp_tab s) (sm_source m) = Inr n" and "n < length (sp_tab s)"
    and "sp_priority (slot s n) = 0" and "0 < MIN_USER_Q e"
  shows "sp_priority (slot (snd (do_noquantum_lab5 e m s)) n) = - 1
     \<and> fst (do_noquantum_lab5 e m s)
       = fst (sys_schedule e (sp_endpoint (slot s n)) (- 1) (sint (sp_time_slice (slot s n))) (- 1) (sc_kernel s))
     \<and> (sp_priority (slot t j) = - 1 \<longrightarrow> sched_isokendpt e (sp_tab t) (sm_source m') = Inr j \<longrightarrow>
          j < length (sp_tab t) \<longrightarrow> sp_priority (slot (snd (do_noquantum_lab5 e m' t)) j) = - 1)"
  using assms
  by (auto simp: do_noquantum_lab5_def Let_def case_prod_beta schedule_process_local_def
      schedule_process_def sched_consts sp_tab_pick_cpu upd_slot_def)

theorem do_noquantum_lab5_wraps_witness:
  "sp_priority (slot (snd (do_noquantum_lab5 demo_env (demo_msg 0 SCHEDULING_OTHER)
     (demo_state\<lparr>sp_tab := [demo_proc 0 0 0]\<rparr>))) 0) = - 1"
  using do_noquantum_lab5_wraps [of demo_env "demo_state\<lparr>sp_tab := [demo_proc 0 0 0]\<rparr>"
      "demo_msg 0 SCHEDULING_OTHER" 0]
  by (simp add: demo_defs)

text \<open>
  Lab 5 rebalancing never moves a process between queues: it only asks the kernel again
  for the priorities the table already holds.
\<close>

theorem balance_queues_lab5_keeps_priorities:
  "map core (sp_tab ((balance_queues_lab5 e ^^ k) s)) = map core (sp_tab s)"
proof -
  have "map core (sp_tab (fold (balance_slot_lab5 e) is t)) = map core (sp_tab t)" for "is" t
    by (induction "is" arbitrary: t) (simp_all add: balance_slot_lab5_def)
  then have "map core (sp_tab (balance_queues_lab5 e t)) = map core (sp_tab t)" for t
    by (simp add: balance_queues_lab5_def Let_def)
  then show ?thesis by (induction k) simp_all
qed

text \<open>
  What a successful start leaves behind: the slot found for the new endpoint was free and
  is now in use with the message's endpoint, parent and maximum priority; a
  \<^const>\<open>SCHEDULING_START\<close> gives it that priority and the message's quantum, a
  \<^const>\<open>SCHEDULING_INHERIT\<close> the current priority and quantum of the parent, a different slot in
  use; the reply names SCHED as the scheduler. The special case for init
  (endpoint equal to parent) leaves no trace: its priority and quantum are overwritten.
\<close>

theorem do_start_scheduling_ok:
  assumes law: "endpt_laws e" and run: "do_start_scheduling e m s = Some (OK, m', s')"
  shows "\<exists>n<length (sp_tab s). IN_USE \<notin> sp_flags (slot s n) \<and> sp_flags (slot s' n) = {IN_USE}
     \<and> sp_endpoint (slot s' n) = sm_endpoint m \<and> sp_parent (slot s' n) = sm_parent m
     \<and> sp_max_priority (slot s' n) = sm_maxprio m \<and> sm_maxprio m < NR_SCHED_QUEUES e
     \<and> m' = m\<lparr>sm_scheduler := SCHED_PROC_NR e\<rparr>
     \<and> (sm_type m = SCHEDULING_START \<and> sp_priority (slot s' n) = sm_maxprio m
          \<and> sp_time_slice (slot s' n) = sm_quantum m
        \<or> sm_type m = SCHEDULING_INHERIT \<and> (\<exists>pn<length (sp_tab s). pn \<noteq> n
          \<and> IN_USE \<in> sp_flags (slot s pn) \<and> sp_endpoint (slot s pn) = sm_parent m
          \<and> sp_priority (slot s' n) = sp_priority (slot s pn)
          \<and> sp_time_slice (slot s' n) = sp_time_slice (slot s pn)))
     \<and> (\<forall>j<length (sp_tab s). j \<noteq> n \<longrightarrow> core (slot s' j) = core (slot s j))"
  using run
proof (cases rule: do_start_scheduling_cases)
  case (claimed n)
  note n = endpt_empty [OF law claimed(1)]
  let ?s1 = "snd (start_populate e m n s)"
  have len: "length (sp_tab s') = length (sp_tab s)"
    using map_core_nth(2) [OF claimed(4)] by simp
  have c: "core (slot s' j) = core (slot (upd_slot n (\<lambda>p. p\<lparr>sp_flags := {IN_USE}\<rparr>) ?s1) j)"
    if "j < length (sp_tab s)" for j
    using map_core_nth(1) [OF claimed(4), of j] that len by simp
  have oth: "\<forall>j<length (sp_tab s). j \<noteq> n \<longrightarrow> core (slot s' j) = core (slot s j)"
    using c by (simp add: start_populate_other)
  note cn = core_eqD [OF c [OF n(1)]]
  have lt: "sm_maxprio m < NR_SCHED_QUEUES e"
    using claimed(3) by (auto simp: start_populate_def Let_def not_le [symmetric] split: if_splits)
  from claimed(2) show ?thesis
  proof
    assume "sm_type m = SCHEDULING_START"
    with cn n oth lt claimed(5) start_populate_START [OF n(1), of m e] show ?thesis
      by (intro exI [of _ n]) (simp add: start_populate_flags)
  next
    assume ty: "sm_type m = SCHEDULING_INHERIT"
    from start_populate_INHERIT [OF law n ty claimed(3)] cn n oth lt claimed(5) ty show ?thesis
      by (intro exI [of _ n]) (auto simp: start_populate_flags)
  qed
qed simp_all

theorem do_start_scheduling_ok_witness:
  "\<exists>m' s'. do_start_scheduling demo_env (demo_msg 2 SCHEDULING_INHERIT) demo_state = Some (OK, m', s')
     \<and> (\<exists>n<3. sp_priority (slot s' n) = 9 \<and> sp_time_slice (slot s' n) = 200 \<and> sp_max_priority (slot s' n) = 8)"
proof -
  let ?d = "do_start_scheduling demo_env (demo_msg 2 SCHEDULING_INHERIT) demo_state"
  have "map_option fst ?d = Some OK" by code_simp
  then obtain m' s' where run: "?d = Some (OK, m', s')" by auto
  from do_start_scheduling_ok [OF demo_endpt_laws run] run show ?thesis
    by (auto simp: demo_state_def demo_msg_def demo_proc_def less_Suc_eq numeral_3_eq_3)
qed

end
