(* ===== verification/Kernel.thy ===== *)
theory Kernel
  imports Minix_Prelude
begin

text \<open>
  The kernel's SYSTEM task, \<^verbatim>\<open>src/Lab-05/system.c\<close>: the call vector and its dispatcher, the
  suspension and resumption of kernel calls, privilege structures and send masks, kernel
  signals, the removal of a dead process from all message queues, and \<^verbatim>\<open>sched_proc\<close>, which
  Lab 5 extends with the quantum report.

  The state is the process table, the privilege table, the call vector, the IRQ hooks, the
  process billed for kernel calls, the console, and an opaque rest \<^typ>\<open>'w\<close> (run queues, user
  memory). Process numbers are slots of the process table. The handlers \<^verbatim>\<open>do_*\<close> that the vector
  names, the IPC primitives and the run queues are not part of the repository: they are fields
  of the record \<open>kenv\<close>. \<^verbatim>\<open>RTS_SET\<close> and \<^verbatim>\<open>RTS_UNSET\<close> change the flag set of a process and
  leave the run queues to \<open>rts_hook\<close>, a function on the opaque rest.
\<close>

section \<open>Data\<close>

datatype rts_flag =
    RTS_SLOT_FREE | RTS_SENDING | RTS_RECEIVING | RTS_SIGNALED | RTS_SIG_PENDING | RTS_NO_PRIV
  | RTS_NO_ENDPOINT | RTS_VMREQUEST | RTS_NO_QUANTUM | RTS_OTHER nat

datatype misc_flag = MF_KCALL_RESUME | MF_SIG_DELAY | MF_OTHER nat

datatype priv_flag = SYS_PROC | PRIV_OTHER nat

record kmsg =
  km_source :: endpoint_t
  km_type :: int
  km_payload :: "int list"

record proc =
  p_endpoint :: endpoint_t
  p_name :: string
  p_priv :: nat
  p_rts_flags :: "rts_flag set"
  p_misc_flags :: "misc_flag set"
  p_priority :: int
  p_quantum_size_ms :: int
  p_cpu_time_left :: u64
  p_cpu :: int
  p_pending :: "nat set"
  p_signal_received :: nat
  p_sendto_e :: endpoint_t
  p_caller_q :: "nat option"
  p_q_link :: "nat option"
  p_retreg :: ret
  p_vmreq_kernelcall :: bool
  p_saved_reqmsg :: kmsg
  p_delivermsg_vir :: nat

text \<open>
  \<^verbatim>\<open>s_proc_nr == NONE\<close> is \<^const>\<open>None\<close>. A process without privilege structure has an index
  outside the privilege table in \<open>p_priv\<close>, the model of a null pointer.
\<close>

record priv =
  s_proc_nr :: "nat option"
  s_id :: nat
  s_flags :: "priv_flag set"
  s_trap_mask :: "nat set"
  s_ipc_to :: "nat set"
  s_k_call_mask :: "nat set"
  s_sig_mgr :: endpoint_t
  s_bak_sig_mgr :: endpoint_t
  s_notify_pending :: "nat set"
  s_asyn_pending :: "nat set"
  s_sig_pending :: "nat set"
  s_asynsize :: int
  s_diag_sig :: bool
  s_alarm_timer :: "int option"

text \<open>The kernel calls and their handlers, as \<^verbatim>\<open>system_init\<close> names them.\<close>

datatype ksyscall =
    SYS_FORK | SYS_EXEC | SYS_CLEAR | SYS_EXIT | SYS_PRIVCTL | SYS_TRACE | SYS_SETGRANT
  | SYS_RUNCTL | SYS_UPDATE | SYS_STATECTL | SYS_KILL | SYS_GETKSIG | SYS_ENDKSIG | SYS_SIGSEND
  | SYS_SIGRETURN | SYS_IRQCTL | SYS_DEVIO | SYS_VDEVIO | SYS_MEMSET | SYS_VMCTL | SYS_UMAP
  | SYS_UMAP_REMOTE | SYS_VUMAP | SYS_VIRCOPY | SYS_PHYSCOPY | SYS_SAFECOPYFROM | SYS_SAFECOPYTO
  | SYS_VSAFECOPY | SYS_SAFEMEMSET | SYS_TIMES | SYS_SETALARM | SYS_STIME | SYS_SETTIME
  | SYS_VTIMER | SYS_ABORT | SYS_GETINFO | SYS_DIAGCTL | SYS_SPROF | SYS_CPROF | SYS_PROFBUF
  | SYS_PADCONF | SYS_READBIOS | SYS_IOPENABLE | SYS_SDEVIO | SYS_SETMCONTEXT | SYS_GETMCONTEXT
  | SYS_SCHEDULE | SYS_SCHEDCTL

datatype khandler =
    Do_fork | Do_exec | Do_clear | Do_exit | Do_privctl | Do_trace | Do_setgrant
  | Do_runctl | Do_update | Do_statectl | Do_kill | Do_getksig | Do_endksig | Do_sigsend
  | Do_sigreturn | Do_irqctl | Do_devio | Do_vdevio | Do_memset | Do_vmctl | Do_umap
  | Do_umap_remote | Do_vumap | Do_vircopy | Do_copy | Do_safecopy_from | Do_safecopy_to
  | Do_vsafecopy | Do_safememset | Do_times | Do_setalarm | Do_stime | Do_settime
  | Do_vtimer | Do_abort | Do_getinfo | Do_diagctl | Do_sprofile | Do_cprofile | Do_profbuf
  | Do_padconf | Do_readbios | Do_iopenable | Do_sdevio | Do_setmcontext | Do_getmcontext
  | Do_schedule | Do_schedctl

datatype arch = I386 | ARM

record 'w kstate =
  procs :: "proc list"
  privs :: "priv list"
  call_vec :: "khandler option list"
  irq_hooks :: "endpoint_t list"
  kbill_kcall :: "nat option"
  k_console :: console
  k_world :: 'w

record 'w kenv =
  ARCH :: arch
  err_nr :: "errno \<Rightarrow> int"
  K_CONFIG_SMP :: bool
  KERNEL_CALL :: int
  SYS_nr :: "ksyscall \<Rightarrow> int"
  NONE :: endpoint_t
  SELF :: endpoint_t
  SYSTEM :: endpoint_t
  SYSTEM_slot :: nat
  NULL_PRIV_ID :: int
  is_static_priv_id :: "int \<Rightarrow> bool"
  DYN_PRIV_BEG :: nat
  DYN_PRIV_END :: nat
  NR_SYS_PROCS :: nat
  RECEIVE :: nat
  SIGS_IS_LETHAL :: "nat \<Rightarrow> bool"
  SIGKSIGSM :: nat
  SIGKSIG :: nat
  SIGSNDELAY :: nat
  SIGKMESS :: nat
  SIGSEGV :: nat
  TASK_Q :: int
  K_NR_SCHED_QUEUES :: int
  ncpus :: int
  cpuid :: int
  cpu_is_ready :: "int \<Rightarrow> bool"
  cpu_time_2_ms :: "u64 \<Rightarrow> int"
  ms_2_cpu_time :: "int \<Rightarrow> u64"
  isokendpt :: "proc list \<Rightarrow> endpoint_t \<Rightarrow> nat option"
  isemptyp :: "proc \<Rightarrow> bool"
  proc_is_runnable :: "proc \<Rightarrow> bool"
  P_BLOCKEDON :: "proc \<Rightarrow> endpoint_t"
  rts_hook :: "nat \<Rightarrow> rts_flag set \<Rightarrow> rts_flag set \<Rightarrow> 'w \<Rightarrow> 'w"
  mini_notify :: "nat \<Rightarrow> endpoint_t \<Rightarrow> 'w kstate \<Rightarrow> 'w kstate"
  smp_schedule_migrate_proc :: "nat \<Rightarrow> int \<Rightarrow> 'w kstate \<Rightarrow> 'w kstate"
  copy_msg_from_user :: "nat \<Rightarrow> 'w \<Rightarrow> kmsg option"
  copy_msg_to_user :: "kmsg \<Rightarrow> nat \<Rightarrow> 'w \<Rightarrow> bool \<times> 'w"
  has_pending_asend :: "nat \<Rightarrow> 'w kstate \<Rightarrow> nat option"
  cancel_async :: "nat \<Rightarrow> nat \<Rightarrow> 'w kstate \<Rightarrow> 'w kstate"
  run_handler :: "khandler \<Rightarrow> nat \<Rightarrow> kmsg \<Rightarrow> 'w kstate \<Rightarrow> ret \<times> kmsg \<times> 'w kstate"

abbreviation procAt :: "'w kstate \<Rightarrow> nat \<Rightarrow> proc" where "procAt s i \<equiv> procs s ! i"
abbreviation privOf :: "'w kstate \<Rightarrow> nat \<Rightarrow> priv" where "privOf s i \<equiv> privs s ! p_priv (procs s ! i)"

definition has_priv :: "'w kstate \<Rightarrow> nat \<Rightarrow> bool" where
  "has_priv s i \<longleftrightarrow> p_priv (procAt s i) < length (privs s)"

definition upd_proc :: "nat \<Rightarrow> (proc \<Rightarrow> proc) \<Rightarrow> 'w kstate \<Rightarrow> 'w kstate" where
  "upd_proc i f s = s\<lparr>procs := upd_at i f (procs s)\<rparr>"

definition upd_priv :: "nat \<Rightarrow> (priv \<Rightarrow> priv) \<Rightarrow> 'w kstate \<Rightarrow> 'w kstate" where
  "upd_priv k f s = s\<lparr>privs := upd_at k f (privs s)\<rparr>"

definition kprint :: "string \<Rightarrow> parg list \<Rightarrow> 'w kstate \<Rightarrow> 'w kstate" where
  "kprint fmt args s = s\<lparr>k_console := printf fmt args (k_console s)\<rparr>"

definition RTS_SET :: "'w kenv \<Rightarrow> nat \<Rightarrow> rts_flag set \<Rightarrow> 'w kstate \<Rightarrow> 'w kstate" where
  "RTS_SET e i f s =
     (let old = p_rts_flags (procAt s i); s1 = upd_proc i (\<lambda>p. p\<lparr>p_rts_flags := p_rts_flags p \<union> f\<rparr>) s
      in s1\<lparr>k_world := rts_hook e i old (old \<union> f) (k_world s1)\<rparr>)"

definition RTS_UNSET :: "'w kenv \<Rightarrow> nat \<Rightarrow> rts_flag set \<Rightarrow> 'w kstate \<Rightarrow> 'w kstate" where
  "RTS_UNSET e i f s =
     (let old = p_rts_flags (procAt s i); s1 = upd_proc i (\<lambda>p. p\<lparr>p_rts_flags := p_rts_flags p - f\<rparr>) s
      in s1\<lparr>k_world := rts_hook e i old (old - f) (k_world s1)\<rparr>)"

section \<open>Privileges\<close>

text \<open>The scan for a free dynamic slot, from \<open>k\<close> up to the end of the dynamic range.\<close>

function find_dyn_priv :: "priv list \<Rightarrow> nat \<Rightarrow> nat \<Rightarrow> nat option" where
  "find_dyn_priv ps k n =
     (if k < n then (if s_proc_nr (ps ! k) = None then Some k else find_dyn_priv ps (Suc k) n) else None)"
  by pat_completeness auto
termination
  by (relation "measure (\<lambda>(ps, k, n). n - k)") auto

declare find_dyn_priv.simps [simp del]

definition get_priv_slot :: "'w kenv \<Rightarrow> int \<Rightarrow> 'w kstate \<Rightarrow> errno + nat" where
  "get_priv_slot e priv_id s =
     (if priv_id = NULL_PRIV_ID e
      then (case find_dyn_priv (privs s) (DYN_PRIV_BEG e) (DYN_PRIV_END e) of
              None \<Rightarrow> Inl ENOSPC | Some k \<Rightarrow> Inr k)
      else if \<not> is_static_priv_id e priv_id then Inl EINVAL
      else if s_proc_nr (privs s ! nat priv_id) \<noteq> None then Inl EBUSY
      else Inr (nat priv_id))"

definition get_priv :: "'w kenv \<Rightarrow> nat \<Rightarrow> int \<Rightarrow> 'w kstate \<Rightarrow> ret \<times> 'w kstate" where
  "get_priv e rc priv_id s =
     (case get_priv_slot e priv_id s of
        Inl err \<Rightarrow> (Err err, s)
      | Inr sp \<Rightarrow> (OK, upd_priv sp (\<lambda>q. q\<lparr>s_proc_nr := Some rc\<rparr>) (upd_proc rc (\<lambda>p. p\<lparr>p_priv := sp\<rparr>) s)))"

definition priv_id :: "'w kstate \<Rightarrow> nat \<Rightarrow> nat" where
  "priv_id s rp = s_id (privOf s rp)"

definition id_to_nr :: "'w kstate \<Rightarrow> nat \<Rightarrow> nat option" where
  "id_to_nr s k = s_proc_nr (privs s ! k)"

definition set_sendto_bit :: "'w kenv \<Rightarrow> nat \<Rightarrow> nat \<Rightarrow> 'w kstate \<Rightarrow> 'w kstate" where
  "set_sendto_bit e rp sid s =
     (if id_to_nr s sid = None \<or> priv_id s rp = sid
      then upd_priv (p_priv (procAt s rp)) (\<lambda>q. q\<lparr>s_ipc_to := s_ipc_to q - {sid}\<rparr>) s
      else
        (let s1 = upd_priv (p_priv (procAt s rp)) (\<lambda>q. q\<lparr>s_ipc_to := insert sid (s_ipc_to q)\<rparr>) s
         in if s_trap_mask (privs s1 ! sid) - {RECEIVE e} \<noteq> {}
            then upd_priv sid (\<lambda>q. q\<lparr>s_ipc_to := insert (priv_id s1 rp) (s_ipc_to q)\<rparr>) s1
            else s1))"

definition unset_sendto_bit :: "'w kenv \<Rightarrow> nat \<Rightarrow> nat \<Rightarrow> 'w kstate \<Rightarrow> 'w kstate" where
  "unset_sendto_bit e rp sid s =
     (let s1 = upd_priv (p_priv (procAt s rp)) (\<lambda>q. q\<lparr>s_ipc_to := s_ipc_to q - {sid}\<rparr>) s
      in upd_priv sid (\<lambda>q. q\<lparr>s_ipc_to := s_ipc_to q - {priv_id s1 rp}\<rparr>) s1)"

definition fill_sendto_mask :: "'w kenv \<Rightarrow> nat \<Rightarrow> nat set \<Rightarrow> 'w kstate \<Rightarrow> 'w kstate" where
  "fill_sendto_mask e rp sys_map s =
     fold (\<lambda>i s. if i \<in> sys_map then set_sendto_bit e rp i s else unset_sendto_bit e rp i s)
       [0..<NR_SYS_PROCS e] s"

section \<open>Kernel signals\<close>

definition send_sig :: "'w kenv \<Rightarrow> endpoint_t \<Rightarrow> nat \<Rightarrow> 'w kstate \<Rightarrow> ret \<times> 'w kstate" where
  "send_sig e ep sig_nr s =
     (case isokendpt e (procs s) ep of
        None \<Rightarrow> (Err EINVAL, s)
      | Some n \<Rightarrow>
          if isemptyp e (procAt s n) then (Err EINVAL, s)
          else if \<not> has_priv s n then (Err ENOENT, s)
          else
            (let s1 = upd_priv (p_priv (procAt s n)) (\<lambda>q. q\<lparr>s_sig_pending := insert sig_nr (s_sig_pending q)\<rparr>) s;
                 s2 = upd_proc n (\<lambda>p. p\<lparr>p_signal_received := p_signal_received p + 1\<rparr>) s1
             in (OK, mini_notify e (SYSTEM_slot e) (p_endpoint (procAt s2 n)) s2)))"

definition sig_mgr_of :: "'w kenv \<Rightarrow> nat \<Rightarrow> 'w kstate \<Rightarrow> endpoint_t" where
  "sig_mgr_of e n s =
     (if s_sig_mgr (privOf s n) = SELF e then p_endpoint (procAt s n) else s_sig_mgr (privOf s n))"

text \<open>
  \<^const>\<open>None\<close> is a panic (a lethal signal for a signal manager without backup, or a failed
  \<^verbatim>\<open>send_sig\<close>) or the dereference of a missing privilege structure.
\<close>

function cause_sig :: "'w kenv \<Rightarrow> nat \<Rightarrow> nat \<Rightarrow> 'w kstate \<Rightarrow> 'w kstate option" where
  "cause_sig e n sig_nr s =
     (if \<not> has_priv s n then None
      else if p_endpoint (procAt s n) = sig_mgr_of e n s then
        (if SIGS_IS_LETHAL e sig_nr then
           (let bak = s_bak_sig_mgr (privOf s n) in
            if bak \<noteq> NONE e then
              (case isokendpt e (procs s) bak of
                 Some mgr \<Rightarrow>
                   cause_sig e n sig_nr
                     (RTS_UNSET e mgr {RTS_NO_PRIV}
                       (upd_priv (p_priv (procAt s n)) (\<lambda>q. q\<lparr>s_sig_mgr := bak, s_bak_sig_mgr := NONE e\<rparr>) s))
               | None \<Rightarrow> None)
            else None)
         else
           (let s1 = upd_priv (p_priv (procAt s n)) (\<lambda>q. q\<lparr>s_sig_pending := insert sig_nr (s_sig_pending q)\<rparr>) s
            in case send_sig e (p_endpoint (procAt s1 n)) (SIGKSIGSM e) s1 of
                 (r, s2) \<Rightarrow> if r \<noteq> OK then None else Some s2))
      else if sig_nr \<in> p_pending (procAt s n) then Some s
      else
        (let s1 = upd_proc n (\<lambda>p. p\<lparr>p_pending := insert sig_nr (p_pending p)\<rparr>) s;
             s2 = upd_proc n (\<lambda>p. p\<lparr>p_signal_received := p_signal_received p + 1\<rparr>) s1
         in if RTS_SIGNALED \<notin> p_rts_flags (procAt s2 n)
            then (case send_sig e (sig_mgr_of e n s) (SIGKSIG e) (RTS_SET e n {RTS_SIGNALED, RTS_SIG_PENDING} s2) of
                    (r, s3) \<Rightarrow> if r \<noteq> OK then None else Some s3)
            else Some s2))"
  by pat_completeness auto
termination
  by (relation "measure (\<lambda>(e, n, sig, s). if s_bak_sig_mgr (privOf s n) = NONE e then 0 else 1)")
     (auto simp: RTS_UNSET_def upd_proc_def upd_priv_def has_priv_def Let_def nth_upd_at_inv)

declare cause_sig.simps [simp del]

definition sig_delay_done :: "'w kenv \<Rightarrow> nat \<Rightarrow> 'w kstate \<Rightarrow> 'w kstate option" where
  "sig_delay_done e rp s =
     cause_sig e rp (SIGSNDELAY e) (upd_proc rp (\<lambda>p. p\<lparr>p_misc_flags := p_misc_flags p - {MF_SIG_DELAY}\<rparr>) s)"

definition send_diag_sig :: "'w kenv \<Rightarrow> 'w kstate \<Rightarrow> 'w kstate" where
  "send_diag_sig e s =
     fold (\<lambda>k s. case s_proc_nr (privs s ! k) of
                   None \<Rightarrow> s
                 | Some n \<Rightarrow> if s_diag_sig (privs s ! k)
                             then snd (send_sig e (p_endpoint (procAt s n)) (SIGKMESS e) s) else s)
       [0..<length (privs s)] s"

section \<open>The call vector\<close>

text \<open>
  The \<^verbatim>\<open>map\<close> macro: the assertion on the index, then the store. The \<^verbatim>\<open>map\<close> lines of
  \<^verbatim>\<open>system_init\<close> are a list of pairs in the order of the source, with the lines under
  \<^verbatim>\<open>__i386__\<close> and \<^verbatim>\<open>__arm__\<close> present on that architecture.
\<close>

definition map_call :: "'w kenv \<Rightarrow> ksyscall \<Rightarrow> khandler \<Rightarrow> khandler option list \<Rightarrow> khandler option list option" where
  "map_call e call_nr handler cv =
     (let call_index = SYS_nr e call_nr - KERNEL_CALL e in
      if 0 \<le> call_index \<and> call_index < int (length cv) then Some (cv[nat call_index := Some handler]) else None)"

definition call_map :: "arch \<Rightarrow> (ksyscall \<times> khandler) list" where
  "call_map a =
     [(SYS_FORK, Do_fork), (SYS_EXEC, Do_exec), (SYS_CLEAR, Do_clear), (SYS_EXIT, Do_exit),
      (SYS_PRIVCTL, Do_privctl), (SYS_TRACE, Do_trace), (SYS_SETGRANT, Do_setgrant),
      (SYS_RUNCTL, Do_runctl), (SYS_UPDATE, Do_update), (SYS_STATECTL, Do_statectl),
      (SYS_KILL, Do_kill), (SYS_GETKSIG, Do_getksig), (SYS_ENDKSIG, Do_endksig),
      (SYS_SIGSEND, Do_sigsend), (SYS_SIGRETURN, Do_sigreturn), (SYS_IRQCTL, Do_irqctl)]
   @ (if a = I386 then [(SYS_DEVIO, Do_devio), (SYS_VDEVIO, Do_vdevio)] else [])
   @ [(SYS_MEMSET, Do_memset), (SYS_VMCTL, Do_vmctl),
      (SYS_UMAP, Do_umap), (SYS_UMAP_REMOTE, Do_umap_remote), (SYS_VUMAP, Do_vumap),
      (SYS_VIRCOPY, Do_vircopy), (SYS_PHYSCOPY, Do_copy), (SYS_SAFECOPYFROM, Do_safecopy_from),
      (SYS_SAFECOPYTO, Do_safecopy_to), (SYS_VSAFECOPY, Do_vsafecopy),
      (SYS_SAFEMEMSET, Do_safememset),
      (SYS_TIMES, Do_times), (SYS_SETALARM, Do_setalarm), (SYS_STIME, Do_stime),
      (SYS_SETTIME, Do_settime), (SYS_VTIMER, Do_vtimer),
      (SYS_ABORT, Do_abort), (SYS_GETINFO, Do_getinfo), (SYS_DIAGCTL, Do_diagctl),
      (SYS_SPROF, Do_sprofile), (SYS_CPROF, Do_cprofile), (SYS_PROFBUF, Do_profbuf)]
   @ (if a = ARM then [(SYS_PADCONF, Do_padconf)] else [])
   @ (if a = I386 then [(SYS_READBIOS, Do_readbios), (SYS_IOPENABLE, Do_iopenable), (SYS_SDEVIO, Do_sdevio)] else [])
   @ [(SYS_SETMCONTEXT, Do_setmcontext), (SYS_GETMCONTEXT, Do_getmcontext),
      (SYS_SCHEDULE, Do_schedule), (SYS_SCHEDCTL, Do_schedctl)]"

fun map_calls :: "'w kenv \<Rightarrow> (ksyscall \<times> khandler) list \<Rightarrow> khandler option list \<Rightarrow> khandler option list option" where
  "map_calls e [] cv = Some cv"
| "map_calls e ((c, h) # rest) cv = do { cv1 \<leftarrow> map_call e c h cv; map_calls e rest cv1 }"

definition system_init :: "'w kenv \<Rightarrow> 'w kstate \<Rightarrow> 'w kstate option" where
  "system_init e s =
     do { let s1 = s\<lparr>irq_hooks := map (\<lambda>_. NONE e) (irq_hooks s),
                     privs := map (\<lambda>q. q\<lparr>s_alarm_timer := None\<rparr>) (privs s)\<rparr>;
          cv \<leftarrow> map_calls e (call_map (ARCH e)) (replicate (length (call_vec s1)) None);
          Some (s1\<lparr>call_vec := cv\<rparr>) }"

section \<open>Kernel calls\<close>

fun ret_int :: "'w kenv \<Rightarrow> ret \<Rightarrow> int" where
  "ret_int e (Ret n) = n"
| "ret_int e (Err x) = err_nr e x"

text \<open>
  The dispatcher returns the result, the message as the handler leaves it, and the state;
  \<^const>\<open>None\<close> is the dereference of a missing privilege structure.
\<close>

definition kernel_call_dispatch :: "'w kenv \<Rightarrow> nat \<Rightarrow> kmsg \<Rightarrow> 'w kstate \<Rightarrow> (ret \<times> kmsg \<times> 'w kstate) option" where
  "kernel_call_dispatch e caller m s =
     (let call_nr = km_type m - KERNEL_CALL e in
      if call_nr < 0 \<or> int (length (call_vec s)) \<le> call_nr
      then Some (Err EBADREQUEST, m,
             kprint ''SYSTEM: illegal request %d from %d.'' [AInt call_nr, AInt (km_source m)] s)
      else if \<not> has_priv s caller then None
      else if nat call_nr \<notin> s_k_call_mask (privOf s caller)
      then Some (Err ECALLDENIED, m,
             kprint ''SYSTEM: denied request %d from %d.'' [AInt call_nr, AInt (km_source m)] s)
      else case call_vec s ! nat call_nr of
             Some h \<Rightarrow> Some (run_handler e h caller m s)
           | None \<Rightarrow> Some (Err EBADREQUEST, m,
               kprint ''Unused kernel call %d from %d'' [AInt call_nr, AInt (p_endpoint (procAt s caller))] s))"

text \<open>
  \<^verbatim>\<open>kernel_call_finish\<close> gets a pointer to the message: a local variable of \<^verbatim>\<open>kernel_call\<close>, or
  the request saved in the process structure itself in \<^verbatim>\<open>kernel_call_resume\<close>. In the second
  case the two writes to \<^verbatim>\<open>m_source\<close> hit the same object.
\<close>

datatype msgloc = LocalMsg kmsg | SavedMsg

fun load_msg :: "nat \<Rightarrow> msgloc \<Rightarrow> 'w kstate \<Rightarrow> kmsg" where
  "load_msg caller (LocalMsg m) s = m"
| "load_msg caller SavedMsg s = p_saved_reqmsg (procAt s caller)"

fun store_msg :: "nat \<Rightarrow> msgloc \<Rightarrow> kmsg \<Rightarrow> 'w kstate \<Rightarrow> msgloc \<times> 'w kstate" where
  "store_msg caller (LocalMsg _) m s = (LocalMsg m, s)"
| "store_msg caller SavedMsg m s = (SavedMsg, upd_proc caller (\<lambda>p. p\<lparr>p_saved_reqmsg := m\<rparr>) s)"

definition kernel_call_finish :: "'w kenv \<Rightarrow> nat \<Rightarrow> msgloc \<Rightarrow> ret \<Rightarrow> 'w kstate \<Rightarrow> 'w kstate option" where
  "kernel_call_finish e caller loc result s =
     (if result = Err VMSUSPEND then
        (if RTS_VMREQUEST \<in> p_rts_flags (procAt s caller) \<and> p_vmreq_kernelcall (procAt s caller)
         then Some (upd_proc caller (\<lambda>p. p\<lparr>p_saved_reqmsg := load_msg caller loc s,
                                          p_misc_flags := insert MF_KCALL_RESUME (p_misc_flags p)\<rparr>) s)
         else None)
      else
        (let s1 = upd_proc caller (\<lambda>p. p\<lparr>p_saved_reqmsg := (p_saved_reqmsg p)\<lparr>km_source := NONE e\<rparr>\<rparr>) s in
         if result \<noteq> Err EDONTREPLY then
           (let m = (load_msg caller loc s1)\<lparr>km_source := SYSTEM e, km_type := ret_int e result\<rparr>;
                s2 = snd (store_msg caller loc m s1);
                (bad, w) = copy_msg_to_user e m (p_delivermsg_vir (procAt s2 caller)) (k_world s2);
                s3 = s2\<lparr>k_world := w\<rparr>
            in if bad
               then cause_sig e caller (SIGSEGV e)
                      (kprint ''WARNING wrong user pointer 0x%08x from process %s / %d''
                        [AInt (int (p_delivermsg_vir (procAt s3 caller))), AStr (p_name (procAt s3 caller)),
                         AInt (p_endpoint (procAt s3 caller))] s3)
               else Some s3)
         else Some s1))"

definition kernel_call :: "'w kenv \<Rightarrow> nat \<Rightarrow> nat \<Rightarrow> 'w kstate \<Rightarrow> 'w kstate option" where
  "kernel_call e m_user caller s =
     (let s1 = upd_proc caller (\<lambda>p. p\<lparr>p_delivermsg_vir := m_user\<rparr>) s in
      case copy_msg_from_user e m_user (k_world s1) of
        Some m \<Rightarrow>
          do { (result, m1, s2) \<leftarrow>
                 kernel_call_dispatch e caller (m\<lparr>km_source := p_endpoint (procAt s1 caller)\<rparr>) s1;
               kernel_call_finish e caller (LocalMsg m1) result (s2\<lparr>kbill_kcall := Some caller\<rparr>) }
      | None \<Rightarrow>
          cause_sig e caller (SIGSEGV e)
            (kprint ''WARNING wrong user pointer 0x%08x from process %s / %d''
              [AInt (int m_user), AStr (p_name (procAt s1 caller)), AInt (p_endpoint (procAt s1 caller))] s1))"

definition kernel_call_resume :: "'w kenv \<Rightarrow> nat \<Rightarrow> 'w kstate \<Rightarrow> 'w kstate option" where
  "kernel_call_resume e caller s =
     (let p = procAt s caller in
      if RTS_SLOT_FREE \<in> p_rts_flags p \<or> RTS_VMREQUEST \<in> p_rts_flags p
         \<or> km_source (p_saved_reqmsg p) \<noteq> p_endpoint p
      then None
      else do { (result, m1, s1) \<leftarrow> kernel_call_dispatch e caller (p_saved_reqmsg p) s;
                let s2 = snd (store_msg caller SavedMsg m1 s1);
                let s3 = upd_proc caller (\<lambda>p. p\<lparr>p_misc_flags := p_misc_flags p - {MF_KCALL_RESUME}\<rparr>) s2;
                kernel_call_finish e caller SavedMsg result s3 })"

section \<open>Removing a process from the message queues\<close>

text \<open>
  \<^verbatim>\<open>struct proc **xpp\<close> points to the head of a caller queue or to the link field of a queued
  process. The walk over the queue does not return on a cyclic queue (\<^const>\<open>None\<close>).
\<close>

datatype qloc = CallerQ nat | QLink nat

fun qget :: "proc list \<Rightarrow> qloc \<Rightarrow> nat option" where
  "qget ps (CallerQ n) = p_caller_q (ps ! n)"
| "qget ps (QLink n) = p_q_link (ps ! n)"

fun qset :: "qloc \<Rightarrow> nat option \<Rightarrow> proc list \<Rightarrow> proc list" where
  "qset (CallerQ n) v ps = upd_at n (\<lambda>p. p\<lparr>p_caller_q := v\<rparr>) ps"
| "qset (QLink n) v ps = upd_at n (\<lambda>p. p\<lparr>p_q_link := v\<rparr>) ps"

partial_function (option) unlink_loop :: "nat \<Rightarrow> qloc \<Rightarrow> proc list \<Rightarrow> proc list option" where
  "unlink_loop rc x ps =
     (case qget ps x of
        None \<Rightarrow> Some ps
      | Some y \<Rightarrow> if y = rc then Some (qset x (p_q_link (ps ! y)) ps) else unlink_loop rc (QLink y) ps)"

declare unlink_loop.simps [code]

definition clear_ipc :: "'w kenv \<Rightarrow> nat \<Rightarrow> 'w kstate \<Rightarrow> 'w kstate option" where
  "clear_ipc e rc s =
     do { s1 \<leftarrow> (if RTS_SENDING \<in> p_rts_flags (procAt s rc)
                then do { target \<leftarrow> isokendpt e (procs s) (p_sendto_e (procAt s rc));
                          ps \<leftarrow> unlink_loop rc (CallerQ target) (procs s);
                          Some (RTS_UNSET e rc {RTS_SENDING} (s\<lparr>procs := ps\<rparr>)) }
                else Some s);
          Some (RTS_UNSET e rc {RTS_RECEIVING} s1) }"

text \<open>The two loops of \<^verbatim>\<open>clear_ipc_refs\<close>.\<close>

partial_function (option) cancel_asends :: "'w kenv \<Rightarrow> nat \<Rightarrow> 'w kstate \<Rightarrow> 'w kstate option" where
  "cancel_asends e rc s =
     (case has_pending_asend e rc s of
        None \<Rightarrow> Some s
      | Some src_id \<Rightarrow>
          (case id_to_nr s src_id of
             None \<Rightarrow> None
           | Some src \<Rightarrow> cancel_asends e rc (cancel_async e src rc s)))"

declare cancel_asends.simps [code]

definition clear_ref :: "'w kenv \<Rightarrow> nat \<Rightarrow> ret \<Rightarrow> nat \<Rightarrow> 'w kstate \<Rightarrow> 'w kstate option" where
  "clear_ref e rc caller_ret rp s =
     (if isemptyp e (procAt s rp) then Some s
      else
        (let own = s_id (privOf s rc);
             s1 = upd_priv (p_priv (procAt s rp)) (\<lambda>q. q\<lparr>s_notify_pending := s_notify_pending q - {own}\<rparr>) s;
             s2 = upd_priv (p_priv (procAt s1 rp)) (\<lambda>q. q\<lparr>s_asyn_pending := s_asyn_pending q - {own}\<rparr>) s1
         in if P_BLOCKEDON e (procAt s2 rp) = p_endpoint (procAt s2 rc)
            then clear_ipc e rp (upd_proc rp (\<lambda>p. p\<lparr>p_retreg := caller_ret\<rparr>) s2)
            else Some s2))"

fun clear_refs :: "'w kenv \<Rightarrow> nat \<Rightarrow> ret \<Rightarrow> nat list \<Rightarrow> 'w kstate \<Rightarrow> 'w kstate option" where
  "clear_refs e rc caller_ret [] s = Some s"
| "clear_refs e rc caller_ret (rp # rps) s =
     do { s1 \<leftarrow> clear_ref e rc caller_ret rp s; clear_refs e rc caller_ret rps s1 }"

definition clear_ipc_refs :: "'w kenv \<Rightarrow> nat \<Rightarrow> ret \<Rightarrow> 'w kstate \<Rightarrow> 'w kstate option" where
  "clear_ipc_refs e rc caller_ret s =
     do { s1 \<leftarrow> cancel_asends e rc s; clear_refs e rc caller_ret [0..<length (procs s1)] s1 }"

definition clear_endpoint :: "'w kenv \<Rightarrow> nat \<Rightarrow> 'w kstate \<Rightarrow> 'w kstate option" where
  "clear_endpoint e rc s =
     (if isemptyp e (procAt s rc) then None
      else
        (let s1 = RTS_SET e rc {RTS_NO_ENDPOINT} s;
             s2 = (if SYS_PROC \<in> s_flags (privOf s1 rc)
                   then upd_priv (p_priv (procAt s1 rc)) (\<lambda>q. q\<lparr>s_asynsize := 0\<rparr>) s1 else s1)
         in do { s3 \<leftarrow> clear_ipc e rc s2; clear_ipc_refs e rc (Err EDEADSRCDST) s3 }))"

section \<open>Scheduling\<close>

definition sched_proc_range :: "'w kenv \<Rightarrow> int \<Rightarrow> int \<Rightarrow> bool" where
  "sched_proc_range e priority quantum \<longleftrightarrow>
     \<not> ((priority < TASK_Q e \<and> priority \<noteq> -1) \<or> priority > K_NR_SCHED_QUEUES e)
     \<and> \<not> (quantum < 1 \<and> quantum \<noteq> -1)"

definition sched_proc :: "'w kenv \<Rightarrow> nat \<Rightarrow> int \<Rightarrow> int \<Rightarrow> int \<Rightarrow> 'w kstate \<Rightarrow> ret \<times> 'w kstate" where
  "sched_proc e p priority quantum cpu s =
     (if \<not> sched_proc_range e priority quantum then (Err EINVAL, s)
      else
        (let s0 = kprint (''Minix (200010004): Allotted Quantum: %d ms'' @ [CHR 0x0A] @ ''Minix (200010004): Used Quantum: %d ms'')
                    [AInt (p_quantum_size_ms (procAt s p)),
                     AInt (p_quantum_size_ms (procAt s p) - cpu_time_2_ms e (p_cpu_time_left (procAt s p)))] s in
         if K_CONFIG_SMP e \<and> ((cpu < 0 \<and> cpu \<noteq> -1) \<or> (cpu > 0 \<and> cpu \<ge> ncpus e)) then (Err EINVAL, s0)
         else if K_CONFIG_SMP e \<and> cpu \<noteq> -1 \<and> \<not> cpu_is_ready e cpu then (Err EBADCPU, s0)
         else
           (let s1 = (if proc_is_runnable e (procAt s0 p)
                      then RTS_SET e p {RTS_NO_QUANTUM}
                             (if K_CONFIG_SMP e \<and> p_cpu (procAt s0 p) \<noteq> cpuid e \<and> cpu \<noteq> -1 \<and> cpu \<noteq> p_cpu (procAt s0 p)
                              then smp_schedule_migrate_proc e p cpu s0 else s0)
                      else s0);
                s2 = (if proc_is_runnable e (procAt s1 p) then RTS_SET e p {RTS_NO_QUANTUM} s1 else s1);
                s3 = (if priority \<noteq> -1 then upd_proc p (\<lambda>q. q\<lparr>p_priority := priority\<rparr>) s2 else s2);
                s4 = (if quantum \<noteq> -1
                      then upd_proc p (\<lambda>q. q\<lparr>p_quantum_size_ms := quantum, p_cpu_time_left := ms_2_cpu_time e quantum\<rparr>) s3
                      else s3);
                s5 = (if K_CONFIG_SMP e \<and> cpu \<noteq> -1 then upd_proc p (\<lambda>q. q\<lparr>p_cpu := cpu\<rparr>) s4 else s4)
            in (OK, RTS_UNSET e p {RTS_NO_QUANTUM} s5))))"

section \<open>Frame lemmas\<close>

named_theorems k_frame "what the updates of the kernel state leave unchanged"

lemma upd_proc_sel [simp, k_frame]:
  "privs (upd_proc i f s) = privs s" "call_vec (upd_proc i f s) = call_vec s"
  "irq_hooks (upd_proc i f s) = irq_hooks s" "k_console (upd_proc i f s) = k_console s"
  "kbill_kcall (upd_proc i f s) = kbill_kcall s" "k_world (upd_proc i f s) = k_world s"
  "procs (upd_proc i f s) = upd_at i f (procs s)"
  by (simp_all add: upd_proc_def)

lemma upd_priv_sel [simp, k_frame]:
  "procs (upd_priv i g s) = procs s" "call_vec (upd_priv i g s) = call_vec s"
  "irq_hooks (upd_priv i g s) = irq_hooks s" "k_console (upd_priv i g s) = k_console s"
  "kbill_kcall (upd_priv i g s) = kbill_kcall s" "k_world (upd_priv i g s) = k_world s"
  "privs (upd_priv i g s) = upd_at i g (privs s)"
  by (simp_all add: upd_priv_def)

lemma kprint_sel [simp, k_frame]:
  "procs (kprint f a s) = procs s" "privs (kprint f a s) = privs s" "call_vec (kprint f a s) = call_vec s"
  "irq_hooks (kprint f a s) = irq_hooks s" "kbill_kcall (kprint f a s) = kbill_kcall s"
  "k_world (kprint f a s) = k_world s" "k_console (kprint f a s) = k_console s @ [(f, a)]"
  by (simp_all add: kprint_def printf_def)

lemma RTS_SET_sel [simp, k_frame]:
  "privs (RTS_SET e i f s) = privs s" "call_vec (RTS_SET e i f s) = call_vec s"
  "irq_hooks (RTS_SET e i f s) = irq_hooks s" "k_console (RTS_SET e i f s) = k_console s"
  "procs (RTS_SET e i f s) = upd_at i (\<lambda>p. p\<lparr>p_rts_flags := p_rts_flags p \<union> f\<rparr>) (procs s)"
  by (simp_all add: RTS_SET_def Let_def)

lemma RTS_UNSET_sel [simp, k_frame]:
  "privs (RTS_UNSET e i f s) = privs s" "call_vec (RTS_UNSET e i f s) = call_vec s"
  "irq_hooks (RTS_UNSET e i f s) = irq_hooks s" "k_console (RTS_UNSET e i f s) = k_console s"
  "procs (RTS_UNSET e i f s) = upd_at i (\<lambda>p. p\<lparr>p_rts_flags := p_rts_flags p - f\<rparr>) (procs s)"
  by (simp_all add: RTS_UNSET_def Let_def)

section \<open>The call vector: lemmas\<close>

definition call_index :: "'w kenv \<Rightarrow> ksyscall \<Rightarrow> nat" where
  "call_index e c = nat (SYS_nr e c - KERNEL_CALL e)"

definition call_numbers_ok :: "'w kenv \<Rightarrow> nat \<Rightarrow> bool" where
  "call_numbers_ok e n \<longleftrightarrow> (\<forall>c. KERNEL_CALL e \<le> SYS_nr e c \<and> SYS_nr e c < KERNEL_CALL e + int n)
     \<and> inj (SYS_nr e)"

lemma call_index_inj: "call_numbers_ok e n \<Longrightarrow> call_index e c = call_index e d \<Longrightarrow> c = d"
  unfolding call_numbers_ok_def call_index_def inj_def
  by (metis diff_ge_0_iff_ge eq_nat_nat_iff diff_add_cancel)

lemma map_call_ok:
  "call_numbers_ok e (length cv) \<Longrightarrow> map_call e c h cv = Some (cv[call_index e c := Some h])"
  by (simp add: map_call_def call_numbers_ok_def call_index_def Let_def algebra_simps)

lemma call_index_less: "call_numbers_ok e n \<Longrightarrow> call_index e c < n"
  by (auto simp: call_numbers_ok_def call_index_def nat_less_iff algebra_simps)

lemma map_calls_ok:
  assumes "call_numbers_ok e (length cv)" and "distinct (map fst ps)"
  shows "\<exists>cv'. map_calls e ps cv = Some cv' \<and> length cv' = length cv
     \<and> (\<forall>c. cv' ! call_index e c = (case map_of ps c of Some h \<Rightarrow> Some h | None \<Rightarrow> cv ! call_index e c))
     \<and> (\<forall>i. (\<forall>c. call_index e c \<noteq> i) \<longrightarrow> cv' ! i = cv ! i)"
  using assms
proof (induction ps arbitrary: cv)
  case Nil
  then show ?case by simp
next
  case (Cons a ps)
  obtain c h where a: "a = (c, h)" by (cases a)
  let ?cv = "cv[call_index e c := Some h]"
  have "call_numbers_ok e (length ?cv)" "distinct (map fst ps)" using Cons.prems by simp_all
  from Cons.IH [OF this] obtain cv' where IH: "map_calls e ps ?cv = Some cv'"
    "length cv' = length cv"
    "\<And>d. cv' ! call_index e d = (case map_of ps d of Some h \<Rightarrow> Some h | None \<Rightarrow> ?cv ! call_index e d)"
    "\<And>i. (\<forall>c. call_index e c \<noteq> i) \<Longrightarrow> cv' ! i = ?cv ! i" by auto
  have none: "map_of ps c = None" using Cons.prems(2) a by (auto simp: map_of_eq_None_iff)
  have "cv' ! call_index e d = (case map_of (a # ps) d of Some h \<Rightarrow> Some h | None \<Rightarrow> cv ! call_index e d)" for d
  proof (cases "d = c")
    case True
    then show ?thesis using IH(3) [of d] none a call_index_less [OF Cons.prems(1), of c] by simp
  next
    case False
    then have "call_index e c \<noteq> call_index e d" using call_index_inj [OF Cons.prems(1)] by metis
    then show ?thesis using IH(3) [of d] False a by (simp split: option.split)
  qed
  moreover have "map_calls e (a # ps) cv = Some cv'"
    using IH(1) a map_call_ok [OF Cons.prems(1)] by simp
  moreover have "cv' ! i = cv ! i" if "\<forall>c. call_index e c \<noteq> i" for i
    using IH(4) [OF that] that by simp
  ultimately show ?case using IH(2) by blast
qed

lemma call_map_distinct: "distinct (map fst (call_map a))"
  by (cases a) (simp_all add: call_map_def)


section \<open>Privileges: lemmas\<close>

lemma find_dyn_priv_step:
  "k < n \<Longrightarrow> s_proc_nr (ps ! k) = None \<Longrightarrow> find_dyn_priv ps k n = Some k"
  "k < n \<Longrightarrow> s_proc_nr (ps ! k) \<noteq> None \<Longrightarrow> find_dyn_priv ps k n = find_dyn_priv ps (Suc k) n"
  "n \<le> k \<Longrightarrow> find_dyn_priv ps k n = None"
  by (subst find_dyn_priv.simps; force)+

lemma find_dyn_priv_Some:
  "find_dyn_priv ps k n = Some j \<Longrightarrow> k \<le> j \<and> j < n \<and> s_proc_nr (ps ! j) = None"
proof (induction ps k n rule: find_dyn_priv.induct)
  case (1 ps k n)
  consider "n \<le> k" | "k < n" "s_proc_nr (ps ! k) = None" | "k < n" "s_proc_nr (ps ! k) \<noteq> None"
    by fastforce
  then show ?case using 1 by cases (simp_all add: find_dyn_priv_step)
qed

lemma find_dyn_priv_None:
  "find_dyn_priv ps k n = None \<Longrightarrow> k \<le> i \<Longrightarrow> i < n \<Longrightarrow> s_proc_nr (ps ! i) \<noteq> None"
proof (induction ps k n rule: find_dyn_priv.induct)
  case (1 ps k n)
  consider "n \<le> k" | "k < n" "s_proc_nr (ps ! k) = None" | "k < n" "s_proc_nr (ps ! k) \<noteq> None"
    by fastforce
  then show ?case
  proof cases
    case 3
    then show ?thesis using 1 by (cases "i = k") (simp_all add: find_dyn_priv_step)
  qed (use 1 in \<open>simp_all add: find_dyn_priv_step\<close>)
qed

text \<open>
  \<^verbatim>\<open>get_priv\<close> assigns a privilege structure that was free, associates it with the process
  and leaves every other process and structure as it was; it fails exactly when the dynamic
  range is full, the static id is invalid, or the static structure is taken, and then changes
  nothing.
\<close>

theorem get_priv_spec:
  assumes "rc < length (procs s)" and "DYN_PRIV_END e \<le> length (privs s)"
    and "\<And>i. is_static_priv_id e i \<Longrightarrow> 0 \<le> i \<and> i < int (length (privs s))"
  shows "case get_priv e rc pid s of
      (Ret r, s') \<Rightarrow> r = 0 \<and>
        (let sp = p_priv (procAt s' rc) in
           s_proc_nr (privs s ! sp) = None \<and> sp < length (privs s)
         \<and> s_proc_nr (privs s' ! sp) = Some rc
         \<and> (if pid = NULL_PRIV_ID e then DYN_PRIV_BEG e \<le> sp \<and> sp < DYN_PRIV_END e else int sp = pid)
         \<and> (\<forall>k. k \<noteq> sp \<longrightarrow> privs s' ! k = privs s ! k) \<and> (\<forall>i. i \<noteq> rc \<longrightarrow> procAt s' i = procAt s i))
    | (Err err, s') \<Rightarrow> s' = s \<and>
        (if pid = NULL_PRIV_ID e
         then err = ENOSPC \<and> (\<forall>k. DYN_PRIV_BEG e \<le> k \<and> k < DYN_PRIV_END e \<longrightarrow> s_proc_nr (privs s ! k) \<noteq> None)
         else if is_static_priv_id e pid then err = EBUSY \<and> s_proc_nr (privs s ! nat pid) \<noteq> None
         else err = EINVAL)"
proof (cases "get_priv_slot e pid s")
  case (Inl err)
  then show ?thesis
    by (auto simp: get_priv_def get_priv_slot_def dest: find_dyn_priv_None split: if_splits option.splits)
next
  case (Inr sp)
  then have sp: "s_proc_nr (privs s ! sp) = None" "sp < length (privs s)"
    "if pid = NULL_PRIV_ID e then DYN_PRIV_BEG e \<le> sp \<and> sp < DYN_PRIV_END e else int sp = pid"
    using assms(2,3) by (auto simp: get_priv_slot_def nat_less_iff dest!: find_dyn_priv_Some split: if_splits option.splits)
  then show ?thesis using assms(1) Inr by (simp add: get_priv_def Let_def)
qed

text \<open>
  \<open>ids_ok\<close>: each privilege structure carries its own index as id, as the kernel's boot code sets
  them up, and there are \<^verbatim>\<open>NR_SYS_PROCS\<close> of them.
\<close>

definition ids_ok :: "'w kenv \<Rightarrow> 'w kstate \<Rightarrow> bool" where
  "ids_ok e s \<longleftrightarrow> length (privs s) = NR_SYS_PROCS e \<and> (\<forall>k<NR_SYS_PROCS e. s_id (privs s ! k) = k)"

definition sendto_step :: "'w kenv \<Rightarrow> nat \<Rightarrow> nat set \<Rightarrow> nat \<Rightarrow> 'w kstate \<Rightarrow> 'w kstate" where
  "sendto_step e rp sys_map i s =
     (if i \<in> sys_map then set_sendto_bit e rp i s else unset_sendto_bit e rp i s)"

text \<open>What a step does to each send mask, with \<open>o\<close> the index of the process's own structure.\<close>

definition mask_after :: "'w kenv \<Rightarrow> nat set \<Rightarrow> nat \<Rightarrow> priv list \<Rightarrow> nat \<Rightarrow> nat \<Rightarrow> nat set" where
  "mask_after e sys_map ow ps i k =
     (if k = ow then (if i \<in> sys_map \<and> s_proc_nr (ps ! i) \<noteq> None \<and> i \<noteq> ow then insert i (s_ipc_to (ps ! k))
                     else s_ipc_to (ps ! k) - {i})
      else if k = i then
        (if i \<notin> sys_map then s_ipc_to (ps ! k) - {ow}
         else if s_proc_nr (ps ! i) \<noteq> None \<and> s_trap_mask (ps ! i) - {RECEIVE e} \<noteq> {}
              then insert ow (s_ipc_to (ps ! k)) else s_ipc_to (ps ! k))
      else s_ipc_to (ps ! k))"

lemma sendto_step_effect:
  assumes "ids_ok e s" and ow: "ow = p_priv (procAt s rp)" "ow < NR_SYS_PROCS e" and "i < NR_SYS_PROCS e"
  shows "procs (sendto_step e rp sys_map i s) = procs s \<and> ids_ok e (sendto_step e rp sys_map i s)
    \<and> (\<forall>k<NR_SYS_PROCS e. privs (sendto_step e rp sys_map i s) ! k
        = (privs s ! k)\<lparr>s_ipc_to := mask_after e sys_map ow (privs s) i k\<rparr>)"
  using assms
  by (auto simp: sendto_step_def set_sendto_bit_def unset_sendto_bit_def mask_after_def ids_ok_def
      id_to_nr_def priv_id_def Let_def nth_upd_at)

lemma fill_sendto_mask_fold:
  "fill_sendto_mask e rp sys_map s = fold (sendto_step e rp sys_map) [0..<NR_SYS_PROCS e] s"
  unfolding fill_sendto_mask_def sendto_step_def by (rule fold_cong) (auto simp: fun_eq_iff)

definition mask_upto :: "'w kenv \<Rightarrow> nat set \<Rightarrow> nat \<Rightarrow> priv list \<Rightarrow> nat \<Rightarrow> nat \<Rightarrow> nat set" where
  "mask_upto e sys_map ow ps n k =
     (if k = ow then {i. if i < n then i \<in> sys_map \<and> s_proc_nr (ps ! i) \<noteq> None \<and> i \<noteq> ow else i \<in> s_ipc_to (ps ! k)}
      else if k < n then
        (if k \<notin> sys_map then s_ipc_to (ps ! k) - {ow}
         else if s_proc_nr (ps ! k) \<noteq> None \<and> s_trap_mask (ps ! k) - {RECEIVE e} \<noteq> {}
              then insert ow (s_ipc_to (ps ! k)) else s_ipc_to (ps ! k))
      else s_ipc_to (ps ! k))"

lemma fill_sendto_mask_upto:
  fixes e :: "'w kenv" and sys_map :: "nat set"
  assumes "ids_ok e s" and "ow = p_priv (procAt s rp)" and "ow < NR_SYS_PROCS e" and "n \<le> NR_SYS_PROCS e"
  defines "sn \<equiv> fold (sendto_step e rp sys_map) [0..<n] s"
  shows "procs sn = procs s \<and> ids_ok e sn
     \<and> (\<forall>k<NR_SYS_PROCS e. privs sn ! k = (privs s ! k)\<lparr>s_ipc_to := mask_upto e sys_map ow (privs s) n k\<rparr>)"
  using assms(4) unfolding sn_def
proof (induction n)
  case 0
  then show ?case using assms(1) by (simp add: mask_upto_def)
next
  case (Suc n)
  let ?sn = "fold (sendto_step e rp sys_map) [0..<n] s"
  have IH: "procs ?sn = procs s" "ids_ok e ?sn"
    "\<And>k. k < NR_SYS_PROCS e \<Longrightarrow> privs ?sn ! k = (privs s ! k)\<lparr>s_ipc_to := mask_upto e sys_map ow (privs s) n k\<rparr>"
    using Suc by simp_all
  have step: "procs (sendto_step e rp sys_map n ?sn) = procs ?sn"
    "ids_ok e (sendto_step e rp sys_map n ?sn)"
    "\<And>k. k < NR_SYS_PROCS e \<Longrightarrow> privs (sendto_step e rp sys_map n ?sn) ! k
        = (privs ?sn ! k)\<lparr>s_ipc_to := mask_after e sys_map ow (privs ?sn) n k\<rparr>"
    using sendto_step_effect [OF IH(2), of ow rp n sys_map] assms(2,3) Suc.prems IH(1) by auto
  have mask: "mask_after e sys_map ow (privs ?sn) n k = mask_upto e sys_map ow (privs s) (Suc n) k"
    if "k < NR_SYS_PROCS e" for k
  proof -
    have "mask_after e sys_map ow (privs ?sn) n k =
        (let M = mask_upto e sys_map ow (privs s) n k; p = privs s ! n in
         if k = ow then (if n \<in> sys_map \<and> s_proc_nr p \<noteq> None \<and> n \<noteq> ow then insert n M else M - {n})
         else if k = n then
           (if n \<notin> sys_map then M - {ow}
            else if s_proc_nr p \<noteq> None \<and> s_trap_mask p - {RECEIVE e} \<noteq> {} then insert ow M else M)
         else M)"
      using that Suc.prems IH(3) [of n] IH(3) [of k] by (simp only: mask_after_def Let_def) (simp, fastforce)
    also have "\<dots> = mask_upto e sys_map ow (privs s) (Suc n) k"
      unfolding Let_def mask_upto_def
      by (cases "k = ow"; cases "k = n"; cases "k < n") (auto simp: less_Suc_eq)
    finally show ?thesis .
  qed
  show ?case using step IH mask by simp
qed

text \<open>
  \<^verbatim>\<open>fill_sendto_mask\<close> leaves the process able to send to exactly the structures in the given map
  that belong to a process other than itself, and makes the relation symmetric: every other
  structure in use in the map whose process can do more than receive may answer, every structure
  outside the map may no longer send to it. No mask bit of an unrelated structure changes.
\<close>

theorem fill_sendto_mask_exact:
  assumes "ids_ok e s" and "p_priv (procAt s rp) < NR_SYS_PROCS e"
  shows "let ow = p_priv (procAt s rp); s' = fill_sendto_mask e rp sys_map s in
     (\<forall>i<NR_SYS_PROCS e. i \<in> s_ipc_to (privs s' ! ow) \<longleftrightarrow> i \<in> sys_map \<and> id_to_nr s i \<noteq> None \<and> i \<noteq> ow)
   \<and> (\<forall>i<NR_SYS_PROCS e. i \<noteq> ow \<longrightarrow>
       (ow \<in> s_ipc_to (privs s' ! i) \<longleftrightarrow> i \<in> sys_map \<and>
          (ow \<in> s_ipc_to (privs s ! i) \<or> id_to_nr s i \<noteq> None \<and> s_trap_mask (privs s ! i) - {RECEIVE e} \<noteq> {}))
     \<and> s_ipc_to (privs s' ! i) - {ow} = s_ipc_to (privs s ! i) - {ow})"
  using fill_sendto_mask_upto [OF assms(1) refl assms(2) order_refl, of sys_map] assms(2)
  unfolding Let_def fill_sendto_mask_fold by (auto simp: mask_upto_def id_to_nr_def)

section \<open>Kernel signals: lemmas\<close>

text \<open>
  What the signal and queue code relies on in the rest of the kernel. \<open>endpoint_laws\<close>: an empty
  slot has exactly the flag \<^verbatim>\<open>RTS_SLOT_FREE\<close>; looking up an endpoint gives a used slot with that
  endpoint, and depends on the endpoints and on which slots are empty only. \<open>notify_laws\<close>:
  \<^verbatim>\<open>mini_notify\<close> may end a receive and deliver or note the notification, and touches no signal
  state.
\<close>

definition endpoint_laws :: "'w kenv \<Rightarrow> bool" where
  "endpoint_laws e \<longleftrightarrow>
     (\<forall>p. isemptyp e p \<longleftrightarrow> p_rts_flags p = {RTS_SLOT_FREE})
   \<and> (\<forall>ps ep i. isokendpt e ps ep = Some i \<longrightarrow> i < length ps \<and> p_endpoint (ps ! i) = ep \<and> \<not> isemptyp e (ps ! i))
   \<and> (\<forall>ps qs. map p_endpoint ps = map p_endpoint qs \<and> map (isemptyp e) ps = map (isemptyp e) qs
        \<longrightarrow> isokendpt e ps = isokendpt e qs)"

definition same_signals :: "'w kstate \<Rightarrow> 'w kstate \<Rightarrow> bool" where
  "same_signals s t \<longleftrightarrow>
     map (\<lambda>p. (p_endpoint p, p_priv p, p_pending p, p_signal_received p, p_rts_flags p - {RTS_RECEIVING})) (procs s)
   = map (\<lambda>p. (p_endpoint p, p_priv p, p_pending p, p_signal_received p, p_rts_flags p - {RTS_RECEIVING})) (procs t)
   \<and> map (\<lambda>q. (s_sig_pending q, s_sig_mgr q, s_bak_sig_mgr q, s_proc_nr q)) (privs s)
   = map (\<lambda>q. (s_sig_pending q, s_sig_mgr q, s_bak_sig_mgr q, s_proc_nr q)) (privs t)"

definition notify_laws :: "'w kenv \<Rightarrow> bool" where
  "notify_laws e \<longleftrightarrow> (\<forall>n ep s. same_signals (mini_notify e n ep s) s)"

lemma same_signals_proc:
  assumes "same_signals s t" and "i < length (procs t)"
  shows "length (procs s) = length (procs t)" "p_endpoint (procAt s i) = p_endpoint (procAt t i)"
    "p_priv (procAt s i) = p_priv (procAt t i)" "p_pending (procAt s i) = p_pending (procAt t i)"
    "p_signal_received (procAt s i) = p_signal_received (procAt t i)"
    "p_rts_flags (procAt s i) - {RTS_RECEIVING} = p_rts_flags (procAt t i) - {RTS_RECEIVING}"
proof -
  show len: "length (procs s) = length (procs t)"
    using assms(1) [unfolded same_signals_def, THEN conjunct1, THEN arg_cong [where f = length]] by simp
  let ?f = "\<lambda>p. (p_endpoint p, p_priv p, p_pending p, p_signal_received p, p_rts_flags p - {RTS_RECEIVING})"
  have "map ?f (procs s) ! i = map ?f (procs t) ! i" using assms(1) by (simp add: same_signals_def)
  then have "?f (procs s ! i) = ?f (procs t ! i)" using assms(2) len by simp
  then show "p_endpoint (procAt s i) = p_endpoint (procAt t i)"
    "p_priv (procAt s i) = p_priv (procAt t i)" "p_pending (procAt s i) = p_pending (procAt t i)"
    "p_signal_received (procAt s i) = p_signal_received (procAt t i)"
    "p_rts_flags (procAt s i) - {RTS_RECEIVING} = p_rts_flags (procAt t i) - {RTS_RECEIVING}" by simp_all
qed

lemma same_signals_priv:
  assumes "same_signals s t" and "k < length (privs t)"
  shows "length (privs s) = length (privs t)" "s_sig_pending (privs s ! k) = s_sig_pending (privs t ! k)"
    "s_sig_mgr (privs s ! k) = s_sig_mgr (privs t ! k)" "s_bak_sig_mgr (privs s ! k) = s_bak_sig_mgr (privs t ! k)"
proof -
  show len: "length (privs s) = length (privs t)"
    using assms(1) [unfolded same_signals_def, THEN conjunct2, THEN arg_cong [where f = length]] by simp
  let ?f = "\<lambda>q. (s_sig_pending q, s_sig_mgr q, s_bak_sig_mgr q, s_proc_nr q)"
  have "map ?f (privs s) ! k = map ?f (privs t) ! k" using assms(1) by (simp add: same_signals_def)
  then have "?f (privs s ! k) = ?f (privs t ! k)" using assms(2) len by simp
  then show "s_sig_pending (privs s ! k) = s_sig_pending (privs t ! k)"
    "s_sig_mgr (privs s ! k) = s_sig_mgr (privs t ! k)" "s_bak_sig_mgr (privs s ! k) = s_bak_sig_mgr (privs t ! k)"
    by simp_all
qed

lemma isemptyp_iff: "endpoint_laws e \<Longrightarrow> isemptyp e p \<longleftrightarrow> p_rts_flags p = {RTS_SLOT_FREE}"
  by (simp add: endpoint_laws_def)

lemma isokendptD:
  assumes "endpoint_laws e" and "isokendpt e ps ep = Some i"
  shows "i < length ps" "p_endpoint (ps ! i) = ep" "\<not> isemptyp e (ps ! i)"
  using assms unfolding endpoint_laws_def by metis+

lemma isokendpt_upd:
  assumes "endpoint_laws e" and "\<And>p. p_endpoint (f p) = p_endpoint p"
    and "isemptyp e (f (ps ! i)) = isemptyp e (ps ! i)"
  shows "isokendpt e (upd_at i f ps) = isokendpt e ps"
proof -
  have "map (isemptyp e) (upd_at i f ps) = map (isemptyp e) ps"
    using assms(3) by (intro nth_equalityI) (auto simp: nth_upd_at)
  moreover have "map p_endpoint (upd_at i f ps) = map p_endpoint ps" by (rule map_upd_at_inv) (rule assms(2))
  ultimately show ?thesis using assms(1) unfolding endpoint_laws_def by blast
qed

lemma send_sig_ok:
  assumes "notify_laws e" and "isokendpt e (procs s) ep = Some n" and "n < length (procs s)"
    and "\<not> isemptyp e (procAt s n)" and "p_priv (procAt s n) < length (privs s)"
  shows "\<exists>s'. send_sig e ep sig_nr s = (OK, s') \<and>
     same_signals s' (upd_proc n (\<lambda>p. p\<lparr>p_signal_received := p_signal_received p + 1\<rparr>)
        (upd_priv (p_priv (procAt s n)) (\<lambda>q. q\<lparr>s_sig_pending := insert sig_nr (s_sig_pending q)\<rparr>) s))"
  using assms by (auto simp: send_sig_def has_priv_def notify_laws_def Let_def)

lemma cause_sig_delivers_aux:
  assumes laws: "endpoint_laws e" "notify_laws e"
    and n: "n < length (procs s)" "\<not> isemptyp e (procAt s n)" "p_priv (procAt s n) < length (privs s)"
    and mgr: "sig_mgr_of e n s \<noteq> p_endpoint (procAt s n)"
      "isokendpt e (procs s) (sig_mgr_of e n s) = Some g" "p_priv (procAt s g) < length (privs s)"
  shows "\<exists>s'. cause_sig e n sig_nr s = Some s' \<and> sig_nr \<in> p_pending (procAt s' n)
     \<and> (sig_nr \<in> p_pending (procAt s n) \<longrightarrow> s' = s)
     \<and> (sig_nr \<notin> p_pending (procAt s n) \<longrightarrow>
          p_pending (procAt s' n) = insert sig_nr (p_pending (procAt s n))
        \<and> p_signal_received (procAt s' n) = p_signal_received (procAt s n) + 1
        \<and> (if RTS_SIGNALED \<in> p_rts_flags (procAt s n) then privs s' = privs s
           else {RTS_SIGNALED, RTS_SIG_PENDING} \<subseteq> p_rts_flags (procAt s' n)
              \<and> SIGKSIG e \<in> s_sig_pending (privOf s' g)))"
proof -
  let ?s2 = "upd_proc n (\<lambda>p. p\<lparr>p_signal_received := p_signal_received p + 1\<rparr>)
               (upd_proc n (\<lambda>p. p\<lparr>p_pending := insert sig_nr (p_pending p)\<rparr>) s)"
  let ?s3 = "RTS_SET e n {RTS_SIGNALED, RTS_SIG_PENDING} ?s2"
  have hp: "has_priv s n" using n(3) by (simp add: has_priv_def)
  have g: "g < length (procs s)" "p_endpoint (procAt s g) = sig_mgr_of e n s" "\<not> isemptyp e (procAt s g)"
    using isokendptD [OF laws(1) mgr(2)] by simp_all
  have gn: "g \<noteq> n" using g(2) mgr(1) by metis
  have ok3: "isokendpt e (procs ?s3) = isokendpt e (procs s)"
    using n(2) unfolding RTS_SET_sel upd_proc_sel upd_at_upd_at_same
    by (intro isokendpt_upd [OF laws(1)]) (auto simp: isemptyp_iff [OF laws(1)])
  have pr3: "procAt ?s3 g = procAt s g" using gn by simp
  obtain s' where s': "send_sig e (sig_mgr_of e n s) (SIGKSIG e) ?s3 = (OK, s')"
    "same_signals s' (upd_proc g (\<lambda>p. p\<lparr>p_signal_received := p_signal_received p + 1\<rparr>)
        (upd_priv (p_priv (procAt ?s3 g)) (\<lambda>q. q\<lparr>s_sig_pending := insert (SIGKSIG e) (s_sig_pending q)\<rparr>) ?s3))"
    (is "same_signals s' ?t")
    using send_sig_ok [OF laws(2), of ?s3 "sig_mgr_of e n s" g "SIGKSIG e"] g mgr pr3 ok3 by auto
  have cause: "cause_sig e n sig_nr s =
     (if sig_nr \<in> p_pending (procAt s n) then Some s
      else if RTS_SIGNALED \<notin> p_rts_flags (procAt s n) then Some s' else Some ?s2)"
    using hp mgr(1) n(1) s'(1) by (subst cause_sig.simps) (simp add: Let_def del: upd_at_upd_at_same)
  have fl: "p_rts_flags (procAt s' n) - {RTS_RECEIVING} = p_rts_flags (procAt ?t n) - {RTS_RECEIVING}"
    and pe: "p_pending (procAt s' n) = p_pending (procAt ?t n)"
    and rc: "p_signal_received (procAt s' n) = p_signal_received (procAt ?t n)"
    and pg: "p_priv (procAt s' g) = p_priv (procAt ?t g)"
    and sg: "s_sig_pending (privs s' ! p_priv (procAt s g)) = s_sig_pending (privs ?t ! p_priv (procAt s g))"
    using same_signals_proc [OF s'(2), of n] same_signals_proc [OF s'(2), of g] n(1) g(1) mgr(3)
      same_signals_priv [OF s'(2), of "p_priv (procAt s g)"] by simp_all
  have "{RTS_SIGNALED, RTS_SIG_PENDING} \<subseteq> p_rts_flags (procAt s' n)"
    using fl gn n(1) by (auto simp: set_eq_iff)
  then show ?thesis unfolding cause using n(1) gn pe rc pg sg pr3 mgr(3) g(1) by (auto simp: nth_upd_at)
qed


lemma cause_sig_switch:
  assumes "p_priv (procAt s n) < length (privs s)" and "sig_mgr_of e n s = p_endpoint (procAt s n)"
    and "SIGS_IS_LETHAL e sig_nr"
  shows "cause_sig e n sig_nr s =
     (let bak = s_bak_sig_mgr (privOf s n) in
      if bak = NONE e then None
      else (case isokendpt e (procs s) bak of
              None \<Rightarrow> None
            | Some g \<Rightarrow> cause_sig e n sig_nr
                (RTS_UNSET e g {RTS_NO_PRIV}
                  (upd_priv (p_priv (procAt s n)) (\<lambda>q. q\<lparr>s_sig_mgr := bak, s_bak_sig_mgr := NONE e\<rparr>) s))))"
  using assms by (subst cause_sig.simps) (simp add: has_priv_def Let_def split: option.split)

lemma cause_sig_no_backup:
  assumes "s_bak_sig_mgr (privOf s n) = NONE e" and "p_priv (procAt s n) < length (privs s)"
    and "sig_mgr_of e n s = p_endpoint (procAt s n)" and "SIGS_IS_LETHAL e sig_nr"
  shows "cause_sig e n sig_nr s = None"
  using cause_sig_switch [OF assms(2-4)] assms(1) by simp

text \<open>
  A lethal signal for a process that manages its own signals goes to its backup manager: the
  manager is installed, loses \<^verbatim>\<open>RTS_NO_PRIV\<close>, and gets the signal as in the ordinary case. There is
  no second backup: the field is cleared, so the kernel panics (\<^const>\<open>None\<close>) without one, and also
  when the backup of a process is the process itself.
\<close>

theorem cause_sig_backup:
  assumes laws: "endpoint_laws e" "notify_laws e"
    and n: "n < length (procs s)" "RTS_SLOT_FREE \<notin> p_rts_flags (procAt s n)" "p_priv (procAt s n) < length (privs s)"
    and self: "sig_mgr_of e n s = p_endpoint (procAt s n)" "SIGS_IS_LETHAL e sig_nr"
    and bak: "bak = s_bak_sig_mgr (privOf s n)" "bak \<noteq> SELF e"
    and mgr: "bak \<noteq> NONE e \<longrightarrow> isokendpt e (procs s) bak = Some g \<and> p_priv (procAt s g) < length (privs s)
                \<and> RTS_SLOT_FREE \<notin> p_rts_flags (procAt s g)"
  shows "if bak = NONE e \<or> bak = p_endpoint (procAt s n) then cause_sig e n sig_nr s = None
     else \<exists>s'. cause_sig e n sig_nr s = Some s' \<and> sig_nr \<in> p_pending (procAt s' n)
       \<and> (RTS_SIGNALED \<notin> p_rts_flags (procAt s n) \<and> sig_nr \<notin> p_pending (procAt s n)
            \<longrightarrow> SIGKSIG e \<in> s_sig_pending (privOf s' g))"
proof -
  let ?s1 = "RTS_UNSET e g {RTS_NO_PRIV}
    (upd_priv (p_priv (procAt s n)) (\<lambda>q. q\<lparr>s_sig_mgr := bak, s_bak_sig_mgr := NONE e\<rparr>) s)"
  have priv1: "p_priv (procAt ?s1 i) = p_priv (procAt s i)" and ep1: "p_endpoint (procAt ?s1 i) = p_endpoint (procAt s i)"
    and pend1: "p_pending (procAt ?s1 i) = p_pending (procAt s i)"
    for i by (simp_all add: nth_upd_at_inv)
  have pp1: "privs ?s1 = upd_at (p_priv (procAt s n)) (\<lambda>q. q\<lparr>s_sig_mgr := bak, s_bak_sig_mgr := NONE e\<rparr>) (privs s)"
    by simp
  have len1: "length (procs ?s1) = length (procs s)" "length (privs ?s1) = length (privs s)" by simp_all
  show ?thesis
  proof (cases "bak = NONE e")
    case True
    then show ?thesis using cause_sig_switch [OF n(3) self] bak(1) by simp
  next
    case False
    then have g: "isokendpt e (procs s) bak = Some g" "p_priv (procAt s g) < length (privs s)"
      "RTS_SLOT_FREE \<notin> p_rts_flags (procAt s g)" using mgr by simp_all
    have switch: "cause_sig e n sig_nr s = cause_sig e n sig_nr ?s1"
      using cause_sig_switch [OF n(3) self] False g(1) bak(1) by (simp add: Let_def)
    have mgr1: "sig_mgr_of e n ?s1 = bak" using n(3) bak(2) unfolding sig_mgr_of_def priv1 pp1 by simp
    have flags1: "i < length (procs s) \<Longrightarrow> RTS_SLOT_FREE \<notin> p_rts_flags (procAt s i) \<Longrightarrow> \<not> isemptyp e (procAt ?s1 i)" for i
      by (auto simp: isemptyp_iff [OF laws(1)] nth_upd_at)
    show ?thesis
    proof (cases "bak = p_endpoint (procAt s n)")
      case True
      have "s_bak_sig_mgr (privOf ?s1 n) = NONE e" using n(3) unfolding priv1 pp1 by simp
      moreover have "p_priv (procAt ?s1 n) < length (privs ?s1)" using n(3) unfolding priv1 len1 .
      moreover have "sig_mgr_of e n ?s1 = p_endpoint (procAt ?s1 n)" using mgr1 True unfolding ep1 by simp
      ultimately have "cause_sig e n sig_nr ?s1 = None" using self(2) by (rule cause_sig_no_backup)
      then show ?thesis using True switch by simp
    next
      case ne: False
      have ok1: "isokendpt e (procs ?s1) bak = Some g"
        using g(1) isokendptD [OF laws(1) g(1)] g(3) flags1 [of g]
        by (simp, subst isokendpt_upd [OF laws(1)]) simp_all
      have e1: "n < length (procs ?s1)" "\<not> isemptyp e (procAt ?s1 n)" "p_priv (procAt ?s1 n) < length (privs ?s1)"
        "sig_mgr_of e n ?s1 \<noteq> p_endpoint (procAt ?s1 n)" "isokendpt e (procs ?s1) (sig_mgr_of e n ?s1) = Some g"
        "p_priv (procAt ?s1 g) < length (privs ?s1)"
        using n flags1 ne mgr1 ok1 g(2) unfolding priv1 ep1 len1 by simp_all
      have "RTS_SIGNALED \<in> p_rts_flags (procAt ?s1 n) \<longleftrightarrow> RTS_SIGNALED \<in> p_rts_flags (procAt s n)"
        using n(1) by (simp add: nth_upd_at)
      then show ?thesis
        using cause_sig_delivers_aux [OF laws e1, of sig_nr] False ne unfolding switch pend1 by auto
    qed
  qed
qed

section \<open>Message queues: lemmas\<close>

text \<open>\<open>is_queue ps x q\<close>: the chain of link fields that starts at \<open>x\<close> is the list \<open>q\<close> of processes.\<close>

fun is_queue :: "proc list \<Rightarrow> qloc \<Rightarrow> nat list \<Rightarrow> bool" where
  "is_queue ps x [] = (qget ps x = None)"
| "is_queue ps x (y # q) = (qget ps x = Some y \<and> y < length ps \<and> is_queue ps (QLink y) q)"

fun loc_ix :: "qloc \<Rightarrow> nat" where
  "loc_ix (CallerQ n) = n"
| "loc_ix (QLink n) = n"

definition no_links :: "proc \<Rightarrow> proc" where
  "no_links p = p\<lparr>p_caller_q := None, p_q_link := None\<rparr>"

lemma qget_qset: "loc_ix x < length ps \<Longrightarrow> qget (qset x v ps) y = (if y = x then v else qget ps y)"
  by (cases x; cases y) (auto simp: upd_at_def nth_list_update)

lemma length_qset [simp]: "length (qset x v ps) = length ps"
  by (cases x) simp_all

lemma no_links_qset [simp]: "map no_links (qset x v ps) = map no_links ps"
  by (cases x) (simp_all add: map_upd_at_inv no_links_def)

lemma is_queue_cong:
  "is_queue ps x q \<Longrightarrow> length qs = length ps \<Longrightarrow> qget qs x = qget ps x
   \<Longrightarrow> (\<And>y. y \<in> set q \<Longrightarrow> qget qs (QLink y) = qget ps (QLink y)) \<Longrightarrow> is_queue qs x q"
  by (induction q arbitrary: x) auto

lemma is_queue_tail_link: "is_queue ps (QLink y) q \<Longrightarrow> qget ps x = p_q_link (ps ! y) \<Longrightarrow> is_queue ps x q"
  by (cases q) auto

lemma queue_bound: "is_queue ps x q \<Longrightarrow> y \<in> set q \<Longrightarrow> y < length ps"
  by (induction q arbitrary: x) auto

lemma unlink_loop_queue:
  assumes "is_queue ps x q" and "distinct q" and "loc_ix x < length ps" and "\<forall>y\<in>set q. x \<noteq> QLink y"
  shows "\<exists>ps'. unlink_loop rc x ps = Some ps' \<and> is_queue ps' x (remove1 rc q)
     \<and> map no_links ps' = map no_links ps
     \<and> (\<forall>z. z \<noteq> x \<and> (\<forall>y\<in>set q. z \<noteq> QLink y) \<longrightarrow> qget ps' z = qget ps z)"
  using assms
proof (induction q arbitrary: x)
  case Nil
  then show ?case by (subst unlink_loop.simps) auto
next
  case (Cons y q)
  have y: "qget ps x = Some y" "y < length ps" "is_queue ps (QLink y) q" "y \<notin> set q" "x \<noteq> QLink y"
    using Cons.prems by auto
  show ?case
  proof (cases "y = rc")
    case True
    let ?ps = "qset x (p_q_link (ps ! y)) ps"
    have un: "unlink_loop rc x ps = Some ?ps" using y(1) True by (subst unlink_loop.simps) simp
    have g: "qget ?ps z = (if z = x then qget ps (QLink y) else qget ps z)" for z
      using Cons.prems(3) by (simp add: qget_qset)
    have "is_queue ?ps (QLink y) q"
      using y(3) by (rule is_queue_cong) (use y(5) Cons.prems(4) in \<open>auto simp: g simp del: qget.simps\<close>)
    moreover have "qget ?ps x = p_q_link (?ps ! y)" using g [of x] g [of "QLink y"] y(5) by simp
    ultimately have "is_queue ?ps x q" by (rule is_queue_tail_link)
    then show ?thesis using un True Cons.prems(3) by (auto simp: qget_qset)
  next
    case False
    have "unlink_loop rc x ps = unlink_loop rc (QLink y) ps" using y(1) False by (subst unlink_loop.simps) simp
    moreover obtain ps' where IH: "unlink_loop rc (QLink y) ps = Some ps'" "is_queue ps' (QLink y) (remove1 rc q)"
      "map no_links ps' = map no_links ps"
      "\<forall>z. z \<noteq> QLink y \<and> (\<forall>y\<in>set q. z \<noteq> QLink y) \<longrightarrow> qget ps' z = qget ps z"
      using Cons.IH [OF y(3)] Cons.prems(2) y(2,4) by auto
    moreover have "qget ps' x = Some y" using IH(4) y(1,5) Cons.prems(4) by auto
    moreover have "length ps' = length ps" using IH(3) by (metis length_map)
    ultimately show ?thesis using False y(2) by (intro exI [of _ ps']) auto
  qed
qed

text \<open>
  All caller queues of a process table: queue \<open>Q d\<close> at each destination \<open>d\<close>, no process twice in
  one queue, none in two queues.
\<close>

definition queues :: "proc list \<Rightarrow> (nat \<Rightarrow> nat list) \<Rightarrow> bool" where
  "queues ps Q \<longleftrightarrow> (\<forall>d<length ps. is_queue ps (CallerQ d) (Q d) \<and> distinct (Q d)
     \<and> (\<forall>d'<length ps. d' \<noteq> d \<longrightarrow> set (Q d) \<inter> set (Q d') = {}))"

lemma unlink_queues:
  assumes "queues ps Q" and "d < length ps"
  shows "\<exists>ps'. unlink_loop rc (CallerQ d) ps = Some ps' \<and> queues ps' (Q(d := remove1 rc (Q d)))
     \<and> map no_links ps' = map no_links ps"
proof -
  have d: "is_queue ps (CallerQ d) (Q d)" "distinct (Q d)" using assms by (auto simp: queues_def)
  obtain ps' where ps': "unlink_loop rc (CallerQ d) ps = Some ps'" "is_queue ps' (CallerQ d) (remove1 rc (Q d))"
    "map no_links ps' = map no_links ps"
    "\<forall>z. z \<noteq> CallerQ d \<and> (\<forall>y\<in>set (Q d). z \<noteq> QLink y) \<longrightarrow> qget ps' z = qget ps z"
    using unlink_loop_queue [OF d, of rc] assms(2) by auto
  have len: "length ps' = length ps" using ps'(3) by (metis length_map)
  have "is_queue ps' (CallerQ k) (Q k)" if "k < length ps" "k \<noteq> d" for k
  proof (rule is_queue_cong [OF _ len])
    show "is_queue ps (CallerQ k) (Q k)" using assms(1) that(1) by (simp add: queues_def)
    show "qget ps' (CallerQ k) = qget ps (CallerQ k)" using ps'(4) that(2) by blast
    have "set (Q k) \<inter> set (Q d) = {}" using assms that unfolding queues_def by metis
    then show "qget ps' (QLink y) = qget ps (QLink y)" if "y \<in> set (Q k)" for y using ps'(4) that by blast
  qed
  moreover have "set (remove1 rc (Q d)) \<subseteq> set (Q d)" by (rule set_remove1_subset)
  ultimately have "queues ps' (Q(d := remove1 rc (Q d)))"
    using assms ps'(2) d(2) unfolding queues_def len by (auto simp: distinct_remove1)
  then show ?thesis using ps' by blast
qed

definition ipc_inv :: "'w kenv \<Rightarrow> proc list \<Rightarrow> (nat \<Rightarrow> nat list) \<Rightarrow> bool" where
  "ipc_inv e ps Q \<longleftrightarrow> queues ps Q
   \<and> (\<forall>p\<in>set ps. RTS_SLOT_FREE \<in> p_rts_flags p \<longrightarrow> p_rts_flags p = {RTS_SLOT_FREE})
   \<and> (\<forall>p\<in>set ps. RTS_SENDING \<in> p_rts_flags p \<longrightarrow> isokendpt e ps (p_sendto_e p) \<noteq> None)
   \<and> (\<forall>d<length ps. \<forall>i\<in>set (Q d). RTS_SENDING \<in> p_rts_flags (ps ! i) \<and> isokendpt e ps (p_sendto_e (ps ! i)) = Some d)"

definition unblocked :: "proc \<Rightarrow> proc" where
  "unblocked p = p\<lparr>p_rts_flags := p_rts_flags p - {RTS_SENDING, RTS_RECEIVING}\<rparr>"

lemma unblocked_sel [simp]:
  "p_rts_flags (unblocked p) = p_rts_flags p - {RTS_SENDING, RTS_RECEIVING}"
  "p_endpoint (unblocked p) = p_endpoint p" "p_priv (unblocked p) = p_priv p" "p_sendto_e (unblocked p) = p_sendto_e p"
  "p_caller_q (unblocked p) = p_caller_q p" "p_q_link (unblocked p) = p_q_link p" "p_retreg (unblocked p) = p_retreg p"
  by (simp_all add: unblocked_def)

lemma no_links_sel [simp]:
  "p_rts_flags (no_links p) = p_rts_flags p" "p_endpoint (no_links p) = p_endpoint p" "p_priv (no_links p) = p_priv p"
  "p_sendto_e (no_links p) = p_sendto_e p" "p_retreg (no_links p) = p_retreg p"
  by (simp_all add: no_links_def)

lemma no_links_unblocked: "no_links (unblocked p) = unblocked (no_links p)"
  by (simp add: no_links_def unblocked_def)

lemma queues_links:
  assumes "length qs = length ps" and "\<And>x. qget qs x = qget ps x"
  shows "queues qs Q = queues ps Q"
proof -
  have "is_queue qs x q = is_queue ps x q" for x q
    using assms is_queue_cong [of ps x q qs] is_queue_cong [of qs x q ps] by (auto simp del: qget.simps)
  then show ?thesis by (simp add: queues_def assms(1))
qed

lemma queues_upd:
  assumes "\<And>p. p_caller_q (f p) = p_caller_q p" and "\<And>p. p_q_link (f p) = p_q_link p"
  shows "queues (upd_at i f ps) Q = queues ps Q"
proof (rule queues_links)
  show "qget (upd_at i f ps) x = qget ps x" for x by (cases x) (simp_all add: nth_upd_at_inv assms)
qed simp

lemma isokendpt_same:
  assumes "endpoint_laws e" and "map p_endpoint qs = map p_endpoint ps"
    and "map (\<lambda>p. p_rts_flags p = {RTS_SLOT_FREE}) qs = map (\<lambda>p. p_rts_flags p = {RTS_SLOT_FREE}) ps"
  shows "isokendpt e qs = isokendpt e ps"
proof -
  have "isemptyp e = (\<lambda>p. p_rts_flags p = {RTS_SLOT_FREE})"
    by (rule ext) (rule isemptyp_iff [OF assms(1)])
  then have "map (isemptyp e) qs = map (isemptyp e) ps" using assms(3) by simp
  then show ?thesis using assms(1,2) unfolding endpoint_laws_def by blast
qed

lemma map_no_linksD:
  assumes "map no_links qs = map no_links ps" and "\<And>p. g (no_links p) = g p"
  shows "map g qs = map g ps"
proof -
  have "map g (map no_links qs) = map g (map no_links ps)" using assms(1) by simp
  then show ?thesis by (simp add: comp_def assms(2))
qed

lemma nth_no_linksD:
  assumes "map no_links qs = map no_links ps" and "\<And>p. g (no_links p) = g p" and "i < length ps"
  shows "g (qs ! i) = g (ps ! i)"
proof -
  have "length qs = length ps" using assms(1) by (metis length_map)
  then show ?thesis using map_no_linksD [OF assms(1), of g] assms(2,3) by (metis nth_map)
qed

lemma ipc_inv_unlink:
  assumes laws: "endpoint_laws e" and inv: "ipc_inv e ps Q" and i: "i < length ps"
    and q: "queues qs Q'" "map no_links qs = map no_links (upd_at i unblocked ps)"
    and sub: "\<forall>d<length ps. set (Q' d) \<subseteq> set (Q d) - {i}"
  shows "ipc_inv e qs Q'"
proof -
  let ?us = "upd_at i unblocked ps"
  have len: "length qs = length ps" using q(2) by (metis length_map length_upd_at)
  have free: "\<forall>p\<in>set ps. RTS_SLOT_FREE \<in> p_rts_flags p \<longrightarrow> p_rts_flags p = {RTS_SLOT_FREE}"
    using inv by (simp add: ipc_inv_def)
  have fl: "p_rts_flags (qs ! j) = p_rts_flags (?us ! j)" and st: "p_sendto_e (qs ! j) = p_sendto_e (ps ! j)"
    if "j < length ps" for j
    using that nth_no_linksD [OF q(2), of p_rts_flags j] nth_no_linksD [OF q(2), of p_sendto_e j]
    by (auto simp: nth_upd_at)
  have emp: "p_rts_flags (?us ! j) = {RTS_SLOT_FREE} \<longleftrightarrow> p_rts_flags (ps ! j) = {RTS_SLOT_FREE}"
    if "j < length ps" for j
  proof (cases "j = i")
    case True
    have "RTS_SLOT_FREE \<in> p_rts_flags (ps ! i) \<Longrightarrow> p_rts_flags (ps ! i) = {RTS_SLOT_FREE}"
      using free nth_mem [OF i] by blast
    then show ?thesis using True i by (simp, fast)
  qed (use that in simp)
  have ok: "isokendpt e qs = isokendpt e ps"
  proof (rule isokendpt_same [OF laws])
    show "map p_endpoint qs = map p_endpoint ps"
      using map_no_linksD [OF q(2), of p_endpoint] by (simp add: map_upd_at_inv)
    show "map (\<lambda>p. p_rts_flags p = {RTS_SLOT_FREE}) qs = map (\<lambda>p. p_rts_flags p = {RTS_SLOT_FREE}) ps"
      using fl emp by (intro nth_equalityI) (auto simp: len)
  qed
  have sending: "RTS_SENDING \<in> p_rts_flags (qs ! j) \<longleftrightarrow> j \<noteq> i \<and> RTS_SENDING \<in> p_rts_flags (ps ! j)"
    if "j < length ps" for j using fl that i by (auto simp: nth_upd_at)
  show ?thesis unfolding ipc_inv_def
  proof (intro conjI q(1))
    show "\<forall>p\<in>set qs. RTS_SLOT_FREE \<in> p_rts_flags p \<longrightarrow> p_rts_flags p = {RTS_SLOT_FREE}"
    proof
      fix p assume "p \<in> set qs"
      then obtain j where j: "p = qs ! j" "j < length ps" by (auto simp: in_set_conv_nth len)
      have "RTS_SLOT_FREE \<in> p_rts_flags (?us ! j) \<Longrightarrow> RTS_SLOT_FREE \<in> p_rts_flags (ps ! j)"
        using j(2) by (cases "j = i") simp_all
      then show "RTS_SLOT_FREE \<in> p_rts_flags p \<longrightarrow> p_rts_flags p = {RTS_SLOT_FREE}"
        using fl [OF j(2)] emp [OF j(2)] free nth_mem [OF j(2)] j(1) by metis
    qed
    show "\<forall>p\<in>set qs. RTS_SENDING \<in> p_rts_flags p \<longrightarrow> isokendpt e qs (p_sendto_e p) \<noteq> None"
    proof
      fix p assume "p \<in> set qs"
      then obtain j where j: "p = qs ! j" "j < length ps" by (auto simp: in_set_conv_nth len)
      then show "RTS_SENDING \<in> p_rts_flags p \<longrightarrow> isokendpt e qs (p_sendto_e p) \<noteq> None"
        using inv nth_mem [OF j(2)] sending [OF j(2)] st [OF j(2)] unfolding ipc_inv_def ok by metis
    qed
    show "\<forall>d<length qs. \<forall>j\<in>set (Q' d). RTS_SENDING \<in> p_rts_flags (qs ! j) \<and> isokendpt e qs (p_sendto_e (qs ! j)) = Some d"
    proof (intro allI impI ballI)
      fix d j assume d: "d < length qs" and j: "j \<in> set (Q' d)"
      then have "j \<in> set (Q d)" "j \<noteq> i" using sub len by auto
      moreover have "RTS_SENDING \<in> p_rts_flags (ps ! j) \<and> isokendpt e ps (p_sendto_e (ps ! j)) = Some d"
        using inv d \<open>j \<in> set (Q d)\<close> len unfolding ipc_inv_def by metis
      moreover have "j < length ps" using inv d \<open>j \<in> set (Q d)\<close> len queue_bound unfolding ipc_inv_def queues_def by metis
      ultimately show "RTS_SENDING \<in> p_rts_flags (qs ! j) \<and> isokendpt e qs (p_sendto_e (qs ! j)) = Some d"
        using sending st ok by simp
    qed
  qed
qed

lemma clear_ipc_ok:
  assumes laws: "endpoint_laws e" and inv: "ipc_inv e (procs s) Q" and rc: "rc < length (procs s)"
  shows "\<exists>s' Q'. clear_ipc e rc s = Some s' \<and> ipc_inv e (procs s') Q' \<and> privs s' = privs s
     \<and> map no_links (procs s') = map no_links (upd_at rc unblocked (procs s))
     \<and> (\<forall>d<length (procs s). Q' d = remove1 rc (Q d))"
proof (cases "RTS_SENDING \<in> p_rts_flags (procAt s rc)")
  case False
  have notin: "rc \<notin> set (Q d)" if "d < length (procs s)" for d
    using inv False that unfolding ipc_inv_def by metis
  let ?s = "RTS_UNSET e rc {RTS_RECEIVING} s"
  have up: "procs ?s = upd_at rc unblocked (procs s)"
    using rc False by (intro nth_equalityI) (auto simp: nth_upd_at unblocked_def)
  have "clear_ipc e rc s = Some ?s" using False by (simp add: clear_ipc_def)
  moreover have "queues (procs ?s) Q" unfolding up using inv by (simp add: queues_upd ipc_inv_def)
  moreover have "ipc_inv e (procs ?s) Q"
    by (rule ipc_inv_unlink [OF laws inv rc \<open>queues (procs ?s) Q\<close>]) (use up notin in auto)
  ultimately show ?thesis using notin up
    by (intro exI [of _ ?s] exI [of _ Q]) (simp del: RTS_UNSET_sel(5) add: remove1_idem)
next
  case True
  then obtain d where d: "isokendpt e (procs s) (p_sendto_e (procAt s rc)) = Some d"
    using inv rc nth_mem unfolding ipc_inv_def by blast
  have dl: "d < length (procs s)" by (rule isokendptD [OF laws d])
  have only: "rc \<in> set (Q k) \<Longrightarrow> k < length (procs s) \<Longrightarrow> k = d" for k
    using inv d unfolding ipc_inv_def by (metis option.inject)
  have qs: "queues (procs s) Q" using inv by (simp add: ipc_inv_def)
  then have dist: "distinct (Q k)" if "k < length (procs s)" for k using that by (simp add: queues_def)
  let ?Q = "Q(d := remove1 rc (Q d))"
  obtain ps where ps: "unlink_loop rc (CallerQ d) (procs s) = Some ps" "queues ps ?Q" "map no_links ps = map no_links (procs s)"
    using unlink_queues [OF qs dl] by blast
  have len: "length ps = length (procs s)" using ps(3) by (metis length_map)
  let ?s = "RTS_UNSET e rc {RTS_RECEIVING} (RTS_UNSET e rc {RTS_SENDING} (s\<lparr>procs := ps\<rparr>))"
  have up: "procs ?s = upd_at rc unblocked ps"
    by (simp add: unblocked_def [abs_def] Diff_insert2 [of _ RTS_SENDING "{RTS_RECEIVING}"])
  have nl: "map no_links (procs ?s) = map no_links (upd_at rc unblocked (procs s))"
    unfolding up using ps(3) by (simp add: map_upd_at_comm [of no_links unblocked unblocked] no_links_unblocked)
  have q: "queues (procs ?s) ?Q" unfolding up using ps(2) by (simp add: queues_upd)
  have "clear_ipc e rc s = Some ?s" using True d ps(1) by (simp add: clear_ipc_def)
  moreover have "ipc_inv e (procs ?s) ?Q"
    by (rule ipc_inv_unlink [OF laws inv rc q nl]) (use only dist dl set_remove1_subset in \<open>auto simp: set_remove1_eq\<close>)
  moreover have "\<forall>k<length (procs s). ?Q k = remove1 rc (Q k)" using only by (metis fun_upd_apply remove1_idem)
  moreover have "privs ?s = privs s" by simp
  ultimately show ?thesis using nl by blast
qed

text \<open>
  Clearing the IPC state of a process returns, takes the process out of the queue it waits in
  and leaves every queue otherwise in order, ends its send and receive, and changes nothing else
  of any process.
\<close>

theorem clear_ipc_dequeues:
  assumes "endpoint_laws e" and "ipc_inv e (procs s) Q" and "rc < length (procs s)"
  shows "\<exists>s' Q'. clear_ipc e rc s = Some s' \<and> ipc_inv e (procs s') Q' \<and> privs s' = privs s
     \<and> map no_links (procs s') = map no_links (upd_at rc unblocked (procs s))
     \<and> (\<forall>d<length (procs s). Q' d = remove1 rc (Q d))"
  using assms by (rule clear_ipc_ok)

text \<open>
  \<open>blocked_laws\<close>: on whom a process blocks is a function of its flags and partners, and a process
  that neither sends nor receives blocks on nobody.
\<close>

definition blocked_laws :: "'w kenv \<Rightarrow> bool" where
  "blocked_laws e \<longleftrightarrow>
     (\<forall>p. RTS_SENDING \<notin> p_rts_flags p \<and> RTS_RECEIVING \<notin> p_rts_flags p \<longrightarrow> P_BLOCKEDON e p = NONE e)
   \<and> (\<forall>p. P_BLOCKEDON e (no_links p) = P_BLOCKEDON e p)"

definition alerted :: "'w kenv \<Rightarrow> endpoint_t \<Rightarrow> ret \<Rightarrow> proc \<Rightarrow> proc" where
  "alerted e ep r p =
     (if \<not> isemptyp e p \<and> P_BLOCKEDON e p = ep then (unblocked p)\<lparr>p_retreg := r\<rparr> else p)"

definition forget_id :: "nat \<Rightarrow> priv \<Rightarrow> priv" where
  "forget_id k q = q\<lparr>s_notify_pending := s_notify_pending q - {k}, s_asyn_pending := s_asyn_pending q - {k}\<rparr>"

lemma alerted_sel [simp]: "p_endpoint (alerted e ep r p) = p_endpoint p" "p_priv (alerted e ep r p) = p_priv p"
  by (simp_all add: alerted_def)

lemma forget_id_sel [simp]: "s_id (forget_id k q) = s_id q"
  by (simp add: forget_id_def)

lemma alerted_no_links:
  "blocked_laws e \<Longrightarrow> endpoint_laws e \<Longrightarrow> no_links (alerted e ep r p) = alerted e ep r (no_links p)"
  by (simp add: alerted_def blocked_laws_def isemptyp_iff) (simp add: no_links_def unblocked_def)

lemma ipc_inv_retreg:
  assumes "endpoint_laws e"
  shows "ipc_inv e (upd_at i (\<lambda>p. p\<lparr>p_retreg := r\<rparr>) ps) Q = ipc_inv e ps Q"
proof -
  let ?f = "\<lambda>p. p\<lparr>p_retreg := r\<rparr>"
  have ok: "isokendpt e (upd_at i ?f ps) = isokendpt e ps"
    by (rule isokendpt_upd [OF assms]) (simp_all add: isemptyp_iff [OF assms])
  have set: "(\<forall>p\<in>set (upd_at i ?f ps). P (p_rts_flags p) (p_sendto_e p)) \<longleftrightarrow> (\<forall>p\<in>set ps. P (p_rts_flags p) (p_sendto_e p))" for P
    unfolding all_set_conv_all_nth by (simp add: nth_upd_at_inv)
  show ?thesis unfolding ipc_inv_def ok
    using set [of "\<lambda>f t. RTS_SLOT_FREE \<in> f \<longrightarrow> f = {RTS_SLOT_FREE}"]
      set [of "\<lambda>f t. RTS_SENDING \<in> f \<longrightarrow> isokendpt e ps t \<noteq> None"]
    by (simp add: queues_upd nth_upd_at_inv)
qed

lemma clear_ref_ok:
  assumes laws: "endpoint_laws e" "blocked_laws e" and inv: "ipc_inv e (procs s) Q"
    and rp: "rp < length (procs s)"
  shows "\<exists>s' Q'. clear_ref e rc r rp s = Some s' \<and> ipc_inv e (procs s') Q'
     \<and> map no_links (procs s') = map no_links (upd_at rp (alerted e (p_endpoint (procAt s rc)) r) (procs s))
     \<and> privs s' = (if isemptyp e (procAt s rp) then privs s
                   else upd_at (p_priv (procAt s rp)) (forget_id (s_id (privOf s rc))) (privs s))
     \<and> (\<forall>d<length (procs s). set (Q' d) \<subseteq> set (Q d))"
proof (cases "isemptyp e (procAt s rp)")
  case True
  then have "upd_at rp (alerted e (p_endpoint (procAt s rc)) r) (procs s) = procs s"
    by (simp add: upd_at_def alerted_def)
  then show ?thesis using True inv by (intro exI [of _ s] exI [of _ Q]) (simp add: clear_ref_def)
next
  case ne: False
  let ?own = "s_id (privOf s rc)" and ?ep = "p_endpoint (procAt s rc)"
  let ?s2 = "upd_priv (p_priv (procAt s rp)) (\<lambda>q. q\<lparr>s_asyn_pending := s_asyn_pending q - {?own}\<rparr>)
              (upd_priv (p_priv (procAt s rp)) (\<lambda>q. q\<lparr>s_notify_pending := s_notify_pending q - {?own}\<rparr>) s)"
  have pv: "privs ?s2 = upd_at (p_priv (procAt s rp)) (forget_id ?own) (privs s)"
    by (simp add: forget_id_def [abs_def])
  show ?thesis
  proof (cases "P_BLOCKEDON e (procAt s rp) = ?ep")
    case False
    then have "upd_at rp (alerted e ?ep r) (procs s) = procs s" by (simp add: upd_at_def alerted_def)
    then show ?thesis using ne False inv pv
      by (intro exI [of _ ?s2] exI [of _ Q]) (simp add: clear_ref_def Let_def)
  next
    case True
    let ?s3 = "upd_proc rp (\<lambda>p. p\<lparr>p_retreg := r\<rparr>) ?s2"
    have inv3: "ipc_inv e (procs ?s3) Q" using inv by (simp add: ipc_inv_retreg [OF laws(1)])
    obtain s' Q' where s': "clear_ipc e rp ?s3 = Some s'" "ipc_inv e (procs s') Q'" "privs s' = privs ?s3"
      "map no_links (procs s') = map no_links (upd_at rp unblocked (procs ?s3))"
      "\<forall>d<length (procs ?s3). Q' d = remove1 rp (Q d)"
      using clear_ipc_ok [OF laws(1) inv3, of rp] rp by auto
    have "upd_at rp unblocked (procs ?s3) = upd_at rp (alerted e ?ep r) (procs s)"
      using ne True rp by (intro nth_equalityI) (auto simp: nth_upd_at alerted_def unblocked_def)
    moreover have "clear_ref e rc r rp s = Some s'" using ne True s'(1) by (simp add: clear_ref_def Let_def)
    ultimately show ?thesis using s' ne pv set_remove1_subset [of rp]
      by (intro exI [of _ s'] exI [of _ Q']) simp
  qed
qed

lemma nth_no_links_map:
  assumes "map no_links qs = map no_links ps" and "i < length ps"
  shows "no_links (qs ! i) = no_links (ps ! i)"
  using assms by (metis length_map nth_map)

lemma clear_refs_ok:
  assumes laws: "endpoint_laws e" "blocked_laws e"
    and "ipc_inv e (procs s) Q" and "distinct rps" and "set rps \<subseteq> {..<length (procs s)}" and "rc < length (procs s)"
  shows "\<exists>s' Q'. clear_refs e rc r rps s = Some s' \<and> ipc_inv e (procs s') Q' \<and> length (procs s') = length (procs s)
     \<and> (\<forall>i<length (procs s). no_links (procAt s' i) =
          no_links (if i \<in> set rps then alerted e (p_endpoint (procAt s rc)) r (procAt s i) else procAt s i))
     \<and> length (privs s') = length (privs s)
     \<and> (\<forall>k<length (privs s). privs s' ! k =
          (if \<exists>i\<in>set rps. \<not> isemptyp e (procAt s i) \<and> p_priv (procAt s i) = k
           then forget_id (s_id (privOf s rc)) (privs s ! k) else privs s ! k))
     \<and> (\<forall>d<length (procs s). set (Q' d) \<subseteq> set (Q d))"
  using assms(3-)
proof (induction rps arbitrary: s Q)
  case Nil
  then show ?case by auto
next
  case (Cons rp rps)
  let ?ep = "p_endpoint (procAt s rc)" and ?own = "s_id (privOf s rc)"
  have rp: "rp < length (procs s)" "rp \<notin> set rps" using Cons.prems by auto
  obtain s1 Q1 where s1: "clear_ref e rc r rp s = Some s1" "ipc_inv e (procs s1) Q1"
    "map no_links (procs s1) = map no_links (upd_at rp (alerted e ?ep r) (procs s))"
    "privs s1 = (if isemptyp e (procAt s rp) then privs s else upd_at (p_priv (procAt s rp)) (forget_id ?own) (privs s))"
    "\<forall>d<length (procs s). set (Q1 d) \<subseteq> set (Q d)"
    using clear_ref_ok [OF laws Cons.prems(1) rp(1), of rc r] by blast
  have len: "length (procs s1) = length (procs s)" using s1(3) by (metis length_map length_upd_at)
  have at: "no_links (procAt s1 i) = no_links (if i = rp then alerted e ?ep r (procAt s i) else procAt s i)"
    if "i < length (procs s)" for i
    using nth_no_links_map [OF s1(3), of i] that by (auto simp: nth_upd_at)
  have ep: "p_endpoint (procAt s1 i) = p_endpoint (procAt s i)" and pv: "p_priv (procAt s1 i) = p_priv (procAt s i)"
    if "i < length (procs s)" for i
    using arg_cong [OF at [OF that], of p_endpoint] arg_cong [OF at [OF that], of p_priv] by (auto split: if_splits)
  have keep: "isemptyp e (procAt s1 i) = isemptyp e (procAt s i)"
    "no_links (alerted e ?ep r (procAt s1 i)) = no_links (alerted e ?ep r (procAt s i))"
    if "i \<in> set rps" for i
  proof -
    have "no_links (procAt s1 i) = no_links (procAt s i)" using at [of i] that rp(2) Cons.prems(3) by auto
    then show "isemptyp e (procAt s1 i) = isemptyp e (procAt s i)"
      "no_links (alerted e ?ep r (procAt s1 i)) = no_links (alerted e ?ep r (procAt s i))"
      by (metis isemptyp_iff [OF laws(1)] no_links_sel(1)) (metis alerted_no_links [OF laws(2,1)] \<open>no_links (procAt s1 i) = no_links (procAt s i)\<close>)
  qed
  have ids: "s_id (privs s1 ! k) = s_id (privs s ! k)" for k using s1(4) by (simp add: nth_upd_at_inv)
  obtain s' Q' where s': "clear_refs e rc r rps s1 = Some s'" "ipc_inv e (procs s') Q'" "length (procs s') = length (procs s1)"
    "\<forall>i<length (procs s1). no_links (procAt s' i) =
        no_links (if i \<in> set rps then alerted e (p_endpoint (procAt s1 rc)) r (procAt s1 i) else procAt s1 i)"
    "length (privs s') = length (privs s1)"
    "\<forall>k<length (privs s1). privs s' ! k =
        (if \<exists>i\<in>set rps. \<not> isemptyp e (procAt s1 i) \<and> p_priv (procAt s1 i) = k
         then forget_id (s_id (privOf s1 rc)) (privs s1 ! k) else privs s1 ! k)"
    "\<forall>d<length (procs s1). set (Q' d) \<subseteq> set (Q1 d)"
    using Cons.IH [OF s1(2)] Cons.prems len by auto
  have own: "s_id (privOf s1 rc) = ?own" and eprc: "p_endpoint (procAt s1 rc) = ?ep"
    using ids pv [OF Cons.prems(4)] ep [OF Cons.prems(4)] by simp_all
  have lenp: "length (privs s1) = length (privs s)" using s1(4) by simp
  have procs: "no_links (procAt s' i) = no_links (if i \<in> set (rp # rps) then alerted e ?ep r (procAt s i) else procAt s i)"
    if "i < length (procs s)" for i
    using s'(4) that len eprc at [OF that] keep(2) [of i] rp(2) by auto
  have ex: "(\<exists>i\<in>set rps. \<not> isemptyp e (procAt s1 i) \<and> p_priv (procAt s1 i) = k) \<longleftrightarrow>
            (\<exists>i\<in>set rps. \<not> isemptyp e (procAt s i) \<and> p_priv (procAt s i) = k)" for k
    using keep(1) pv Cons.prems(3) by (metis insert_subset lessThan_iff list.simps(15) subset_iff)
  have forget2: "forget_id k (forget_id k q) = forget_id k q" for k q by (simp add: forget_id_def)
  have privs: "privs s' ! k = (if \<exists>i\<in>set (rp # rps). \<not> isemptyp e (procAt s i) \<and> p_priv (procAt s i) = k
           then forget_id ?own (privs s ! k) else privs s ! k)" if "k < length (privs s)" for k
  proof -
    have "privs s1 ! k = (if \<not> isemptyp e (procAt s rp) \<and> p_priv (procAt s rp) = k
        then forget_id ?own (privs s ! k) else privs s ! k)" using that s1(4) by (auto simp: nth_upd_at)
    then show ?thesis using s'(6) [unfolded lenp ex own] that by (auto simp: forget2)
  qed
  have "clear_refs e rc r (rp # rps) s = Some s'" using s1(1) s'(1) by simp
  moreover have "\<forall>d<length (procs s). set (Q' d) \<subseteq> set (Q d)" using s'(7) s1(5) len by fastforce
  ultimately show ?case
    using s'(2) s'(3) s'(5) procs privs len lenp by (intro exI [of _ s'] exI [of _ Q'] conjI) simp_all
qed

text \<open>
  \<open>asend_laws\<close>: a pending asynchronous sender is one whose bit is set and whose structure is in use;
  cancelling its message clears bits, keeps the identities and queue state of all processes, and
  may at most end a receive (by notifying the sender).
\<close>

definition same_ipc :: "'w kstate \<Rightarrow> 'w kstate \<Rightarrow> bool" where
  "same_ipc s t \<longleftrightarrow> length (procs s) = length (procs t)
     \<and> (\<forall>i<length (procs t). let p = procAt s i; q = procAt t i in
          p_endpoint p = p_endpoint q \<and> p_priv p = p_priv q \<and> p_sendto_e p = p_sendto_e q
        \<and> p_caller_q p = p_caller_q q \<and> p_q_link p = p_q_link q
        \<and> p_rts_flags p \<subseteq> p_rts_flags q \<and> p_rts_flags q \<subseteq> insert RTS_RECEIVING (p_rts_flags p))
     \<and> map s_id (privs s) = map s_id (privs t)"

definition asend_laws :: "'w kenv \<Rightarrow> bool" where
  "asend_laws e \<longleftrightarrow>
     (\<forall>rc s k. has_pending_asend e rc s = Some k \<longrightarrow>
        (\<exists>src. id_to_nr s k = Some src \<and> same_ipc (cancel_async e src rc s) s
             \<and> s_asyn_pending (privOf (cancel_async e src rc s) rc) \<subset> s_asyn_pending (privOf s rc)))"

lemma same_ipc_refl: "same_ipc s s"
  by (auto simp: same_ipc_def Let_def)

lemma same_ipc_trans: "same_ipc s t \<Longrightarrow> same_ipc t u \<Longrightarrow> same_ipc s u"
  unfolding same_ipc_def Let_def by fastforce

lemma same_ipc_nth:
  assumes "same_ipc s t" and "i < length (procs t)"
  shows "p_endpoint (procAt s i) = p_endpoint (procAt t i)" "p_priv (procAt s i) = p_priv (procAt t i)"
    "p_sendto_e (procAt s i) = p_sendto_e (procAt t i)" "p_caller_q (procAt s i) = p_caller_q (procAt t i)"
    "p_q_link (procAt s i) = p_q_link (procAt t i)" "p_rts_flags (procAt s i) \<subseteq> p_rts_flags (procAt t i)"
    "p_rts_flags (procAt t i) \<subseteq> insert RTS_RECEIVING (p_rts_flags (procAt s i))"
  using assms by (simp_all add: same_ipc_def Let_def)

lemma same_ipc_len: "same_ipc s t \<Longrightarrow> length (procs s) = length (procs t)"
  by (simp add: same_ipc_def)

lemma same_ipc_flag: "same_ipc s t \<Longrightarrow> i < length (procs t) \<Longrightarrow> f \<noteq> RTS_RECEIVING
    \<Longrightarrow> f \<in> p_rts_flags (procAt s i) \<longleftrightarrow> f \<in> p_rts_flags (procAt t i)"
  using same_ipc_nth(6,7) [of s t i] by blast

lemma ipc_inv_free:
  "ipc_inv e ps Q \<Longrightarrow> i < length ps \<Longrightarrow> RTS_SLOT_FREE \<in> p_rts_flags (ps ! i) \<Longrightarrow> p_rts_flags (ps ! i) = {RTS_SLOT_FREE}"
  by (simp add: ipc_inv_def)

lemma ipc_inv_cong:
  assumes laws: "endpoint_laws e" and inv: "ipc_inv e ps Q" and len: "length qs = length ps"
    and nth: "\<And>i. i < length ps \<Longrightarrow> p_endpoint (qs ! i) = p_endpoint (ps ! i) \<and> p_sendto_e (qs ! i) = p_sendto_e (ps ! i)
         \<and> p_caller_q (qs ! i) = p_caller_q (ps ! i) \<and> p_q_link (qs ! i) = p_q_link (ps ! i)"
    and fl: "\<And>i f. i < length ps \<Longrightarrow> f = RTS_SLOT_FREE \<or> f = RTS_SENDING \<Longrightarrow>
         f \<in> p_rts_flags (qs ! i) \<longleftrightarrow> f \<in> p_rts_flags (ps ! i)"
    and fs: "\<And>i. i < length ps \<Longrightarrow> RTS_SLOT_FREE \<in> p_rts_flags (qs ! i) \<Longrightarrow> p_rts_flags (qs ! i) = {RTS_SLOT_FREE}"
  shows "ipc_inv e qs Q"
proof -
  have free: "RTS_SLOT_FREE \<in> p_rts_flags (ps ! i) \<Longrightarrow> p_rts_flags (ps ! i) = {RTS_SLOT_FREE}"
    if "i < length ps" for i using inv nth_mem [OF that] by (auto simp: ipc_inv_def)
  have emp: "p_rts_flags (qs ! i) = {RTS_SLOT_FREE} \<longleftrightarrow> p_rts_flags (ps ! i) = {RTS_SLOT_FREE}"
    if i: "i < length ps" for i using fl [OF i, of RTS_SLOT_FREE] free [OF i] fs [OF i] by auto
  have ok: "isokendpt e qs = isokendpt e ps"
    by (rule isokendpt_same [OF laws]) (intro nth_equalityI; simp add: len nth emp)+
  have qg: "qget qs x = qget ps x" if "loc_ix x < length ps" for x
    using that nth by (cases x) simp_all
  have "is_queue qs (CallerQ d) (Q d)" if "is_queue ps (CallerQ d) (Q d)" "d < length ps" for d
    using that(1) by (rule is_queue_cong) (use that queue_bound in \<open>auto simp: len qg simp del: qget.simps\<close>)
  then have q: "queues qs Q" using inv unfolding ipc_inv_def queues_def len by blast
  have bound: "Q d ! j < length ps" if "j < length (Q d)" "d < length ps" for j d
    using inv that queue_bound nth_mem [OF that(1)] unfolding ipc_inv_def queues_def by metis
  show ?thesis
    using inv q fs fl [of _ RTS_SENDING] nth bound unfolding ipc_inv_def ok len all_set_conv_all_nth by simp
qed

lemma same_ipc_inv:
  assumes laws: "endpoint_laws e" and inv: "ipc_inv e (procs t) Q" and same: "same_ipc s t"
  shows "ipc_inv e (procs s) Q"
proof (rule ipc_inv_cong [OF laws inv same_ipc_len [OF same]])
  fix i assume i: "i < length (procs t)"
  have "RTS_SLOT_FREE \<in> p_rts_flags (procAt t i) \<Longrightarrow> p_rts_flags (procAt t i) = {RTS_SLOT_FREE}"
    using inv nth_mem [OF i] by (auto simp: ipc_inv_def)
  then show "p_rts_flags (procAt s i) = {RTS_SLOT_FREE}" if "RTS_SLOT_FREE \<in> p_rts_flags (procAt s i)"
    using that same_ipc_nth(6) [OF same i] by auto
qed (use same_ipc_nth [OF same] same_ipc_flag [OF same] in auto)

lemma cancel_asends_ok:
  assumes "asend_laws e" and "finite (s_asyn_pending (privOf s rc))"
  shows "\<exists>s'. cancel_asends e rc s = Some s' \<and> same_ipc s' s \<and> has_pending_asend e rc s' = None"
  using assms(2)
proof (induction "card (s_asyn_pending (privOf s rc))" arbitrary: s rule: less_induct)
  case less
  show ?case
  proof (cases "has_pending_asend e rc s")
    case None
    then show ?thesis using same_ipc_refl by (subst cancel_asends.simps) auto
  next
    case (Some k)
    then obtain src where src: "id_to_nr s k = Some src" "same_ipc (cancel_async e src rc s) s"
      "s_asyn_pending (privOf (cancel_async e src rc s) rc) \<subset> s_asyn_pending (privOf s rc)"
      using assms(1) unfolding asend_laws_def by blast
    let ?s = "cancel_async e src rc s"
    obtain s' where "cancel_asends e rc ?s = Some s'" "same_ipc s' ?s" "has_pending_asend e rc s' = None"
      using less.hyps [of ?s] psubset_card_mono [OF less.prems src(3)] finite_subset [OF _ less.prems] src(3) by blast
    then show ?thesis using Some src(1) same_ipc_trans [OF _ src(2)] by (subst cancel_asends.simps) auto
  qed
qed

lemma alerted_unblocks:
  assumes "endpoint_laws e" and "blocked_laws e" and "ep \<noteq> NONE e"
    and "\<not> isemptyp e (alerted e ep r p)"
  shows "P_BLOCKEDON e (alerted e ep r p) \<noteq> ep"
  using assms by (auto simp: alerted_def blocked_laws_def)

lemma clear_ipc_refs_ok:
  assumes laws: "endpoint_laws e" "blocked_laws e" "asend_laws e"
    and inv: "ipc_inv e (procs s) Q" and rc: "rc < length (procs s)" and priv: "p_priv (procAt s rc) < length (privs s)"
    and fin: "finite (s_asyn_pending (privOf s rc))"
  shows "\<exists>s1 s' Q'. cancel_asends e rc s = Some s1 \<and> same_ipc s1 s \<and> has_pending_asend e rc s1 = None
     \<and> clear_ipc_refs e rc r s = Some s' \<and> ipc_inv e (procs s') Q'
     \<and> map no_links (procs s') = map (\<lambda>p. no_links (alerted e (p_endpoint (procAt s rc)) r p)) (procs s1)
     \<and> (\<forall>k<length (privs s). privs s' ! k =
          (if \<exists>i<length (procs s). \<not> isemptyp e (procAt s1 i) \<and> p_priv (procAt s i) = k
           then forget_id (s_id (privOf s rc)) (privs s1 ! k) else privs s1 ! k))
     \<and> (\<forall>d<length (procs s). set (Q' d) \<subseteq> set (Q d))"
proof -
  obtain s1 where s1: "cancel_asends e rc s = Some s1" "same_ipc s1 s" "has_pending_asend e rc s1 = None"
    using cancel_asends_ok [OF laws(3) fin] by blast
  note len = same_ipc_len [OF s1(2)]
  have inv1: "ipc_inv e (procs s1) Q" by (rule same_ipc_inv [OF laws(1) inv s1(2)])
  have lenp: "length (privs s1) = length (privs s)"
    using arg_cong [of _ _ length, OF s1(2) [unfolded same_ipc_def, THEN conjunct2, THEN conjunct2]] by simp
  have ids: "s_id (privs s1 ! k) = s_id (privs s ! k)" if "k < length (privs s)" for k
    using s1(2) that lenp unfolding same_ipc_def by (metis nth_map)
  have ep: "p_endpoint (procAt s1 rc) = p_endpoint (procAt s rc)" and pv: "p_priv (procAt s1 i) = p_priv (procAt s i)"
    if "i < length (procs s)" for i using same_ipc_nth [OF s1(2)] rc that by simp_all
  let ?rps = "[0..<length (procs s1)]"
  have rps: "distinct ?rps" "set ?rps \<subseteq> {..<length (procs s1)}" "rc < length (procs s1)" using rc len by auto
  obtain s' Q' where s': "clear_refs e rc r ?rps s1 = Some s'" "ipc_inv e (procs s') Q'"
    "length (procs s') = length (procs s1)"
    "\<forall>i<length (procs s1). no_links (procAt s' i) =
       no_links (if i \<in> set ?rps then alerted e (p_endpoint (procAt s1 rc)) r (procAt s1 i) else procAt s1 i)"
    "\<forall>k<length (privs s1). privs s' ! k =
          (if \<exists>i\<in>set ?rps. \<not> isemptyp e (procAt s1 i) \<and> p_priv (procAt s1 i) = k
           then forget_id (s_id (privOf s1 rc)) (privs s1 ! k) else privs s1 ! k)"
    "\<forall>d<length (procs s1). set (Q' d) \<subseteq> set (Q d)"
    using clear_refs_ok [OF laws(1,2) inv1 rps, of r] by blast
  have ps: "map no_links (procs s') = map (\<lambda>p. no_links (alerted e (p_endpoint (procAt s rc)) r p)) (procs s1)"
    using s'(3,4) ep [OF rc] by (intro nth_equalityI) auto
  have ex: "(\<exists>i\<in>set ?rps. \<not> isemptyp e (procAt s1 i) \<and> p_priv (procAt s1 i) = k) \<longleftrightarrow>
      (\<exists>i<length (procs s). \<not> isemptyp e (procAt s1 i) \<and> p_priv (procAt s i) = k)" for k
    using pv by (auto simp: len)
  have "clear_ipc_refs e rc r s = Some s'" using s1(1) s'(1) by (simp add: clear_ipc_refs_def)
  moreover have own: "s_id (privOf s1 rc) = s_id (privOf s rc)" using pv [OF rc] ids [OF priv] by simp
  ultimately show ?thesis
    using s1 s'(2) s'(5) [unfolded lenp ex own] s'(6) [unfolded len] ps by blast
qed

lemma clear_endpoint_own:
  assumes laws: "endpoint_laws e"
    and inv: "ipc_inv e (procs s) Q" and rc: "rc < length (procs s)" "\<not> isemptyp e (procAt s rc)"
    and priv: "p_priv (procAt s rc) < length (privs s)" and fin: "finite (s_asyn_pending (privOf s rc))"
  shows "\<exists>s3 Q3. clear_endpoint e rc s = clear_ipc_refs e rc (Err EDEADSRCDST) s3 \<and> ipc_inv e (procs s3) Q3
     \<and> length (procs s3) = length (procs s) \<and> length (privs s3) = length (privs s)
     \<and> (\<forall>i<length (procs s). p_endpoint (procAt s3 i) = p_endpoint (procAt s i) \<and> p_priv (procAt s3 i) = p_priv (procAt s i))
     \<and> RTS_NO_ENDPOINT \<in> p_rts_flags (procAt s3 rc) \<and> RTS_SENDING \<notin> p_rts_flags (procAt s3 rc)
     \<and> RTS_RECEIVING \<notin> p_rts_flags (procAt s3 rc)
     \<and> finite (s_asyn_pending (privOf s3 rc)) \<and> s_id (privOf s3 rc) = s_id (privOf s rc)
     \<and> (\<forall>d<length (procs s). rc \<notin> set (Q3 d))"
proof -
  let ?s1 = "RTS_SET e rc {RTS_NO_ENDPOINT} s"
  define s2 where "s2 = (if SYS_PROC \<in> s_flags (privOf ?s1 rc)
             then upd_priv (p_priv (procAt ?s1 rc)) (\<lambda>q. q\<lparr>s_asynsize := 0\<rparr>) ?s1 else ?s1)"
  have ps2: "procs s2 = upd_at rc (\<lambda>p. p\<lparr>p_rts_flags := p_rts_flags p \<union> {RTS_NO_ENDPOINT}\<rparr>) (procs s)" by (simp add: s2_def)
  have len2: "length (privs s2) = length (privs s)" by (simp add: s2_def)
  have ids2: "s_id (privs s2 ! k) = s_id (privs s ! k) \<and> s_asyn_pending (privs s2 ! k) = s_asyn_pending (privs s ! k)" for k
    by (simp add: s2_def nth_upd_at_inv)
  have "RTS_SLOT_FREE \<notin> p_rts_flags (procAt s rc)"
    using ipc_inv_free [OF inv rc(1)] rc(2) unfolding isemptyp_iff [OF laws] by blast
  moreover have "x = RTS_SLOT_FREE"
    if "i < length (procs s)" "RTS_SLOT_FREE \<in> p_rts_flags (procAt s i)" "x \<in> p_rts_flags (procAt s i)" for i x
    using ipc_inv_free [OF inv that(1,2)] that(3) by simp
  ultimately have inv2: "ipc_inv e (procs s2) Q" unfolding ps2
    by (intro ipc_inv_cong [OF laws inv]) (auto simp: nth_upd_at)
  have rc2: "rc < length (procs s2)" using rc(1) unfolding ps2 by simp
  obtain s3 Q3 where s3: "clear_ipc e rc s2 = Some s3" "ipc_inv e (procs s3) Q3" "privs s3 = privs s2"
    "map no_links (procs s3) = map no_links (upd_at rc unblocked (procs s2))"
    "\<forall>d<length (procs s2). Q3 d = remove1 rc (Q d)"
    using clear_ipc_ok [OF laws inv2 rc2] by blast
  have len3: "length (procs s3) = length (procs s)" using arg_cong [OF s3(4), of length] unfolding ps2 by simp
  have n3: "no_links (procAt s3 i) = no_links (upd_at rc unblocked (procs s2) ! i)" if "i < length (procs s)" for i
    by (rule nth_no_links_map [OF s3(4)]) (use that ps2 in simp)
  have pe3: "p_endpoint (procAt s3 i) = p_endpoint (procAt s i)" and pp3: "p_priv (procAt s3 i) = p_priv (procAt s i)"
    if "i < length (procs s)" for i
    using arg_cong [OF n3 [OF that], of p_endpoint] arg_cong [OF n3 [OF that], of p_priv]
    unfolding ps2 by (simp_all add: nth_upd_at_inv)
  have fl3: "RTS_NO_ENDPOINT \<in> p_rts_flags (procAt s3 rc)" "RTS_SENDING \<notin> p_rts_flags (procAt s3 rc)"
    "RTS_RECEIVING \<notin> p_rts_flags (procAt s3 rc)"
    using arg_cong [OF n3 [OF rc(1)], of p_rts_flags] rc(1) unfolding ps2 by simp_all
  have rc3: "rc < length (procs s3)" "p_priv (procAt s3 rc) < length (privs s3)"
    "finite (s_asyn_pending (privOf s3 rc))" "s_id (privOf s3 rc) = s_id (privOf s rc)"
    using rc(1) priv fin ids2 pp3 [OF rc(1)] unfolding len3 s3(3) len2 by simp_all
  have "clear_endpoint e rc s = clear_ipc_refs e rc (Err EDEADSRCDST) s3"
    using rc(2) s3(1) unfolding clear_endpoint_def Let_def s2_def [symmetric] by simp
  moreover have "rc \<notin> set (Q3 d)" if "d < length (procs s)" for d
    using s3(5) that inv unfolding ps2 ipc_inv_def queues_def by simp
  ultimately show ?thesis using s3(2) len3 pe3 pp3 fl3 rc3 len2
    by - (rule exI [of _ s3], rule exI [of _ Q3], simp add: s3(3))
qed

text \<open>
  C2. After \<^verbatim>\<open>clear_endpoint\<close>, which returns, the dead process is marked, neither sends nor
  receives, and is in no caller queue; no live process is still blocked on it or has a
  notification or asynchronous message of it pending; the queues stay well formed. Each process
  that was sending to it has been released.
\<close>

theorem clear_endpoint_no_refs:
  assumes laws: "endpoint_laws e" "blocked_laws e" "asend_laws e"
    and inv: "ipc_inv e (procs s) Q" and rc: "rc < length (procs s)" "\<not> isemptyp e (procAt s rc)"
    and priv: "p_priv (procAt s rc) < length (privs s)"
    and fin: "finite (s_asyn_pending (privOf s rc))"
    and ep: "p_endpoint (procAt s rc) \<noteq> NONE e"
  shows "\<exists>s' Q'. clear_endpoint e rc s = Some s' \<and> ipc_inv e (procs s') Q'
     \<and> RTS_NO_ENDPOINT \<in> p_rts_flags (procAt s' rc)
     \<and> RTS_SENDING \<notin> p_rts_flags (procAt s' rc) \<and> RTS_RECEIVING \<notin> p_rts_flags (procAt s' rc)
     \<and> (\<forall>d<length (procs s). rc \<notin> set (Q' d))
     \<and> (\<forall>i<length (procs s). \<not> isemptyp e (procAt s' i) \<and> p_priv (procAt s i) < length (privs s) \<longrightarrow>
          P_BLOCKEDON e (procAt s' i) \<noteq> p_endpoint (procAt s rc)
        \<and> s_id (privOf s rc) \<notin> s_notify_pending (privOf s' i)
        \<and> s_id (privOf s rc) \<notin> s_asyn_pending (privOf s' i))"
proof -
  let ?ep = "p_endpoint (procAt s rc)" and ?own = "s_id (privOf s rc)"
  obtain s3 Q3 where s3: "clear_endpoint e rc s = clear_ipc_refs e rc (Err EDEADSRCDST) s3" "ipc_inv e (procs s3) Q3"
    "length (procs s3) = length (procs s)" "length (privs s3) = length (privs s)"
    "\<And>i. i < length (procs s) \<Longrightarrow> p_endpoint (procAt s3 i) = p_endpoint (procAt s i) \<and> p_priv (procAt s3 i) = p_priv (procAt s i)"
    "RTS_NO_ENDPOINT \<in> p_rts_flags (procAt s3 rc)" "RTS_SENDING \<notin> p_rts_flags (procAt s3 rc)"
    "RTS_RECEIVING \<notin> p_rts_flags (procAt s3 rc)"
    "finite (s_asyn_pending (privOf s3 rc))" "s_id (privOf s3 rc) = ?own" "\<And>d. d < length (procs s) \<Longrightarrow> rc \<notin> set (Q3 d)"
    using clear_endpoint_own [OF laws(1) inv rc priv fin] by blast
  have rc3: "rc < length (procs s3)" "p_priv (procAt s3 rc) < length (privs s3)" using rc(1) priv s3(3-5) by simp_all
  obtain s1 s' Q' where s': "same_ipc s1 s3" "clear_ipc_refs e rc (Err EDEADSRCDST) s3 = Some s'" "ipc_inv e (procs s') Q'"
    "map no_links (procs s') = map (\<lambda>p. no_links (alerted e (p_endpoint (procAt s3 rc)) (Err EDEADSRCDST) p)) (procs s1)"
    "\<forall>k<length (privs s3). privs s' ! k =
          (if \<exists>i<length (procs s3). \<not> isemptyp e (procAt s1 i) \<and> p_priv (procAt s3 i) = k
           then forget_id (s_id (privOf s3 rc)) (privs s1 ! k) else privs s1 ! k)"
    "\<forall>d<length (procs s3). set (Q' d) \<subseteq> set (Q3 d)"
    using clear_ipc_refs_ok [OF laws s3(2) rc3 s3(9), of "Err EDEADSRCDST"] by blast
  note len1 = same_ipc_len [OF s'(1)]
  have ep3: "p_endpoint (procAt s3 rc) = ?ep" using s3(5) [OF rc(1)] by simp
  let ?al = "\<lambda>i. alerted e ?ep (Err EDEADSRCDST) (procAt s1 i)"
  have nl: "no_links (procAt s' i) = no_links (?al i)" if "i < length (procs s)" for i
    using arg_cong [OF s'(4), of "\<lambda>xs. xs ! i"] arg_cong [OF s'(4), of length] that len1 s3(3) ep3 by simp
  have same: "p_priv (procAt s' i) = p_priv (procAt s i)" "isemptyp e (procAt s' i) = isemptyp e (?al i)"
    "P_BLOCKEDON e (procAt s' i) = P_BLOCKEDON e (?al i)" if i: "i < length (procs s)" for i
    using arg_cong [OF nl [OF i], of p_priv] arg_cong [OF nl [OF i], of p_rts_flags] arg_cong [OF nl [OF i], of "P_BLOCKEDON e"]
      laws(2) same_ipc_nth(2) [OF s'(1)] s3(3) s3(5) [OF i] i
    by (simp_all add: isemptyp_iff [OF laws(1)] blocked_laws_def)
  have live: "\<not> isemptyp e (?al i) \<Longrightarrow> \<not> isemptyp e (procAt s1 i)" for i by (auto simp: alerted_def)
  have refs: "P_BLOCKEDON e (procAt s' i) \<noteq> ?ep \<and> ?own \<notin> s_notify_pending (privOf s' i) \<and> ?own \<notin> s_asyn_pending (privOf s' i)"
    if i: "i < length (procs s)" "\<not> isemptyp e (procAt s' i)" "p_priv (procAt s i) < length (privs s)" for i
  proof -
    have "privs s' ! p_priv (procAt s i) = forget_id ?own (privs s1 ! p_priv (procAt s i))"
      using s'(5) i s3(3,4) s3(5) [OF i(1)] s3(10) same(2) [OF i(1)] live [of i] by auto
    moreover have "P_BLOCKEDON e (?al i) \<noteq> ?ep"
      using alerted_unblocks [OF laws(1,2) ep] same(2) [OF i(1)] i(2) by blast
    ultimately show ?thesis using same [OF i(1)] by (simp add: forget_id_def)
  qed
  have flags: "RTS_NO_ENDPOINT \<in> p_rts_flags (procAt s' rc)" "RTS_SENDING \<notin> p_rts_flags (procAt s' rc)"
    "RTS_RECEIVING \<notin> p_rts_flags (procAt s' rc)"
    using arg_cong [OF nl [OF rc(1)], of p_rts_flags] same_ipc_nth(6,7) [OF s'(1) rc3(1)] s3(6-8)
    by (auto simp: alerted_def)
  have "rc \<notin> set (Q' d)" if "d < length (procs s)" for d using s'(6) s3(3) s3(11) [OF that] that by auto
  then show ?thesis using s3(1) s'(2,3) flags refs by - (rule exI [of _ s'], rule exI [of _ Q'], simp)
qed

section \<open>Suspended kernel calls: lemmas\<close>

lemma kernel_call_finish_suspend:
  assumes "RTS_VMREQUEST \<in> p_rts_flags (procAt s c)" and "p_vmreq_kernelcall (procAt s c)"
  shows "kernel_call_finish e c loc (Err VMSUSPEND) s =
     Some (upd_proc c (\<lambda>p. p\<lparr>p_saved_reqmsg := load_msg c loc s, p_misc_flags := insert MF_KCALL_RESUME (p_misc_flags p)\<rparr>) s)"
  using assms by (simp add: kernel_call_finish_def)

lemma kernel_call_finish_saved:
  assumes "r \<noteq> Err VMSUSPEND" and "r \<noteq> Err EDONTREPLY" and "c < length (procs s)"
    and "copy_msg_to_user e ((p_saved_reqmsg (procAt s c))\<lparr>km_source := SYSTEM e, km_type := ret_int e r\<rparr>)
           (p_delivermsg_vir (procAt s c)) (k_world s) = (False, w)"
  shows "kernel_call_finish e c SavedMsg r s =
     Some ((upd_proc c (\<lambda>p. p\<lparr>p_saved_reqmsg := (p_saved_reqmsg p)\<lparr>km_source := SYSTEM e, km_type := ret_int e r\<rparr>\<rparr>) s)\<lparr>k_world := w\<rparr>)"
proof -
  let ?m = "(p_saved_reqmsg (procAt s c))\<lparr>km_source := SYSTEM e, km_type := ret_int e r\<rparr>"
  have "upd_at c (\<lambda>p. p\<lparr>p_saved_reqmsg := ?m\<rparr>) (procs s)
      = upd_at c (\<lambda>p. p\<lparr>p_saved_reqmsg := (p_saved_reqmsg p)\<lparr>km_source := SYSTEM e, km_type := ret_int e r\<rparr>\<rparr>) (procs s)"
    by (simp add: upd_at_def)
  then show ?thesis using assms by (simp add: kernel_call_finish_def Let_def upd_proc_def)
qed

text \<open>
  C26. A kernel call that VM has to help with is suspended and re-executed. The request with the
  caller as its source is saved, the caller is marked \<^verbatim>\<open>MF_KCALL_RESUME\<close> and billed; it cannot be
  resumed while \<^verbatim>\<open>RTS_VMREQUEST\<close> is set; once VM has cleared it, the saved request is dispatched
  again, the mark is removed, and the user gets the result with source \<^verbatim>\<open>SYSTEM\<close>. The saved
  request is then left with source \<^verbatim>\<open>SYSTEM\<close> as well, not \<^verbatim>\<open>NONE\<close>, because on this path the reply
  is built in the saved request itself.
\<close>

theorem kernel_call_suspend_resume:
  fixes e :: "'w kenv"
  assumes c: "c < length (procs s)" and user: "copy_msg_from_user e mu (k_world s) = Some m"
    and first: "kernel_call_dispatch e c (m\<lparr>km_source := p_endpoint (procAt s c)\<rparr>)
                  (upd_proc c (\<lambda>p. p\<lparr>p_delivermsg_vir := mu\<rparr>) s)
                = Some (Err VMSUSPEND, m\<lparr>km_source := p_endpoint (procAt s c)\<rparr>, s2)"
    and susp: "c < length (procs s2)" "RTS_VMREQUEST \<in> p_rts_flags (procAt s2 c)" "p_vmreq_kernelcall (procAt s2 c)"
      "p_endpoint (procAt s2 c) = p_endpoint (procAt s c)"
  shows "\<exists>s3. kernel_call e mu c s = Some s3 \<and> kbill_kcall s3 = Some c
     \<and> p_saved_reqmsg (procAt s3 c) = m\<lparr>km_source := p_endpoint (procAt s c)\<rparr>
     \<and> MF_KCALL_RESUME \<in> p_misc_flags (procAt s3 c) \<and> kernel_call_resume e c s3 = None
     \<and> (\<forall>s4 F r m1 s5 w.
          procAt s4 c = (procAt s3 c)\<lparr>p_rts_flags := F\<rparr> \<and> RTS_SLOT_FREE \<notin> F \<and> RTS_VMREQUEST \<notin> F
        \<and> kernel_call_dispatch e c (m\<lparr>km_source := p_endpoint (procAt s c)\<rparr>) s4 = Some (r, m1, s5)
        \<and> r \<noteq> Err VMSUSPEND \<and> r \<noteq> Err EDONTREPLY \<and> c < length (procs s5)
        \<and> copy_msg_to_user e (m1\<lparr>km_source := SYSTEM e, km_type := ret_int e r\<rparr>)
             (p_delivermsg_vir (procAt s5 c)) (k_world s5) = (False, w)
        \<longrightarrow> (\<exists>s6. kernel_call_resume e c s4 = Some s6 \<and> k_world s6 = w
               \<and> MF_KCALL_RESUME \<notin> p_misc_flags (procAt s6 c)
               \<and> p_saved_reqmsg (procAt s6 c) = m1\<lparr>km_source := SYSTEM e, km_type := ret_int e r\<rparr>))"
proof -
  let ?m0 = "m\<lparr>km_source := p_endpoint (procAt s c)\<rparr>"
  let ?s3 = "upd_proc c (\<lambda>p. p\<lparr>p_saved_reqmsg := ?m0, p_misc_flags := insert MF_KCALL_RESUME (p_misc_flags p)\<rparr>)
               (s2\<lparr>kbill_kcall := Some c\<rparr>)"
  have fin: "kernel_call_finish e c (LocalMsg ?m0) (Err VMSUSPEND) (s2\<lparr>kbill_kcall := Some c\<rparr>) = Some ?s3"
    using susp(2,3) by (simp add: kernel_call_finish_suspend)
  have ep: "p_endpoint (procAt (upd_proc c (\<lambda>p. p\<lparr>p_delivermsg_vir := mu\<rparr>) s) c) = p_endpoint (procAt s c)"
    using c by simp
  have call: "kernel_call e mu c s = Some ?s3"
    using user first fin unfolding kernel_call_def Let_def ep by simp
  have resume: "\<exists>s6. kernel_call_resume e c s4 = Some s6 \<and> k_world s6 = w
               \<and> MF_KCALL_RESUME \<notin> p_misc_flags (procAt s6 c)
               \<and> p_saved_reqmsg (procAt s6 c) = m1\<lparr>km_source := SYSTEM e, km_type := ret_int e r\<rparr>"
    if s4: "procAt s4 c = (procAt ?s3 c)\<lparr>p_rts_flags := F\<rparr>" "RTS_SLOT_FREE \<notin> F" "RTS_VMREQUEST \<notin> F"
      and d: "kernel_call_dispatch e c ?m0 s4 = Some (r, m1, s5)" "r \<noteq> Err VMSUSPEND" "r \<noteq> Err EDONTREPLY" "c < length (procs s5)"
        "copy_msg_to_user e (m1\<lparr>km_source := SYSTEM e, km_type := ret_int e r\<rparr>)
             (p_delivermsg_vir (procAt s5 c)) (k_world s5) = (False, w)" for s4 F r m1 s5 w
  proof -
    let ?s5 = "upd_proc c (\<lambda>p. p\<lparr>p_misc_flags := p_misc_flags p - {MF_KCALL_RESUME}\<rparr>)
                 (upd_proc c (\<lambda>p. p\<lparr>p_saved_reqmsg := m1\<rparr>) s5)"
    have "kernel_call_resume e c s4 = kernel_call_finish e c SavedMsg r ?s5"
      using s4 d(1) susp by (simp add: kernel_call_resume_def)
    also have "\<dots> = Some ((upd_proc c (\<lambda>p. p\<lparr>p_saved_reqmsg := (p_saved_reqmsg p)\<lparr>km_source := SYSTEM e, km_type := ret_int e r\<rparr>\<rparr>) ?s5)\<lparr>k_world := w\<rparr>)"
      using d by (intro kernel_call_finish_saved) simp_all
    finally show ?thesis using d(4) by simp
  qed
  have "kernel_call_resume e c ?s3 = None" using susp by (simp add: kernel_call_resume_def)
  then show ?thesis using call susp(1) resume by (intro exI [of _ ?s3]) auto
qed

section \<open>Scheduling: lemmas\<close>

text \<open>
  \<open>smp_laws\<close>: a process is runnable when no flag is set; migrating a process to another CPU leaves
  the other processes, its own flags, priority and quantum, and the console as they were.
\<close>

definition smp_laws :: "'w kenv \<Rightarrow> bool" where
  "smp_laws e \<longleftrightarrow> (\<forall>p. proc_is_runnable e p \<longleftrightarrow> p_rts_flags p = {})
   \<and> (\<forall>i cpu s. \<exists>c. procs (smp_schedule_migrate_proc e i cpu s) = upd_at i (\<lambda>p. p\<lparr>p_cpu := c\<rparr>) (procs s))
   \<and> (\<forall>i cpu s. k_console (smp_schedule_migrate_proc e i cpu s) = k_console s)"

definition cpu_accepts :: "'w kenv \<Rightarrow> int \<Rightarrow> bool" where
  "cpu_accepts e cpu \<longleftrightarrow> \<not> K_CONFIG_SMP e \<or> cpu = -1 \<or> (cpu = 0 \<or> 0 < cpu \<and> cpu < ncpus e) \<and> cpu_is_ready e cpu"

definition rescheduled :: "'w kenv \<Rightarrow> int \<Rightarrow> int \<Rightarrow> int \<Rightarrow> proc \<Rightarrow> proc" where
  "rescheduled e priority quantum cpu p =
     p\<lparr>p_rts_flags := p_rts_flags p - {RTS_NO_QUANTUM},
       p_priority := (if priority = -1 then p_priority p else priority),
       p_quantum_size_ms := (if quantum = -1 then p_quantum_size_ms p else quantum),
       p_cpu_time_left := (if quantum = -1 then p_cpu_time_left p else ms_2_cpu_time e quantum),
       p_cpu := (if K_CONFIG_SMP e \<and> cpu \<noteq> -1 then cpu else p_cpu p)\<rparr>"

definition quantum_report :: "'w kenv \<Rightarrow> proc \<Rightarrow> string \<times> parg list" where
  "quantum_report e p =
     (''Minix (200010004): Allotted Quantum: %d ms'' @ [CHR 0x0A] @ ''Minix (200010004): Used Quantum: %d ms'',
      [AInt (p_quantum_size_ms p), AInt (p_quantum_size_ms p - cpu_time_2_ms e (p_cpu_time_left p))])"

text \<open>The middle part of \<^verbatim>\<open>sched_proc\<close>: dequeuing a runnable process, on another CPU if asked.\<close>

definition sched_dequeue :: "'w kenv \<Rightarrow> nat \<Rightarrow> int \<Rightarrow> 'w kstate \<Rightarrow> 'w kstate" where
  "sched_dequeue e p cpu s0 =
     (let s1 = (if proc_is_runnable e (procAt s0 p)
                then RTS_SET e p {RTS_NO_QUANTUM}
                       (if K_CONFIG_SMP e \<and> p_cpu (procAt s0 p) \<noteq> cpuid e \<and> cpu \<noteq> -1 \<and> cpu \<noteq> p_cpu (procAt s0 p)
                        then smp_schedule_migrate_proc e p cpu s0 else s0)
                else s0)
      in if proc_is_runnable e (procAt s1 p) then RTS_SET e p {RTS_NO_QUANTUM} s1 else s1)"

lemma sched_dequeue_effect:
  assumes laws: "smp_laws e" and p: "p < length (procs s)"
  shows "\<exists>F c. procs (sched_dequeue e p cpu s) = upd_at p (\<lambda>q. q\<lparr>p_rts_flags := F, p_cpu := c\<rparr>) (procs s)
     \<and> F - {RTS_NO_QUANTUM} = p_rts_flags (procAt s p) - {RTS_NO_QUANTUM}
     \<and> (\<not> K_CONFIG_SMP e \<or> cpu = -1 \<longrightarrow> c = p_cpu (procAt s p))
     \<and> k_console (sched_dequeue e p cpu s) = k_console s"
proof (cases "p_rts_flags (procAt s p) = {}")
  case False
  then have "sched_dequeue e p cpu s = s" using laws by (simp add: sched_dequeue_def smp_laws_def)
  then show ?thesis
    by (intro exI [of _ "p_rts_flags (procAt s p)"] exI [of _ "p_cpu (procAt s p)"]) (simp add: upd_at_def)
next
  case True
  let ?b = "K_CONFIG_SMP e \<and> p_cpu (procAt s p) \<noteq> cpuid e \<and> cpu \<noteq> -1 \<and> cpu \<noteq> p_cpu (procAt s p)"
  let ?m = "if ?b then smp_schedule_migrate_proc e p cpu s else s"
  have "\<exists>c. procs ?m = upd_at p (\<lambda>q. q\<lparr>p_cpu := c\<rparr>) (procs s) \<and> (\<not> ?b \<longrightarrow> c = p_cpu (procAt s p))"
  proof (cases ?b)
    case True
    moreover obtain c where "procs (smp_schedule_migrate_proc e p cpu s) = upd_at p (\<lambda>q. q\<lparr>p_cpu := c\<rparr>) (procs s)"
      using laws unfolding smp_laws_def by blast
    ultimately show ?thesis by (intro exI [of _ c]) simp
  next
    case False
    then show ?thesis unfolding if_not_P [OF False] by (intro exI [of _ "p_cpu (procAt s p)"]) (simp add: upd_at_def)
  qed
  then obtain c where c: "procs ?m = upd_at p (\<lambda>q. q\<lparr>p_cpu := c\<rparr>) (procs s)" "\<not> ?b \<longrightarrow> c = p_cpu (procAt s p)"
    by blast
  have con: "k_console ?m = k_console s" using laws by (simp add: smp_laws_def)
  have "sched_dequeue e p cpu s = RTS_SET e p {RTS_NO_QUANTUM} ?m"
    using True laws p c(1) unfolding sched_dequeue_def smp_laws_def Let_def by simp
  moreover have "procs (RTS_SET e p {RTS_NO_QUANTUM} ?m)
      = upd_at p (\<lambda>q. q\<lparr>p_rts_flags := {RTS_NO_QUANTUM}, p_cpu := c\<rparr>) (procs s)"
    unfolding RTS_SET_sel c(1) upd_at_upd_at_same using True
    by (intro upd_at_cong proc.equality) simp_all
  ultimately show ?thesis using c(2) con True
    by (intro exI [of _ "{RTS_NO_QUANTUM}"] exI [of _ c]) simp
qed

lemma sched_assign:
  fixes e :: "'w kenv"
  assumes ps: "procs s2 = upd_at p (\<lambda>q. q\<lparr>p_rts_flags := F, p_cpu := c\<rparr>) ps"
    and fl: "F - {RTS_NO_QUANTUM} = p_rts_flags (ps ! p) - {RTS_NO_QUANTUM}"
    and cpu: "\<not> (K_CONFIG_SMP e \<and> cpu \<noteq> -1) \<Longrightarrow> c = p_cpu (ps ! p)"
  shows "procs (RTS_UNSET e p {RTS_NO_QUANTUM}
       (let s3 = (if priority \<noteq> -1 then upd_proc p (\<lambda>q. q\<lparr>p_priority := priority\<rparr>) s2 else s2);
            s4 = (if quantum \<noteq> -1
                  then upd_proc p (\<lambda>q. q\<lparr>p_quantum_size_ms := quantum, p_cpu_time_left := ms_2_cpu_time e quantum\<rparr>) s3
                  else s3)
        in if K_CONFIG_SMP e \<and> cpu \<noteq> -1 then upd_proc p (\<lambda>q. q\<lparr>p_cpu := cpu\<rparr>) s4 else s4))
     = upd_at p (rescheduled e priority quantum cpu) ps"
proof -
  obtain b where b: "b \<longleftrightarrow> K_CONFIG_SMP e \<and> cpu \<noteq> -1" by blast
  show ?thesis using fl cpu unfolding Let_def rescheduled_def b [symmetric]
    by (cases b; cases "priority = -1"; cases "quantum = -1")
       (simp_all add: ps, (rule upd_at_cong, rule proc.equality, simp_all)+)
qed

lemma sched_proc_full:
  fixes e :: "'w kenv"
  assumes laws: "smp_laws e" and p: "p < length (procs s)"
  shows "case sched_proc e p priority quantum cpu s of (r, s') \<Rightarrow>
     r = (if \<not> sched_proc_range e priority quantum then Err EINVAL
          else if K_CONFIG_SMP e \<and> cpu \<noteq> -1 \<and> (cpu < 0 \<or> 0 < cpu \<and> ncpus e \<le> cpu) then Err EINVAL
          else if K_CONFIG_SMP e \<and> cpu \<noteq> -1 \<and> \<not> cpu_is_ready e cpu then Err EBADCPU else OK)
   \<and> procs s' = (if r = OK then upd_at p (rescheduled e priority quantum cpu) (procs s) else procs s)
   \<and> k_console s' = k_console s @ (if sched_proc_range e priority quantum then [quantum_report e (procAt s p)] else [])"
proof -
  let ?r = "sched_proc_range e priority quantum"
  let ?s0 = "kprint (fst (quantum_report e (procAt s p))) (snd (quantum_report e (procAt s p))) s"
  let ?bad = "K_CONFIG_SMP e \<and> ((cpu < 0 \<and> cpu \<noteq> -1) \<or> (cpu > 0 \<and> cpu \<ge> ncpus e))"
  let ?nrdy = "K_CONFIG_SMP e \<and> cpu \<noteq> -1 \<and> \<not> cpu_is_ready e cpu"
  let ?s2 = "sched_dequeue e p cpu ?s0"
  let ?s3 = "if priority \<noteq> -1 then upd_proc p (\<lambda>q. q\<lparr>p_priority := priority\<rparr>) ?s2 else ?s2"
  let ?s4 = "if quantum \<noteq> -1
      then upd_proc p (\<lambda>q. q\<lparr>p_quantum_size_ms := quantum, p_cpu_time_left := ms_2_cpu_time e quantum\<rparr>) ?s3 else ?s3"
  let ?s5 = "if K_CONFIG_SMP e \<and> cpu \<noteq> -1 then upd_proc p (\<lambda>q. q\<lparr>p_cpu := cpu\<rparr>) ?s4 else ?s4"
  let ?s6 = "RTS_UNSET e p {RTS_NO_QUANTUM} ?s5"
  have eq: "sched_proc e p priority quantum cpu s =
      (if \<not> ?r then (Err EINVAL, s) else if ?bad then (Err EINVAL, ?s0) else if ?nrdy then (Err EBADCPU, ?s0) else (OK, ?s6))"
    unfolding sched_proc_def sched_dequeue_def Let_def quantum_report_def fst_conv snd_conv by (rule refl)
  obtain F c where d: "procs ?s2 = upd_at p (\<lambda>q. q\<lparr>p_rts_flags := F, p_cpu := c\<rparr>) (procs s)"
    "F - {RTS_NO_QUANTUM} = p_rts_flags (procAt s p) - {RTS_NO_QUANTUM}"
    "\<not> K_CONFIG_SMP e \<or> cpu = -1 \<longrightarrow> c = p_cpu (procAt s p)" "k_console ?s2 = k_console ?s0"
    using sched_dequeue_effect [OF laws, of p ?s0 cpu] p by auto
  have "procs ?s6 = upd_at p (rescheduled e priority quantum cpu) (procs s)"
    by (rule sched_assign [unfolded Let_def, OF d(1,2)]) (use d(3) in blast)
  moreover have "k_console ?s6 = k_console s @ [quantum_report e (procAt s p)]" using d(4) by simp
  ultimately show ?thesis unfolding eq by auto
qed

text \<open>
  C25. \<^verbatim>\<open>sched_proc\<close> in full. It returns \<^verbatim>\<open>EINVAL\<close> for a priority, quantum or CPU outside the
  accepted range, \<^verbatim>\<open>EBADCPU\<close> for a CPU that is not ready, and changes no process then; otherwise
  the process gets the given values (each unless \<^verbatim>\<open>-1\<close>), with a fresh time budget for a new quantum,
  and loses \<^verbatim>\<open>RTS_NO_QUANTUM\<close>; its other flags and all other processes stay. A request whose
  priority and quantum are accepted reports the allotted and the used quantum, each exactly once.
\<close>

theorem sched_proc_spec:
  fixes e :: "'w kenv"
  assumes laws: "smp_laws e" and p: "p < length (procs s)"
  shows "case sched_proc e p priority quantum cpu s of (r, s') \<Rightarrow>
     r = (if \<not> sched_proc_range e priority quantum then Err EINVAL
          else if K_CONFIG_SMP e \<and> cpu \<noteq> -1 \<and> (cpu < 0 \<or> 0 < cpu \<and> ncpus e \<le> cpu) then Err EINVAL
          else if K_CONFIG_SMP e \<and> cpu \<noteq> -1 \<and> \<not> cpu_is_ready e cpu then Err EBADCPU else OK)
   \<and> procs s' = (if r = OK then upd_at p (rescheduled e priority quantum cpu) (procs s) else procs s)
   \<and> k_console s' = k_console s @ (if sched_proc_range e priority quantum then [quantum_report e (procAt s p)] else [])"
  using sched_proc_full [OF assms] .

section \<open>A small kernel\<close>

text \<open>
  A machine with three processes on which the hypotheses of the theorems hold: process 0 is
  queued to send to process 1, whose signals go to itself with process 2 as backup; the signals
  of process 0 go to process 2.
\<close>

definition all_calls :: "ksyscall list" where
  "all_calls = [SYS_FORK, SYS_EXEC, SYS_CLEAR, SYS_EXIT, SYS_PRIVCTL, SYS_TRACE, SYS_SETGRANT,
     SYS_RUNCTL, SYS_UPDATE, SYS_STATECTL, SYS_KILL, SYS_GETKSIG, SYS_ENDKSIG, SYS_SIGSEND,
     SYS_SIGRETURN, SYS_IRQCTL, SYS_DEVIO, SYS_VDEVIO, SYS_MEMSET, SYS_VMCTL, SYS_UMAP,
     SYS_UMAP_REMOTE, SYS_VUMAP, SYS_VIRCOPY, SYS_PHYSCOPY, SYS_SAFECOPYFROM, SYS_SAFECOPYTO,
     SYS_VSAFECOPY, SYS_SAFEMEMSET, SYS_TIMES, SYS_SETALARM, SYS_STIME, SYS_SETTIME,
     SYS_VTIMER, SYS_ABORT, SYS_GETINFO, SYS_DIAGCTL, SYS_SPROF, SYS_CPROF, SYS_PROFBUF,
     SYS_PADCONF, SYS_READBIOS, SYS_IOPENABLE, SYS_SDEVIO, SYS_SETMCONTEXT, SYS_GETMCONTEXT,
     SYS_SCHEDULE, SYS_SCHEDCTL]"

definition call_pos :: "ksyscall \<Rightarrow> nat" where
  "call_pos c = length (takeWhile (\<lambda>d. d \<noteq> c) all_calls)"

definition kdemo_isokendpt :: "proc list \<Rightarrow> endpoint_t \<Rightarrow> nat option" where
  "kdemo_isokendpt ps ep =
     (case filter (\<lambda>i. p_endpoint (ps ! i) = ep \<and> p_rts_flags (ps ! i) \<noteq> {RTS_SLOT_FREE}) [0..<length ps] of
        [] \<Rightarrow> None | i # _ \<Rightarrow> Some i)"

definition kdemo_asend :: "nat \<Rightarrow> unit kstate \<Rightarrow> nat option" where
  "kdemo_asend rc s =
     (if p_priv (procAt s rc) < length (privs s) \<and> 1 \<in> s_asyn_pending (privOf s rc)
         \<and> s_proc_nr (privs s ! 1) = Some 1 \<and> s_id (privOf s 1) = 1 then Some 1 else None)"

definition kdemo_env :: "unit kenv" where
  "kdemo_env =
     \<lparr>ARCH = I386, err_nr = (\<lambda>x. case x of VMSUSPEND \<Rightarrow> -996 | _ \<Rightarrow> -1), K_CONFIG_SMP = True, KERNEL_CALL = 1536,
      SYS_nr = (\<lambda>c. 1536 + int (call_pos c)),
      NONE = -1, SELF = -2, SYSTEM = -3, SYSTEM_slot = 2, NULL_PRIV_ID = -1,
      is_static_priv_id = (\<lambda>i. 0 \<le> i \<and> i < 2), DYN_PRIV_BEG = 2, DYN_PRIV_END = 4, NR_SYS_PROCS = 4,
      RECEIVE = 2, SIGS_IS_LETHAL = (\<lambda>n. n = 11), SIGKSIGSM = 26, SIGKSIG = 27, SIGSNDELAY = 28,
      SIGKMESS = 29, SIGSEGV = 11, TASK_Q = 0, K_NR_SCHED_QUEUES = 16, ncpus = 2, cpuid = 0,
      cpu_is_ready = (\<lambda>c. c = 0), cpu_time_2_ms = (\<lambda>t. int (unat t)), ms_2_cpu_time = (\<lambda>m. of_int m),
      isokendpt = kdemo_isokendpt, isemptyp = (\<lambda>p. p_rts_flags p = {RTS_SLOT_FREE}),
      proc_is_runnable = (\<lambda>p. p_rts_flags p = {}),
      P_BLOCKEDON = (\<lambda>p. if RTS_SENDING \<in> p_rts_flags p then p_sendto_e p else -1),
      rts_hook = (\<lambda>_ _ _ w. w), mini_notify = (\<lambda>_ _ s. s),
      smp_schedule_migrate_proc = (\<lambda>i c s. upd_proc i (\<lambda>p. p\<lparr>p_cpu := c\<rparr>) s),
      copy_msg_from_user = (\<lambda>_ _. Some \<lparr>km_source = 0, km_type = 1536, km_payload = []\<rparr>),
      copy_msg_to_user = (\<lambda>_ _ w. (False, w)),
      has_pending_asend = kdemo_asend,
      cancel_async = (\<lambda>src rc s. upd_priv (p_priv (procAt s rc))
         (\<lambda>q. q\<lparr>s_asyn_pending := s_asyn_pending q - {s_id (privOf s src)}\<rparr>) s),
      run_handler = (\<lambda>h c m s. if MF_KCALL_RESUME \<in> p_misc_flags (procAt s c) then (OK, m, s)
         else (Err VMSUSPEND, m, upd_proc c (\<lambda>p. p\<lparr>p_rts_flags := insert RTS_VMREQUEST (p_rts_flags p), p_vmreq_kernelcall := True\<rparr>) s))\<rparr>"

definition kdemo_proc :: "int \<Rightarrow> nat \<Rightarrow> proc" where
  "kdemo_proc ep k =
     \<lparr>p_endpoint = ep, p_name = ''p'', p_priv = k, p_rts_flags = {}, p_misc_flags = {}, p_priority = 7,
      p_quantum_size_ms = 200, p_cpu_time_left = 50, p_cpu = 0, p_pending = {}, p_signal_received = 0,
      p_sendto_e = 0, p_caller_q = None, p_q_link = None, p_retreg = OK, p_vmreq_kernelcall = False,
      p_saved_reqmsg = \<lparr>km_source = -1, km_type = 0, km_payload = []\<rparr>, p_delivermsg_vir = 0\<rparr>"

definition kdemo_priv :: "nat \<Rightarrow> nat option \<Rightarrow> endpoint_t \<Rightarrow> endpoint_t \<Rightarrow> priv" where
  "kdemo_priv k nr mgr bak =
     \<lparr>s_proc_nr = nr, s_id = k, s_flags = {SYS_PROC}, s_trap_mask = {1, 2}, s_ipc_to = {}, s_k_call_mask = {0},
      s_sig_mgr = mgr, s_bak_sig_mgr = bak, s_notify_pending = {}, s_asyn_pending = {1}, s_sig_pending = {},
      s_asynsize = 3, s_diag_sig = True, s_alarm_timer = Some 5\<rparr>"

definition kdemo :: "unit kstate" where
  "kdemo =
     \<lparr>procs = [(kdemo_proc 10 0)\<lparr>p_rts_flags := {RTS_SENDING}, p_sendto_e := 11\<rparr>,
               (kdemo_proc 11 1)\<lparr>p_caller_q := Some 0\<rparr>, kdemo_proc 12 2],
      privs = [kdemo_priv 0 (Some 0) 12 (-1), kdemo_priv 1 (Some 1) (-2) 12, kdemo_priv 2 (Some 2) (-2) (-1),
               kdemo_priv 3 None (-2) (-1)],
      call_vec = replicate 60 None, irq_hooks = [1, 2], kbill_kcall = None, k_console = [], k_world = ()\<rparr>"

lemmas kdemo_defs = kdemo_env_def kdemo_def kdemo_proc_def kdemo_priv_def

lemma kdemo_isokendpt_laws:
  "kdemo_isokendpt ps ep = Some i \<Longrightarrow> i < length ps \<and> p_endpoint (ps ! i) = ep \<and> p_rts_flags (ps ! i) \<noteq> {RTS_SLOT_FREE}"
  "map p_endpoint ps = map p_endpoint qs \<Longrightarrow>
   map (\<lambda>p. p_rts_flags p = {RTS_SLOT_FREE}) ps = map (\<lambda>p. p_rts_flags p = {RTS_SLOT_FREE}) qs \<Longrightarrow>
   kdemo_isokendpt ps = kdemo_isokendpt qs"
proof -
  assume "kdemo_isokendpt ps ep = Some i"
  then have "i \<in> set (filter (\<lambda>i. p_endpoint (ps ! i) = ep \<and> p_rts_flags (ps ! i) \<noteq> {RTS_SLOT_FREE}) [0..<length ps])"
    unfolding kdemo_isokendpt_def by (auto split: list.splits simp del: set_filter)
  then show "i < length ps \<and> p_endpoint (ps ! i) = ep \<and> p_rts_flags (ps ! i) \<noteq> {RTS_SLOT_FREE}" by simp
next
  assume a: "map p_endpoint ps = map p_endpoint qs"
    and b: "map (\<lambda>p. p_rts_flags p = {RTS_SLOT_FREE}) ps = map (\<lambda>p. p_rts_flags p = {RTS_SLOT_FREE}) qs"
  have len: "length ps = length qs" using arg_cong [OF a, of length] by simp
  have "p_endpoint (ps ! i) = p_endpoint (qs ! i)"
    "p_rts_flags (ps ! i) = {RTS_SLOT_FREE} \<longleftrightarrow> p_rts_flags (qs ! i) = {RTS_SLOT_FREE}" if "i < length qs" for i
    using arg_cong [OF a, of "\<lambda>xs. xs ! i"] arg_cong [OF b, of "\<lambda>xs. xs ! i"] that len by simp_all
  then have "filter (\<lambda>i. p_endpoint (ps ! i) = ep \<and> p_rts_flags (ps ! i) \<noteq> {RTS_SLOT_FREE}) [0..<length qs]
      = filter (\<lambda>i. p_endpoint (qs ! i) = ep \<and> p_rts_flags (qs ! i) \<noteq> {RTS_SLOT_FREE}) [0..<length qs]" for ep
    by (intro filter_cong) auto
  then show "kdemo_isokendpt ps = kdemo_isokendpt qs" unfolding kdemo_isokendpt_def len by presburger
qed

lemma kdemo_laws:
  "endpoint_laws kdemo_env" "notify_laws kdemo_env" "blocked_laws kdemo_env" "asend_laws kdemo_env" "smp_laws kdemo_env"
proof -
  have e: "isemptyp kdemo_env = (\<lambda>p. p_rts_flags p = {RTS_SLOT_FREE})" "isokendpt kdemo_env = kdemo_isokendpt"
    by (simp_all add: kdemo_env_def)
  show "endpoint_laws kdemo_env" unfolding endpoint_laws_def e
    by (intro conjI allI impI refl) (use kdemo_isokendpt_laws in metis)+
  show "notify_laws kdemo_env" by (simp add: notify_laws_def same_signals_def kdemo_env_def)
  show "blocked_laws kdemo_env" by (simp add: blocked_laws_def kdemo_env_def)
  show "smp_laws kdemo_env" by (auto simp: smp_laws_def kdemo_env_def)
  show "asend_laws kdemo_env" unfolding asend_laws_def
    by (auto simp: kdemo_env_def kdemo_asend_def id_to_nr_def same_ipc_def map_upd_at_inv Let_def split: if_splits)
qed

lemma call_pos_inj: "call_pos c = call_pos d \<Longrightarrow> c = d" and call_pos_less: "call_pos c < 60"
proof -
  have mem: "c \<in> set all_calls" for c by (cases c) (simp_all add: all_calls_def)
  have pos: "call_pos c < length all_calls" for c
    unfolding call_pos_def using takeWhile_eq_all_conv [of "\<lambda>d. d \<noteq> c" all_calls] mem [of c]
    by (metis (mono_tags) le_neq_implies_less length_takeWhile_le takeWhile_eq_take take_all_iff order_refl)
  have "all_calls ! call_pos c = c" for c
    using nth_length_takeWhile [of "\<lambda>d. d \<noteq> c" all_calls] pos [of c] unfolding call_pos_def by blast
  then show "call_pos c = call_pos d \<Longrightarrow> c = d" by metis
  show "call_pos c < 60" using pos [of c] by (simp add: all_calls_def)
qed

lemma kdemo_call_numbers: "call_numbers_ok kdemo_env (length (call_vec kdemo))"
  using call_pos_inj call_pos_less by (auto simp: call_numbers_ok_def kdemo_env_def kdemo_def inj_def)


theorem get_priv_spec_witness:
  "\<exists>s'. get_priv kdemo_env 2 (-1) kdemo = (OK, s') \<and> p_priv (procAt s' 2) = 3"
proof -
  have pre: "2 < length (procs kdemo)" "DYN_PRIV_END kdemo_env \<le> length (privs kdemo)"
    "is_static_priv_id kdemo_env i \<Longrightarrow> 0 \<le> i \<and> i < int (length (privs kdemo))" for i
    by (simp_all add: kdemo_defs)
  have env: "(-1 = NULL_PRIV_ID kdemo_env) = True" "DYN_PRIV_BEG kdemo_env = 2" "DYN_PRIV_END kdemo_env = 4"
    by (simp_all add: kdemo_defs)
  have free: "s_proc_nr (privs kdemo ! k) = None \<longleftrightarrow> k = 3" if "2 \<le> k" "k < 4" for k
  proof -
    have "k = 2 \<or> k = 3" using that by arith
    then show ?thesis by (auto simp: kdemo_defs)
  qed
  show ?thesis
  proof (cases "get_priv kdemo_env 2 (-1) kdemo")
    case (Pair r s')
    show ?thesis using get_priv_spec [of 2 kdemo kdemo_env "-1", OF pre] free [of 3] free [of "p_priv (procAt s' 2)"]
      unfolding Pair env by (cases r) (auto simp: Let_def dest: spec [of _ 3])
  qed
qed

theorem fill_sendto_mask_exact_witness:
  "{0, 1, 2, 3} \<inter> s_ipc_to (privs (fill_sendto_mask kdemo_env 0 {0, 1, 3} kdemo) ! 0) = {1}"
proof -
  have ids: "ids_ok kdemo_env kdemo" by (auto simp: ids_ok_def kdemo_defs less_Suc_eq numeral_eq_Suc)
  have "p_priv (procAt kdemo 0) < NR_SYS_PROCS kdemo_env" by (simp add: kdemo_defs)
  moreover have "NR_SYS_PROCS kdemo_env = 4" "p_priv (procAt kdemo 0) = 0"
    "id_to_nr kdemo 1 \<noteq> None" "id_to_nr kdemo 3 = None" by (simp_all add: kdemo_defs id_to_nr_def)
  ultimately show ?thesis using fill_sendto_mask_exact [OF ids, of 0 "{0, 1, 3}"] by (auto simp: Let_def)
qed


theorem cause_sig_backup_witness:
  "\<exists>s'. cause_sig kdemo_env 1 11 kdemo = Some s' \<and> 11 \<in> p_pending (procAt s' 1)"
proof -
  have pre: "1 < length (procs kdemo)" "RTS_SLOT_FREE \<notin> p_rts_flags (procAt kdemo 1)"
    "p_priv (procAt kdemo 1) < length (privs kdemo)" "sig_mgr_of kdemo_env 1 kdemo = p_endpoint (procAt kdemo 1)"
    "SIGS_IS_LETHAL kdemo_env 11" "(12::int) = s_bak_sig_mgr (privOf kdemo 1)" "(12::int) \<noteq> SELF kdemo_env"
    "(12::int) \<noteq> NONE kdemo_env \<longrightarrow> isokendpt kdemo_env (procs kdemo) 12 = Some 2
       \<and> p_priv (procAt kdemo 2) < length (privs kdemo) \<and> RTS_SLOT_FREE \<notin> p_rts_flags (procAt kdemo 2)"
    by (simp_all add: kdemo_defs sig_mgr_of_def kdemo_isokendpt_def upt_rec)
  moreover have "\<not> ((12::int) = NONE kdemo_env \<or> 12 = p_endpoint (procAt kdemo 1))" by (simp add: kdemo_defs)
  ultimately show ?thesis using cause_sig_backup [OF kdemo_laws(1,2) pre] by auto
qed

lemma kdemo_inv: "ipc_inv kdemo_env (procs kdemo) (\<lambda>d. if d = 1 then [0] else [])"
  unfolding ipc_inv_def queues_def
  by (auto simp: kdemo_defs kdemo_isokendpt_def upt_rec less_Suc_eq)

theorem clear_ipc_dequeues_witness:
  "\<exists>s' Q'. clear_ipc kdemo_env 0 kdemo = Some s' \<and> ipc_inv kdemo_env (procs s') Q' \<and> Q' 1 = []"
  using clear_ipc_dequeues [OF kdemo_laws(1) kdemo_inv, of 0] by (fastforce simp: kdemo_def)

theorem clear_endpoint_no_refs_witness:
  "\<exists>s'. clear_endpoint kdemo_env 1 kdemo = Some s' \<and> RTS_NO_ENDPOINT \<in> p_rts_flags (procAt s' 1)"
proof -
  have "1 < length (procs kdemo)" "\<not> isemptyp kdemo_env (procAt kdemo 1)" "p_priv (procAt kdemo 1) < length (privs kdemo)"
    "finite (s_asyn_pending (privOf kdemo 1))" "p_endpoint (procAt kdemo 1) \<noteq> NONE kdemo_env"
    by (simp_all add: kdemo_defs)
  from clear_endpoint_no_refs [OF kdemo_laws(1,3,4) kdemo_inv this] show ?thesis by blast
qed

theorem kernel_call_suspend_resume_witness:
  "\<exists>s3. kernel_call kdemo_env 77 1 (kdemo\<lparr>call_vec := [Some Do_fork]\<rparr>) = Some s3 \<and> kernel_call_resume kdemo_env 1 s3 = None"
proof -
  let ?s = "kdemo\<lparr>call_vec := [Some Do_fork]\<rparr>" and ?m = "\<lparr>km_source = 0, km_type = 1536, km_payload = []\<rparr>"
  have c: "1 < length (procs ?s)" "copy_msg_from_user kdemo_env 77 (k_world ?s) = Some ?m" by (simp_all add: kdemo_defs)
  have d: "kernel_call_dispatch kdemo_env 1 (?m\<lparr>km_source := p_endpoint (procAt ?s 1)\<rparr>)
      (upd_proc 1 (\<lambda>p. p\<lparr>p_delivermsg_vir := 77\<rparr>) ?s)
    = Some (Err VMSUSPEND, ?m\<lparr>km_source := p_endpoint (procAt ?s 1)\<rparr>,
        upd_proc 1 (\<lambda>p. p\<lparr>p_rts_flags := insert RTS_VMREQUEST (p_rts_flags p), p_vmreq_kernelcall := True\<rparr>)
          (upd_proc 1 (\<lambda>p. p\<lparr>p_delivermsg_vir := 77\<rparr>) ?s))"
    by (simp add: kdemo_defs kernel_call_dispatch_def has_priv_def upd_at_def)
  show ?thesis using kernel_call_suspend_resume [OF c d] by (auto simp: kdemo_defs)
qed

theorem sched_proc_spec_witness:
  "fst (sched_proc kdemo_env 1 16 100 (-1) kdemo) = OK \<and> p_priority (procAt (snd (sched_proc kdemo_env 1 16 100 (-1) kdemo)) 1) = 16"
proof -
  have p: "1 < length (procs kdemo)" by (simp add: kdemo_def)
  have "sched_proc_range kdemo_env 16 100" by (simp add: sched_proc_range_def kdemo_env_def)
  then show ?thesis using sched_proc_spec [OF kdemo_laws(5) p, of 16 100 "-1"] p
    by (auto simp: rescheduled_def)
qed

end
