(* ===== verification/Sched_Kernel.thy ===== *)
theory Sched_Kernel
  imports Sched Kernel
begin

text \<open>
  The scheduler above the kernel. SCHED keeps the priority and the quantum of every process in its own table and
  passes changes on by the kernel call \<^verbatim>\<open>sys_schedule\<close>, which for a valid endpoint is \<^verbatim>\<open>sched_proc\<close> on the process.
  The main result is that under the Lab 3 policy the two tables agree after every handler; the Lab 5 policy
  loses the agreement.
\<close>

section \<open>Agreement of the two tables\<close>

text \<open>
  \<open>pn\<close> gives the process of an endpoint. Both sides are compiled with the same number of queues, and the topmost
  queue is 0.
\<close>

definition sched_kernel_laws :: "'w kstate sched_env \<Rightarrow> 'w kenv \<Rightarrow> (endpoint_t \<Rightarrow> nat) \<Rightarrow> bool" where
  "sched_kernel_laws e ke pn \<longleftrightarrow>
     (\<forall>ep prio q c k. pn ep < length (procs k) \<longrightarrow> sys_schedule e ep prio q c k = sched_proc ke (pn ep) prio q c k)
   \<and> smp_laws ke \<and> TASK_Q ke = 0 \<and> K_NR_SCHED_QUEUES ke = uint (NR_SCHED_QUEUES e) \<and> NR_SCHED_QUEUES e < 2 ^ 31"

abbreviation scheduled :: "'w kstate sched_state \<Rightarrow> nat \<Rightarrow> bool" where
  "scheduled s n \<equiv> n < length (sp_tab s) \<and> IN_USE \<in> sp_flags (slot s n)"

abbreviation kproc :: "(endpoint_t \<Rightarrow> nat) \<Rightarrow> 'w kstate sched_state \<Rightarrow> nat \<Rightarrow> proc" where
  "kproc pn s n \<equiv> procAt (sc_kernel s) (pn (sp_endpoint (slot s n)))"

text \<open>The tables agree on all slots outside \<open>A\<close>; the slots in use have different processes and a positive quantum.\<close>

definition tuned :: "(endpoint_t \<Rightarrow> nat) \<Rightarrow> nat set \<Rightarrow> 'w kstate sched_state \<Rightarrow> bool" where
  "tuned pn A s \<longleftrightarrow>
     (\<forall>n. scheduled s n \<longrightarrow> pn (sp_endpoint (slot s n)) < length (procs (sc_kernel s)) \<and> 0 < sint (sp_time_slice (slot s n))
        \<and> (n \<notin> A \<longrightarrow> p_priority (kproc pn s n) = uint (sp_priority (slot s n)) \<and> p_quantum_size_ms (kproc pn s n) = sint (sp_time_slice (slot s n))))
   \<and> (\<forall>i j. scheduled s i \<longrightarrow> scheduled s j \<longrightarrow> pn (sp_endpoint (slot s i)) = pn (sp_endpoint (slot s j)) \<longrightarrow> i = j)"

abbreviation in_tune :: "(endpoint_t \<Rightarrow> nat) \<Rightarrow> 'w kstate sched_state \<Rightarrow> bool" where
  "in_tune pn s \<equiv> tuned pn {} s"

lemma sint_u32_small:
  assumes "(x :: u32) < 2 ^ 31"
  shows "sint x = uint x"
proof -
  have "0 \<le> uint x" "uint x < 2 ^ 31" using assms by (simp_all add: word_less_def)
  then have "signed_take_bit 31 (uint x) = uint x" by (intro signed_take_bit_int_eq_self) linarith+
  then show ?thesis by (simp add: sint_uint)
qed

lemma kernel_local:
  assumes "n < length (sp_tab s)"
  shows "schedule_process_local e n s = (fst (sys_schedule e (sp_endpoint (slot s n)) (sint (sp_priority (slot s n))) (sint (sp_time_slice (slot s n))) (- 1) (sc_kernel s)),
      snd (schedule_process_local e n s))"
    "sc_kernel (snd (schedule_process_local e n s)) = snd (sys_schedule e (sp_endpoint (slot s n)) (sint (sp_priority (slot s n))) (sint (sp_time_slice (slot s n))) (- 1) (sc_kernel s))"
proof -
  have "sc_kernel (pick_cpu e n s) = sc_kernel s" by (simp add: pick_cpu_def Let_def upd_slot_def)
  moreover have "core (slot (pick_cpu e n s) n) = core (slot s n)" using assms map_core_nth(1) [OF map_core_pick_cpu] by (simp add: sp_tab_pick_cpu)
  note C = core_eqD [OF this]
  ultimately show "schedule_process_local e n s = (fst (sys_schedule e (sp_endpoint (slot s n)) (sint (sp_priority (slot s n))) (sint (sp_time_slice (slot s n))) (- 1) (sc_kernel s)),
      snd (schedule_process_local e n s))"
    "sc_kernel (snd (schedule_process_local e n s)) = snd (sys_schedule e (sp_endpoint (slot s n)) (sint (sp_priority (slot s n))) (sint (sp_time_slice (slot s n))) (- 1) (sc_kernel s))"
    using C by (simp_all add: schedule_process_local_def schedule_process_def Let_def case_prod_beta sched_consts)
qed

lemma tuned_cong:
  assumes "map core (sp_tab t) = map core (sp_tab s)" and "map (\<lambda>p. (p_priority p, p_quantum_size_ms p)) (procs (sc_kernel t)) = map (\<lambda>p. (p_priority p, p_quantum_size_ms p)) (procs (sc_kernel s))"
    and "tuned pn A s"
  shows "tuned pn A t"
proof -
  have l: "length (sp_tab t) = length (sp_tab s)" "length (procs (sc_kernel t)) = length (procs (sc_kernel s))"
    using arg_cong [OF assms(1), of length] arg_cong [OF assms(2), of length] by simp_all
  have c: "core (slot t n) = core (slot s n)" if "n < length (sp_tab s)" for n using map_core_nth(1) [OF assms(1)] that l by simp
  have k: "p_priority (procAt (sc_kernel t) i) = p_priority (procAt (sc_kernel s) i)" "p_quantum_size_ms (procAt (sc_kernel t) i) = p_quantum_size_ms (procAt (sc_kernel s) i)"
    if "i < length (procs (sc_kernel s))" for i using arg_cong [OF assms(2), of "\<lambda>xs. xs ! i"] that l by simp_all
  have "scheduled t n = scheduled s n" "scheduled s n \<Longrightarrow> sp_endpoint (slot t n) = sp_endpoint (slot s n) \<and> sp_priority (slot t n) = sp_priority (slot s n) \<and> sp_time_slice (slot t n) = sp_time_slice (slot s n)" for n
    using core_eqD [OF c [of n]] l by auto
  then show ?thesis using assms(3) l k unfolding tuned_def by metis
qed

lemma local_tunes:
  assumes laws: "sched_kernel_laws e ke pn" and t: "tuned pn {n} s" and n: "scheduled s n" and q: "sp_priority (slot s n) < NR_SCHED_QUEUES e"
  shows "fst (schedule_process_local e n s) = OK \<and> in_tune pn (snd (schedule_process_local e n s))"
proof -
  let ?p = "pn (sp_endpoint (slot s n))" and ?k = "sc_kernel s" and ?pr = "sint (sp_priority (slot s n))" and ?ts = "sint (sp_time_slice (slot s n))"
  let ?s' = "snd (schedule_process_local e n s)"
  have L: "smp_laws ke" "TASK_Q ke = 0" "K_NR_SCHED_QUEUES ke = uint (NR_SCHED_QUEUES e)" "NR_SCHED_QUEUES e < 2 ^ 31"
    "sys_schedule e (sp_endpoint (slot s n)) ?pr ?ts (- 1) ?k = sched_proc ke ?p ?pr ?ts (- 1) ?k" and p: "?p < length (procs ?k)" and ts: "0 < ?ts"
    using laws t n by (simp_all add: sched_kernel_laws_def tuned_def)
  have pr: "?pr = uint (sp_priority (slot s n))" using sint_u32_small q L(4) by (meson order.strict_trans)
  then have rg: "0 \<le> ?pr" "sched_proc_range ke ?pr ?ts" using q ts L(2,3) by (simp_all add: sched_proc_range_def word_less_def)
  obtain r k' where sp: "sched_proc ke ?p ?pr ?ts (- 1) ?k = (r, k')" by force
  have r: "r = OK" "procs k' = upd_at ?p (rescheduled ke ?pr ?ts (- 1)) (procs ?k)"
    using sched_proc_full [OF L(1) p, of ?pr ?ts "- 1"] rg sp by simp_all
  have K: "fst (schedule_process_local e n s) = OK" "sc_kernel ?s' = k'"
    using arg_cong [OF kernel_local(1), of n s fst e] kernel_local(2) [of n s e] n L(5) sp r(1) by simp_all
  have c: "map core (sp_tab ?s') = map core (sp_tab s)" by simp
  have "in_tune pn (s\<lparr>sc_kernel := k'\<rparr>)"
  proof -
    have "p_priority (procs k' ! pn (sp_endpoint (slot s j))) = uint (sp_priority (slot s j)) \<and> p_quantum_size_ms (procs k' ! pn (sp_endpoint (slot s j))) = sint (sp_time_slice (slot s j))"
      if j: "scheduled s j" for j
    proof (cases "j = n")
      case True
      have "uint (sp_priority (slot s n)) \<noteq> - 1" using rg(1) pr by linarith
      then show ?thesis using True p r(2) ts pr by (simp add: rescheduled_def)
    next
      case False
      then have "pn (sp_endpoint (slot s j)) \<noteq> ?p" using t n j unfolding tuned_def by metis
      then show ?thesis using t j False r(2) by (simp add: tuned_def)
    qed
    then show ?thesis using t r(2) by (simp add: tuned_def)
  qed
  then have "in_tune pn ?s'" using tuned_cong [of ?s' "s\<lparr>sc_kernel := k'\<rparr>" pn "{}"] c K(2) by simp
  then show ?thesis using K(1) by simp
qed

lemma upd_tuned:
  assumes "in_tune pn s" and "\<And>p. sp_endpoint (f p) = sp_endpoint p \<and> sp_flags (f p) = sp_flags p \<and> sp_time_slice (f p) = sp_time_slice p"
  shows "tuned pn {n} (upd_slot n f s)"
proof -
  have "sp_endpoint (upd_at n f (sp_tab s) ! j) = sp_endpoint (slot s j)" "sp_flags (upd_at n f (sp_tab s) ! j) = sp_flags (slot s j)"
    "sp_time_slice (upd_at n f (sp_tab s) ! j) = sp_time_slice (slot s j)" for j by (simp_all add: nth_upd_at_inv assms(2))
  moreover have "sp_priority (upd_at n f (sp_tab s) ! j) = sp_priority (slot s j)" if "j \<noteq> n" for j using that by simp
  moreover have "sc_kernel (upd_slot n f s) = sc_kernel s" by (simp add: upd_slot_def)
  ultimately show ?thesis using assms(1) by (simp add: tuned_def)
qed

lemma tuned_mono: "in_tune pn s \<Longrightarrow> tuned pn A s"
  by (simp add: tuned_def)

section \<open>The handlers\<close>

lemma noquantum_lab3_tunes:
  assumes laws: "sched_kernel_laws e ke pn" and cfg: "sched_config e" and inv: "sched_inv e s" and t: "in_tune pn s"
  shows "in_tune pn (snd (do_noquantum_lab3 e m s))"
proof (cases "sched_isokendpt e (sp_tab s) (sm_source m)")
  case (Inl a)
  then show ?thesis using t by (simp add: do_noquantum_lab3_def tuned_def)
next
  case (Inr n)
  define s1 where "s1 = (if sp_priority (slot s n) < MIN_USER_Q e then upd_slot n (\<lambda>p. p\<lparr>sp_priority := sp_priority p + 1\<rparr>) s else s)"
  have n: "scheduled s n" using endpt_ok [OF _ Inr] cfg by (simp add: sched_config_def)
  have t1: "tuned pn {n} s1" unfolding s1_def using upd_tuned [OF t] tuned_mono [OF t] by simp
  have "sp_priority (slot s n) < NR_SCHED_QUEUES e" using inv n by (simp add: sched_inv_def slot_ok_def)
  then have "scheduled s1 n" "sp_priority (slot s1 n) < NR_SCHED_QUEUES e"
    using n cfg by (auto simp: s1_def sched_config_def elim: u32_inc_below)
  from local_tunes [OF laws t1 this] show ?thesis using Inr by (simp add: do_noquantum_lab3_def Let_def case_prod_beta s1_def [symmetric])
qed

lemma nice_tunes:
  assumes laws: "sched_kernel_laws e ke pn" and cfg: "sched_config e" and t: "in_tune pn s"
  shows "in_tune pn (snd (do_nice e m s))"
proof (cases "sched_isokendpt e (sp_tab s) (sm_endpoint m)")
  case (Inl a)
  then show ?thesis using t by (simp add: do_nice_def tuned_def)
next
  case (Inr n)
  let ?s1 = "upd_slot n (\<lambda>p. p\<lparr>sp_priority := sm_maxprio m, sp_max_priority := sm_maxprio m\<rparr>) s"
  have n: "scheduled s n" using endpt_ok [OF _ Inr] cfg by (simp add: sched_config_def)
  have t1: "tuned pn {n} ?s1" by (rule upd_tuned [OF t]) simp
  have "fst (schedule_process_local e n ?s1) = OK \<and> in_tune pn (snd (schedule_process_local e n ?s1))" if "sm_maxprio m < NR_SCHED_QUEUES e"
    using n that by (intro local_tunes [OF laws t1]) simp_all
  then show ?thesis using Inr t by (auto simp: do_nice_def Let_def case_prod_beta not_le)
qed

lemma balance_slot_tunes:
  assumes laws: "sched_kernel_laws e ke pn" and inv: "sched_inv e s" and t: "in_tune pn s" and i: "i < length (sp_tab s)"
  shows "in_tune pn (balance_slot_lab3 e i s)"
proof (cases "IN_USE \<in> sp_flags (slot s i) \<and> sp_max_priority (slot s i) < sp_priority (slot s i)")
  case True
  let ?s1 = "upd_slot i (\<lambda>p. p\<lparr>sp_priority := sp_priority p - 1\<rparr>) s"
  have "sp_priority (slot s i) < NR_SCHED_QUEUES e" using inv i True by (simp add: sched_inv_def slot_ok_def)
  then have "sp_priority (slot ?s1 i) < NR_SCHED_QUEUES e" using i True by (auto elim: u32_dec_below)
  moreover have "scheduled ?s1 i" "tuned pn {i} ?s1" using True i upd_tuned [OF t] by simp_all
  ultimately show ?thesis using local_tunes [OF laws, of i ?s1] True by (simp add: balance_slot_lab3_def)
next
  case False
  then show ?thesis using t by (auto simp: balance_slot_lab3_def)
qed

lemma balance_tunes:
  assumes laws: "sched_kernel_laws e ke pn" and inv: "sched_inv e s" and t: "in_tune pn s"
  shows "in_tune pn (balance_queues_lab3 e s)"
proof -
  have "in_tune pn (fold (balance_slot_lab3 e) [0..<k] s) \<and> sched_inv e (fold (balance_slot_lab3 e) [0..<k] s) \<and> length (sp_tab (fold (balance_slot_lab3 e) [0..<k] s)) = length (sp_tab s)"
    if "k \<le> length (sp_tab s)" for k
    using that
  proof (induction k)
    case (Suc k)
    then show ?case using balance_slot_tunes [OF laws] by (simp add: balance_slot_lab3_inv)
  qed (simp add: inv t)
  from this [of "length (sp_tab s)"] show ?thesis by (simp add: balance_queues_lab3_def Let_def tuned_def)
qed

lemma stop_tunes:
  assumes "in_tune pn s"
  shows "in_tune pn (snd (do_stop_scheduling e m s))"
proof (cases "sched_isokendpt e (sp_tab s) (sm_endpoint m)")
  case (Inl a)
  then show ?thesis using assms by (simp add: do_stop_scheduling_def tuned_def)
next
  case (Inr n)
  let ?s = "upd_slot n (\<lambda>p. p\<lparr>sp_flags := {}\<rparr>) s"
  have u: "scheduled ?s j \<Longrightarrow> scheduled s j \<and> slot ?s j = slot s j" for j by (cases "j = n") auto
  have "in_tune pn ?s" using assms u unfolding tuned_def by (metis (no_types, lifting) upd_slot_def sched_state.select_convs(6) sched_state.surjective sched_state.update_convs(1))
  then have "in_tune pn (upd_slot n (\<lambda>p. p\<lparr>sp_flags := {}\<rparr>) (s\<lparr>cpu_proc := c\<rparr>))" for c
    by (rule tuned_cong [rotated 2]) (simp_all add: upd_slot_def)
  then show ?thesis using Inr assms \<open>in_tune pn ?s\<close> by (simp add: do_stop_scheduling_def Let_def)
qed

text \<open>The messages and the timer event that SCHED handles for processes it already schedules, under the Lab 3 policy.\<close>

datatype sched_event = Ev_noquantum sched_msg | Ev_nice sched_msg | Ev_stop sched_msg | Ev_balance

fun handle_lab3 :: "'k sched_env \<Rightarrow> sched_event \<Rightarrow> 'k sched_state \<Rightarrow> 'k sched_state" where
  "handle_lab3 e (Ev_noquantum m) s = snd (do_noquantum_lab3 e m s)"
| "handle_lab3 e (Ev_nice m) s = snd (do_nice e m s)"
| "handle_lab3 e (Ev_stop m) s = snd (do_stop_scheduling e m s)"
| "handle_lab3 e Ev_balance s = balance_queues_lab3 e s"

lemma handle_lab3_inv: "sched_config e \<Longrightarrow> sched_inv e s \<Longrightarrow> sched_inv e (handle_lab3 e v s)"
  by (cases v) (simp_all add: do_noquantum_lab3_inv do_nice_inv do_stop_scheduling_inv balance_queues_lab3_inv sched_config_def)

lemma handle_lab3_tunes:
  assumes "sched_kernel_laws e ke pn" "sched_config e" "sched_inv e s" "in_tune pn s"
  shows "in_tune pn (handle_lab3 e v s)"
  using noquantum_lab3_tunes [OF assms] nice_tunes [OF assms(1,2,4)] stop_tunes [OF assms(4)] balance_tunes [OF assms(1,3,4)]
  by (cases v) simp_all

section \<open>An instance\<close>

text \<open>Two processes under SCHED, on the small kernel; the kernel call is \<^const>\<open>sched_proc\<close>.\<close>

definition skdemo_env :: "unit kstate sched_env" where
  "skdemo_env = \<lparr>NR_SCHED_QUEUES = 16, MIN_USER_Q = 15, USER_Q = 7, RS_PROC_NR = 2, SCHED_PROC_NR = 4,
     CONFIG_SMP = False, processors_count = 1, bsp_id = 0, sys_hz = 60, ENDPOINT_P = (\<lambda>e. e),
     accept_message = (\<lambda>_. True), sched_isokendpt = demo_isok, sched_isemtyendpt = demo_isempty,
     sys_schedule = (\<lambda>ep p q c k. sched_proc kdemo_env (nat ep) p q c k),
     sys_schedctl = (\<lambda>f ep a b c k. (OK, k))\<rparr>"

definition skdemo :: "u32 \<Rightarrow> unit kstate sched_state" where
  "skdemo q = \<lparr>sp_tab = [demo_proc 0 q q, demo_proc 1 q q], cpu_proc = [0], balance_timeout = 0, sched_timer = None, sc_console = [],
     sc_kernel = kdemo\<lparr>procs := map (\<lambda>p. p\<lparr>p_priority := uint q, p_quantum_size_ms := 200\<rparr>) (procs kdemo)\<rparr>\<rparr>"

lemma skdemo_laws: "sched_kernel_laws skdemo_env kdemo_env nat" "sched_config skdemo_env"
proof -
  show "sched_kernel_laws skdemo_env kdemo_env nat" using kdemo_laws(5) by (simp add: sched_kernel_laws_def skdemo_env_def) (simp add: kdemo_env_def)
  have "endpt_laws skdemo_env" using demo_endpt_laws by (simp add: endpt_laws_def skdemo_env_def demo_env_def)
  then show "sched_config skdemo_env" by (simp add: sched_config_def) (simp add: skdemo_env_def)
qed

lemma skdemo_tuned: "in_tune nat (skdemo q)"
proof -
  have l: "length (sp_tab (skdemo q)) = 2" by (simp add: skdemo_def)
  have s: "slot (skdemo q) n = demo_proc (int n) q q" if "n < 2" for n using that by (auto simp: skdemo_def less_Suc_eq numeral_2_eq_2)
  have k: "p_priority (procAt (sc_kernel (skdemo q)) n) = uint q" "p_quantum_size_ms (procAt (sc_kernel (skdemo q)) n) = 200" "n < length (procs (sc_kernel (skdemo q)))"
    if "n < 2" for n using that by (auto simp: skdemo_def kdemo_def less_Suc_eq numeral_2_eq_2)
  have "sint (200 :: u32) = 200" by simp
  then show ?thesis using k unfolding tuned_def l by (simp add: s demo_proc_def)
qed

lemma skdemo_inv: "q < 16 \<Longrightarrow> sched_inv skdemo_env (skdemo q)"
  by (simp add: sched_inv_def slot_ok_def skdemo_def demo_proc_def skdemo_env_def)

section \<open>Properties\<close>



text \<open>
  C30. The Lab 5 policy loses this: when a process in queue 0 uses up its quantum, the handler reports success, the
  kernel still has priority 0, and the table holds the largest unsigned number.\<close>

theorem lab5_out_of_tune:
  assumes "sched_kernel_laws e ke pn" "sched_config e" and "in_tune pn s" and "sched_isokendpt e (sp_tab s) (sm_source m) = Inr n"
    and "sp_priority (slot s n) = 0" and "0 < MIN_USER_Q e"
  shows "fst (do_noquantum_lab5 e m s) = OK \<and> uint (sp_priority (slot (snd (do_noquantum_lab5 e m s)) n)) = 2 ^ 32 - 1
    \<and> p_priority (kproc pn (snd (do_noquantum_lab5 e m s)) n) = 0 \<and> \<not> in_tune pn (snd (do_noquantum_lab5 e m s))"
proof -
  let ?s1 = "upd_slot n (\<lambda>p. p\<lparr>sp_priority := sp_priority p - 1\<rparr>) s" and ?p = "pn (sp_endpoint (slot s n))"
  let ?ts = "sint (sp_time_slice (slot s n))"
  define s2 where "s2 = snd (schedule_process_local e n ?s1)"
  have n: "scheduled s n" using endpt_ok [OF _ assms(4)] assms(2) by (simp add: sched_config_def)
  have T: "?p < length (procs (sc_kernel s))" "0 < ?ts" "p_priority (kproc pn s n) = 0" using assms(3,5) n by (simp_all add: tuned_def)
  have L: "smp_laws ke" "TASK_Q ke = 0" "sys_schedule e (sp_endpoint (slot s n)) (- 1) ?ts (- 1) (sc_kernel s) = sched_proc ke ?p (- 1) ?ts (- 1) (sc_kernel s)"
    "K_NR_SCHED_QUEUES ke = uint (NR_SCHED_QUEUES e)" using assms(1) T(1) by (simp_all add: sched_kernel_laws_def)
  have "\<not> uint (NR_SCHED_QUEUES e) < - 1" using unsigned_greater_eq [of "NR_SCHED_QUEUES e", where 'a = int] by linarith
  then have rg: "sched_proc_range ke (- 1) ?ts" using L(2,4) T(2) by (simp add: sched_proc_range_def)
  obtain r k' where sp: "sched_proc ke ?p (- 1) ?ts (- 1) (sc_kernel s) = (r, k')" by force
  have r: "r = OK" "procs k' = upd_at ?p (rescheduled ke (- 1) ?ts (- 1)) (procs (sc_kernel s))"
    using sched_proc_full [OF L(1) T(1), of "- 1" ?ts "- 1"] rg sp by simp_all
  have s1: "n < length (sp_tab ?s1)" "sp_endpoint (slot ?s1 n) = sp_endpoint (slot s n)" "sint (sp_priority (slot ?s1 n)) = - 1"
    "sp_time_slice (slot ?s1 n) = sp_time_slice (slot s n)" "sc_kernel ?s1 = sc_kernel s" using n assms(5) by (simp_all add: upd_slot_def)
  have K: "fst (schedule_process_local e n ?s1) = OK" "sc_kernel s2 = k'"
    using arg_cong [OF kernel_local(1) [OF s1(1)], of fst e] kernel_local(2) [OF s1(1), of e] L(3) sp r(1) s1(2-5) by (simp_all add: s2_def)
  have c: "core (slot s2 n) = core (slot ?s1 n)" using s1(1) unfolding s2_def by (rule core_local)
  have C: "sp_endpoint (slot s2 n) = sp_endpoint (slot s n)" "sp_priority (slot s2 n) = - 1" "sp_flags (slot s2 n) = sp_flags (slot s n)"
    using core_eqD [OF c] n assms(5) by simp_all
  have run: "do_noquantum_lab5 e m s = (OK, s2)"
    using assms(4-6) K(1) by (simp add: do_noquantum_lab5_def Let_def case_prod_beta s2_def)
  have l: "n < length (sp_tab s2)" using n by (simp add: s2_def sp_tab_local)
  have p: "p_priority (kproc pn s2 n) = 0" using C(1) K(2) r(2) T by (simp add: rescheduled_def)
  have u: "uint (- 1 :: u32) = 2 ^ 32 - 1" by (simp add: unsigned_minus_1_eq_mask mask_eq_exp_minus_1)
  have "\<not> in_tune pn s2" using l C n p u by (auto simp: tuned_def)
  then show ?thesis using run C p u by simp
qed

theorem lab5_out_of_tune_witness:
  "fst (do_noquantum_lab5 skdemo_env (demo_msg 0 SCHEDULING_OTHER) (skdemo 0)) = OK \<and> \<not> in_tune nat (snd (do_noquantum_lab5 skdemo_env (demo_msg 0 SCHEDULING_OTHER) (skdemo 0)))"
proof -
  have "sched_isokendpt skdemo_env (sp_tab (skdemo 0)) (sm_source (demo_msg 0 SCHEDULING_OTHER)) = Inr 0" "sp_priority (slot (skdemo 0) 0) = 0" "0 < MIN_USER_Q skdemo_env"
    by (simp_all add: skdemo_env_def skdemo_def demo_msg_def demo_proc_def demo_isok_def)
  from lab5_out_of_tune [OF skdemo_laws skdemo_tuned this] show ?thesis by simp
qed

end
