(* ===== verification/PM.thy ===== *)
theory PM
  imports Minix_Prelude
begin

text \<open>
  The process manager's fork, exit and wait calls, \<^verbatim>\<open>src/Lab-02/part3/forkexit.c\<close>.

  The state is the process table \<^verbatim>\<open>mproc\<close>, the usage counter \<^verbatim>\<open>procs_in_use\<close>, the current process
  (\<^verbatim>\<open>mp\<close> and \<^verbatim>\<open>who_p\<close>), the two static \<^verbatim>\<open>next_child\<close> cursors, the console, and an opaque rest
  \<^typ>\<open>'w\<close> (the kernel, VM, VFS and the schedulers). The kernel and VM calls, \<^verbatim>\<open>tell_vfs\<close>,
  \<^verbatim>\<open>sig_proc\<close>, \<^verbatim>\<open>check_sig\<close>, \<^verbatim>\<open>reply\<close>, \<^verbatim>\<open>set_alarm\<close> and \<^verbatim>\<open>get_free_pid\<close> are not part of the
  repository: they are fields of the record \<open>pm_env\<close>. \<^verbatim>\<open>sig_proc\<close> and \<^verbatim>\<open>check_sig\<close> may terminate
  other processes, so they transform the whole state and may panic.
\<close>

section \<open>Data\<close>

datatype mp_flag =
    IN_USE | WAITING | ZOMBIE | ALARM_ON | EXITING | TOLD_PARENT | TRACE_STOPPED | VFS_CALL
  | NEW_PARENT | PROC_STOPPED | PRIV_PROC | TRACE_ZOMBIE | DELAY_CALL | TAINTED | TRACE_EXIT
  | MP_OTHER nat

datatype trace_flag = TO_TRACEFORK | TO_OTHER nat

record mproc =
  mp_endpoint :: endpoint_t
  mp_pid :: int
  mp_procgrp :: int
  mp_wpid :: int
  mp_parent :: int
  mp_tracer :: int
  mp_trace_flags :: "trace_flag set"
  mp_sigtrace :: "nat set"
  mp_flags :: "mp_flag set"
  mp_child_utime :: u32
  mp_child_stime :: u32
  mp_exitstatus :: int
  mp_sigstatus :: int
  mp_scheduler :: endpoint_t
  mp_realuid :: int
  mp_effuid :: int
  mp_realgid :: int
  mp_effgid :: int
  mp_interval :: "u32 list"
  mp_name :: string
  mp_reply_status :: int
  mp_reply_data :: int

datatype vfs_call = VFS_PM_FORK | VFS_PM_SRV_FORK | VFS_PM_EXIT | VFS_PM_DUMPCORE

record vfs_msg =
  vm_type :: vfs_call
  VFS_PM_ENDPT :: endpoint_t
  VFS_PM_PENDPT :: endpoint_t
  VFS_PM_CPID :: int
  VFS_PM_REUID :: int
  VFS_PM_REGID :: int
  VFS_PM_TERM_SIG :: int
  VFS_PM_PATH :: string

record 'w pm_state =
  mproc_tab :: "mproc list"
  procs_in_use :: int
  pm_mp :: nat
  who_p :: nat
  fork_next :: nat
  srv_fork_next :: nat
  pm_console :: console
  pm_world :: 'w

record 'w pm_env =
  NR_PROCS :: nat
  NSIG :: nat
  INIT_PROC_NR :: int
  RS_PROC_NR :: endpoint_t
  VFS_PROC_NR :: endpoint_t
  SCHED_PROC_NR :: endpoint_t
  NONE :: endpoint_t
  NO_TRACER :: int
  SIGSTOP :: nat
  SIGKILL :: nat
  SIGCHLD :: nat
  SIGHUP :: nat
  W_EXITCODE :: "int \<Rightarrow> int \<Rightarrow> int"
  W_STOPCODE :: "nat \<Rightarrow> int"
  vm_fork :: "endpoint_t \<Rightarrow> nat \<Rightarrow> 'w \<Rightarrow> ret \<times> endpoint_t \<times> 'w"
  vm_willexit :: "endpoint_t \<Rightarrow> 'w \<Rightarrow> ret \<times> 'w"
  vm_notify_sig_wrapper :: "endpoint_t \<Rightarrow> 'w \<Rightarrow> 'w"
  vm_exit :: "endpoint_t \<Rightarrow> 'w \<Rightarrow> ret \<times> 'w"
  sys_times :: "endpoint_t \<Rightarrow> 'w \<Rightarrow> ret \<times> u32 \<times> u32"
  sys_stop :: "endpoint_t \<Rightarrow> 'w \<Rightarrow> ret \<times> 'w"
  sys_clear :: "endpoint_t \<Rightarrow> 'w \<Rightarrow> ret \<times> 'w"
  sys_kill :: "endpoint_t \<Rightarrow> nat \<Rightarrow> 'w \<Rightarrow> 'w"
  sys_diagctl_stacktrace :: "endpoint_t \<Rightarrow> 'w \<Rightarrow> 'w"
  sched_stop :: "endpoint_t \<Rightarrow> endpoint_t \<Rightarrow> 'w \<Rightarrow> ret \<times> 'w"
  reply :: "int \<Rightarrow> ret \<Rightarrow> 'w pm_state \<Rightarrow> 'w pm_state"
  tell_vfs :: "nat \<Rightarrow> vfs_msg \<Rightarrow> 'w pm_state \<Rightarrow> 'w pm_state"
  set_alarm :: "nat \<Rightarrow> u32 \<Rightarrow> 'w pm_state \<Rightarrow> 'w pm_state"
  get_free_pid :: "'w pm_state \<Rightarrow> int \<times> 'w pm_state"
  sig_proc :: "nat \<Rightarrow> nat \<Rightarrow> bool \<Rightarrow> bool \<Rightarrow> 'w pm_state \<Rightarrow> 'w pm_state option"
  check_sig :: "int \<Rightarrow> nat \<Rightarrow> bool \<Rightarrow> 'w pm_state \<Rightarrow> 'w pm_state option"

definition LAST_FEW :: int where "LAST_FEW = 2"

abbreviation mproc_at :: "'w pm_state \<Rightarrow> nat \<Rightarrow> mproc" where "mproc_at s i \<equiv> mproc_tab s ! i"

definition upd_mp :: "nat \<Rightarrow> (mproc \<Rightarrow> mproc) \<Rightarrow> 'w pm_state \<Rightarrow> 'w pm_state" where
  "upd_mp i f s = s\<lparr>mproc_tab := upd_at i f (mproc_tab s)\<rparr>"

definition set_flags :: "nat \<Rightarrow> mp_flag set \<Rightarrow> 'w pm_state \<Rightarrow> 'w pm_state" where
  "set_flags i f s = upd_mp i (\<lambda>p. p\<lparr>mp_flags := mp_flags p \<union> f\<rparr>) s"

definition clear_flags :: "nat \<Rightarrow> mp_flag set \<Rightarrow> 'w pm_state \<Rightarrow> 'w pm_state" where
  "clear_flags i f s = upd_mp i (\<lambda>p. p\<lparr>mp_flags := mp_flags p - f\<rparr>) s"

definition pm_print :: "string \<Rightarrow> parg list \<Rightarrow> 'w pm_state \<Rightarrow> 'w pm_state" where
  "pm_print fmt args s = s\<lparr>pm_console := printf fmt args (pm_console s)\<rparr>"

text \<open>A kernel or VM call whose failure is a panic.\<close>

definition call_ok :: "('w \<Rightarrow> ret \<times> 'w) \<Rightarrow> 'w pm_state \<Rightarrow> 'w pm_state option" where
  "call_ok f s = (case f (pm_world s) of (r, w) \<Rightarrow> if r \<noteq> OK then None else Some (s\<lparr>pm_world := w\<rparr>))"

text \<open>The cast of an \<^verbatim>\<open>int\<close> to a (signed) \<^verbatim>\<open>char\<close>.\<close>

definition to_char :: "int \<Rightarrow> int" where
  "to_char n = sint (word_of_int n :: u8)"

section \<open>Fork\<close>

definition table_full :: "'w pm_env \<Rightarrow> 'w pm_state \<Rightarrow> bool" where
  "table_full e s \<longleftrightarrow> procs_in_use s = int (NR_PROCS e)
     \<or> procs_in_use s \<ge> int (NR_PROCS e) - LAST_FEW \<and> mp_effuid (mproc_at s (pm_mp s)) \<noteq> 0"

text \<open>The \<^verbatim>\<open>do ... while\<close> loop over the slots: the cursor and the number of probes at its end.\<close>

function fork_search :: "'w pm_env \<Rightarrow> mproc list \<Rightarrow> nat \<Rightarrow> nat \<Rightarrow> nat \<times> nat" where
  "fork_search e tab next n =
     (let next' = (next + 1) mod NR_PROCS e; n' = n + 1 in
      if IN_USE \<in> mp_flags (tab ! next') \<and> n' \<le> NR_PROCS e then fork_search e tab next' n' else (next', n'))"
  by pat_completeness auto
termination
  by (relation "measure (\<lambda>(e, tab, next, n). NR_PROCS e + 1 - n)") auto

declare fork_search.simps [simp del]

definition untraced :: "'w pm_env \<Rightarrow> mproc \<Rightarrow> mproc" where
  "untraced e p =
     (if TO_TRACEFORK \<notin> mp_trace_flags p
      then p\<lparr>mp_tracer := NO_TRACER e, mp_trace_flags := {}, mp_sigtrace := {}\<rparr> else p)"

text \<open>The child's slot as copied from the parent, before it gets its pid; the flags it keeps differ.\<close>

definition child_slot :: "'w pm_env \<Rightarrow> mproc \<Rightarrow> nat \<Rightarrow> endpoint_t \<Rightarrow> mp_flag set \<Rightarrow> mproc" where
  "child_slot e parent who child_ep keep =
     (let c = untraced e (parent\<lparr>mp_parent := int who\<rparr>) in
      c\<lparr>mp_flags := mp_flags c \<inter> keep, mp_child_utime := 0, mp_child_stime := 0, mp_exitstatus := 0,
        mp_sigstatus := 0, mp_endpoint := child_ep, mp_interval := map (\<lambda>_. 0) (mp_interval c)\<rparr>)"

definition fork_msg :: "vfs_call \<Rightarrow> mproc \<Rightarrow> mproc \<Rightarrow> int \<Rightarrow> int \<Rightarrow> vfs_msg" where
  "fork_msg t child parent uid gid =
     \<lparr>vm_type = t, VFS_PM_ENDPT = mp_endpoint child, VFS_PM_PENDPT = mp_endpoint parent, VFS_PM_CPID = mp_pid child,
      VFS_PM_REUID = uid, VFS_PM_REGID = gid, VFS_PM_TERM_SIG = 0, VFS_PM_PATH = []\<rparr>"

definition stop_traced_child :: "'w pm_env \<Rightarrow> nat \<Rightarrow> 'w pm_state \<Rightarrow> 'w pm_state option" where
  "stop_traced_child e c s =
     (if mp_tracer (mproc_at s c) \<noteq> NO_TRACER e then sig_proc e c (SIGSTOP e) True False s else Some s)"

definition do_fork :: "'w pm_env \<Rightarrow> 'w pm_state \<Rightarrow> (ret \<times> 'w pm_state) option" where
  "do_fork e s =
     (if table_full e s then Some (Err EAGAIN, pm_print ''PM: warning, process table is full!'' [] s)
      else
        (let rmp = pm_mp s;
             (c, n) = fork_search e (mproc_tab s) (fork_next s) 0;
             s0 = s\<lparr>fork_next := c\<rparr>
         in if n > NR_PROCS e \<or> c \<ge> NR_PROCS e \<or> IN_USE \<in> mp_flags (mproc_at s0 c) then None
            else
              (let (r, child_ep, w) = vm_fork e (mp_endpoint (mproc_at s0 rmp)) c (pm_world s0);
                   s1 = s0\<lparr>pm_world := w\<rparr>
               in if r \<noteq> OK then Some (r, s1)
                  else if PRIV_PROC \<in> mp_flags (mproc_at s1 rmp) \<and> mp_scheduler (mproc_at s1 rmp) \<noteq> NONE e then None
                  else
                    (let parent = mproc_at s1 rmp;
                         child = (child_slot e parent (who_p s1) child_ep {IN_USE, DELAY_CALL, TAINTED})
                           \<lparr>mp_scheduler := (if PRIV_PROC \<in> mp_flags parent then SCHED_PROC_NR e else mp_scheduler parent)\<rparr>;
                         s2 = upd_mp c (\<lambda>_. child) (s1\<lparr>procs_in_use := procs_in_use s1 + 1\<rparr>);
                         (new_pid, s3) = get_free_pid e s2;
                         s4 = upd_mp c (\<lambda>p. p\<lparr>mp_pid := new_pid\<rparr>) s3;
                         s5 = pm_print ''Minix: PID %d created'' [AInt (mp_pid (mproc_at s4 c))] s4;
                         s6 = tell_vfs e c (fork_msg VFS_PM_FORK (mproc_at s5 c) (mproc_at s5 rmp) (-1) (-1)) s5
                     in do { s7 \<leftarrow> stop_traced_child e c s6; Some (Err SUSPEND, s7) }))))"

definition do_srv_fork :: "'w pm_env \<Rightarrow> int \<Rightarrow> int \<Rightarrow> 'w pm_state \<Rightarrow> (ret \<times> 'w pm_state) option" where
  "do_srv_fork e uid gid s =
     (if mp_endpoint (mproc_at s (pm_mp s)) \<noteq> RS_PROC_NR e then Some (Err EPERM, s)
      else if table_full e s then Some (Err EAGAIN, pm_print ''PM: warning, process table is full!'' [] s)
      else
        (let rmp = pm_mp s;
             (c, n) = fork_search e (mproc_tab s) (srv_fork_next s) 0;
             s0 = s\<lparr>srv_fork_next := c\<rparr>
         in if n > NR_PROCS e \<or> c \<ge> NR_PROCS e \<or> IN_USE \<in> mp_flags (mproc_at s0 c) then None
            else
              (let (r, child_ep, w) = vm_fork e (mp_endpoint (mproc_at s0 rmp)) c (pm_world s0);
                   s1 = s0\<lparr>pm_world := w\<rparr>
               in if r \<noteq> OK then Some (r, s1)
                  else
                    (let child = (child_slot e (mproc_at s1 rmp) (who_p s1) child_ep {IN_USE, PRIV_PROC, DELAY_CALL})
                           \<lparr>mp_realuid := uid, mp_effuid := uid, mp_realgid := gid, mp_effgid := gid\<rparr>;
                         s2 = upd_mp c (\<lambda>_. child) (s1\<lparr>procs_in_use := procs_in_use s1 + 1\<rparr>);
                         (new_pid, s3) = get_free_pid e s2;
                         s4 = upd_mp c (\<lambda>p. p\<lparr>mp_pid := new_pid\<rparr>) s3;
                         s5 = tell_vfs e c (fork_msg VFS_PM_SRV_FORK (mproc_at s4 c) (mproc_at s4 rmp) uid gid) s4
                     in do { s6 \<leftarrow> stop_traced_child e c s5;
                             let s7 = reply e (int c) OK s6;
                             Some (Ret (mp_pid (mproc_at s7 c)), s7) }))))"

section \<open>Telling parents and tracers\<close>

definition wait_test :: "mproc \<Rightarrow> mproc \<Rightarrow> bool" where
  "wait_test rmp child \<longleftrightarrow> WAITING \<in> mp_flags rmp \<and>
     (mp_wpid rmp = -1 \<or> mp_wpid rmp = mp_pid child \<or> - mp_wpid rmp = mp_procgrp child)"

definition cleanup :: "nat \<Rightarrow> 'w pm_state \<Rightarrow> 'w pm_state" where
  "cleanup i s =
     (upd_mp i (\<lambda>p. p\<lparr>mp_pid := 0, mp_flags := {}, mp_child_utime := 0, mp_child_stime := 0\<rparr>) s)
       \<lparr>procs_in_use := procs_in_use s - 1\<rparr>"

definition tell_parent :: "'w pm_env \<Rightarrow> nat \<Rightarrow> 'w pm_state \<Rightarrow> 'w pm_state option" where
  "tell_parent e c s =
     (let child = mproc_at s c; par = mp_parent child in
      if par \<le> 0 \<or> ZOMBIE \<notin> mp_flags child \<or> TOLD_PARENT \<in> mp_flags child then None
      else
        (let s1 = upd_mp (nat par) (\<lambda>p. p\<lparr>mp_reply_status := W_EXITCODE e (mp_exitstatus child) (mp_sigstatus child)\<rparr>) s;
             s2 = reply e (mp_parent (mproc_at s1 c)) (Ret (mp_pid (mproc_at s1 c))) s1
         in Some (set_flags c {TOLD_PARENT} (clear_flags c {ZOMBIE} (clear_flags (nat par) {WAITING} s2)))))"

definition tell_tracer :: "'w pm_env \<Rightarrow> nat \<Rightarrow> 'w pm_state \<Rightarrow> 'w pm_state option" where
  "tell_tracer e c s =
     (let child = mproc_at s c; tr = mp_tracer child in
      if tr \<le> 0 \<or> TRACE_ZOMBIE \<notin> mp_flags child then None
      else
        (let s1 = upd_mp (nat tr) (\<lambda>p. p\<lparr>mp_reply_status :=
                    W_EXITCODE e (mp_exitstatus child) (mp_sigstatus child mod 256)\<rparr>) s;
             s2 = reply e (mp_tracer (mproc_at s1 c)) (Ret (mp_pid (mproc_at s1 c))) s1
         in Some (set_flags c {ZOMBIE} (clear_flags c {TRACE_ZOMBIE} (clear_flags (nat tr) {WAITING} s2)))))"

definition check_parent :: "'w pm_env \<Rightarrow> nat \<Rightarrow> bool \<Rightarrow> 'w pm_state \<Rightarrow> 'w pm_state option" where
  "check_parent e c try_cleanup s =
     (let p = nat (mp_parent (mproc_at s c)) in
      if EXITING \<in> mp_flags (mproc_at s p) then Some s
      else if wait_test (mproc_at s p) (mproc_at s c)
      then do { s1 \<leftarrow> tell_parent e c s;
                Some (if try_cleanup \<and> VFS_CALL \<notin> mp_flags (mproc_at s1 c) then cleanup c s1 else s1) }
      else sig_proc e p (SIGCHLD e) True False s)"

definition zombify :: "'w pm_env \<Rightarrow> nat \<Rightarrow> 'w pm_state \<Rightarrow> 'w pm_state option" where
  "zombify e c s =
     (let p = mproc_at s c in
      if TRACE_ZOMBIE \<in> mp_flags p \<or> ZOMBIE \<in> mp_flags p then None
      else if mp_tracer p \<noteq> NO_TRACER e \<and> mp_tracer p \<noteq> mp_parent p
      then (let s1 = set_flags c {TRACE_ZOMBIE} s in
            if \<not> wait_test (mproc_at s1 (nat (mp_tracer p))) (mproc_at s1 c) then Some s1
            else do { s2 \<leftarrow> tell_tracer e c s1; check_parent e c False s2 })
      else check_parent e c False (set_flags c {ZOMBIE} s))"

definition tracer_died :: "'w pm_env \<Rightarrow> nat \<Rightarrow> 'w pm_state \<Rightarrow> 'w pm_state option" where
  "tracer_died e c s =
     (let s1 = clear_flags c {TRACE_EXIT} (upd_mp c (\<lambda>p. p\<lparr>mp_tracer := NO_TRACER e\<rparr>) s) in
      if EXITING \<notin> mp_flags (mproc_at s1 c) then sig_proc e c (SIGKILL e) True False s1
      else if TRACE_ZOMBIE \<in> mp_flags (mproc_at s1 c)
      then check_parent e c True (set_flags c {ZOMBIE} (clear_flags c {TRACE_ZOMBIE} s1))
      else Some s1)"

section \<open>Exit\<close>

text \<open>One iteration of the loop that disinherits the children of process \<open>proc_nr\<close>.\<close>

definition disinherit :: "'w pm_env \<Rightarrow> nat \<Rightarrow> nat \<Rightarrow> 'w pm_state \<Rightarrow> 'w pm_state option" where
  "disinherit e proc_nr c s =
     (if IN_USE \<notin> mp_flags (mproc_at s c) then Some s
      else do { s1 \<leftarrow> (if mp_tracer (mproc_at s c) = int proc_nr then tracer_died e c s else Some s);
                if mp_parent (mproc_at s1 c) = int proc_nr
                then (let s2 = upd_mp c (\<lambda>p. p\<lparr>mp_parent := INIT_PROC_NR e\<rparr>) s1;
                          s3 = (if VFS_CALL \<in> mp_flags (mproc_at s2 c) then set_flags c {NEW_PARENT} s2 else s2)
                      in if ZOMBIE \<in> mp_flags (mproc_at s3 c) then check_parent e c True s3 else Some s3)
                else Some s1 })"

fun disinherit_all :: "'w pm_env \<Rightarrow> nat \<Rightarrow> nat list \<Rightarrow> 'w pm_state \<Rightarrow> 'w pm_state option" where
  "disinherit_all e proc_nr [] s = Some s"
| "disinherit_all e proc_nr (c # cs) s =
     do { s1 \<leftarrow> disinherit e proc_nr c s; disinherit_all e proc_nr cs s1 }"

definition dumps_core :: "bool \<Rightarrow> mproc \<Rightarrow> bool" where
  "dumps_core dump_core p \<longleftrightarrow> dump_core \<and> mp_realuid p = mp_effuid p \<and> PRIV_PROC \<notin> mp_flags p"

text \<open>Up to the notification of VM: the alarm, the accounting at the parent, and the forced stop.\<close>

definition exit_account :: "'w pm_env \<Rightarrow> nat \<Rightarrow> 'w pm_state \<Rightarrow> 'w pm_state option" where
  "exit_account e i s =
     (let s1 = (if ALARM_ON \<in> mp_flags (mproc_at s i) then set_alarm e i 0 s else s);
          ep = mp_endpoint (mproc_at s i);
          (r, user_time, sys_time) = sys_times e ep (pm_world s1)
      in if r \<noteq> OK then None
         else
           (let par = nat (mp_parent (mproc_at s1 i));
                s2 = upd_mp par (\<lambda>p. p\<lparr>mp_child_utime := mp_child_utime p + (user_time + mp_child_utime (mproc_at s1 i))\<rparr>) s1;
                s3 = upd_mp par (\<lambda>p. p\<lparr>mp_child_stime := mp_child_stime p + (sys_time + mp_child_stime (mproc_at s2 i))\<rparr>) s2
            in do { s4 \<leftarrow> (if PROC_STOPPED \<notin> mp_flags (mproc_at s3 i)
                          then do { t \<leftarrow> call_ok (sys_stop e ep) s3; Some (set_flags i {PROC_STOPPED} t) }
                          else Some s3);
                    s5 \<leftarrow> call_ok (vm_willexit e ep) s4;
                    Some (s5\<lparr>pm_world := vm_notify_sig_wrapper e (mp_endpoint (mproc_at s5 i)) (pm_world s5)\<rparr>) }))"

definition exit_msg :: "bool \<Rightarrow> mproc \<Rightarrow> vfs_msg" where
  "exit_msg dump p =
     \<lparr>vm_type = (if dump then VFS_PM_DUMPCORE else VFS_PM_EXIT), VFS_PM_ENDPT = mp_endpoint p, VFS_PM_PENDPT = 0,
      VFS_PM_CPID = 0, VFS_PM_REUID = 0, VFS_PM_REGID = 0,
      VFS_PM_TERM_SIG = (if dump then mp_sigstatus p else 0), VFS_PM_PATH = (if dump then mp_name p else [])\<rparr>"

definition exit_proc :: "'w pm_env \<Rightarrow> nat \<Rightarrow> int \<Rightarrow> bool \<Rightarrow> 'w pm_state \<Rightarrow> 'w pm_state option" where
  "exit_proc e i exit_status dump_core s =
     (let dump = dumps_core dump_core (mproc_at s i);
          ep = mp_endpoint (mproc_at s i);
          procgrp = (if mp_pid (mproc_at s i) = mp_procgrp (mproc_at s (pm_mp s)) then mp_procgrp (mproc_at s (pm_mp s)) else 0)
      in do { s1 \<leftarrow> exit_account e i s;
              if ep = INIT_PROC_NR e
              then (let t = pm_print ''PM: INIT died with exit status %d; showing stacktrace'' [AInt exit_status] s1
                    in Some (t\<lparr>pm_world := sys_diagctl_stacktrace e ep (pm_world t)\<rparr>))
              else if ep = VFS_PROC_NR e then None
              else do {
                let s2 = tell_vfs e i (exit_msg dump (mproc_at s1 i)) s1;
                s3 \<leftarrow> (if PRIV_PROC \<in> mp_flags (mproc_at s2 i)
                      then call_ok (sys_clear e (mp_endpoint (mproc_at s2 i))) s2 else Some s2);
                let s4 = upd_mp i (\<lambda>p. p\<lparr>mp_flags := insert EXITING (mp_flags p \<inter> {IN_USE, VFS_CALL, PRIV_PROC, TRACE_EXIT, PROC_STOPPED}),
                                          mp_exitstatus := to_char exit_status\<rparr>) s3;
                s5 \<leftarrow> (if \<not> dump then zombify e i s4 else Some s4);
                s6 \<leftarrow> disinherit_all e i [0..<NR_PROCS e] s5;
                if procgrp \<noteq> 0 then check_sig e (- procgrp) (SIGHUP e) False s6 else Some s6 } })"

definition do_exit :: "'w pm_env \<Rightarrow> int \<Rightarrow> 'w pm_state \<Rightarrow> (ret \<times> 'w pm_state) option" where
  "do_exit e status s =
     (let mp = mproc_at s (pm_mp s) in
      if PRIV_PROC \<in> mp_flags mp
      then (let s1 = pm_print ''PM: system process %d (%s) tries to exit(), sending SIGKILL''
                       [AInt (mp_endpoint mp), AStr (mp_name mp)] s
            in Some (Err SUSPEND, s1\<lparr>pm_world := sys_kill e (mp_endpoint mp) (SIGKILL e) (pm_world s1)\<rparr>))
      else do { s1 \<leftarrow> exit_proc e (pm_mp s) status False s;
                Some (Err SUSPEND, pm_print ''Minix: PID %d exited'' [AInt (mp_pid (mproc_at s1 (pm_mp s)))] s1) })"

definition exit_restart :: "'w pm_env \<Rightarrow> nat \<Rightarrow> bool \<Rightarrow> 'w pm_state \<Rightarrow> 'w pm_state option" where
  "exit_restart e i dump_core s =
     (let (r, w) = sched_stop e (mp_scheduler (mproc_at s i)) (mp_endpoint (mproc_at s i)) (pm_world s);
          s1 = s\<lparr>pm_world := w\<rparr>;
          s2 = (if r \<noteq> OK then pm_print ''PM: The scheduler did not want to give up scheduling %s, ret=%d.''
                                 [AStr (mp_name (mproc_at s1 i)), ARet r] s1 else s1);
          s3 = upd_mp i (\<lambda>p. p\<lparr>mp_scheduler := NONE e\<rparr>) s2
      in do { s4 \<leftarrow> (if dump_core then zombify e i s3 else Some s3);
              s5 \<leftarrow> (if PRIV_PROC \<notin> mp_flags (mproc_at s4 i)
                    then call_ok (sys_clear e (mp_endpoint (mproc_at s4 i))) s4 else Some s4);
              s6 \<leftarrow> call_ok (vm_exit e (mp_endpoint (mproc_at s5 i))) s5;
              let s7 = (if TRACE_EXIT \<in> mp_flags (mproc_at s6 i)
                        then reply e (mp_tracer (mproc_at s6 i)) OK
                               (upd_mp (nat (mp_tracer (mproc_at s6 i))) (\<lambda>p. p\<lparr>mp_reply_data := 0\<rparr>) s6)
                        else s6);
              Some (if TOLD_PARENT \<in> mp_flags (mproc_at s7 i) then cleanup i s7 else s7) })"

section \<open>Wait\<close>

definition wait_pid :: "int \<Rightarrow> 'w pm_state \<Rightarrow> int" where
  "wait_pid pidarg s = (if pidarg = 0 then - mp_procgrp (mproc_at s (pm_mp s)) else pidarg)"

definition qualifies :: "nat \<Rightarrow> int \<Rightarrow> mproc \<Rightarrow> bool" where
  "qualifies who pidarg rp \<longleftrightarrow>
     IN_USE \<in> mp_flags rp \<and> TOLD_PARENT \<notin> mp_flags rp
   \<and> (mp_parent rp = int who \<or> mp_tracer rp = int who)
   \<and> (mp_parent rp = int who \<or> ZOMBIE \<notin> mp_flags rp)
   \<and> \<not> (pidarg > 0 \<and> pidarg \<noteq> mp_pid rp) \<and> \<not> (pidarg < -1 \<and> - pidarg \<noteq> mp_procgrp rp)"

definition first_sig :: "'w pm_env \<Rightarrow> nat set \<Rightarrow> nat option" where
  "first_sig e sigs = List.find (\<lambda>i. i \<in> sigs) [1..<NSIG e]"

text \<open>
  What one qualifying child gives: \<open>Inl\<close> the call's result, or \<open>Inr\<close> to go on with the next slot.
\<close>

definition wait_child :: "'w pm_env \<Rightarrow> nat \<Rightarrow> 'w pm_state \<Rightarrow> ((ret \<times> 'w pm_state) + 'w pm_state) option" where
  "wait_child e c s =
     (let rp = mproc_at s c; mine = (mp_parent rp = int (who_p s));
          traced = (mp_tracer rp = int (who_p s));
          collect = (if mine \<and> ZOMBIE \<in> mp_flags rp
            then do { s1 \<leftarrow> tell_parent e c s;
                      Some (Inl (Err SUSPEND, if VFS_CALL \<notin> mp_flags (mproc_at s1 c) then cleanup c s1 else s1)) }
            else Some (Inr s))
      in if traced \<and> TRACE_ZOMBIE \<in> mp_flags rp
         then do { s1 \<leftarrow> tell_tracer e c s; s2 \<leftarrow> check_parent e c True s1; Some (Inl (Err SUSPEND, s2)) }
         else if traced \<and> TRACE_STOPPED \<in> mp_flags rp
         then (case first_sig e (mp_sigtrace rp) of
                 Some i \<Rightarrow> Some (Inl (Ret (mp_pid rp),
                   upd_mp (pm_mp s) (\<lambda>p. p\<lparr>mp_reply_status := W_STOPCODE e i\<rparr>)
                     (upd_mp c (\<lambda>p. p\<lparr>mp_sigtrace := mp_sigtrace p - {i}\<rparr>) s)))
               | None \<Rightarrow> collect)
         else collect)"

fun wait_scan :: "'w pm_env \<Rightarrow> int \<Rightarrow> nat list \<Rightarrow> nat \<Rightarrow> 'w pm_state \<Rightarrow> ((ret \<times> 'w pm_state) + nat) option" where
  "wait_scan e pidarg [] children s = Some (Inr children)"
| "wait_scan e pidarg (c # cs) children s =
     (if \<not> qualifies (who_p s) pidarg (mproc_at s c) then wait_scan e pidarg cs children s
      else case wait_child e c s of
             None \<Rightarrow> None
           | Some (Inl out) \<Rightarrow> Some (Inl out)
           | Some (Inr _) \<Rightarrow> wait_scan e pidarg cs (children + 1) s)"

definition do_waitpid :: "'w pm_env \<Rightarrow> int \<Rightarrow> bool \<Rightarrow> 'w pm_state \<Rightarrow> (ret \<times> 'w pm_state) option" where
  "do_waitpid e pidarg0 wnohang s =
     (let pidarg = wait_pid pidarg0 s in
      case wait_scan e pidarg [0..<NR_PROCS e] 0 s of
        None \<Rightarrow> None
      | Some (Inl out) \<Rightarrow> Some out
      | Some (Inr children) \<Rightarrow>
          if children > 0
          then (if wnohang then Some (Ret 0, s)
                else Some (Err SUSPEND, upd_mp (pm_mp s) (\<lambda>p. p\<lparr>mp_flags := insert WAITING (mp_flags p), mp_wpid := pidarg\<rparr>) s))
          else Some (Err ECHILD, s))"

section \<open>The invariant\<close>

text \<open>
  \<open>pm_inv\<close>: the usage counter is the number of slots in use, and a slot that is not in use has no
  flags at all. \<open>evolves\<close> is what the exit and wait machinery may do to the table: no slot comes
  into use, a process that is exiting while VFS works on it stays and keeps its pid, parents are
  replaced only by INIT and tracers are only detached.
\<close>

definition used :: "mproc \<Rightarrow> bool" where
  "used p \<longleftrightarrow> IN_USE \<in> mp_flags p"

definition pm_inv :: "'w pm_env \<Rightarrow> 'w pm_state \<Rightarrow> bool" where
  "pm_inv e s \<longleftrightarrow> length (mproc_tab s) = NR_PROCS e
     \<and> procs_in_use s = int (count_slots used (mproc_tab s))
     \<and> (\<forall>p\<in>set (mproc_tab s). \<not> used p \<longrightarrow> mp_flags p = {})"

definition held :: "mproc \<Rightarrow> bool" where
  "held p \<longleftrightarrow> IN_USE \<in> mp_flags p \<and> EXITING \<in> mp_flags p \<and> VFS_CALL \<in> mp_flags p"

definition slot_evolves :: "'w pm_env \<Rightarrow> mproc \<Rightarrow> mproc \<Rightarrow> bool" where
  "slot_evolves e p q \<longleftrightarrow> (used q \<longrightarrow> used p) \<and> (held p \<longrightarrow> held q \<and> mp_pid q = mp_pid p)
     \<and> (mp_parent q = mp_parent p \<or> mp_parent q = INIT_PROC_NR e)
     \<and> (mp_tracer q = mp_tracer p \<or> mp_tracer q = NO_TRACER e)"

definition evolves :: "'w pm_env \<Rightarrow> 'w pm_state \<Rightarrow> 'w pm_state \<Rightarrow> bool" where
  "evolves e s t \<longleftrightarrow> length (mproc_tab t) = length (mproc_tab s) \<and> pm_mp t = pm_mp s \<and> who_p t = who_p s
     \<and> (\<forall>i<length (mproc_tab s). slot_evolves e (mproc_at s i) (mproc_at t i))"

text \<open>
  What PM relies on in the code around it. \<^verbatim>\<open>reply\<close> and \<^verbatim>\<open>get_free_pid\<close> leave the table alone,
  the pid is positive and not in use; \<^verbatim>\<open>tell_vfs\<close> marks the process as waiting for VFS, clearing
  the alarm removes its mark; signals may end processes, which is exactly the evolution above, and
  never free the slot of the process they are sent to.
\<close>

definition pm_core :: "'w pm_state \<Rightarrow> mproc list \<times> int \<times> nat \<times> nat \<times> console" where
  "pm_core s = (mproc_tab s, procs_in_use s, pm_mp s, who_p s, pm_console s)"

definition pm_laws :: "'w pm_env \<Rightarrow> bool" where
  "pm_laws e \<longleftrightarrow>
     (\<forall>p r s. pm_core (reply e p r s) = pm_core s)
   \<and> (\<forall>s. pm_core (snd (get_free_pid e s)) = pm_core s \<and> 0 < fst (get_free_pid e s)
          \<and> (\<forall>p\<in>set (mproc_tab s). mp_pid p \<noteq> fst (get_free_pid e s)))
   \<and> (\<forall>i m s. pm_core (tell_vfs e i m s) = pm_core (set_flags i {VFS_CALL} s))
   \<and> (\<forall>i s. pm_core (set_alarm e i 0 s) = pm_core (clear_flags i {ALARM_ON} s))
   \<and> (\<forall>i sg tr ks s t. pm_inv e s \<and> sig_proc e i sg tr ks s = Some t \<longrightarrow>
          pm_inv e t \<and> evolves e s t \<and> (i < NR_PROCS e \<longrightarrow> used (mproc_at s i) \<longrightarrow> used (mproc_at t i)))
   \<and> (\<forall>g sg ks s t. pm_inv e s \<and> check_sig e g sg ks s = Some t \<longrightarrow> pm_inv e t \<and> evolves e s t)"

lemma upd_mp_sel [simp]:
  "mproc_tab (upd_mp i f s) = upd_at i f (mproc_tab s)" "procs_in_use (upd_mp i f s) = procs_in_use s"
  "pm_mp (upd_mp i f s) = pm_mp s" "who_p (upd_mp i f s) = who_p s" "pm_console (upd_mp i f s) = pm_console s"
  "pm_world (upd_mp i f s) = pm_world s" "fork_next (upd_mp i f s) = fork_next s"
  by (simp_all add: upd_mp_def)

lemma pm_print_sel [simp]:
  "mproc_tab (pm_print f a s) = mproc_tab s" "procs_in_use (pm_print f a s) = procs_in_use s"
  "pm_mp (pm_print f a s) = pm_mp s" "who_p (pm_print f a s) = who_p s" "pm_world (pm_print f a s) = pm_world s"
  "pm_console (pm_print f a s) = pm_console s @ [(f, a)]"
  by (simp_all add: pm_print_def printf_def)

lemma slot_evolves_refl [simp]: "slot_evolves e p p"
  by (simp add: slot_evolves_def)

lemma slot_evolves_trans: "slot_evolves e p q \<Longrightarrow> slot_evolves e q r \<Longrightarrow> slot_evolves e p r"
  by (auto simp: slot_evolves_def)

lemma evolves_refl [simp]: "evolves e s s"
  by (simp add: evolves_def)

lemma evolves_trans [trans]: "evolves e s t \<Longrightarrow> evolves e t u \<Longrightarrow> evolves e s u"
  by (auto simp: evolves_def intro: slot_evolves_trans)

lemma evolves_upd:
  "(i < length (mproc_tab s) \<Longrightarrow> slot_evolves e (mproc_at s i) (f (mproc_at s i))) \<Longrightarrow> evolves e s (upd_mp i f s)"
  by (auto simp: evolves_def nth_upd_at)

lemma evolves_core: "pm_core t = pm_core u \<Longrightarrow> evolves e s t = evolves e s u"
  by (simp add: evolves_def pm_core_def)

lemma evolves_core2: "pm_core t = pm_core u \<Longrightarrow> evolves e t s = evolves e u s"
  by (simp add: evolves_def pm_core_def)

lemma pm_inv_core: "pm_core t = pm_core u \<Longrightarrow> pm_inv e t = pm_inv e u"
  by (simp add: pm_inv_def pm_core_def)

lemma pm_inv_nth: "pm_inv e s \<Longrightarrow> i < NR_PROCS e \<Longrightarrow> x \<in> mp_flags (mproc_at s i) \<Longrightarrow> used (mproc_at s i)"
  by (metis empty_iff nth_mem pm_inv_def)

lemma pm_inv_upd:
  assumes inv: "pm_inv e s" and u: "i < NR_PROCS e \<Longrightarrow> used (f (mproc_at s i)) = used (mproc_at s i)"
    and fl: "i < NR_PROCS e \<Longrightarrow> \<not> used (f (mproc_at s i)) \<Longrightarrow> mp_flags (f (mproc_at s i)) = {}"
  shows "pm_inv e (upd_mp i f s)"
proof (cases "i < NR_PROCS e")
  case True
  have len: "length (mproc_tab s) = NR_PROCS e" using inv by (simp add: pm_inv_def)
  have "count_slots used (upd_at i f (mproc_tab s)) = count_slots used (mproc_tab s)"
    using count_slots_upd_at [of i "mproc_tab s" used f] True len u by (auto split: if_splits)
  moreover have "\<forall>p\<in>set (upd_at i f (mproc_tab s)). \<not> used p \<longrightarrow> mp_flags p = {}"
    using inv fl [OF True] by (intro list_all_upd_at) (auto simp: pm_inv_def)
  ultimately show ?thesis using inv by (simp add: pm_inv_def)
next
  case False
  then show ?thesis using inv by (simp add: pm_inv_def upd_at_beyond)
qed

definition good :: "'w pm_env \<Rightarrow> 'w pm_state \<Rightarrow> 'w pm_state \<Rightarrow> bool" where
  "good e s t \<longleftrightarrow> pm_inv e t \<and> evolves e s t"

lemma good_trans [trans]: "good e s t \<Longrightarrow> good e t u \<Longrightarrow> good e s u"
  by (auto simp: good_def intro: evolves_trans)

lemma good_refl: "pm_inv e s \<Longrightarrow> good e s s"
  by (simp add: good_def)

lemma good_core: "pm_core t = pm_core u \<Longrightarrow> good e s u \<Longrightarrow> good e s t"
  using pm_inv_core [of t u e] evolves_core [of t u e s] by (simp add: good_def)

lemma good_inv: "good e s t \<Longrightarrow> pm_inv e t"
  by (simp add: good_def)

lemma good_upd:
  assumes "pm_inv e s" and "i < NR_PROCS e \<Longrightarrow> used (f (mproc_at s i)) = used (mproc_at s i)"
    and "i < NR_PROCS e \<Longrightarrow> \<not> used (f (mproc_at s i)) \<Longrightarrow> mp_flags (f (mproc_at s i)) = {}"
    and "i < NR_PROCS e \<Longrightarrow> slot_evolves e (mproc_at s i) (f (mproc_at s i))"
  shows "good e s (upd_mp i f s)"
  using pm_inv_upd [of e s i f] evolves_upd [of i s e f] assms by (simp add: good_def pm_inv_def)

lemma good_upd_fields:
  assumes "pm_inv e s" and "\<And>p. mp_flags (f p) = mp_flags p" and "\<And>p. mp_pid (f p) = mp_pid p"
    and "\<And>p. mp_parent (f p) = mp_parent p" and "\<And>p. mp_tracer (f p) = mp_tracer p"
  shows "good e s (upd_mp i f s)"
  using assms pm_inv_nth [OF assms(1), of i]
  by (intro good_upd) (auto simp: used_def held_def slot_evolves_def)

lemma good_set_flags:
  assumes "pm_inv e s" and "i < NR_PROCS e \<Longrightarrow> used (mproc_at s i)"
  shows "good e s (set_flags i F s)"
  unfolding set_flags_def
  using assms by (intro good_upd) (auto simp: used_def held_def slot_evolves_def)

lemma good_clear_flags:
  assumes "pm_inv e s" and "F \<inter> {IN_USE, EXITING, VFS_CALL} = {}"
  shows "good e s (clear_flags i F s)"
  unfolding clear_flags_def using assms pm_inv_nth [OF assms(1), of i]
  by (intro good_upd) (auto simp: used_def held_def slot_evolves_def)

lemma cleanup_inv:
  assumes inv: "pm_inv e s" and i: "i < NR_PROCS e" "used (mproc_at s i)"
  shows "pm_inv e (cleanup i s)"
proof -
  let ?f = "\<lambda>p. p\<lparr>mp_pid := 0, mp_flags := {}, mp_child_utime := 0, mp_child_stime := 0\<rparr>"
  have len: "length (mproc_tab s) = NR_PROCS e" using inv by (simp add: pm_inv_def)
  have "count_slots used (upd_at i ?f (mproc_tab s)) + 1 = count_slots used (mproc_tab s)"
    using count_slots_upd_at [of i "mproc_tab s" used ?f] i len by (simp add: used_def)
  moreover have "\<forall>p\<in>set (upd_at i ?f (mproc_tab s)). \<not> used p \<longrightarrow> mp_flags p = {}"
    using inv by (intro list_all_upd_at) (auto simp: pm_inv_def)
  ultimately show ?thesis using inv by (simp add: pm_inv_def cleanup_def)
qed

lemma good_cleanup:
  assumes "pm_inv e s" and "i < NR_PROCS e" and "used (mproc_at s i)" and "VFS_CALL \<notin> mp_flags (mproc_at s i)"
  shows "good e s (cleanup i s)"
  using cleanup_inv [OF assms(1-3)] assms
  by (auto simp: good_def cleanup_def evolves_def pm_inv_def nth_upd_at slot_evolves_def used_def held_def)

lemma reply_core: "pm_laws e \<Longrightarrow> pm_core (reply e p r s) = pm_core s"
  by (simp add: pm_laws_def)

lemma reply_tab [simp]: "pm_laws e \<Longrightarrow> mproc_tab (reply e p r s) = mproc_tab s"
  using reply_core [of e p r s] by (simp add: pm_core_def)

lemma good_nth: "good e s t \<Longrightarrow> pm_inv e s \<Longrightarrow> i < NR_PROCS e \<Longrightarrow> slot_evolves e (mproc_at s i) (mproc_at t i)"
  by (simp add: good_def evolves_def pm_inv_def)

text \<open>Telling a parent or tracer: what it needs, what it leaves, on success.\<close>

lemma tell_parent_good:
  assumes laws: "pm_laws e" and inv: "pm_inv e s" and c: "c < NR_PROCS e" and t: "tell_parent e c s = Some t"
  shows "good e s t" and "used (mproc_at t c)"
    and "0 < mp_parent (mproc_at s c)" "ZOMBIE \<in> mp_flags (mproc_at s c)" "TOLD_PARENT \<notin> mp_flags (mproc_at s c)"
    and "mp_flags (mproc_at t c) = insert TOLD_PARENT (mp_flags (mproc_at s c) - {ZOMBIE} - (if nat (mp_parent (mproc_at s c)) = c then {WAITING} else {}))"
proof -
  let ?par = "nat (mp_parent (mproc_at s c))" and ?ch = "mproc_at s c"
  show g: "0 < mp_parent ?ch" "ZOMBIE \<in> mp_flags ?ch" "TOLD_PARENT \<notin> mp_flags ?ch"
    using t by (auto simp: tell_parent_def Let_def split: if_splits)
  have len: "length (mproc_tab s) = NR_PROCS e" using inv by (simp add: pm_inv_def)
  let ?s1 = "upd_mp ?par (\<lambda>p. p\<lparr>mp_reply_status := W_EXITCODE e (mp_exitstatus ?ch) (mp_sigstatus ?ch)\<rparr>) s"
  obtain s2 where s2: "pm_core s2 = pm_core ?s1"
    "t = set_flags c {TOLD_PARENT} (clear_flags c {ZOMBIE} (clear_flags ?par {WAITING} s2))"
    using t g reply_core [OF laws] by (auto simp: tell_parent_def Let_def)
  have tab2: "mproc_tab s2 = mproc_tab ?s1" using s2(1) by (simp add: pm_core_def)
  have usec: "used ?ch" by (rule pm_inv_nth [OF inv c g(2)])
  have "good e s ?s1" by (rule good_upd_fields [OF inv]) simp_all
  then have g2: "good e s s2" by (rule good_core [OF s2(1)])
  have g3: "good e s2 (clear_flags ?par {WAITING} s2)" (is "good e s2 ?s3") by (rule good_clear_flags [OF good_inv [OF g2]]) simp
  have g4: "good e ?s3 (clear_flags c {ZOMBIE} ?s3)" (is "good e ?s3 ?s4") by (rule good_clear_flags [OF good_inv [OF g3]]) simp
  have fl: "mp_flags (mproc_at ?s4 c) = mp_flags ?ch - {ZOMBIE} - (if ?par = c then {WAITING} else {})"
    using c len by (auto simp: clear_flags_def tab2 nth_upd_at)
  have "used (mproc_at ?s4 c)" using usec unfolding used_def fl by auto
  then have g5: "good e ?s4 t" unfolding s2(2) by (intro good_set_flags [OF good_inv [OF g4]])
  show "good e s t" using g2 g3 g4 g5 by (blast intro: good_trans)
  show ft: "mp_flags (mproc_at t c) = insert TOLD_PARENT (mp_flags ?ch - {ZOMBIE} - (if ?par = c then {WAITING} else {}))"
    unfolding s2(2) set_flags_def upd_mp_sel using c len fl
    by (subst nth_upd_at_same) (simp_all add: clear_flags_def tab2)
  show "used (mproc_at t c)" using usec unfolding used_def ft by auto
qed

lemma tell_tracer_good:
  assumes laws: "pm_laws e" and inv: "pm_inv e s" and c: "c < NR_PROCS e" and t: "tell_tracer e c s = Some t"
  shows "good e s t" and "used (mproc_at t c)" and "ZOMBIE \<in> mp_flags (mproc_at t c)"
proof -
  let ?tr = "nat (mp_tracer (mproc_at s c))" and ?ch = "mproc_at s c"
  have g: "0 < mp_tracer ?ch" "TRACE_ZOMBIE \<in> mp_flags ?ch"
    using t by (auto simp: tell_tracer_def Let_def split: if_splits)
  have len: "length (mproc_tab s) = NR_PROCS e" using inv by (simp add: pm_inv_def)
  let ?s1 = "upd_mp ?tr (\<lambda>p. p\<lparr>mp_reply_status := W_EXITCODE e (mp_exitstatus ?ch) (mp_sigstatus ?ch mod 256)\<rparr>) s"
  obtain s2 where s2: "pm_core s2 = pm_core ?s1"
    "t = set_flags c {ZOMBIE} (clear_flags c {TRACE_ZOMBIE} (clear_flags ?tr {WAITING} s2))"
    using t g reply_core [OF laws] by (auto simp: tell_tracer_def Let_def)
  have tab2: "mproc_tab s2 = mproc_tab ?s1" using s2(1) by (simp add: pm_core_def)
  have usec: "used ?ch" by (rule pm_inv_nth [OF inv c g(2)])
  have "good e s ?s1" by (rule good_upd_fields [OF inv]) simp_all
  then have g2: "good e s s2" by (rule good_core [OF s2(1)])
  have g3: "good e s2 (clear_flags ?tr {WAITING} s2)" (is "good e s2 ?s3") by (rule good_clear_flags [OF good_inv [OF g2]]) simp
  have g4: "good e ?s3 (clear_flags c {TRACE_ZOMBIE} ?s3)" (is "good e ?s3 ?s4")
    by (rule good_clear_flags [OF good_inv [OF g3]]) simp
  have u4: "used (mproc_at ?s4 c)" using usec c len by (auto simp: clear_flags_def tab2 nth_upd_at used_def)
  then have g5: "good e ?s4 t" unfolding s2(2) by (intro good_set_flags [OF good_inv [OF g4]])
  show "good e s t" using g2 g3 g4 g5 by (blast intro: good_trans)
  have "length (mproc_tab ?s4) = NR_PROCS e" using good_inv [OF g4] by (simp add: pm_inv_def)
  then show "used (mproc_at t c)" "ZOMBIE \<in> mp_flags (mproc_at t c)"
    using u4 c unfolding s2(2) set_flags_def upd_mp_sel by (simp_all add: used_def)
qed

lemma sig_proc_good: "pm_laws e \<Longrightarrow> pm_inv e s \<Longrightarrow> sig_proc e i sg tr ks s = Some t \<Longrightarrow> good e s t"
  unfolding pm_laws_def good_def by blast

lemma check_sig_good: "pm_laws e \<Longrightarrow> pm_inv e s \<Longrightarrow> check_sig e g sg ks s = Some t \<Longrightarrow> good e s t"
  unfolding pm_laws_def good_def by blast

lemma check_parent_good:
  assumes laws: "pm_laws e" and inv: "pm_inv e s" and c: "c < NR_PROCS e" and t: "check_parent e c tc s = Some t"
  shows "good e s t"
proof -
  let ?p = "nat (mp_parent (mproc_at s c))"
  show ?thesis
  proof (cases "EXITING \<in> mp_flags (mproc_at s ?p)")
    case True
    then show ?thesis using inv t by (simp add: check_parent_def good_refl)
  next
    case live: False
    show ?thesis
    proof (cases "wait_test (mproc_at s ?p) (mproc_at s c)")
      case True
      with t live obtain s1 where s1: "tell_parent e c s = Some s1"
        "t = (if tc \<and> VFS_CALL \<notin> mp_flags (mproc_at s1 c) then cleanup c s1 else s1)"
        by (cases "tell_parent e c s") (simp_all add: check_parent_def)
      note tp = tell_parent_good [OF laws inv c s1(1)]
      have "good e s1 t" using s1(2) good_refl [OF good_inv [OF tp(1)]] good_cleanup [OF good_inv [OF tp(1)] c tp(2)]
        by (simp split: if_splits)
      then show ?thesis using tp(1) by (blast intro: good_trans)
    next
      case False
      then show ?thesis using t live sig_proc_good [OF laws inv] by (simp add: check_parent_def)
    qed
  qed
qed

lemma zombify_good:
  assumes laws: "pm_laws e" and inv: "pm_inv e s" and c: "c < NR_PROCS e" "used (mproc_at s c)"
    and t: "zombify e c s = Some t"
  shows "good e s t"
proof -
  let ?p = "mproc_at s c"
  let ?tz = "set_flags c {TRACE_ZOMBIE} s" and ?z = "set_flags c {ZOMBIE} s"
  have tz: "good e s ?tz" and z: "good e s ?z" using c(2) by (auto intro: good_set_flags [OF inv])
  have fresh: "TRACE_ZOMBIE \<notin> mp_flags ?p" "ZOMBIE \<notin> mp_flags ?p"
    using t by (simp_all add: zombify_def Let_def split: if_splits)
  show ?thesis
  proof (cases "mp_tracer ?p \<noteq> NO_TRACER e \<and> mp_tracer ?p \<noteq> mp_parent ?p")
    case False
    then have "check_parent e c False ?z = Some t" using t fresh by (simp add: zombify_def Let_def split: if_splits)
    then show ?thesis using good_trans [OF z check_parent_good [OF laws good_inv [OF z] c(1)]] by blast
  next
    case traced: True
    show ?thesis
    proof (cases "wait_test (mproc_at ?tz (nat (mp_tracer ?p))) (mproc_at ?tz c)")
      case False
      then show ?thesis using t fresh traced tz by (simp add: zombify_def Let_def)
    next
      case True
      with t fresh traced obtain s2 where s2: "tell_tracer e c ?tz = Some s2" "check_parent e c False s2 = Some t"
        by (cases "tell_tracer e c ?tz") (simp_all add: zombify_def Let_def)
      have g2: "good e ?tz s2" by (rule tell_tracer_good(1) [OF laws good_inv [OF tz] c(1) s2(1)])
      show ?thesis using good_trans [OF good_trans [OF tz g2] check_parent_good [OF laws good_inv [OF g2] c(1) s2(2)]] .
    qed
  qed
qed

lemma tracer_died_good:
  assumes laws: "pm_laws e" and inv: "pm_inv e s" and c: "c < NR_PROCS e" "used (mproc_at s c)"
    and t: "tracer_died e c s = Some t"
  shows "good e s t" and "mp_tracer (mproc_at t c) = NO_TRACER e"
proof -
  let ?s0 = "upd_mp c (\<lambda>p. p\<lparr>mp_tracer := NO_TRACER e\<rparr>) s"
  let ?s1 = "clear_flags c {TRACE_EXIT} ?s0"
  let ?s2 = "clear_flags c {TRACE_ZOMBIE} ?s1"
  have g0: "good e s ?s0" using pm_inv_nth [OF inv, of c]
    by (intro good_upd [OF inv]) (auto simp: used_def held_def slot_evolves_def)
  have g1: "good e s ?s1" using good_trans [OF g0 good_clear_flags [OF good_inv [OF g0], of "{TRACE_EXIT}" c]] by simp
  have len: "length (mproc_tab s) = NR_PROCS e" using inv by (simp add: pm_inv_def)
  have g: "good e ?s1 t"
  proof (cases "EXITING \<in> mp_flags (mproc_at ?s1 c) \<and> TRACE_ZOMBIE \<in> mp_flags (mproc_at ?s1 c)")
    case True
    then have cp: "check_parent e c True (set_flags c {ZOMBIE} ?s2) = Some t" using t by (simp add: tracer_died_def Let_def)
    have g2: "good e ?s1 ?s2" by (rule good_clear_flags [OF good_inv [OF g1]]) simp
    have "used (mproc_at ?s2 c)" using c len by (simp add: clear_flags_def used_def)
    then have g3: "good e ?s2 (set_flags c {ZOMBIE} ?s2)" by (intro good_set_flags [OF good_inv [OF g2]])
    show ?thesis
      using good_trans [OF g2 good_trans [OF g3 check_parent_good [OF laws good_inv [OF g3] c(1) cp]]] .
  next
    case False
    then show ?thesis using t good_refl [OF good_inv [OF g1]] sig_proc_good [OF laws good_inv [OF g1]]
      by (cases "EXITING \<in> mp_flags (mproc_at ?s1 c)") (simp_all add: tracer_died_def Let_def)
  qed
  show "good e s t" using good_trans [OF g1 g] .
  have "mp_tracer (mproc_at ?s1 c) = NO_TRACER e" using c(1) len by (simp add: clear_flags_def)
  then show "mp_tracer (mproc_at t c) = NO_TRACER e" using good_nth [OF g good_inv [OF g1] c(1)] by (auto simp: slot_evolves_def)
qed

lemma disinherit_good:
  assumes laws: "pm_laws e" and inv: "pm_inv e s" and c: "c < NR_PROCS e" and t: "disinherit e p c s = Some t"
  shows "good e s t"
proof (cases "used (mproc_at s c)")
  case False
  then show ?thesis using t inv by (simp add: disinherit_def used_def good_refl)
next
  case True
  then obtain s1 where s1: "(if mp_tracer (mproc_at s c) = int p then tracer_died e c s else Some s) = Some s1"
    and t1: "(if mp_parent (mproc_at s1 c) = int p
       then (let s2 = upd_mp c (\<lambda>p. p\<lparr>mp_parent := INIT_PROC_NR e\<rparr>) s1;
                 s3 = (if VFS_CALL \<in> mp_flags (mproc_at s2 c) then set_flags c {NEW_PARENT} s2 else s2)
             in if ZOMBIE \<in> mp_flags (mproc_at s3 c) then check_parent e c True s3 else Some s3)
       else Some s1) = Some t"
    using t unfolding disinherit_def used_def by (auto simp: bind_eq_Some_conv simp del: if_split)
  have g1: "good e s s1"
    using s1 tracer_died_good(1) [OF laws inv c True] good_refl [OF inv] by (simp split: if_splits)
  show ?thesis
  proof (cases "mp_parent (mproc_at s1 c) = int p")
    case False
    then show ?thesis using t1 g1 by simp
  next
    case True
    let ?s2 = "upd_mp c (\<lambda>p. p\<lparr>mp_parent := INIT_PROC_NR e\<rparr>) s1"
    let ?s3 = "if VFS_CALL \<in> mp_flags (mproc_at ?s2 c) then set_flags c {NEW_PARENT} ?s2 else ?s2"
    have g2: "good e s1 ?s2" using pm_inv_nth [OF good_inv [OF g1], of c]
      by (intro good_upd [OF good_inv [OF g1]]) (auto simp: used_def held_def slot_evolves_def)
    have g3: "good e ?s2 ?s3"
      using good_set_flags [OF good_inv [OF g2]] pm_inv_nth [OF good_inv [OF g2] c] good_refl [OF good_inv [OF g2]] by auto
    have "good e ?s3 t" using t1 True check_parent_good [OF laws good_inv [OF g3] c] good_refl [OF good_inv [OF g3]]
      unfolding Let_def by (simp only: if_True split: if_splits) auto
    then show ?thesis using good_trans [OF g1 good_trans [OF g2 good_trans [OF g3]]] by blast
  qed
qed

lemma disinherit_all_good:
  assumes laws: "pm_laws e"
  shows "pm_inv e s \<Longrightarrow> set cs \<subseteq> {..<NR_PROCS e} \<Longrightarrow> disinherit_all e p cs s = Some t \<Longrightarrow> good e s t"
proof (induction cs arbitrary: s)
  case Nil
  then show ?case by (simp add: good_refl)
next
  case (Cons c cs)
  then obtain s1 where s1: "disinherit e p c s = Some s1" "disinherit_all e p cs s1 = Some t"
    by (cases "disinherit e p c s") simp_all
  have g: "good e s s1" using disinherit_good [OF laws Cons.prems(1) _ s1(1)] Cons.prems(2) by simp
  show ?case using good_trans [OF g] Cons.IH [OF good_inv [OF g] _ s1(2)] Cons.prems(2) by simp
qed

lemma call_ok_core: "call_ok f s = Some t \<Longrightarrow> pm_core t = pm_core s"
  by (auto simp: call_ok_def pm_core_def split: prod.splits if_splits)

lemma good_call_ok: "pm_inv e s \<Longrightarrow> call_ok f s = Some t \<Longrightarrow> good e s t"
  using good_core [OF call_ok_core good_refl] by blast

lemma good_world: "pm_inv e s \<Longrightarrow> good e s (s\<lparr>pm_world := w\<rparr>)"
  by (rule good_core [OF _ good_refl]) (simp_all add: pm_core_def)

lemma good_print: "pm_inv e s \<Longrightarrow> good e s (pm_print f a s)"
  by (simp add: good_def pm_inv_def evolves_def)

lemma exit_account_good:
  assumes laws: "pm_laws e" and inv: "pm_inv e s" and i: "i < NR_PROCS e" "used (mproc_at s i)"
    and t: "exit_account e i s = Some t"
  shows "good e s t" and "used (mproc_at t i)" and "mp_pid (mproc_at t i) = mp_pid (mproc_at s i)"
proof -
  let ?ep = "mp_endpoint (mproc_at s i)"
  define s1 where "s1 = (if ALARM_ON \<in> mp_flags (mproc_at s i) then set_alarm e i 0 s else s)"
  obtain r ut st where times: "sys_times e ?ep (pm_world s1) = (r, ut, st)" by (cases "sys_times e ?ep (pm_world s1)")
  define par where "par = nat (mp_parent (mproc_at s1 i))"
  define s2 where "s2 = upd_mp par (\<lambda>p. p\<lparr>mp_child_utime := mp_child_utime p + (ut + mp_child_utime (mproc_at s1 i))\<rparr>) s1"
  define s3 where "s3 = upd_mp par (\<lambda>p. p\<lparr>mp_child_stime := mp_child_stime p + (st + mp_child_stime (mproc_at s2 i))\<rparr>) s2"
  obtain s4 s5 where s4: "(if PROC_STOPPED \<notin> mp_flags (mproc_at s3 i)
        then do { t \<leftarrow> call_ok (sys_stop e ?ep) s3; Some (set_flags i {PROC_STOPPED} t) } else Some s3) = Some s4"
    and s5: "call_ok (vm_willexit e ?ep) s4 = Some s5"
    and tt: "t = s5\<lparr>pm_world := vm_notify_sig_wrapper e (mp_endpoint (mproc_at s5 i)) (pm_world s5)\<rparr>"
    using t times unfolding exit_account_def s1_def [symmetric] Let_def
    by (auto simp: s2_def s3_def par_def bind_eq_Some_conv simp del: if_split split: if_split_asm)
  have len: "length (mproc_tab s) = NR_PROCS e" using inv by (simp add: pm_inv_def)
  have alarm: "pm_core (set_alarm e i 0 s) = pm_core (clear_flags i {ALARM_ON} s)" using laws by (simp add: pm_laws_def)
  have g1: "good e s s1" unfolding s1_def
    using good_core [OF alarm good_clear_flags [OF inv]] good_refl [OF inv] by simp
  have u1: "used (mproc_at s1 i)" using alarm i len by (auto simp: s1_def pm_core_def clear_flags_def used_def)
  have g2: "good e s1 s2" unfolding s2_def by (rule good_upd_fields [OF good_inv [OF g1]]) simp_all
  have g3: "good e s2 s3" unfolding s3_def by (rule good_upd_fields [OF good_inv [OF g2]]) simp_all
  have u3: "used (mproc_at s3 i)" using u1 by (simp add: s3_def s2_def used_def nth_upd_at_inv)
  have len3: "length (mproc_tab s3) = NR_PROCS e" using good_inv [OF g3] by (simp add: pm_inv_def)
  have g4: "good e s3 s4 \<and> used (mproc_at s4 i)"
  proof (cases "PROC_STOPPED \<in> mp_flags (mproc_at s3 i)")
    case True
    then show ?thesis using s4 u3 good_refl [OF good_inv [OF g3]] by simp
  next
    case False
    then obtain x where x: "call_ok (sys_stop e ?ep) s3 = Some x" "s4 = set_flags i {PROC_STOPPED} x"
      using s4 by (auto simp: bind_eq_Some_conv)
    have tab: "mproc_tab x = mproc_tab s3" using call_ok_core [OF x(1)] by (simp add: pm_core_def)
    have gx: "good e s3 x" by (rule good_call_ok [OF good_inv [OF g3] x(1)])
    have "good e x s4" unfolding x(2) using u3 tab by (intro good_set_flags [OF good_inv [OF gx]]) simp
    then show ?thesis using good_trans [OF gx] u3 i(1) len3 by (simp add: x(2) set_flags_def tab used_def)
  qed
  have g5: "good e s4 s5" by (rule good_call_ok [OF good_inv [OF conjunct1 [OF g4]] s5])
  have u5: "used (mproc_at s5 i)" using call_ok_core [OF s5] g4 by (simp add: pm_core_def)
  show "used (mproc_at t i)" using u5 by (simp add: tt)
  have "mp_pid (mproc_at s1 i) = mp_pid (mproc_at s i)"
    using alarm i len by (auto simp: s1_def pm_core_def clear_flags_def)
  then have "mp_pid (mproc_at s3 i) = mp_pid (mproc_at s i)" by (simp add: s3_def s2_def nth_upd_at_inv)
  moreover have "mp_pid (mproc_at s4 i) = mp_pid (mproc_at s3 i)"
    using s4 call_ok_core [of "sys_stop e ?ep" s3]
    by (auto simp: bind_eq_Some_conv set_flags_def nth_upd_at_inv pm_core_def split: if_splits)
  ultimately show "mp_pid (mproc_at t i) = mp_pid (mproc_at s i)" using call_ok_core [OF s5] by (simp add: tt pm_core_def)
  show "good e s t"
    using good_trans [OF g1 good_trans [OF g2 good_trans [OF g3 good_trans [OF conjunct1 [OF g4] good_trans [OF g5]]]]]
      good_world [OF good_inv [OF g5]] unfolding tt by blast
qed

text \<open>The stages of \<^verbatim>\<open>exit_proc\<close> for a process other than INIT.\<close>

definition exiting :: "int \<Rightarrow> mproc \<Rightarrow> mproc" where
  "exiting exit_status p =
     p\<lparr>mp_flags := insert EXITING (mp_flags p \<inter> {IN_USE, VFS_CALL, PRIV_PROC, TRACE_EXIT, PROC_STOPPED}),
       mp_exitstatus := to_char exit_status\<rparr>"

lemma exit_proc_stages:
  assumes "exit_proc e i st dc s = Some t" and "mp_endpoint (mproc_at s i) \<noteq> INIT_PROC_NR e"
  obtains s1 s3 s5 s6 where "exit_account e i s = Some s1"
    and "(if PRIV_PROC \<in> mp_flags (mproc_at (tell_vfs e i (exit_msg (dumps_core dc (mproc_at s i)) (mproc_at s1 i)) s1) i)
          then call_ok (sys_clear e (mp_endpoint (mproc_at (tell_vfs e i (exit_msg (dumps_core dc (mproc_at s i)) (mproc_at s1 i)) s1) i)))
                 (tell_vfs e i (exit_msg (dumps_core dc (mproc_at s i)) (mproc_at s1 i)) s1)
          else Some (tell_vfs e i (exit_msg (dumps_core dc (mproc_at s i)) (mproc_at s1 i)) s1)) = Some s3"
    and "(if \<not> dumps_core dc (mproc_at s i) then zombify e i (upd_mp i (exiting st) s3) else Some (upd_mp i (exiting st) s3)) = Some s5"
    and "disinherit_all e i [0..<NR_PROCS e] s5 = Some s6"
    and "t = s6 \<or> (\<exists>g. check_sig e g (SIGHUP e) False s6 = Some t)"
proof -
  have u: "upd_mp i (\<lambda>p. p\<lparr>mp_flags := insert EXITING (mp_flags p \<inter> {IN_USE, VFS_CALL, PRIV_PROC, TRACE_EXIT, PROC_STOPPED}),
      mp_exitstatus := to_char st\<rparr>) x = upd_mp i (exiting st) x" for x :: "'a pm_state"
    by (simp add: exiting_def [abs_def])
  show thesis
    using assms that unfolding exit_proc_def Let_def u
    by (fastforce simp: bind_eq_Some_conv simp del: if_split split: if_split_asm)
qed

lemma tell_vfs_core: "pm_laws e \<Longrightarrow> pm_core (tell_vfs e i m s) = pm_core (set_flags i {VFS_CALL} s)"
  by (simp add: pm_laws_def)

text \<open>Up to the point where the process is marked as exiting.\<close>

lemma exit_mark:
  assumes laws: "pm_laws e" and inv: "pm_inv e s1" and i: "i < NR_PROCS e" "used (mproc_at s1 i)"
    and s3: "pm_core s3 = pm_core (tell_vfs e i m s1)"
  shows "good e s1 (upd_mp i (exiting st) s3)" and "held (mproc_at (upd_mp i (exiting st) s3) i)"
    and "mp_pid (mproc_at (upd_mp i (exiting st) s3) i) = mp_pid (mproc_at s1 i)"
proof -
  have core: "pm_core s3 = pm_core (set_flags i {VFS_CALL} s1)" using s3 tell_vfs_core [OF laws] by simp
  have g3: "good e s1 s3" using core good_set_flags [OF inv] i(2) by (blast intro: good_core)
  have tab: "mproc_tab s3 = upd_at i (\<lambda>p. p\<lparr>mp_flags := mp_flags p \<union> {VFS_CALL}\<rparr>) (mproc_tab s1)"
    using core by (simp add: pm_core_def set_flags_def)
  have len: "length (mproc_tab s1) = NR_PROCS e" using inv by (simp add: pm_inv_def)
  have "used (mproc_at s3 i)" using i len by (simp add: tab used_def)
  then have "good e s3 (upd_mp i (exiting st) s3)"
    by (intro good_upd [OF good_inv [OF g3]]) (auto simp: exiting_def used_def held_def slot_evolves_def)
  then show "good e s1 (upd_mp i (exiting st) s3)" by (rule good_trans [OF g3])
  show "held (mproc_at (upd_mp i (exiting st) s3) i)"
    "mp_pid (mproc_at (upd_mp i (exiting st) s3) i) = mp_pid (mproc_at s1 i)"
    using i len by (simp_all add: tab exiting_def held_def used_def)
qed

lemma held_used: "held p \<Longrightarrow> used p"
  by (simp add: held_def used_def)

lemma exit_proc_good:
  fixes e :: "'w pm_env"
  assumes laws: "pm_laws e" and inv: "pm_inv e s" and i: "i < NR_PROCS e" "used (mproc_at s i)"
    and t: "exit_proc e i st dc s = Some t"
  shows "good e s t"
    and "mp_endpoint (mproc_at s i) \<noteq> INIT_PROC_NR e \<Longrightarrow> held (mproc_at t i) \<and> mp_pid (mproc_at t i) = mp_pid (mproc_at s i)"
proof -
  have main: "good e s t \<and> held (mproc_at t i) \<and> mp_pid (mproc_at t i) = mp_pid (mproc_at s i)"
    if ep: "mp_endpoint (mproc_at s i) \<noteq> INIT_PROC_NR e"
  proof (rule exit_proc_stages [OF t ep])
    fix s1 s3 s5 s6 :: "'w pm_state"
    let ?m = "exit_msg (dumps_core dc (mproc_at s i)) (mproc_at s1 i)"
    let ?s4 = "upd_mp i (exiting st) s3"
    assume a1: "exit_account e i s = Some s1"
      and a3: "(if PRIV_PROC \<in> mp_flags (mproc_at (tell_vfs e i ?m s1) i)
          then call_ok (sys_clear e (mp_endpoint (mproc_at (tell_vfs e i ?m s1) i))) (tell_vfs e i ?m s1)
          else Some (tell_vfs e i ?m s1)) = Some s3"
      and a5: "(if \<not> dumps_core dc (mproc_at s i) then zombify e i ?s4 else Some ?s4) = Some s5"
      and a6: "disinherit_all e i [0..<NR_PROCS e] s5 = Some s6"
      and at: "t = s6 \<or> (\<exists>g. check_sig e g (SIGHUP e) False s6 = Some t)"
    note ac = exit_account_good [OF laws inv i a1]
    have "pm_core s3 = pm_core (tell_vfs e i ?m s1)" using a3 call_ok_core by (auto split: if_splits)
    note mk = exit_mark [OF laws good_inv [OF ac(1)] i(1) ac(2) this, of st]
    have g5: "good e ?s4 s5"
      using a5 zombify_good [OF laws good_inv [OF mk(1)] i(1) held_used [OF mk(2)]] good_refl [OF good_inv [OF mk(1)]]
      by (simp split: if_splits)
    have g6: "good e s5 s6" by (rule disinherit_all_good [OF laws good_inv [OF g5] _ a6]) auto
    have gt: "good e s6 t" using at good_refl [OF good_inv [OF g6]] check_sig_good [OF laws good_inv [OF g6]] by blast
    have g4t: "good e ?s4 t" using good_trans [OF g5 good_trans [OF g6 gt]] .
    have "held (mproc_at t i) \<and> mp_pid (mproc_at t i) = mp_pid (mproc_at ?s4 i)"
      using good_nth [OF g4t good_inv [OF mk(1)] i(1)] mk(2) by (simp only: slot_evolves_def)
    then show ?thesis using good_trans [OF ac(1) good_trans [OF mk(1) g4t]] mk(3) ac(3) by simp
  qed
  show "good e s t"
  proof (cases "mp_endpoint (mproc_at s i) = INIT_PROC_NR e")
    case True
    then obtain s1 where s1: "exit_account e i s = Some s1"
      "pm_core t = pm_core (pm_print ''PM: INIT died with exit status %d; showing stacktrace'' [AInt st] s1)"
      using t by (auto simp: exit_proc_def Let_def bind_eq_Some_conv pm_core_def)
    show ?thesis
      using good_trans [OF exit_account_good(1) [OF laws inv i s1(1)] good_core [OF s1(2) good_print]]
        good_inv [OF exit_account_good(1) [OF laws inv i s1(1)]] by blast
  qed (use main in blast)
  show "mp_endpoint (mproc_at s i) \<noteq> INIT_PROC_NR e \<Longrightarrow> held (mproc_at t i) \<and> mp_pid (mproc_at t i) = mp_pid (mproc_at s i)"
    using main by blast
qed

lemma do_exit_good:
  assumes laws: "pm_laws e" and inv: "pm_inv e s" and i: "pm_mp s < NR_PROCS e" "used (mproc_at s (pm_mp s))"
    and t: "do_exit e st s = Some (r, t)"
  shows "good e s t"
proof (cases "PRIV_PROC \<in> mp_flags (mproc_at s (pm_mp s))")
  case True
  let ?p = "pm_print ''PM: system process %d (%s) tries to exit(), sending SIGKILL''
    [AInt (mp_endpoint (mproc_at s (pm_mp s))), AStr (mp_name (mproc_at s (pm_mp s)))] s"
  have "pm_core t = pm_core ?p" using t True by (auto simp: do_exit_def Let_def pm_core_def)
  then show ?thesis by (rule good_core [OF _ good_print [OF inv]])
next
  case False
  then obtain s1 where s1: "exit_proc e (pm_mp s) st False s = Some s1"
    "t = pm_print ''Minix: PID %d exited'' [AInt (mp_pid (mproc_at s1 (pm_mp s)))] s1"
    using t by (auto simp: do_exit_def Let_def bind_eq_Some_conv)
  note g = exit_proc_good(1) [OF laws inv i s1(1)]
  show ?thesis using good_trans [OF g good_print [OF good_inv [OF g]]] s1(2) by simp
qed

lemma exit_restart_inv:
  assumes laws: "pm_laws e" and inv: "pm_inv e s" and i: "i < NR_PROCS e" "used (mproc_at s i)"
    and t: "exit_restart e i dc s = Some t"
  shows "pm_inv e t"
proof -
  obtain r w where st: "sched_stop e (mp_scheduler (mproc_at s i)) (mp_endpoint (mproc_at s i)) (pm_world s) = (r, w)"
    by (cases "sched_stop e (mp_scheduler (mproc_at s i)) (mp_endpoint (mproc_at s i)) (pm_world s)")
  define s2 where "s2 = (if r \<noteq> OK then pm_print ''PM: The scheduler did not want to give up scheduling %s, ret=%d.''
      [AStr (mp_name (mproc_at (s\<lparr>pm_world := w\<rparr>) i)), ARet r] (s\<lparr>pm_world := w\<rparr>) else s\<lparr>pm_world := w\<rparr>)"
  define s3 where "s3 = upd_mp i (\<lambda>p. p\<lparr>mp_scheduler := NONE e\<rparr>) s2"
  obtain s4 s5 s6 where s4: "(if dc then zombify e i s3 else Some s3) = Some s4"
    and s5: "(if PRIV_PROC \<notin> mp_flags (mproc_at s4 i) then call_ok (sys_clear e (mp_endpoint (mproc_at s4 i))) s4 else Some s4) = Some s5"
    and s6: "call_ok (vm_exit e (mp_endpoint (mproc_at s5 i))) s5 = Some s6"
    and tt: "t = (let s7 = (if TRACE_EXIT \<in> mp_flags (mproc_at s6 i)
        then reply e (mp_tracer (mproc_at s6 i)) OK (upd_mp (nat (mp_tracer (mproc_at s6 i))) (\<lambda>p. p\<lparr>mp_reply_data := 0\<rparr>) s6) else s6)
      in if TOLD_PARENT \<in> mp_flags (mproc_at s7 i) then cleanup i s7 else s7)"
    using t st unfolding exit_restart_def s3_def s2_def by (auto simp: Let_def bind_eq_Some_conv simp del: if_split)
  have tab2: "mproc_tab s2 = mproc_tab s" "procs_in_use s2 = procs_in_use s" by (simp_all add: s2_def)
  then have i2: "pm_inv e s2" using inv by (simp add: pm_inv_def)
  have i3: "pm_inv e s3" using good_inv [OF good_upd_fields [OF i2, of "\<lambda>p. p\<lparr>mp_scheduler := NONE e\<rparr>" i]] by (simp add: s3_def)
  have u3: "used (mproc_at s3 i)" using i(2) by (simp add: s3_def tab2 used_def nth_upd_at_inv)
  have i4: "pm_inv e s4" using s4 good_inv [OF zombify_good [OF laws i3 i(1) u3]] i3 by (auto split: if_splits)
  have i5: "pm_inv e s5" using s5 i4 pm_inv_core [OF call_ok_core, of _ s4 s5 e] by (auto split: if_splits)
  have i6: "pm_inv e s6" using s6 i5 pm_inv_core [OF call_ok_core, of _ s5 s6 e] by blast
  define s7 where "s7 = (if TRACE_EXIT \<in> mp_flags (mproc_at s6 i)
        then reply e (mp_tracer (mproc_at s6 i)) OK (upd_mp (nat (mp_tracer (mproc_at s6 i))) (\<lambda>p. p\<lparr>mp_reply_data := 0\<rparr>) s6) else s6)"
  have "pm_inv e (upd_mp k (\<lambda>p. p\<lparr>mp_reply_data := 0\<rparr>) s6)" for k by (rule good_inv [OF good_upd_fields [OF i6]]) simp_all
  then have i7: "pm_inv e s7" using i6 pm_inv_core [OF reply_core [OF laws]] by (simp add: s7_def)
  show ?thesis unfolding tt Let_def s7_def [symmetric]
    using i7 cleanup_inv [OF i7 i(1)] pm_inv_nth [OF i7 i(1)] by simp
qed

lemma wait_child_inv:
  assumes laws: "pm_laws e" and inv: "pm_inv e s" and c: "c < NR_PROCS e"
    and t: "wait_child e c s = Some (Inl (r, t))"
  shows "pm_inv e t"
proof -
  let ?rp = "mproc_at s c"
  let ?traced = "mp_tracer ?rp = int (who_p s)"
  have collect: "pm_inv e t" if "tell_parent e c s = Some s1"
      "t = (if VFS_CALL \<notin> mp_flags (mproc_at s1 c) then cleanup c s1 else s1)" for s1
    using good_inv [OF tell_parent_good(1) [OF laws inv c that(1)]] tell_parent_good(2) [OF laws inv c that(1)]
      cleanup_inv [OF _ c] that(2) by auto
  have sig: "pm_inv e (upd_mp (pm_mp s) (\<lambda>p. p\<lparr>mp_reply_status := v\<rparr>) (upd_mp c (\<lambda>p. p\<lparr>mp_sigtrace := mp_sigtrace p - {k}\<rparr>) s))" for v k
    by (intro good_inv [OF good_upd_fields] inv good_inv [OF good_upd_fields]) simp_all
  show ?thesis
  proof (cases "?traced \<and> TRACE_ZOMBIE \<in> mp_flags ?rp")
    case True
    then obtain s1 where s1: "tell_tracer e c s = Some s1" "check_parent e c True s1 = Some t"
      using t by (auto simp: wait_child_def Let_def bind_eq_Some_conv)
    show ?thesis using good_inv [OF check_parent_good [OF laws good_inv [OF tell_tracer_good(1) [OF laws inv c s1(1)]] c s1(2)]] .
  next
    case False
    then show ?thesis using t sig collect
      by (auto simp: wait_child_def Let_def bind_eq_Some_conv split: if_splits option.splits)
  qed
qed

lemma wait_scan_inv:
  assumes "pm_laws e" and "pm_inv e s"
  shows "set cs \<subseteq> {..<NR_PROCS e} \<Longrightarrow> wait_scan e p cs n s = Some (Inl (r, t)) \<Longrightarrow> pm_inv e t"
  using wait_child_inv [OF assms]
  by (induction cs arbitrary: n) (auto split: if_splits option.splits sum.splits)

lemma do_waitpid_inv:
  assumes laws: "pm_laws e" and inv: "pm_inv e s" and mp: "used (mproc_at s (pm_mp s))"
    and t: "do_waitpid e p wnohang s = Some (r, t)"
  shows "pm_inv e t"
proof -
  have "pm_inv e (upd_mp (pm_mp s) (\<lambda>p. p\<lparr>mp_flags := insert WAITING (mp_flags p), mp_wpid := k\<rparr>) s)" for k
    using mp by (intro pm_inv_upd [OF inv]) (auto simp: used_def)
  moreover have "set [0..<NR_PROCS e] \<subseteq> {..<NR_PROCS e}" by auto
  ultimately show ?thesis using t inv wait_scan_inv [OF laws inv, of "[0..<NR_PROCS e]"]
    by (auto simp: do_waitpid_def Let_def split: option.splits sum.splits if_splits)
qed

section \<open>Fork: lemmas\<close>

lemma slot_reachable:
  fixes m j nx :: nat
  assumes "j < m"
  shows "\<exists>k. 1 \<le> k \<and> k \<le> m \<and> (nx + k) mod m = j"
proof (cases "nx mod m < j")
  case True
  have "(nx + (j - nx mod m)) mod m = (nx mod m + (j - nx mod m)) mod m" by (simp add: mod_add_left_eq)
  then show ?thesis using assms True by (intro exI [of _ "j - nx mod m"]) auto
next
  case False
  have "nx mod m < m" using assms by simp
  then have "(nx mod m + (m - (nx mod m - j))) mod m = (j + m) mod m" using False by (intro arg_cong [where f = "\<lambda>x. x mod m"]) simp
  moreover have "(nx + (m - (nx mod m - j))) mod m = (nx mod m + (m - (nx mod m - j))) mod m" by (simp add: mod_add_left_eq)
  ultimately show ?thesis using assms \<open>nx mod m < m\<close> False by (intro exI [of _ "m - (nx mod m - j)"]) auto
qed

lemma fork_search_finds:
  assumes "1 \<le> k" "k \<le> NR_PROCS e - n" "\<not> used (tab ! ((nx + k) mod NR_PROCS e))" "fork_search e tab nx n = (c, m)"
  shows "\<not> used (tab ! c) \<and> m \<le> NR_PROCS e \<and> c < NR_PROCS e"
  using assms
proof (induction e tab nx n arbitrary: k rule: fork_search.induct)
  case (1 e tab nx n)
  let ?nx = "(nx + 1) mod NR_PROCS e"
  show ?case
  proof (cases "used (tab ! ?nx)")
    case True
    then have k: "1 < k" using "1.prems"(1,3) by (metis le_neq_implies_less)
    have "Suc n \<le> NR_PROCS e" using k "1.prems"(2) by arith
    then have step: "fork_search e tab ?nx (n + 1) = (c, m)"
      using True "1.prems" k by (subst (asm) fork_search.simps) (simp add: Let_def used_def)
    have "(?nx + (k - 1)) mod NR_PROCS e = (nx + 1 + (k - 1)) mod NR_PROCS e" by (rule mod_add_left_eq)
    also have "\<dots> = (nx + k) mod NR_PROCS e" using k by simp
    finally have "\<not> used (tab ! ((?nx + (k - 1)) mod NR_PROCS e))" using "1.prems"(3) by simp
    then show ?thesis using "1.IH" [OF refl refl _ _ _ _ step, of "k - 1"] True k "1.prems"(2) by (simp add: used_def)
  next
    case False
    then have "(c, m) = (?nx, n + 1)" using "1.prems"(4) by (subst (asm) fork_search.simps) (simp add: Let_def used_def)
    then show ?thesis using False "1.prems"(1,2) by auto
  qed
qed

lemma fork_slot_exists:
  assumes inv: "pm_inv e s" and nf: "\<not> table_full e s" and c: "fork_search e (mproc_tab s) nx 0 = (c, m)"
  shows "\<not> used (mproc_at s c)" "m \<le> NR_PROCS e" "c < NR_PROCS e"
proof -
  have len: "length (mproc_tab s) = NR_PROCS e" using inv by (simp add: pm_inv_def)
  have "count_slots used (mproc_tab s) < length (mproc_tab s)"
    using inv nf count_slots_le [of used "mproc_tab s"] by (auto simp: pm_inv_def table_full_def)
  then obtain j where j: "j < NR_PROCS e" "\<not> used (mproc_at s j)" using count_slots_less_ex len by metis
  obtain k where "1 \<le> k" "k \<le> NR_PROCS e" "(nx + k) mod NR_PROCS e = j" using slot_reachable [OF j(1)] by blast
  then show "\<not> used (mproc_at s c)" "m \<le> NR_PROCS e" "c < NR_PROCS e"
    using fork_search_finds [OF _ _ _ c, of k] j(2) by simp_all
qed

lemma new_slot_inv:
  assumes inv: "pm_inv e s" and c: "c < NR_PROCS e" "\<not> used (mproc_at s c)" "used p"
  shows "pm_inv e (upd_mp c (\<lambda>_. p) (s\<lparr>procs_in_use := procs_in_use s + 1\<rparr>))"
proof -
  have len: "length (mproc_tab s) = NR_PROCS e" using inv by (simp add: pm_inv_def)
  have "count_slots used (upd_at c (\<lambda>_. p) (mproc_tab s)) = count_slots used (mproc_tab s) + 1"
    using count_slots_upd_at [of c "mproc_tab s" used "\<lambda>_. p"] c len by simp
  moreover have "\<forall>p\<in>set (upd_at c (\<lambda>_. p) (mproc_tab s)). \<not> used p \<longrightarrow> mp_flags p = {}"
    using inv c(3) by (intro list_all_upd_at) (auto simp: pm_inv_def)
  ultimately show ?thesis using inv by (simp add: pm_inv_def)
qed

lemma get_free_pid_core: "pm_laws e \<Longrightarrow> get_free_pid e s = (p, t) \<Longrightarrow> pm_core t = pm_core s"
  unfolding pm_laws_def by (metis snd_conv)

text \<open>From the fresh slot to the message to VFS, common to both fork calls.\<close>

lemma fork_tail:
  assumes laws: "pm_laws e" and inv: "pm_inv e s2" and c: "c < NR_PROCS e" "used (mproc_at s2 c)"
    and pid: "get_free_pid e s2 = (pid, s3)" and core: "pm_core s5 = pm_core (upd_mp c (\<lambda>p. p\<lparr>mp_pid := pid\<rparr>) s3)
      \<or> (\<exists>f a. pm_core s5 = pm_core (pm_print f a (upd_mp c (\<lambda>p. p\<lparr>mp_pid := pid\<rparr>) s3)))"
    and t: "stop_traced_child e c (tell_vfs e c m s5) = Some t"
  shows "pm_inv e t"
proof -
  have tab3: "mproc_tab s3 = mproc_tab s2" "procs_in_use s3 = procs_in_use s2"
    using get_free_pid_core [OF laws pid] by (simp_all add: pm_core_def)
  have i3: "pm_inv e (upd_mp c (\<lambda>p. p\<lparr>mp_pid := pid\<rparr>) s3)"
    using inv pm_inv_nth [OF inv] c by (intro pm_inv_upd) (auto simp: pm_inv_def tab3 used_def)
  have tab5: "mproc_tab s5 = mproc_tab (upd_mp c (\<lambda>p. p\<lparr>mp_pid := pid\<rparr>) s3)" and pu: "procs_in_use s5 = procs_in_use s3"
    using core by (auto simp: pm_core_def)
  have i5: "pm_inv e s5" using i3 unfolding pm_inv_def tab5 by (simp add: pu)
  have "used (mproc_at s5 c)" using c(2) by (simp add: tab5 tab3 used_def nth_upd_at_inv)
  then have "pm_inv e (set_flags c {VFS_CALL} s5)" by (intro good_inv [OF good_set_flags [OF i5]])
  then have i6: "pm_inv e (tell_vfs e c m s5)" using pm_inv_core [OF tell_vfs_core [OF laws]] by blast
  then show ?thesis using t good_inv [OF sig_proc_good [OF laws i6]] by (auto simp: stop_traced_child_def split: if_splits)
qed

lemma child_slot_used:
  "used parent \<Longrightarrow> IN_USE \<in> keep \<Longrightarrow> used (child_slot e parent who ep keep)"
  by (simp add: child_slot_def untraced_def used_def Let_def)

lemma do_fork_inv:
  assumes laws: "pm_laws e" and inv: "pm_inv e s" and mp: "used (mproc_at s (pm_mp s))" and t: "do_fork e s = Some (r, t)"
  shows "pm_inv e t"
proof (cases "table_full e s")
  case True
  then show ?thesis using t good_inv [OF good_print [OF inv]] by (auto simp: do_fork_def)
next
  case nf: False
  obtain c n where c: "fork_search e (mproc_tab s) (fork_next s) 0 = (c, n)" by fastforce
  obtain vr ep w where vm: "vm_fork e (mp_endpoint (mproc_at s (pm_mp s))) c (pm_world s) = (vr, ep, w)"
    by (cases "vm_fork e (mp_endpoint (mproc_at s (pm_mp s))) c (pm_world s)")
  note slot = fork_slot_exists [OF inv nf c]
  let ?s1 = "s\<lparr>fork_next := c, pm_world := w\<rparr>"
  have inv1: "pm_inv e ?s1" using inv by (simp add: pm_inv_def)
  let ?par = "mproc_at s (pm_mp s)"
  let ?child = "(child_slot e ?par (who_p s) ep {IN_USE, DELAY_CALL, TAINTED})
      \<lparr>mp_scheduler := (if PRIV_PROC \<in> mp_flags ?par then SCHED_PROC_NR e else mp_scheduler ?par)\<rparr>"
  let ?s2 = "upd_mp c (\<lambda>_. ?child) (?s1\<lparr>procs_in_use := procs_in_use s + 1\<rparr>)"
  have uc: "used ?child" using child_slot_used [OF mp, of "{IN_USE, DELAY_CALL, TAINTED}"] by (simp add: used_def)
  have inv2: "pm_inv e ?s2" using new_slot_inv [OF inv1 slot(3), of ?child] slot(1) uc by simp
  have len: "length (mproc_tab s) = NR_PROCS e" using inv by (simp add: pm_inv_def)
  obtain pid s3 where pid: "get_free_pid e ?s2 = (pid, s3)" by fastforce
  show ?thesis
  proof (cases "vr = OK")
    case False
    then have "t = ?s1" using t nf c vm slot by (simp add: do_fork_def used_def)
    then show ?thesis using inv1 by simp
  next
    case True
    let ?s5 = "pm_print ''Minix: PID %d created'' [AInt (mp_pid (mproc_at (upd_mp c (\<lambda>p. p\<lparr>mp_pid := pid\<rparr>) s3) c))]
        (upd_mp c (\<lambda>p. p\<lparr>mp_pid := pid\<rparr>) s3)"
    have "\<exists>m. stop_traced_child e c (tell_vfs e c m ?s5) = Some t"
      using t nf c vm slot True pid
      by (auto simp: do_fork_def used_def Let_def bind_eq_Some_conv simp del: upd_mp_sel split: if_splits)
    then show ?thesis
      using fork_tail [OF laws inv2 slot(3) _ pid, of ?s5] uc slot(3) len by auto
  qed
qed

lemma do_srv_fork_inv:
  assumes laws: "pm_laws e" and inv: "pm_inv e s" and mp: "used (mproc_at s (pm_mp s))" and t: "do_srv_fork e uid gid s = Some (r, t)"
  shows "pm_inv e t"
proof (cases "mp_endpoint (mproc_at s (pm_mp s)) \<noteq> RS_PROC_NR e \<or> table_full e s")
  case True
  then show ?thesis using t inv good_inv [OF good_print [OF inv]] by (auto simp: do_srv_fork_def split: if_splits)
next
  case False
  then have rs: "mp_endpoint (mproc_at s (pm_mp s)) = RS_PROC_NR e" and nf: "\<not> table_full e s" by auto
  obtain c n where c: "fork_search e (mproc_tab s) (srv_fork_next s) 0 = (c, n)" by fastforce
  obtain vr ep w where vm: "vm_fork e (mp_endpoint (mproc_at s (pm_mp s))) c (pm_world s) = (vr, ep, w)"
    by (cases "vm_fork e (mp_endpoint (mproc_at s (pm_mp s))) c (pm_world s)")
  note slot = fork_slot_exists [OF inv nf c]
  let ?s1 = "s\<lparr>srv_fork_next := c, pm_world := w\<rparr>"
  have inv1: "pm_inv e ?s1" using inv by (simp add: pm_inv_def)
  let ?child = "(child_slot e (mproc_at s (pm_mp s)) (who_p s) ep {IN_USE, PRIV_PROC, DELAY_CALL})
      \<lparr>mp_realuid := uid, mp_effuid := uid, mp_realgid := gid, mp_effgid := gid\<rparr>"
  let ?s2 = "upd_mp c (\<lambda>_. ?child) (?s1\<lparr>procs_in_use := procs_in_use s + 1\<rparr>)"
  have uc: "used ?child" using child_slot_used [OF mp, of "{IN_USE, PRIV_PROC, DELAY_CALL}"] by (simp add: used_def)
  have inv2: "pm_inv e ?s2" using new_slot_inv [OF inv1 slot(3), of ?child] slot(1) uc by simp
  have len: "length (mproc_tab s) = NR_PROCS e" using inv by (simp add: pm_inv_def)
  obtain pid s3 where pid: "get_free_pid e ?s2 = (pid, s3)" by fastforce
  show ?thesis
  proof (cases "vr = OK")
    case False
    then have "t = ?s1" using t rs nf c vm slot by (simp add: do_srv_fork_def used_def)
    then show ?thesis using inv1 by simp
  next
    case True
    let ?s4 = "upd_mp c (\<lambda>p. p\<lparr>mp_pid := pid\<rparr>) s3"
    have "\<exists>m s6. stop_traced_child e c (tell_vfs e c m ?s4) = Some s6 \<and> t = reply e (int c) OK s6"
      using t rs nf c vm slot True pid vm [unfolded rs]
      by (auto simp: do_srv_fork_def used_def Let_def bind_eq_Some_conv simp del: upd_mp_sel split: if_splits)
    then obtain m s6 where s6: "stop_traced_child e c (tell_vfs e c m ?s4) = Some s6" "t = reply e (int c) OK s6" by blast
    have "pm_inv e s6" using fork_tail [OF laws inv2 slot(3) _ pid _ s6(1)] uc slot(3) len by auto
    then show ?thesis using s6(2) pm_inv_core [OF reply_core [OF laws]] by blast
  qed
qed

section \<open>Sequences of calls\<close>

text \<open>
  The calls as the main loop makes them: for a process in use, which becomes the current one, or
  when VFS has finished with an exiting process.
\<close>

inductive pm_step :: "'w pm_env \<Rightarrow> 'w pm_state \<Rightarrow> 'w pm_state \<Rightarrow> bool" for e where
  step_fork: "i < NR_PROCS e \<Longrightarrow> used (mproc_at s i) \<Longrightarrow>
     do_fork e (s\<lparr>pm_mp := i, who_p := i\<rparr>) = Some (r, t) \<Longrightarrow> pm_step e s t"
| step_srv_fork: "i < NR_PROCS e \<Longrightarrow> used (mproc_at s i) \<Longrightarrow>
     do_srv_fork e uid gid (s\<lparr>pm_mp := i, who_p := i\<rparr>) = Some (r, t) \<Longrightarrow> pm_step e s t"
| step_exit: "i < NR_PROCS e \<Longrightarrow> used (mproc_at s i) \<Longrightarrow>
     do_exit e st (s\<lparr>pm_mp := i, who_p := i\<rparr>) = Some (r, t) \<Longrightarrow> pm_step e s t"
| step_waitpid: "i < NR_PROCS e \<Longrightarrow> used (mproc_at s i) \<Longrightarrow>
     do_waitpid e pid wnohang (s\<lparr>pm_mp := i, who_p := i\<rparr>) = Some (r, t) \<Longrightarrow> pm_step e s t"
| step_restart: "i < NR_PROCS e \<Longrightarrow> used (mproc_at s i) \<Longrightarrow> exit_restart e i dc s = Some t \<Longrightarrow> pm_step e s t"

inductive pm_reach :: "'w pm_env \<Rightarrow> 'w pm_state \<Rightarrow> 'w pm_state \<Rightarrow> bool" for e s0 where
  reach_refl: "pm_reach e s0 s0"
| reach_step: "pm_reach e s0 s \<Longrightarrow> pm_step e s t \<Longrightarrow> pm_reach e s0 t"

lemma pm_step_inv:
  assumes laws: "pm_laws e"
  shows "pm_step e s t \<Longrightarrow> pm_inv e s \<Longrightarrow> pm_inv e t"
proof (induction rule: pm_step.induct)
  case (step_fork i s r t)
  then show ?case using do_fork_inv [OF laws, of "s\<lparr>pm_mp := i, who_p := i\<rparr>"] by (simp add: pm_inv_def)
next
  case (step_srv_fork i s uid gid r t)
  then show ?case using do_srv_fork_inv [OF laws, of "s\<lparr>pm_mp := i, who_p := i\<rparr>"] by (simp add: pm_inv_def)
next
  case (step_exit i s st r t)
  then have "good e (s\<lparr>pm_mp := i, who_p := i\<rparr>) t" by (intro do_exit_good [OF laws, where r = r and st = st]) (simp_all add: pm_inv_def)
  then show ?case by (rule good_inv)
next
  case (step_waitpid i s pid wnohang r t)
  then show ?case using do_waitpid_inv [OF laws, of "s\<lparr>pm_mp := i, who_p := i\<rparr>"] by (simp add: pm_inv_def)
next
  case (step_restart i s dc t)
  then show ?case using exit_restart_inv [OF laws] by blast
qed

lemma pm_reach_inv: "pm_reach e s0 s \<Longrightarrow> pm_laws e \<Longrightarrow> pm_inv e s0 \<Longrightarrow> pm_inv e s"
  by (induction rule: pm_reach.induct) (auto intro: pm_step_inv)

text \<open>
  C3. Through every sequence of fork, service fork, exit, wait and exit-restart calls, the counter
  \<^verbatim>\<open>procs_in_use\<close> equals the number of process slots in use, and slots not in use carry no flags.
  Hence the search for a child slot in a later fork, from wherever its cursor stands, ends at a
  free slot within \<^verbatim>\<open>NR_PROCS\<close> probes whenever the table is not reported full: neither of the two
  panics of the search is reachable.
\<close>

theorem procs_in_use_exact:
  assumes "pm_laws e" and "pm_inv e s0" and "pm_reach e s0 s"
  shows "procs_in_use s = int (count_slots used (mproc_tab s))
     \<and> (\<forall>p\<in>set (mproc_tab s). IN_USE \<notin> mp_flags p \<longrightarrow> mp_flags p = {})
     \<and> (\<forall>nx c n. \<not> table_full e s \<and> fork_search e (mproc_tab s) nx 0 = (c, n) \<longrightarrow>
          n \<le> NR_PROCS e \<and> c < NR_PROCS e \<and> IN_USE \<notin> mp_flags (mproc_at s c))"
proof -
  have inv: "pm_inv e s" by (rule pm_reach_inv [OF assms(3,1,2)])
  show ?thesis using inv fork_slot_exists [OF inv] by (auto simp: pm_inv_def used_def)
qed

section \<open>Behaviour of the calls\<close>

text \<open>
  C16. \<^verbatim>\<open>do_fork\<close> by an untraced process, when VM succeeds: the call answers later (\<^verbatim>\<open>SUSPEND\<close>); a
  slot that was free holds the child: the parent's fields with the caller as parent, only the flags
  \<^verbatim>\<open>IN_USE\<close>, \<^verbatim>\<open>DELAY_CALL\<close> and \<^verbatim>\<open>TAINTED\<close> inherited, the endpoint from VM, a positive pid no other
  process has, and the mark that VFS works on it; no other slot changes, one more slot is counted,
  and the creation is reported once with that pid. A full table gives \<^verbatim>\<open>EAGAIN\<close> with a warning and
  no other effect.
\<close>

theorem do_fork_creates:
  fixes e :: "'w pm_env"
  assumes laws: "pm_laws e" and inv: "pm_inv e s"
    and mp: "pm_mp s < NR_PROCS e" "IN_USE \<in> mp_flags (mproc_at s (pm_mp s))" "TO_TRACEFORK \<notin> mp_trace_flags (mproc_at s (pm_mp s))"
      "PRIV_PROC \<in> mp_flags (mproc_at s (pm_mp s)) \<longrightarrow> mp_scheduler (mproc_at s (pm_mp s)) = NONE e"
    and vm: "\<And>c. \<exists>ep w. vm_fork e (mp_endpoint (mproc_at s (pm_mp s))) c (pm_world s) = (OK, ep, w)"
  shows "if table_full e s
     then do_fork e s = Some (Err EAGAIN, s\<lparr>pm_console := pm_console s @ [(''PM: warning, process table is full!'', [])]\<rparr>)
     else \<exists>t c ep w pid. do_fork e s = Some (Err SUSPEND, t) \<and> c < NR_PROCS e \<and> IN_USE \<notin> mp_flags (mproc_at s c)
       \<and> vm_fork e (mp_endpoint (mproc_at s (pm_mp s))) c (pm_world s) = (OK, ep, w)
       \<and> mproc_at t c = (mproc_at s (pm_mp s))\<lparr>mp_parent := int (who_p s), mp_tracer := NO_TRACER e, mp_trace_flags := {},
            mp_sigtrace := {}, mp_flags := mp_flags (mproc_at s (pm_mp s)) \<inter> {IN_USE, DELAY_CALL, TAINTED} \<union> {VFS_CALL},
            mp_child_utime := 0, mp_child_stime := 0, mp_exitstatus := 0, mp_sigstatus := 0, mp_endpoint := ep,
            mp_interval := map (\<lambda>_. 0) (mp_interval (mproc_at s (pm_mp s))), mp_pid := pid,
            mp_scheduler := (if PRIV_PROC \<in> mp_flags (mproc_at s (pm_mp s)) then SCHED_PROC_NR e else mp_scheduler (mproc_at s (pm_mp s)))\<rparr>
       \<and> 0 < pid \<and> (\<forall>j<NR_PROCS e. j \<noteq> c \<longrightarrow> mproc_at t j = mproc_at s j \<and> mp_pid (mproc_at s j) \<noteq> pid)
       \<and> procs_in_use t = procs_in_use s + 1
       \<and> pm_console t = pm_console s @ [(''Minix: PID %d created'', [AInt pid])]"
proof (cases "table_full e s")
  case True
  then show ?thesis by (simp add: do_fork_def pm_print_def printf_def)
next
  case nf: False
  obtain c n where c: "fork_search e (mproc_tab s) (fork_next s) 0 = (c, n)" by fastforce
  obtain ep w where vmc: "vm_fork e (mp_endpoint (mproc_at s (pm_mp s))) c (pm_world s) = (OK, ep, w)" using vm by blast
  note slot = fork_slot_exists [OF inv nf c]
  have len: "length (mproc_tab s) = NR_PROCS e" using inv by (simp add: pm_inv_def)
  let ?par = "mproc_at s (pm_mp s)"
  let ?child = "(child_slot e ?par (who_p s) ep {IN_USE, DELAY_CALL, TAINTED})
      \<lparr>mp_scheduler := (if PRIV_PROC \<in> mp_flags ?par then SCHED_PROC_NR e else mp_scheduler ?par)\<rparr>"
  let ?s2 = "upd_mp c (\<lambda>_. ?child) (s\<lparr>fork_next := c, pm_world := w, procs_in_use := procs_in_use s + 1\<rparr>)"
  obtain pid s3 where pid: "get_free_pid e ?s2 = (pid, s3)" by fastforce
  let ?s4 = "upd_mp c (\<lambda>p. p\<lparr>mp_pid := pid\<rparr>) s3"
  let ?s5 = "pm_print ''Minix: PID %d created'' [AInt (mp_pid (mproc_at ?s4 c))] ?s4"
  define s6 where "s6 = tell_vfs e c (fork_msg VFS_PM_FORK (mproc_at ?s5 c) (mproc_at ?s5 (pm_mp s)) (-1) (-1)) ?s5"
  have core3: "pm_core s3 = pm_core ?s2" by (rule get_free_pid_core [OF laws pid])
  have core6: "pm_core s6 = pm_core (set_flags c {VFS_CALL} ?s5)" unfolding s6_def by (rule tell_vfs_core [OF laws])
  have tab3: "mproc_tab s3 = upd_at c (\<lambda>_. ?child) (mproc_tab s)" and pc: "pm_console s3 = pm_console s" "procs_in_use s3 = procs_in_use s + 1"
    using core3 by (simp_all add: pm_core_def)
  have tab6: "mproc_tab s6 = upd_at c (\<lambda>_. ?child\<lparr>mp_pid := pid, mp_flags := mp_flags ?child \<union> {VFS_CALL}\<rparr>) (mproc_tab s)"
    using core6 by (simp add: pm_core_def set_flags_def tab3)
  have con6: "pm_console s6 = pm_console s @ [(''Minix: PID %d created'', [AInt pid])]" "procs_in_use s6 = procs_in_use s + 1"
    using core6 slot(3) len pc by (simp_all add: pm_core_def set_flags_def tab3)
  have fresh: "0 < pid" "\<forall>p\<in>set (mproc_tab ?s2). mp_pid p \<noteq> pid" using laws pid unfolding pm_laws_def by (metis fst_conv)+
  have other: "mp_pid (mproc_at s j) \<noteq> pid" if "j < NR_PROCS e" "j \<noteq> c" for j
    using fresh(2) that len nth_mem [of j "mproc_tab ?s2"] by (simp add: nth_upd_at)
  have "mp_tracer (mproc_at s6 c) = NO_TRACER e"
    using mp(3) slot(3) len by (simp add: tab6 child_slot_def untraced_def Let_def)
  then have "do_fork e s = Some (Err SUSPEND, s6)"
    using nf c vmc slot mp(4) pid by (simp add: do_fork_def used_def Let_def stop_traced_child_def s6_def)
  moreover have "mproc_at s6 c = ?par\<lparr>mp_parent := int (who_p s), mp_tracer := NO_TRACER e, mp_trace_flags := {},
            mp_sigtrace := {}, mp_flags := mp_flags ?par \<inter> {IN_USE, DELAY_CALL, TAINTED} \<union> {VFS_CALL},
            mp_child_utime := 0, mp_child_stime := 0, mp_exitstatus := 0, mp_sigstatus := 0, mp_endpoint := ep,
            mp_interval := map (\<lambda>_. 0) (mp_interval ?par), mp_pid := pid,
            mp_scheduler := (if PRIV_PROC \<in> mp_flags ?par then SCHED_PROC_NR e else mp_scheduler ?par)\<rparr>"
    using mp(3) slot(3) len unfolding tab6 by (simp add: child_slot_def untraced_def Let_def)
  moreover have "mproc_at s6 j = mproc_at s j" if "j \<noteq> c" for j using that by (simp add: tab6)
  ultimately show ?thesis using nf slot vmc fresh(1) other con6 unfolding used_def
    by (simp only: if_False) blast
qed

text \<open>No process in use has process \<open>p\<close> as its parent or tracer.\<close>

definition orphaned :: "nat \<Rightarrow> mproc \<Rightarrow> bool" where
  "orphaned p q \<longleftrightarrow> (used q \<longrightarrow> mp_parent q \<noteq> int p \<and> mp_tracer q \<noteq> int p)"

lemma orphaned_evolves:
  "slot_evolves e q r \<Longrightarrow> orphaned p q \<Longrightarrow> int p \<noteq> INIT_PROC_NR e \<Longrightarrow> int p \<noteq> NO_TRACER e \<Longrightarrow> orphaned p r"
  by (auto simp: orphaned_def slot_evolves_def)

lemma disinherit_orphans:
  assumes laws: "pm_laws e" and inv: "pm_inv e s" and c: "c < NR_PROCS e" and t: "disinherit e p c s = Some t"
    and p: "int p \<noteq> INIT_PROC_NR e" "int p \<noteq> NO_TRACER e"
  shows "orphaned p (mproc_at t c)"
proof (cases "used (mproc_at s c)")
  case False
  then show ?thesis using t by (simp add: disinherit_def used_def orphaned_def)
next
  case True
  then obtain s1 where s1: "(if mp_tracer (mproc_at s c) = int p then tracer_died e c s else Some s) = Some s1"
    and t1: "(if mp_parent (mproc_at s1 c) = int p
       then (let s2 = upd_mp c (\<lambda>p. p\<lparr>mp_parent := INIT_PROC_NR e\<rparr>) s1;
                 s3 = (if VFS_CALL \<in> mp_flags (mproc_at s2 c) then set_flags c {NEW_PARENT} s2 else s2)
             in if ZOMBIE \<in> mp_flags (mproc_at s3 c) then check_parent e c True s3 else Some s3)
       else Some s1) = Some t"
    using t unfolding disinherit_def used_def by (auto simp: bind_eq_Some_conv simp del: if_split)
  have g1: "good e s s1" and tr: "mp_tracer (mproc_at s1 c) \<noteq> int p"
    using s1 tracer_died_good [OF laws inv c True] good_refl [OF inv] p(2) by (auto split: if_splits)
  show ?thesis
  proof (cases "mp_parent (mproc_at s1 c) = int p")
    case False
    then show ?thesis using t1 tr by (simp add: orphaned_def)
  next
    case True
    let ?s2 = "upd_mp c (\<lambda>p. p\<lparr>mp_parent := INIT_PROC_NR e\<rparr>) s1"
    let ?s3 = "if VFS_CALL \<in> mp_flags (mproc_at ?s2 c) then set_flags c {NEW_PARENT} ?s2 else ?s2"
    have len: "length (mproc_tab s1) = NR_PROCS e" using good_inv [OF g1] by (simp add: pm_inv_def)
    have g2: "good e s1 ?s2" using pm_inv_nth [OF good_inv [OF g1], of c]
      by (intro good_upd [OF good_inv [OF g1]]) (auto simp: used_def held_def slot_evolves_def)
    have g3: "good e ?s2 ?s3"
      using good_set_flags [OF good_inv [OF g2]] pm_inv_nth [OF good_inv [OF g2] c] good_refl [OF good_inv [OF g2]] by auto
    have o3: "orphaned p (mproc_at ?s3 c)" using p tr c len by (auto simp: orphaned_def set_flags_def used_def)
    have "good e ?s3 t" using t1 True check_parent_good [OF laws good_inv [OF g3] c] good_refl [OF good_inv [OF g3]]
      unfolding Let_def by (simp only: if_True split: if_splits) auto
    then show ?thesis using orphaned_evolves [OF good_nth [OF _ good_inv [OF g3] c] o3 p] by blast
  qed
qed

lemma disinherit_all_orphans:
  assumes laws: "pm_laws e" and p: "int p \<noteq> INIT_PROC_NR e" "int p \<noteq> NO_TRACER e"
  shows "pm_inv e s \<Longrightarrow> set cs \<subseteq> {..<NR_PROCS e} \<Longrightarrow> disinherit_all e p cs s = Some t
     \<Longrightarrow> c \<in> set cs \<Longrightarrow> orphaned p (mproc_at t c)"
proof (induction cs arbitrary: s)
  case (Cons a cs)
  then obtain s1 where s1: "disinherit e p a s = Some s1" "disinherit_all e p cs s1 = Some t"
    by (cases "disinherit e p a s") simp_all
  have a: "a < NR_PROCS e" "set cs \<subseteq> {..<NR_PROCS e}" using Cons.prems(2) by auto
  have g: "good e s s1" by (rule disinherit_good [OF laws Cons.prems(1) a(1) s1(1)])
  show ?case
  proof (cases "c \<in> set cs")
    case True
    then show ?thesis by (rule Cons.IH [OF good_inv [OF g] a(2) s1(2)])
  next
    case False
    then have "c = a" using Cons.prems(4) by simp
    have "good e s1 t" by (rule disinherit_all_good [OF laws good_inv [OF g] a(2) s1(2)])
    then show ?thesis
      using orphaned_evolves [OF good_nth [OF _ good_inv [OF g] a(1)] disinherit_orphans [OF laws Cons.prems(1) a(1) s1(1) p] p]
        \<open>c = a\<close> by blast
  qed
qed simp

lemma exit_proc_orphans:
  fixes e :: "'w pm_env"
  assumes laws: "pm_laws e" and inv: "pm_inv e s" and i: "i < NR_PROCS e" "used (mproc_at s i)"
    and p: "int i \<noteq> INIT_PROC_NR e" "int i \<noteq> NO_TRACER e" and ep: "mp_endpoint (mproc_at s i) \<noteq> INIT_PROC_NR e"
    and t: "exit_proc e i st dc s = Some t" and c: "c < NR_PROCS e"
  shows "orphaned i (mproc_at t c)"
proof (rule exit_proc_stages [OF t ep])
  fix s1 s3 s5 s6 :: "'w pm_state"
  let ?m = "exit_msg (dumps_core dc (mproc_at s i)) (mproc_at s1 i)"
  let ?s4 = "upd_mp i (exiting st) s3"
  assume a1: "exit_account e i s = Some s1"
    and a3: "(if PRIV_PROC \<in> mp_flags (mproc_at (tell_vfs e i ?m s1) i)
          then call_ok (sys_clear e (mp_endpoint (mproc_at (tell_vfs e i ?m s1) i))) (tell_vfs e i ?m s1)
          else Some (tell_vfs e i ?m s1)) = Some s3"
    and a5: "(if \<not> dumps_core dc (mproc_at s i) then zombify e i ?s4 else Some ?s4) = Some s5"
    and a6: "disinherit_all e i [0..<NR_PROCS e] s5 = Some s6"
    and at: "t = s6 \<or> (\<exists>g. check_sig e g (SIGHUP e) False s6 = Some t)"
  note ac = exit_account_good [OF laws inv i a1]
  have "pm_core s3 = pm_core (tell_vfs e i ?m s1)" using a3 call_ok_core by (auto split: if_splits)
  note mk = exit_mark [OF laws good_inv [OF ac(1)] i(1) ac(2) this, of st]
  have g5: "good e ?s4 s5"
    using a5 zombify_good [OF laws good_inv [OF mk(1)] i(1) held_used [OF mk(2)]] good_refl [OF good_inv [OF mk(1)]]
    by (simp split: if_splits)
  have rng: "set [0..<NR_PROCS e] \<subseteq> {..<NR_PROCS e}" by auto
  have g6: "good e s5 s6" by (rule disinherit_all_good [OF laws good_inv [OF g5] rng a6])
  have o6: "orphaned i (mproc_at s6 c)" using disinherit_all_orphans [OF laws p good_inv [OF g5] rng a6] c by simp
  have "good e s6 t" using at good_refl [OF good_inv [OF g6]] check_sig_good [OF laws good_inv [OF g6]] by blast
  then show ?thesis using orphaned_evolves [OF good_nth [OF _ good_inv [OF g6] c] o6 p] by blast
qed

text \<open>
  C17. \<^verbatim>\<open>do_exit\<close> of a process that is neither INIT nor a system process: afterwards its slot is still
  in use and marked as exiting while VFS works on it, no process in use has it as parent or tracer
  any more, and the last line on the console reports the exit with the pid it had. A system process
  that tries to exit is only sent a signal: the table does not change.
\<close>

theorem do_exit_disinherits:
  fixes e :: "'w pm_env"
  assumes laws: "pm_laws e" and inv: "pm_inv e s" and i: "i = pm_mp s" "i < NR_PROCS e" "IN_USE \<in> mp_flags (mproc_at s i)"
    and p: "int i \<noteq> INIT_PROC_NR e" "int i \<noteq> NO_TRACER e" and ep: "mp_endpoint (mproc_at s i) \<noteq> INIT_PROC_NR e"
    and t: "do_exit e st s = Some (r, t)"
  shows "r = Err SUSPEND \<and>
     (if PRIV_PROC \<in> mp_flags (mproc_at s i) then mproc_tab t = mproc_tab s
      else {IN_USE, EXITING, VFS_CALL} \<subseteq> mp_flags (mproc_at t i)
         \<and> (\<forall>j<NR_PROCS e. IN_USE \<in> mp_flags (mproc_at t j) \<longrightarrow> mp_parent (mproc_at t j) \<noteq> int i \<and> mp_tracer (mproc_at t j) \<noteq> int i)
         \<and> last (pm_console t) = (''Minix: PID %d exited'', [AInt (mp_pid (mproc_at s i))]))"
proof (cases "PRIV_PROC \<in> mp_flags (mproc_at s i)")
  case True
  then show ?thesis using t i(1) by (auto simp: do_exit_def Let_def)
next
  case False
  then obtain s1 where s1: "exit_proc e i st False s = Some s1" "r = Err SUSPEND"
    "t = pm_print ''Minix: PID %d exited'' [AInt (mp_pid (mproc_at s1 i))] s1"
    using t i(1) by (auto simp: do_exit_def Let_def bind_eq_Some_conv)
  have u: "used (mproc_at s i)" using i(3) by (simp add: used_def)
  note ex = exit_proc_good(2) [OF laws inv i(2) u s1(1) ep]
  show ?thesis
    using ex exit_proc_orphans [OF laws inv i(2) u p ep s1(1)] s1(2,3) False by (auto simp: held_def orphaned_def used_def)
qed

text \<open>A child whose exit or stop can be reported to the waiting process at once.\<close>

definition collectable :: "'w pm_env \<Rightarrow> 'w pm_state \<Rightarrow> nat \<Rightarrow> bool" where
  "collectable e s c \<longleftrightarrow>
     (let rp = mproc_at s c; traced = (mp_tracer rp = int (who_p s)) in
        traced \<and> TRACE_ZOMBIE \<in> mp_flags rp
      \<or> traced \<and> TRACE_STOPPED \<in> mp_flags rp \<and> (\<exists>i\<in>mp_sigtrace rp. 1 \<le> i \<and> i < NSIG e)
      \<or> mp_parent rp = int (who_p s) \<and> ZOMBIE \<in> mp_flags rp)"

lemma wait_child_not_collectable:
  assumes "\<not> collectable e s c"
  shows "wait_child e c s = Some (Inr s)"
proof -
  have "first_sig e (mp_sigtrace (mproc_at s c)) = None"
    if "mp_tracer (mproc_at s c) = int (who_p s)" "TRACE_STOPPED \<in> mp_flags (mproc_at s c)"
    using assms that by (auto simp: first_sig_def find_None_iff collectable_def Let_def)
  then show ?thesis using assms by (auto simp: wait_child_def collectable_def Let_def)
qed

lemma wait_scan_skip:
  assumes "\<forall>c\<in>set cs. qualifies (who_p s) p (mproc_at s c) \<longrightarrow> \<not> collectable e s c"
  shows "wait_scan e p (cs @ ds) n s = wait_scan e p ds (n + length (filter (\<lambda>c. qualifies (who_p s) p (mproc_at s c)) cs)) s"
  using assms by (induction cs arbitrary: n) (auto simp: wait_child_not_collectable)

text \<open>
  C28. \<^verbatim>\<open>do_waitpid\<close> when nothing can be reported at once: it fails with \<^verbatim>\<open>ECHILD\<close> exactly when no child
  or traced process meets the pid test; otherwise it returns 0 with \<^verbatim>\<open>WNOHANG\<close>, and without it the
  caller is marked as waiting for that pid and gets no answer yet. Nothing else changes.
\<close>

theorem do_waitpid_blocks:
  assumes "\<forall>c<NR_PROCS e. qualifies (who_p s) (wait_pid p s) (mproc_at s c) \<longrightarrow> \<not> collectable e s c"
  shows "do_waitpid e p wnohang s =
     (if \<not> (\<exists>c<NR_PROCS e. qualifies (who_p s) (wait_pid p s) (mproc_at s c)) then Some (Err ECHILD, s)
      else if wnohang then Some (Ret 0, s)
      else Some (Err SUSPEND, upd_mp (pm_mp s) (\<lambda>q. q\<lparr>mp_flags := insert WAITING (mp_flags q), mp_wpid := wait_pid p s\<rparr>) s))"
proof -
  let ?q = "\<lambda>c. qualifies (who_p s) (wait_pid p s) (mproc_at s c)"
  have "wait_scan e (wait_pid p s) [0..<NR_PROCS e] 0 s = Some (Inr (length (filter ?q [0..<NR_PROCS e])))"
    using wait_scan_skip [of "[0..<NR_PROCS e]" s "wait_pid p s" e "[]" 0] assms by simp
  moreover have "0 < length (filter ?q [0..<NR_PROCS e]) \<longleftrightarrow> (\<exists>c<NR_PROCS e. ?q c)"
    by (auto simp: filter_empty_conv)
  ultimately show ?thesis by (simp add: do_waitpid_def Let_def)
qed

lemma tell_parent_effect:
  assumes laws: "pm_laws e" and len: "length (mproc_tab s) = NR_PROCS e" and c: "c < NR_PROCS e" "ZOMBIE \<in> mp_flags (mproc_at s c)"
      "TOLD_PARENT \<notin> mp_flags (mproc_at s c)"
    and w: "mp_parent (mproc_at s c) = int w" "0 < w" "w < NR_PROCS e" "w \<noteq> c"
  shows "\<exists>t. tell_parent e c s = Some t \<and> procs_in_use t = procs_in_use s
     \<and> mproc_at t w = (mproc_at s w)\<lparr>mp_reply_status := W_EXITCODE e (mp_exitstatus (mproc_at s c)) (mp_sigstatus (mproc_at s c)),
          mp_flags := mp_flags (mproc_at s w) - {WAITING}\<rparr>
     \<and> mproc_at t c = (mproc_at s c)\<lparr>mp_flags := insert TOLD_PARENT (mp_flags (mproc_at s c) - {ZOMBIE})\<rparr>
     \<and> (\<forall>j. j \<noteq> c \<and> j \<noteq> w \<longrightarrow> mproc_at t j = mproc_at s j) \<and> length (mproc_tab t) = NR_PROCS e"
proof -
  let ?s1 = "upd_mp w (\<lambda>p. p\<lparr>mp_reply_status := W_EXITCODE e (mp_exitstatus (mproc_at s c)) (mp_sigstatus (mproc_at s c))\<rparr>) s"
  let ?s2 = "reply e (mp_parent (mproc_at ?s1 c)) (Ret (mp_pid (mproc_at ?s1 c))) ?s1"
  have tab: "mproc_tab ?s2 = mproc_tab ?s1" "procs_in_use ?s2 = procs_in_use ?s1"
    using reply_core [OF laws, of "mp_parent (mproc_at ?s1 c)" "Ret (mp_pid (mproc_at ?s1 c))" ?s1] by (simp_all add: pm_core_def)
  show ?thesis
    using c w len tab by (simp add: tell_parent_def Let_def set_flags_def clear_flags_def nth_upd_at)
qed

text \<open>
  C27. \<^verbatim>\<open>do_waitpid\<close> collects the first zombie: its exit code is put in the reply to the caller, which
  no longer waits, and, VFS being done with the child, the child's slot is released: no flags, pid
  0, one slot less in use, so it qualifies for no later wait. All other processes are as before.
\<close>

theorem do_waitpid_collects:
  assumes laws: "pm_laws e" and inv: "pm_inv e s" and w: "w = who_p s" "0 < w" "w < NR_PROCS e" "w \<noteq> c"
    and c: "c < NR_PROCS e" "qualifies w (wait_pid p s) (mproc_at s c)" "mp_parent (mproc_at s c) = int w"
      "mp_tracer (mproc_at s c) \<noteq> int w" "ZOMBIE \<in> mp_flags (mproc_at s c)" "VFS_CALL \<notin> mp_flags (mproc_at s c)"
    and first: "\<forall>d<c. qualifies w (wait_pid p s) (mproc_at s d) \<longrightarrow> \<not> collectable e s d"
  shows "\<exists>t. do_waitpid e p wnohang s = Some (Err SUSPEND, t)
     \<and> mp_reply_status (mproc_at t w) = W_EXITCODE e (mp_exitstatus (mproc_at s c)) (mp_sigstatus (mproc_at s c))
     \<and> mp_flags (mproc_at t w) = mp_flags (mproc_at s w) - {WAITING}
     \<and> mp_flags (mproc_at t c) = {} \<and> mp_pid (mproc_at t c) = 0 \<and> \<not> qualifies w (wait_pid p s) (mproc_at t c)
     \<and> procs_in_use t = procs_in_use s - 1
     \<and> (\<forall>j. j \<noteq> c \<and> j \<noteq> w \<longrightarrow> mproc_at t j = mproc_at s j)"
proof -
  have len: "length (mproc_tab s) = NR_PROCS e" using inv by (simp add: pm_inv_def)
  have told: "TOLD_PARENT \<notin> mp_flags (mproc_at s c)" using c(2) by (simp add: qualifies_def)
  obtain t1 where t1: "tell_parent e c s = Some t1" "procs_in_use t1 = procs_in_use s"
    "mproc_at t1 w = (mproc_at s w)\<lparr>mp_reply_status := W_EXITCODE e (mp_exitstatus (mproc_at s c)) (mp_sigstatus (mproc_at s c)),
          mp_flags := mp_flags (mproc_at s w) - {WAITING}\<rparr>"
    "mproc_at t1 c = (mproc_at s c)\<lparr>mp_flags := insert TOLD_PARENT (mp_flags (mproc_at s c) - {ZOMBIE})\<rparr>"
    "\<forall>j. j \<noteq> c \<and> j \<noteq> w \<longrightarrow> mproc_at t1 j = mproc_at s j" "length (mproc_tab t1) = NR_PROCS e"
    using tell_parent_effect [OF laws len c(1,5) told c(3) w(2,3,4)] by auto
  have "wait_child e c s = Some (Inl (Err SUSPEND, cleanup c t1))"
    using c t1(1) t1(4) w(1) by (simp add: wait_child_def Let_def)
  moreover have "[0..<NR_PROCS e] = [0..<c] @ c # [Suc c..<NR_PROCS e]"
    using c(1) by (rule upt_split)
  ultimately have "wait_scan e (wait_pid p s) [0..<NR_PROCS e] 0 s = Some (Inl (Err SUSPEND, cleanup c t1))"
    using wait_scan_skip [of "[0..<c]" s "wait_pid p s" e] first c(2) w(1) by simp
  then have "do_waitpid e p wnohang s = Some (Err SUSPEND, cleanup c t1)" by (simp add: do_waitpid_def)
  then show ?thesis using t1 c(1) w(4) by (simp add: cleanup_def qualifies_def)
qed

section \<open>A small process table\<close>

text \<open>
  Four slots: slot 0 is free, 1 is INIT, 2 is a shell with a dead child in slot 3. VM hands out
  endpoints, signals are dropped, pids count up from the largest one.
\<close>

definition pdemo_env :: "unit pm_env" where
  "pdemo_env =
     \<lparr>NR_PROCS = 4, NSIG = 3, INIT_PROC_NR = 1, RS_PROC_NR = 90, VFS_PROC_NR = 91, SCHED_PROC_NR = 92, NONE = -1,
      NO_TRACER = 0, SIGSTOP = 17, SIGKILL = 9, SIGCHLD = 20, SIGHUP = 1,
      W_EXITCODE = (\<lambda>r g. r * 256 + g), W_STOPCODE = (\<lambda>g. int g * 256 + 127),
      vm_fork = (\<lambda>p c w. (OK, 100 + int c, w)), vm_willexit = (\<lambda>_ w. (OK, w)), vm_notify_sig_wrapper = (\<lambda>_ w. w),
      vm_exit = (\<lambda>_ w. (OK, w)), sys_times = (\<lambda>_ _. (OK, 3, 4)), sys_stop = (\<lambda>_ w. (OK, w)),
      sys_clear = (\<lambda>_ w. (OK, w)), sys_kill = (\<lambda>_ _ w. w), sys_diagctl_stacktrace = (\<lambda>_ w. w),
      sched_stop = (\<lambda>_ _ w. (OK, w)), reply = (\<lambda>_ _ s. s), tell_vfs = (\<lambda>i _ s. set_flags i {VFS_CALL} s),
      set_alarm = (\<lambda>i _ s. clear_flags i {ALARM_ON} s),
      get_free_pid = (\<lambda>s. (1 + fold max (map mp_pid (mproc_tab s)) 0, s)),
      sig_proc = (\<lambda>_ _ _ _ s. Some s), check_sig = (\<lambda>_ _ _ s. Some s)\<rparr>"

definition pdemo_proc :: "int \<Rightarrow> int \<Rightarrow> int \<Rightarrow> mp_flag set \<Rightarrow> mproc" where
  "pdemo_proc ep pid parent fl =
     \<lparr>mp_endpoint = ep, mp_pid = pid, mp_procgrp = 5, mp_wpid = 0, mp_parent = parent, mp_tracer = 0, mp_trace_flags = {},
      mp_sigtrace = {}, mp_flags = fl, mp_child_utime = 0, mp_child_stime = 0, mp_exitstatus = 7, mp_sigstatus = 0,
      mp_scheduler = 92, mp_realuid = 0, mp_effuid = 0, mp_realgid = 0, mp_effgid = 0, mp_interval = [8, 9],
      mp_name = ''sh'', mp_reply_status = 0, mp_reply_data = 0\<rparr>"

definition pdemo :: "unit pm_state" where
  "pdemo =
     \<lparr>mproc_tab = [pdemo_proc 0 0 0 {}, pdemo_proc 11 1 0 {IN_USE}, pdemo_proc 12 5 1 {IN_USE, TAINTED},
                   pdemo_proc 13 6 2 {IN_USE, EXITING, ZOMBIE}],
      procs_in_use = 3, pm_mp = 2, who_p = 2, fork_next = 1, srv_fork_next = 0, pm_console = [], pm_world = ()\<rparr>"

lemmas pdemo_defs = pdemo_env_def pdemo_def pdemo_proc_def

lemma fold_max_ge: "(x :: int) \<in> set xs \<Longrightarrow> x \<le> fold max xs a" "a \<le> fold max xs a"
proof -
  show ge: "a \<le> fold max xs a" for a :: int and xs
    by (induction xs arbitrary: a) (auto intro: order_trans [OF max.cobounded2])
  show "x \<in> set xs \<Longrightarrow> x \<le> fold max xs a" using ge by (induction xs arbitrary: a) (auto intro: order_trans [OF max.cobounded1])
qed

lemma pdemo_laws: "pm_laws pdemo_env"
proof -
  have "mp_pid p \<noteq> 1 + fold max (map mp_pid (mproc_tab s)) 0" if "p \<in> set (mproc_tab s)" for p and s :: "unit pm_state"
    using fold_max_ge(1) [of "mp_pid p" "map mp_pid (mproc_tab s)" 0] that by force
  moreover have "0 < 1 + fold max (map mp_pid (mproc_tab s)) (0::int)" for s :: "unit pm_state"
    using fold_max_ge(2) [of 0 "map mp_pid (mproc_tab s)"] by linarith
  ultimately show ?thesis unfolding pm_laws_def by (simp add: pdemo_env_def)
qed

lemma pdemo_inv: "pm_inv pdemo_env pdemo"
  by (simp add: pm_inv_def pdemo_defs count_slots_def used_def)

theorem procs_in_use_exact_witness:
  "\<exists>t. pm_step pdemo_env pdemo t \<and> procs_in_use t = int (count_slots used (mproc_tab t))"
proof -
  have "do_waitpid pdemo_env (-1) True (pdemo\<lparr>pm_mp := 1, who_p := 1\<rparr>) = Some (Ret 0, pdemo\<lparr>pm_mp := 1, who_p := 1\<rparr>)"
    by (simp add: do_waitpid_def pdemo_defs upt_rec qualifies_def wait_child_def wait_pid_def)
  then have st: "pm_step pdemo_env pdemo (pdemo\<lparr>pm_mp := 1, who_p := 1\<rparr>)"
    by (intro step_waitpid [where i = 1]) (simp_all add: pdemo_defs used_def)
  show ?thesis using procs_in_use_exact [OF pdemo_laws pdemo_inv reach_step [OF reach_refl st]] st by blast
qed

theorem do_fork_creates_witness:
  "\<exists>t pid. do_fork pdemo_env pdemo = Some (Err SUSPEND, t) \<and> pm_console t = [(''Minix: PID %d created'', [AInt pid])] \<and> procs_in_use t = 4"
proof -
  have pre: "pm_mp pdemo < NR_PROCS pdemo_env" "IN_USE \<in> mp_flags (mproc_at pdemo (pm_mp pdemo))"
    "TO_TRACEFORK \<notin> mp_trace_flags (mproc_at pdemo (pm_mp pdemo))"
    "PRIV_PROC \<in> mp_flags (mproc_at pdemo (pm_mp pdemo)) \<longrightarrow> mp_scheduler (mproc_at pdemo (pm_mp pdemo)) = NONE pdemo_env"
    "\<exists>ep w. vm_fork pdemo_env (mp_endpoint (mproc_at pdemo (pm_mp pdemo))) c (pm_world pdemo) = (OK, ep, w)" for c
    by (simp_all add: pdemo_defs)
  have "\<not> table_full pdemo_env pdemo" "pm_console pdemo = []" "procs_in_use pdemo = 3"
    by (simp_all add: table_full_def pdemo_defs LAST_FEW_def)
  then show ?thesis using do_fork_creates [OF pdemo_laws pdemo_inv pre] by auto
qed

theorem do_exit_disinherits_witness:
  "\<exists>r t. do_exit pdemo_env 3 pdemo = Some (r, t) \<and> r = Err SUSPEND
     \<and> last (pm_console t) = (''Minix: PID %d exited'', [AInt 5]) \<and> EXITING \<in> mp_flags (mproc_at t 2)"
proof -
  have "\<exists>r t. do_exit pdemo_env 3 pdemo = Some (r, t)"
    by (simp add: pdemo_defs do_exit_def exit_proc_def exit_account_def call_ok_def set_flags_def upd_mp_def upd_at_def
        dumps_core_def zombify_def check_parent_def wait_test_def upt_rec disinherit_def Let_def)
  then obtain r t where rt: "do_exit pdemo_env 3 pdemo = Some (r, t)" by blast
  have pre: "2 = pm_mp pdemo" "2 < NR_PROCS pdemo_env" "IN_USE \<in> mp_flags (mproc_at pdemo 2)"
    "int 2 \<noteq> INIT_PROC_NR pdemo_env" "int 2 \<noteq> NO_TRACER pdemo_env" "mp_endpoint (mproc_at pdemo 2) \<noteq> INIT_PROC_NR pdemo_env"
    by (simp_all add: pdemo_defs)
  have "PRIV_PROC \<notin> mp_flags (mproc_at pdemo 2)" "mp_pid (mproc_at pdemo 2) = 5" by (simp_all add: pdemo_defs)
  then show ?thesis using do_exit_disinherits [OF pdemo_laws pdemo_inv pre rt] rt by auto
qed

theorem do_waitpid_blocks_witness:
  "do_waitpid pdemo_env 9 False pdemo = Some (Err ECHILD, pdemo)"
proof -
  have none: "\<not> qualifies (who_p pdemo) (wait_pid 9 pdemo) (mproc_at pdemo c)" if "c < NR_PROCS pdemo_env" for c
    using that by (auto simp: pdemo_defs qualifies_def wait_pid_def less_Suc_eq numeral_eq_Suc)
  then show ?thesis using do_waitpid_blocks [of pdemo_env pdemo 9 False] by auto
qed

theorem do_waitpid_collects_witness:
  "\<exists>t. do_waitpid pdemo_env (-1) False pdemo = Some (Err SUSPEND, t) \<and> mp_reply_status (mproc_at t 2) = 7 * 256
     \<and> mp_flags (mproc_at t 3) = {} \<and> procs_in_use t = 2"
proof -
  have pre: "2 = who_p pdemo" "(0::nat) < 2" "2 < NR_PROCS pdemo_env" "2 \<noteq> (3::nat)"
    "3 < NR_PROCS pdemo_env" "qualifies 2 (wait_pid (-1) pdemo) (mproc_at pdemo 3)" "mp_parent (mproc_at pdemo 3) = int 2"
    "mp_tracer (mproc_at pdemo 3) \<noteq> int 2" "ZOMBIE \<in> mp_flags (mproc_at pdemo 3)" "VFS_CALL \<notin> mp_flags (mproc_at pdemo 3)"
    by (simp_all add: pdemo_defs qualifies_def wait_pid_def)
  have first: "\<forall>d<3. qualifies 2 (wait_pid (-1) pdemo) (mproc_at pdemo d) \<longrightarrow> \<not> collectable pdemo_env pdemo d"
    by (auto simp: pdemo_defs qualifies_def wait_pid_def less_Suc_eq numeral_eq_Suc)
  have "W_EXITCODE pdemo_env (mp_exitstatus (mproc_at pdemo 3)) (mp_sigstatus (mproc_at pdemo 3)) = 7 * 256" "procs_in_use pdemo = 3"
    by (simp_all add: pdemo_defs)
  then show ?thesis using do_waitpid_collects [OF pdemo_laws pdemo_inv pre first, of False] by auto
qed

end
