(* ===== verification/MFS_Base.thy ===== *)
theory MFS_Base
  imports Minix_Prelude "HOL-Library.Signed_Division"
begin

text \<open>
  The common ground of the MINIX file system model: the mode bits and limits of
  \<^verbatim>\<open>src/Lab-10/const.h\<close>, the helpers of \<^verbatim>\<open>src/Lab-10/fslib.c\<close>, 32-bit views of byte arrays, and
  the state of the file system server.

  A block is the list of its bytes; an indirect block and the zone array of an inode are the
  little-endian 32-bit views of such lists, because Lab 10 stores the data of immediate files in
  the bytes of \<^verbatim>\<open>i_zone\<close>. A buffer \<^verbatim>\<open>struct buf *\<close> is the key (device, block) of the block it
  holds; what a buffer for a key contains is the field \<open>blocks\<close> of the state. The buffer cache,
  the zone allocator, the grant copies and the inode table are not part of the repository: they are
  fields of the record \<open>mfs_env\<close>.
\<close>

section \<open>Bytes\<close>

text \<open>The 32-bit value at byte offset \<open>n\<close>, and the byte list with that value replaced.\<close>

definition get32 :: "nat \<Rightarrow> u8 list \<Rightarrow> u32" where
  "get32 n bs = word_of_nat (unat (bs ! n) + 2 ^ 8 * unat (bs ! (n + 1)) + 2 ^ 16 * unat (bs ! (n + 2)) + 2 ^ 24 * unat (bs ! (n + 3)))"

definition put32 :: "nat \<Rightarrow> u32 \<Rightarrow> u8 list \<Rightarrow> u8 list" where
  "put32 n v bs =
     bs[n := word_of_nat (unat v), n + 1 := word_of_nat (unat v div 2 ^ 8),
        n + 2 := word_of_nat (unat v div 2 ^ 16), n + 3 := word_of_nat (unat v div 2 ^ 24)]"

text \<open>Replacing the bytes from offset \<open>n\<close> on, the effect of a copy into an array.\<close>

definition put_bytes :: "nat \<Rightarrow> 'a list \<Rightarrow> 'a list \<Rightarrow> 'a list" where
  "put_bytes n d bs = take n bs @ d @ drop (n + length d) bs"

lemma length_put32 [simp]: "length (put32 n v bs) = length bs"
  by (simp add: put32_def)

lemma length_put_bytes [simp]: "n + length d \<le> length bs \<Longrightarrow> length (put_bytes n d bs) = length bs"
  by (simp add: put_bytes_def)

lemma nat_bytes4:
  fixes m :: nat
  assumes "m < 4294967296"
  shows "m mod 256 + 256 * (m div 256 mod 256) + 65536 * (m div 65536 mod 256) + 16777216 * (m div 16777216 mod 256) = m"
proof -
  have "m div 16777216 mod 256 = m div 16777216" using assms by (intro mod_less) (simp add: less_mult_imp_div_less)
  moreover have "m div 65536 = m div 16777216 * 256 + m div 65536 mod 256"
    using div_mult_mod_eq [of "m div 65536" 256] by (simp add: div_mult2_eq [symmetric])
  moreover have "m div 256 = m div 65536 * 256 + m div 256 mod 256"
    using div_mult_mod_eq [of "m div 256" 256] by (simp add: div_mult2_eq [symmetric])
  moreover have "m = m div 256 * 256 + m mod 256" by simp
  ultimately show ?thesis by linarith
qed

lemma unat_byte: "unat (word_of_nat k :: u8) = k mod 256"
  by (simp add: unsigned_of_nat take_bit_eq_mod)

lemma get32_put32_same [simp]:
  assumes "n + 4 \<le> length bs"
  shows "get32 n (put32 n v bs) = v"
proof -
  have lt: "unat v < 4294967296" using unsigned_less [of v] by simp
  have "put32 n v bs ! n = word_of_nat (unat v)" "put32 n v bs ! (n + 1) = word_of_nat (unat v div 2 ^ 8)"
    "put32 n v bs ! (n + 2) = word_of_nat (unat v div 2 ^ 16)" "put32 n v bs ! (n + 3) = word_of_nat (unat v div 2 ^ 24)"
    using assms by (simp_all add: put32_def)
  then have "get32 n (put32 n v bs) = word_of_nat (unat v mod 256 + 2 ^ 8 * (unat v div 2 ^ 8 mod 256)
      + 2 ^ 16 * (unat v div 2 ^ 16 mod 256) + 2 ^ 24 * (unat v div 2 ^ 24 mod 256))"
    unfolding get32_def by (simp only: unat_byte)
  also have "\<dots> = word_of_nat (unat v)"
  proof -
    have p: "(2::nat) ^ 8 = 256" "(2::nat) ^ 16 = 65536" "(2::nat) ^ 24 = 16777216" by simp_all
    show ?thesis unfolding p nat_bytes4 [OF lt] by (rule refl)
  qed
  finally show ?thesis by simp
qed

lemma get32_put32_other:
  assumes "m + 4 \<le> n \<or> n + 4 \<le> m"
  shows "get32 m (put32 n v bs) = get32 m bs"
  using assms by (auto simp: get32_def put32_def nth_list_update)

lemma put32_get32_same:
  assumes "n + 4 \<le> length bs" and "get32 n bs = v"
  shows "put32 n v bs = bs"
proof -
  define a b c d where "a = unat (bs ! n)" and "b = unat (bs ! (n + 1))" and "c = unat (bs ! (n + 2))" and "d = unat (bs ! (n + 3))"
  have lt: "a < 256" "b < 256" "c < 256" "d < 256"
    using unsigned_less [of "bs ! n"] unsigned_less [of "bs ! (n + 1)"] unsigned_less [of "bs ! (n + 2)"] unsigned_less [of "bs ! (n + 3)"]
    by (simp_all add: a_def b_def c_def d_def)
  have v: "unat v = a + 256 * (b + 256 * (c + 256 * d))"
  proof -
    have "v = word_of_nat (a + 256 * (b + 256 * (c + 256 * d)))"
      unfolding assms(2) [symmetric] get32_def by (simp add: a_def b_def c_def d_def algebra_simps)
    moreover have "a \<le> 255" "b \<le> 255" "c \<le> 255" "d \<le> 255" using lt by simp_all
    then have "a + 256 * b + 65536 * c + 16777216 * d < 4294967296" by linarith
    then have "a + 256 * (b + 256 * (c + 256 * d)) < 4294967296" by (simp add: algebra_simps)
    moreover have "unat v = k" if "v = word_of_nat k" "k < 4294967296" for k
      using that by (simp add: unsigned_of_nat take_bit_eq_mod)
    ultimately show ?thesis by blast
  qed
  have h: "(x + 256 * y) mod 256 = x" "(x + 256 * y) div 256 = y" if "x < 256" for x y :: nat using that by simp_all
  have 1: "unat v mod 256 = a" "unat v div 256 = b + 256 * (c + 256 * d)" unfolding v by (rule h [OF lt(1)])+
  have 2: "unat v div 65536 = c + 256 * d"
    using div_mult2_eq [of "unat v" 256 256] unfolding 1 h [OF lt(2)] by simp
  have 3: "unat v div 16777216 = d"
    using div_mult2_eq [of "unat v" 65536 256] unfolding 2 h [OF lt(3)] by simp
  have 4: "unat v div 256 mod 256 = b" "unat v div 65536 mod 256 = c" "unat v div 16777216 mod 256 = d"
    unfolding 1 2 3 by (rule h(1) [OF lt(2)], rule h(1) [OF lt(3)], rule mod_less [OF lt(4)])
  have p: "(2::nat) ^ 8 = 256" "(2::nat) ^ 16 = 65536" "(2::nat) ^ 24 = 16777216" by simp_all
  have byte: "word_of_nat k = x" if "k mod 256 = unat x" for k and x :: u8
    using that by (metis unat_byte word_unat_eq_iff)
  have "word_of_nat (unat v) = bs ! n" "word_of_nat (unat v div 2 ^ 8) = bs ! (n + 1)"
    "word_of_nat (unat v div 2 ^ 16) = bs ! (n + 2)" "word_of_nat (unat v div 2 ^ 24) = bs ! (n + 3)"
    unfolding p using 1(1) 4 by (intro byte, simp add: a_def b_def c_def d_def)+
  then show ?thesis using assms(1) by (simp add: put32_def)
qed

lemma get32_replicate0 [simp]: "n + 4 \<le> k \<Longrightarrow> get32 n (replicate k 0) = 0"
  by (simp add: get32_def)

lemma nth_put_bytes:
  assumes "n + length d \<le> length bs" and "i < length bs"
  shows "put_bytes n d bs ! i = (if n \<le> i \<and> i < n + length d then d ! (i - n) else bs ! i)"
  using assms by (auto simp: put_bytes_def nth_append min_def)

lemma take_put_bytes: "n + length d \<le> length bs \<Longrightarrow> take (length d) (drop n (put_bytes n d bs)) = d"
  by (simp add: put_bytes_def)

section \<open>const.h\<close>

type_synonym zone_t = u32
type_synonym block_t = u32
type_synonym dev_t = u32
type_synonym mode_t = u32

definition I_TYPE :: mode_t where "I_TYPE = 0xF000"
definition I_UNIX_SOCKET :: mode_t where "I_UNIX_SOCKET = 0xC000"
definition I_SYMBOLIC_LINK :: mode_t where "I_SYMBOLIC_LINK = 0xA000"
definition I_REGULAR :: mode_t where "I_REGULAR = 0x8000"
definition I_IMMEDIATE :: mode_t where "I_IMMEDIATE = 0x9000"
definition I_BLOCK_SPECIAL :: mode_t where "I_BLOCK_SPECIAL = 0x6000"
definition I_DIRECTORY :: mode_t where "I_DIRECTORY = 0x4000"
definition I_CHAR_SPECIAL :: mode_t where "I_CHAR_SPECIAL = 0x2000"
definition I_NAMED_PIPE :: mode_t where "I_NAMED_PIPE = 0x1000"
definition ALL_MODES :: mode_t where "ALL_MODES = 0x0FFF"
definition MAX_FILE_POS :: nat where "MAX_FILE_POS = 0x7FFFFFFF"
definition NO_BLOCK :: block_t where "NO_BLOCK = 0"
definition NO_ZONE :: zone_t where "NO_ZONE = 0"
definition NO_DEV :: dev_t where "NO_DEV = 0"

datatype rw = READING | WRITING | PEEKING

lemmas mode_consts = I_TYPE_def I_UNIX_SOCKET_def I_SYMBOLIC_LINK_def I_REGULAR_def I_IMMEDIATE_def
  I_BLOCK_SPECIAL_def I_DIRECTORY_def I_CHAR_SPECIAL_def I_NAMED_PIPE_def ALL_MODES_def

section \<open>fslib.c\<close>

text \<open>
  \<^verbatim>\<open>bit_t\<close> and \<^verbatim>\<open>int\<close> are unbounded here; \<^verbatim>\<open>FS_BITS_PER_BLOCK\<close> of the block size is the second
  argument. C's division truncates.
\<close>

definition bitmapsize :: "int \<Rightarrow> int \<Rightarrow> int" where
  "bitmapsize nr_bits bits_per_block =
     (let nr_blocks = nr_bits sdiv bits_per_block in
      if nr_blocks * bits_per_block < nr_bits then nr_blocks + 1 else nr_blocks)"

datatype dtype = DT_REG | DT_DIR | DT_LNK | DT_CHR | DT_BLK | DT_FIFO | DT_SOCK

text \<open>
  The \<^verbatim>\<open>S_IS...\<close> tests of POSIX compare the type bits of the mode. \<^const>\<open>None\<close> is the failed
  assertion at the end.
\<close>

definition fs_mode_to_type :: "mode_t \<Rightarrow> dtype option" where
  "fs_mode_to_type mode =
     (if mode AND 0xF000 = 0x8000 then Some DT_REG
      else if 0x9000 = mode AND 0xF000 then Some DT_REG
      else if mode AND 0xF000 = 0x4000 then Some DT_DIR
      else if mode AND 0xF000 = 0xA000 then Some DT_LNK
      else if mode AND 0xF000 = 0x2000 then Some DT_CHR
      else if mode AND 0xF000 = 0x6000 then Some DT_BLK
      else if mode AND 0xF000 = 0x1000 then Some DT_FIFO
      else if mode AND 0xF000 = 0xC000 then Some DT_SOCK
      else None)"

section \<open>The server's state\<close>

datatype upd_time = ATIME | CTIME | MTIME

record inode =
  i_mode :: mode_t
  i_size :: nat
  i_zone :: "u8 list"
  i_dev :: dev_t
  i_num :: nat
  i_ndzones :: nat
  i_nindirs :: nat
  i_zsearch :: zone_t
  i_update :: "upd_time set"
  i_dirty :: bool
  i_no_seek :: bool

record super_block =
  s_block_size :: nat
  s_log_zone_size :: nat
  s_max_size :: int
  s_rd_only :: bool
  s_firstdatazone :: zone_t
  s_zones :: zone_t
  s_native :: bool
  s_version_V3 :: bool
  s_dev :: dev_t

type_synonym bkey = "dev_t \<times> block_t"

text \<open>\<open>lmfs_dev\<close> is \<^const>\<open>NO_DEV\<close> for a buffer that could not be filled without reading.\<close>

record buf =
  b_key :: bkey
  lmfs_dev :: dev_t

datatype bmode = NORMAL | NO_READ | PREFETCH
datatype btype = INDIRECT_BLOCK | DIRECTORY_BLOCK | FULL_DATA_BLOCK | PARTIAL_DATA_BLOCK

record 'w mfs =
  superblock :: super_block
  blocks :: "bkey \<Rightarrow> u8 list"
  dirty :: "bkey set"
  err_code :: ret
  inodes :: "inode list"
  fs_console :: console
  fs_world :: 'w

record 'w mfs_env =
  get_block :: "dev_t \<Rightarrow> block_t \<Rightarrow> bmode \<Rightarrow> 'w mfs \<Rightarrow> buf \<times> 'w mfs"
  lmfs_get_block_ino :: "dev_t \<Rightarrow> block_t \<Rightarrow> bmode \<Rightarrow> nat \<Rightarrow> nat \<Rightarrow> 'w mfs \<Rightarrow> buf \<times> 'w mfs"
  put_block :: "buf \<Rightarrow> btype \<Rightarrow> 'w mfs \<Rightarrow> 'w mfs"
  get_block_size :: "dev_t \<Rightarrow> nat"
  alloc_zone :: "dev_t \<Rightarrow> zone_t \<Rightarrow> 'w mfs \<Rightarrow> zone_t \<times> 'w mfs"
  free_zone :: "dev_t \<Rightarrow> zone_t \<Rightarrow> 'w mfs \<Rightarrow> 'w mfs"
  conv4 :: "bool \<Rightarrow> u32 \<Rightarrow> u32"
  V2_INDIRECTS :: "nat \<Rightarrow> nat"
  V2_NR_TZONES :: nat
  VMC_NO_INODE :: nat
  NR_IOREQS :: u32
  lmfs_nr_bufs :: nat
  lmfs_bufs_in_use :: "'w \<Rightarrow> nat"
  lmfs_rw_scattered :: "dev_t \<Rightarrow> buf list \<Rightarrow> rw \<Rightarrow> 'w mfs \<Rightarrow> 'w mfs"
  lmfs_reset_rdwt_err :: "'w mfs \<Rightarrow> 'w mfs"
  lmfs_rdwt_err :: "'w mfs \<Rightarrow> ret"
  END_OF_FILE :: ret
  find_inode :: "nat \<Rightarrow> 'w mfs \<Rightarrow> nat option"
  get_inode :: "nat \<Rightarrow> 'w mfs \<Rightarrow> nat option \<times> 'w mfs"
  put_inode :: "nat \<Rightarrow> 'w mfs \<Rightarrow> 'w mfs"
  sys_safecopyto :: "nat \<Rightarrow> nat \<Rightarrow> u8 list \<Rightarrow> 'w mfs \<Rightarrow> ret \<times> 'w mfs"
  sys_safecopyfrom :: "nat \<Rightarrow> nat \<Rightarrow> nat \<Rightarrow> 'w mfs \<Rightarrow> ret \<times> u8 list \<times> 'w mfs"
  sys_safememset :: "nat \<Rightarrow> nat \<Rightarrow> u8 \<Rightarrow> nat \<Rightarrow> 'w mfs \<Rightarrow> ret \<times> 'w mfs"

definition b_data :: "buf \<Rightarrow> 'w mfs \<Rightarrow> u8 list" where
  "b_data bp fs = blocks fs (b_key bp)"

definition set_data :: "buf \<Rightarrow> u8 list \<Rightarrow> 'w mfs \<Rightarrow> 'w mfs" where
  "set_data bp d fs = fs\<lparr>blocks := (blocks fs)(b_key bp := d)\<rparr>"

definition MARKDIRTY :: "buf \<Rightarrow> 'w mfs \<Rightarrow> 'w mfs" where
  "MARKDIRTY bp fs = fs\<lparr>dirty := insert (b_key bp) (dirty fs)\<rparr>"

definition MARKCLEAN :: "buf \<Rightarrow> 'w mfs \<Rightarrow> 'w mfs" where
  "MARKCLEAN bp fs = fs\<lparr>dirty := dirty fs - {b_key bp}\<rparr>"

definition IN_MARKDIRTY :: "inode \<Rightarrow> inode" where
  "IN_MARKDIRTY rip = rip\<lparr>i_dirty := True\<rparr>"

definition fs_print :: "string \<Rightarrow> parg list \<Rightarrow> 'w mfs \<Rightarrow> 'w mfs" where
  "fs_print fmt args fs = fs\<lparr>fs_console := printf fmt args (fs_console fs)\<rparr>"

text \<open>The zone array of an inode.\<close>

definition izone :: "inode \<Rightarrow> nat \<Rightarrow> zone_t" where
  "izone rip k = get32 (4 * k) (i_zone rip)"

definition set_izone :: "nat \<Rightarrow> zone_t \<Rightarrow> inode \<Rightarrow> inode" where
  "set_izone k z rip = rip\<lparr>i_zone := put32 (4 * k) z (i_zone rip)\<rparr>"

definition rounddown :: "nat \<Rightarrow> nat \<Rightarrow> nat" where
  "rounddown p m = p div m * m"

lemma izone_set_izone:
  assumes "4 * k + 4 \<le> length (i_zone rip)"
  shows "izone (set_izone k z rip) j = (if j = k then z else izone rip j)"
proof (cases "j = k")
  case False
  then have "4 * j + 4 \<le> 4 * k \<or> 4 * k + 4 \<le> 4 * j" by arith
  then show ?thesis using False by (simp add: izone_def set_izone_def get32_put32_other)
qed (use assms in \<open>simp add: izone_def set_izone_def\<close>)

lemma set_izone_same: "4 * k + 4 \<le> length (i_zone rip) \<Longrightarrow> izone rip k = z \<Longrightarrow> set_izone k z rip = rip"
  by (simp add: set_izone_def izone_def put32_get32_same)

lemma set_izone_sel [simp]:
  "length (i_zone (set_izone k z rip)) = length (i_zone rip)" "i_mode (set_izone k z rip) = i_mode rip"
  "i_size (set_izone k z rip) = i_size rip" "i_dev (set_izone k z rip) = i_dev rip" "i_num (set_izone k z rip) = i_num rip"
  "i_ndzones (set_izone k z rip) = i_ndzones rip" "i_nindirs (set_izone k z rip) = i_nindirs rip"
  by (simp_all add: set_izone_def)

section \<open>Properties of the helpers\<close>

lemma sdiv_nonneg: "0 \<le> (a::int) \<Longrightarrow> 0 < b \<Longrightarrow> a sdiv b = a div b"
  by (simp add: signed_divide_int_def sgn_if)

text \<open>
  \<^verbatim>\<open>bitmapsize\<close> is the least number of blocks whose bits are enough: \<open>n\<close> blocks hold all the bits and one
  block less would not.\<close>

theorem bitmapsize_least:
  assumes "0 \<le> nr_bits" and "0 < bits_per_block"
  shows "nr_bits \<le> bitmapsize nr_bits bits_per_block * bits_per_block
    \<and> (\<forall>n. nr_bits \<le> n * bits_per_block \<longrightarrow> bitmapsize nr_bits bits_per_block \<le> n)"
proof -
  let ?q = "nr_bits div bits_per_block"
  have md: "?q * bits_per_block + nr_bits mod bits_per_block = nr_bits" "0 \<le> nr_bits mod bits_per_block" "nr_bits mod bits_per_block < bits_per_block"
    using assms(2) by simp_all
  then have qm: "?q * bits_per_block \<le> nr_bits" "nr_bits < (?q + 1) * bits_per_block" unfolding distrib_right by linarith+
  have b: "bitmapsize nr_bits bits_per_block = (if ?q * bits_per_block < nr_bits then ?q + 1 else ?q)"
    using assms by (simp add: bitmapsize_def Let_def sdiv_nonneg)
  have least: "?q \<le> n" "?q * bits_per_block < nr_bits \<longrightarrow> ?q + 1 \<le> n" if "nr_bits \<le> n * bits_per_block" for n
  proof -
    have "?q * bits_per_block \<le> n * bits_per_block" using qm(1) that by linarith
    then show "?q \<le> n" using assms(2) by (simp add: mult_le_cancel_right)
    show "?q * bits_per_block < nr_bits \<longrightarrow> ?q + 1 \<le> n"
    proof
      assume "?q * bits_per_block < nr_bits"
      then have "?q * bits_per_block < n * bits_per_block" using that by linarith
      then show "?q + 1 \<le> n" using assms(2) by (simp add: mult_less_cancel_right)
    qed
  qed
  show ?thesis using b qm least by auto
qed

theorem bitmapsize_least_witness: "100 \<le> bitmapsize 100 32 * 32 \<and> bitmapsize 100 32 \<le> 4"
proof -
  have L: "100 \<le> bitmapsize 100 32 * 32 \<and> (\<forall>n. 100 \<le> n * 32 \<longrightarrow> bitmapsize 100 32 \<le> n)" by (rule bitmapsize_least) simp_all
  then have "(100::int) \<le> 4 * 32 \<longrightarrow> bitmapsize 100 32 \<le> 4" by blast
  then show ?thesis using L by simp
qed


end
