(* ===== verification/MFS_Map.thy ===== *)
theory MFS_Map
  imports MFS_Base
begin

text \<open>
  From file positions to disk blocks: \<^verbatim>\<open>read_map\<close>, \<^verbatim>\<open>rd_indir\<close> and \<^verbatim>\<open>get_block_map\<close> of
  \<^verbatim>\<open>src/Lab-10/mfs/read.c\<close>, and all of \<^verbatim>\<open>src/Lab-10/mfs/write.c\<close>.

  An operation takes the inode it gets a pointer to and returns it changed. \<^const>\<open>None\<close> is a panic, a
  failed assertion, or an access outside a buffer. Zone and block numbers are unsigned 32-bit
  values; file positions are natural numbers.
\<close>

section \<open>Operations\<close>

definition rd_indir :: "'w mfs_env \<Rightarrow> buf \<Rightarrow> nat \<Rightarrow> 'w mfs \<Rightarrow> zone_t option" where
  "rd_indir e bp ix fs =
     (let sp = superblock fs; data = b_data bp fs in
      if \<not> s_version_V3 sp \<or> \<not> 4 * ix + 4 \<le> length data then None
      else (let zone = conv4 e (s_native sp) (get32 (4 * ix) data) in
            if zone \<noteq> NO_ZONE \<and> (zone < s_firstdatazone sp \<or> s_zones sp \<le> zone) then None else Some zone))"

definition wr_indir :: "'w mfs_env \<Rightarrow> buf \<Rightarrow> nat \<Rightarrow> zone_t \<Rightarrow> 'w mfs \<Rightarrow> 'w mfs option" where
  "wr_indir e bp ix zone fs =
     (let sp = superblock fs; data = b_data bp fs in
      if \<not> s_version_V3 sp \<or> \<not> 4 * ix + 4 \<le> length data then None
      else Some (set_data bp (put32 (4 * ix) (conv4 e (s_native sp) zone) data) fs))"

definition empty_indir :: "'w mfs_env \<Rightarrow> buf \<Rightarrow> 'w mfs \<Rightarrow> bool" where
  "empty_indir e bp fs \<longleftrightarrow>
     list_all (\<lambda>i. get32 (4 * i) (b_data bp fs) = NO_ZONE) [0..<V2_INDIRECTS e (s_block_size (superblock fs))]"

definition zero_block :: "buf \<Rightarrow> 'w mfs \<Rightarrow> 'w mfs" where
  "zero_block bp fs = MARKDIRTY bp (set_data bp (replicate (length (b_data bp fs)) 0) fs)"

definition clear_zone :: "'w mfs \<Rightarrow> unit option" where
  "clear_zone fs = (if s_log_zone_size (superblock fs) = 0 then Some () else None)"

text \<open>The last step of a lookup: through the single indirect block in zone \<open>z\<close>.\<close>

definition read_single :: "'w mfs_env \<Rightarrow> inode \<Rightarrow> zone_t \<Rightarrow> nat \<Rightarrow> nat \<Rightarrow> bmode \<Rightarrow> 'w mfs \<Rightarrow> (block_t \<times> 'w mfs) option" where
  "read_single e rip z excess boff iomode fs =
     (let scale = s_log_zone_size (superblock fs) in
      if z = NO_ZONE then Some (NO_BLOCK, fs)
      else (let (bp, fs1) = get_block e (i_dev rip) (push_bit scale z) iomode fs in
            if iomode = PREFETCH \<and> lmfs_dev bp = NO_DEV then Some (NO_BLOCK, put_block e bp INDIRECT_BLOCK fs1)
            else do { z1 \<leftarrow> rd_indir e bp excess fs1;
                      let fs2 = put_block e bp INDIRECT_BLOCK fs1;
                      Some (if z1 = NO_ZONE then NO_BLOCK else push_bit scale z1 + of_nat boff, fs2) }))"

definition read_map :: "'w mfs_env \<Rightarrow> inode \<Rightarrow> nat \<Rightarrow> bool \<Rightarrow> 'w mfs \<Rightarrow> (block_t \<times> 'w mfs) option" where
  "read_map e rip position opportunistic fs =
     (let iomode = (if opportunistic then PREFETCH else NORMAL);
          scale = s_log_zone_size (superblock fs);
          block_pos = position div s_block_size (superblock fs);
          zone = drop_bit scale block_pos;
          boff = block_pos - push_bit scale zone;
          dzones = i_ndzones rip;
          nr_indirects = i_nindirs rip
      in if zone < dzones
         then Some (if izone rip zone = NO_ZONE then NO_BLOCK else push_bit scale (izone rip zone) + of_nat boff, fs)
         else if zone - dzones < nr_indirects
         then read_single e rip (izone rip dzones) (zone - dzones) boff iomode fs
         else (let z = izone rip (dzones + 1); excess = zone - dzones - nr_indirects; ix = excess div nr_indirects in
               if z = NO_ZONE then Some (NO_BLOCK, fs)
               else if ix > nr_indirects then Some (NO_BLOCK, fs)
               else (let (bp, fs1) = get_block e (i_dev rip) (push_bit scale z) iomode fs in
                     if opportunistic \<and> lmfs_dev bp = NO_DEV then Some (NO_BLOCK, put_block e bp INDIRECT_BLOCK fs1)
                     else do { z1 \<leftarrow> rd_indir e bp ix fs1;
                               read_single e rip z1 (excess mod nr_indirects) boff iomode (put_block e bp INDIRECT_BLOCK fs1) })))"

definition get_block_map :: "'w mfs_env \<Rightarrow> inode \<Rightarrow> nat \<Rightarrow> 'w mfs \<Rightarrow> (buf option \<times> 'w mfs) option" where
  "get_block_map e rip position fs =
     do { (b, fs1) \<leftarrow> read_map e rip position False fs;
          if b = NO_BLOCK then Some (None, fs1)
          else if i_num rip = VMC_NO_INODE e then None
          else (let (bp, fs2) = lmfs_get_block_ino e (i_dev rip) b NORMAL (i_num rip)
                                  (rounddown position (get_block_size e (i_dev rip))) fs1
                in Some (Some bp, fs2)) }"

subsection \<open>write\_map\<close>

text \<open>
  The parts of \<^verbatim>\<open>write_map\<close> that follow the direct zones. \<open>wm_double\<close> finds or creates the double
  indirect block and reads the single indirect zone from it: a result, or the changed inode, the
  double indirect buffer and the zone.
\<close>

datatype ('r, 'c) outcome = Return 'r | Continue 'c

definition wm_double :: "'w mfs_env \<Rightarrow> bool \<Rightarrow> nat \<Rightarrow> inode \<Rightarrow> 'w mfs
    \<Rightarrow> (ret \<times> inode \<times> 'w mfs, inode \<times> buf option \<times> zone_t \<times> 'w mfs) outcome option" where
  "wm_double e wfree excess rip fs =
     (let scale = s_log_zone_size (superblock fs); zones = i_ndzones rip; nr_indirects = i_nindirs rip;
          z0 = izone rip (zones + 1);
          new_dbl = (z0 = NO_ZONE \<and> \<not> wfree);
          (z, fs1) = (if new_dbl then alloc_zone e (i_dev rip) (izone rip 0) fs else (z0, fs))
      in if new_dbl \<and> z = NO_ZONE then Some (Return (err_code fs1, rip, fs1))
         else
           (let rip1 = (if new_dbl then set_izone (zones + 1) z rip else rip);
                ind_ex = (excess - nr_indirects) div nr_indirects
            in if ind_ex \<ge> nr_indirects then Some (Return (Err EFBIG, rip1, fs1))
               else if z = NO_ZONE \<and> wfree then Some (Continue (rip1, None, NO_ZONE, fs1))
               else
                 (let (bp, fs2) = get_block e (i_dev rip1) (push_bit scale z) (if new_dbl then NO_READ else NORMAL) fs1;
                      fs3 = (if new_dbl then zero_block bp fs2 else fs2)
                  in do { z1 \<leftarrow> rd_indir e bp ind_ex fs3; Some (Continue (rip1, Some bp, z1, fs3)) })))"

text \<open>Creating the single indirect block when it is missing and we are not freeing.\<close>

definition wm_create :: "'w mfs_env \<Rightarrow> bool \<Rightarrow> nat \<Rightarrow> inode \<Rightarrow> buf option \<Rightarrow> 'w mfs
    \<Rightarrow> (ret \<times> inode \<times> 'w mfs, inode \<times> zone_t \<times> 'w mfs) outcome option" where
  "wm_create e single ind_ex rip dbl fs =
     (let (z1, fs1) = alloc_zone e (i_dev rip) (izone rip 0) fs;
          rip1 = (if single then set_izone (i_ndzones rip) z1 rip else rip)
      in do { fs2 \<leftarrow> (if single then Some fs1 else case dbl of Some bp \<Rightarrow> wr_indir e bp ind_ex z1 fs1 | None \<Rightarrow> None);
              let fs3 = (case dbl of Some bp \<Rightarrow> MARKDIRTY bp fs2 | None \<Rightarrow> fs2);
              if z1 = NO_ZONE
              then (let fs4 = (case dbl of Some bp \<Rightarrow> put_block e bp INDIRECT_BLOCK fs3 | None \<Rightarrow> fs3)
                    in Some (Return (err_code fs4, rip1, fs4)))
              else Some (Continue (rip1, z1, fs3)) })"

text \<open>Entering or freeing the zone in the single indirect block; the zone is \<^const>\<open>NO_ZONE\<close> when it was freed.\<close>

definition wm_enter :: "'w mfs_env \<Rightarrow> bool \<Rightarrow> bool \<Rightarrow> bool \<Rightarrow> nat \<Rightarrow> nat \<Rightarrow> zone_t \<Rightarrow> zone_t \<Rightarrow> inode \<Rightarrow> buf option \<Rightarrow> 'w mfs
    \<Rightarrow> (zone_t \<times> inode \<times> 'w mfs) option" where
  "wm_enter e wfree single new_ind ind_ex ex z1 new_zone rip dbl fs =
     (let (bp, fs1) = get_block e (i_dev rip) (push_bit (s_log_zone_size (superblock fs)) z1) (if new_ind then NO_READ else NORMAL) fs;
          fs2 = (if new_ind then zero_block bp fs1 else fs1)
      in do { (z1', rip1, fs3) \<leftarrow>
                (if wfree
                 then do { old_zone \<leftarrow> rd_indir e bp ex fs2;
                           fsa \<leftarrow> (if old_zone \<noteq> NO_ZONE then wr_indir e bp ex NO_ZONE (free_zone e (i_dev rip) old_zone fs2) else Some fs2);
                           if empty_indir e bp fsa
                           then (let fsb = free_zone e (i_dev rip) z1 fsa in
                                 if single then Some (NO_ZONE, set_izone (i_ndzones rip) NO_ZONE rip, fsb)
                                 else (case dbl of
                                         Some bd \<Rightarrow> do { fsc \<leftarrow> wr_indir e bd ind_ex NO_ZONE fsb; Some (NO_ZONE, rip, MARKDIRTY bd fsc) }
                                       | None \<Rightarrow> None))
                           else Some (z1, rip, fsa) }
                 else do { fsa \<leftarrow> wr_indir e bp ex new_zone fs2; Some (z1, rip, fsa) });
              let fs4 = (if z1' = NO_ZONE then MARKCLEAN bp fs3 else MARKDIRTY bp fs3);
              Some (z1', rip1, put_block e bp INDIRECT_BLOCK fs4) })"

text \<open>Releasing the double indirect block, and its zone when nothing is left in it.\<close>

definition wm_finish :: "'w mfs_env \<Rightarrow> bool \<Rightarrow> zone_t \<Rightarrow> zone_t \<Rightarrow> inode \<Rightarrow> buf option \<Rightarrow> 'w mfs \<Rightarrow> ret \<times> inode \<times> 'w mfs" where
  "wm_finish e single z1 z2 rip dbl fs =
     (case dbl of
        None \<Rightarrow> (OK, rip, fs)
      | Some bd \<Rightarrow>
          (let drop = (z1 = NO_ZONE \<and> \<not> single \<and> z2 \<noteq> NO_ZONE \<and> empty_indir e bd fs);
               fs1 = (if drop then free_zone e (i_dev rip) z2 (MARKCLEAN bd fs) else fs);
               rip1 = (if drop then set_izone (i_ndzones rip + 1) NO_ZONE rip else rip)
           in (OK, rip1, put_block e bd INDIRECT_BLOCK fs1)))"

text \<open>The steps from the single indirect zone \<open>z1\<close> on.\<close>

definition wm_single :: "'w mfs_env \<Rightarrow> bool \<Rightarrow> bool \<Rightarrow> nat \<Rightarrow> nat \<Rightarrow> zone_t \<Rightarrow> zone_t \<Rightarrow> inode \<Rightarrow> buf option \<Rightarrow> zone_t \<Rightarrow> 'w mfs
    \<Rightarrow> (ret \<times> inode \<times> 'w mfs) option" where
  "wm_single e wfree single ind_ex ex new_zone z2 rip dbl z1 fs =
     do { o2 \<leftarrow> (if z1 = NO_ZONE \<and> \<not> wfree then wm_create e single ind_ex rip dbl fs else Some (Continue (rip, z1, fs)));
          case o2 of
            Return out \<Rightarrow> Some out
          | Continue (rip1, z1', fs1) \<Rightarrow>
              do { (z1'', rip2, fs2) \<leftarrow>
                     (if z1' \<noteq> NO_ZONE
                      then wm_enter e wfree single (z1 = NO_ZONE \<and> \<not> wfree) ind_ex ex z1' new_zone rip1 dbl fs1
                      else Some (z1', rip1, fs1));
                   Some (wm_finish e single z1'' z2 rip2 dbl fs2) } }"

definition write_map :: "'w mfs_env \<Rightarrow> inode \<Rightarrow> nat \<Rightarrow> zone_t \<Rightarrow> bool \<Rightarrow> 'w mfs \<Rightarrow> (ret \<times> inode \<times> 'w mfs) option" where
  "write_map e rip0 position new_zone wfree fs =
     (if i_mode rip0 AND I_TYPE = I_IMMEDIATE then Some (Ret (uint NO_BLOCK), rip0, fs)
      else
        (let rip = IN_MARKDIRTY rip0;
             scale = s_log_zone_size (superblock fs);
             zone = drop_bit scale (position div s_block_size (superblock fs));
             zones = i_ndzones rip; nr_indirects = i_nindirs rip
         in if zone < zones
            then (if izone rip zone \<noteq> NO_ZONE \<and> wfree
                  then Some (OK, set_izone zone NO_ZONE rip, free_zone e (i_dev rip) (izone rip zone) fs)
                  else Some (OK, set_izone zone new_zone rip, fs))
            else
              (let excess = zone - zones in
               if excess < nr_indirects
               then wm_single e wfree True 0 excess new_zone NO_ZONE rip None (izone rip zones) fs
               else do { o1 \<leftarrow> wm_double e wfree excess rip fs;
                         case o1 of
                           Return out \<Rightarrow> Some out
                         | Continue (rip1, dbl, z1, fs1) \<Rightarrow>
                             wm_single e wfree False ((excess - nr_indirects) div nr_indirects) ((excess - nr_indirects) mod nr_indirects)
                               new_zone (izone rip (zones + 1)) rip1 dbl z1 fs1 })))"

text \<open>
  Allocating the block at a position; no buffer when the disk is full or the file too large, with
  the reason in \<^verbatim>\<open>err_code\<close>.
\<close>

definition new_block :: "'w mfs_env \<Rightarrow> inode \<Rightarrow> nat \<Rightarrow> 'w mfs \<Rightarrow> (buf option \<times> inode \<times> 'w mfs) option" where
  "new_block e rip position fs =
     (let sp = superblock fs;
          fill = (\<lambda>b rip fs. let (bp, fs1) = lmfs_get_block_ino e (i_dev rip) b NO_READ (i_num rip)
                                              (rounddown position (s_block_size sp)) fs
                             in Some (Some bp, rip, zero_block bp fs1))
      in do { (b, fs1) \<leftarrow> read_map e rip position False fs;
              if b \<noteq> NO_BLOCK then fill b rip fs1
              else
                (let z0 = (if i_zsearch rip = NO_ZONE
                           then (if izone rip 0 = NO_ZONE then s_firstdatazone sp else izone rip 0)
                           else i_zsearch rip);
                     (z, fs2) = alloc_zone e (i_dev rip) z0 fs1
                 in if z = NO_ZONE then Some (None, rip, fs2)
                    else do { (r, rip1, fs3) \<leftarrow> write_map e (rip\<lparr>i_zsearch := z\<rparr>) position z False fs2;
                              if r \<noteq> OK then Some (None, rip1, (free_zone e (i_dev rip1) z fs3)\<lparr>err_code := r\<rparr>)
                              else do { _ \<leftarrow> (if position \<noteq> i_size rip1 then clear_zone fs3 else Some ());
                                        let scale = s_log_zone_size sp;
                                        let zone_size = push_bit scale (s_block_size sp);
                                        fill (push_bit scale z + of_nat ((position mod zone_size) div s_block_size sp)) rip1 fs3 } }) })"

section \<open>What the map relies on\<close>

text \<open>
  \<open>U\<close> gives the zones the allocator regards as in use. Getting a block reads it, or, with
  \<^const>\<open>NO_READ\<close>, gives a buffer with arbitrary contents of the same length; releasing a buffer changes
  no contents; a zone that is allocated was not in use and lies in the data area; byte order
  conversion is an involution that keeps 0.
\<close>

definition same :: "('w \<Rightarrow> zone_t set) \<Rightarrow> 'w mfs \<Rightarrow> 'w mfs \<Rightarrow> bool" where
  "same U s t \<longleftrightarrow> superblock s = superblock t \<and> blocks s = blocks t \<and> inodes s = inodes t
     \<and> fs_console s = fs_console t \<and> U (fs_world s) = U (fs_world t)"

definition legal :: "'w mfs \<Rightarrow> zone_t \<Rightarrow> bool" where
  "legal fs z \<longleftrightarrow> z \<noteq> NO_ZONE \<and> s_firstdatazone (superblock fs) \<le> z \<and> z < s_zones (superblock fs)"

definition fills :: "('w \<Rightarrow> zone_t set) \<Rightarrow> dev_t \<Rightarrow> block_t \<Rightarrow> bmode \<Rightarrow> 'w mfs \<Rightarrow> buf \<times> 'w mfs \<Rightarrow> bool" where
  "fills U dev b m fs out \<longleftrightarrow> b_key (fst out) = (dev, b) \<and>
     (if m = NO_READ then \<exists>d. length d = length (blocks fs (dev, b)) \<and> same U (snd out) (fs\<lparr>blocks := (blocks fs)((dev, b) := d)\<rparr>)
      else same U (snd out) fs)"

definition mfs_laws :: "'w mfs_env \<Rightarrow> ('w \<Rightarrow> zone_t set) \<Rightarrow> bool" where
  "mfs_laws e U \<longleftrightarrow>
     (\<forall>dev b m fs. m \<noteq> PREFETCH \<longrightarrow> fills U dev b m fs (get_block e dev b m fs))
   \<and> (\<forall>dev b m i off fs. m \<noteq> PREFETCH \<longrightarrow> fills U dev b m fs (lmfs_get_block_ino e dev b m i off fs))
   \<and> (\<forall>bp t fs. same U (put_block e bp t fs) fs \<and> err_code (put_block e bp t fs) = err_code fs)
   \<and> (\<forall>dev z0 fs z t. alloc_zone e dev z0 fs = (z, t) \<longrightarrow>
        superblock t = superblock fs \<and> blocks t = blocks fs \<and> inodes t = inodes fs \<and> fs_console t = fs_console fs
      \<and> (if z = NO_ZONE then U (fs_world t) = U (fs_world fs) \<and> err_code t \<noteq> OK
         else legal fs z \<and> z \<notin> U (fs_world fs) \<and> U (fs_world t) = insert z (U (fs_world fs))))
   \<and> (\<forall>dev z fs. superblock (free_zone e dev z fs) = superblock fs \<and> blocks (free_zone e dev z fs) = blocks fs
        \<and> inodes (free_zone e dev z fs) = inodes fs \<and> U (fs_world (free_zone e dev z fs)) = U (fs_world fs) - {z})
   \<and> (\<forall>n x. conv4 e n (conv4 e n x) = x) \<and> (\<forall>n. conv4 e n 0 = 0)"

lemma same_refl [simp]: "same U s s"
  by (simp add: same_def)

lemma same_trans [trans]: "same U s t \<Longrightarrow> same U t u \<Longrightarrow> same U s u"
  by (simp add: same_def)

lemma same_sel: "same U s t \<Longrightarrow> superblock s = superblock t" "same U s t \<Longrightarrow> blocks s = blocks t"
  "same U s t \<Longrightarrow> U (fs_world s) = U (fs_world t)"
  by (simp_all add: same_def)

lemma get_block_fills: "mfs_laws e U \<Longrightarrow> m \<noteq> PREFETCH \<Longrightarrow> fills U dev b m fs (get_block e dev b m fs)"
  by (simp add: mfs_laws_def)

lemma get_block_ino_fills: "mfs_laws e U \<Longrightarrow> m \<noteq> PREFETCH \<Longrightarrow> fills U dev b m fs (lmfs_get_block_ino e dev b m i off fs)"
  by (simp add: mfs_laws_def)

lemma get_block_normal:
  assumes "mfs_laws e U" and "get_block e dev b NORMAL fs = (bp, t)"
  shows "b_key bp = (dev, b)" and "same U t fs"
proof -
  have "fills U dev b NORMAL fs (get_block e dev b NORMAL fs)" by (rule get_block_fills [OF assms(1)]) simp
  then show "b_key bp = (dev, b)" "same U t fs" using assms(2) by (simp_all add: fills_def)
qed

lemma get_block_zeroed:
  assumes "mfs_laws e U" and "get_block e dev b NO_READ fs = (bp, t)"
  shows "b_key bp = (dev, b)"
    and "same U (zero_block bp t) (fs\<lparr>blocks := (blocks fs)((dev, b) := replicate (length (blocks fs (dev, b))) 0)\<rparr>)"
proof -
  have "fills U dev b NO_READ fs (get_block e dev b NO_READ fs)" by (rule get_block_fills [OF assms(1)]) simp
  then show key: "b_key bp = (dev, b)"
    and "same U (zero_block bp t) (fs\<lparr>blocks := (blocks fs)((dev, b) := replicate (length (blocks fs (dev, b))) 0)\<rparr>)"
    using assms(2) by (auto simp: fills_def same_def zero_block_def MARKDIRTY_def set_data_def b_data_def)
qed

lemma put_block_same: "mfs_laws e U \<Longrightarrow> same U (put_block e bp t fs) fs"
  "mfs_laws e U \<Longrightarrow> err_code (put_block e bp t fs) = err_code fs"
  by (simp_all add: mfs_laws_def)

lemma alloc_zone_laws:
  assumes "mfs_laws e U" and "alloc_zone e dev z0 fs = (z, t)"
  shows "superblock t = superblock fs" "blocks t = blocks fs" "inodes t = inodes fs" "fs_console t = fs_console fs"
    "z = NO_ZONE \<Longrightarrow> U (fs_world t) = U (fs_world fs) \<and> err_code t \<noteq> OK"
    "z \<noteq> NO_ZONE \<Longrightarrow> legal fs z \<and> z \<notin> U (fs_world fs) \<and> U (fs_world t) = insert z (U (fs_world fs))"
proof -
  have "\<forall>dev z0 fs z t. alloc_zone e dev z0 fs = (z, t) \<longrightarrow>
        superblock t = superblock fs \<and> blocks t = blocks fs \<and> inodes t = inodes fs \<and> fs_console t = fs_console fs
      \<and> (if z = NO_ZONE then U (fs_world t) = U (fs_world fs) \<and> err_code t \<noteq> OK
         else legal fs z \<and> z \<notin> U (fs_world fs) \<and> U (fs_world t) = insert z (U (fs_world fs)))"
    using assms(1) unfolding mfs_laws_def by (elim conjE)
  from this [rule_format, OF assms(2)]
  show "superblock t = superblock fs" "blocks t = blocks fs" "inodes t = inodes fs" "fs_console t = fs_console fs"
    "z = NO_ZONE \<Longrightarrow> U (fs_world t) = U (fs_world fs) \<and> err_code t \<noteq> OK"
    "z \<noteq> NO_ZONE \<Longrightarrow> legal fs z \<and> z \<notin> U (fs_world fs) \<and> U (fs_world t) = insert z (U (fs_world fs))" by simp_all
qed

lemma conv4_laws: "mfs_laws e U \<Longrightarrow> conv4 e n (conv4 e n x) = x" "mfs_laws e U \<Longrightarrow> conv4 e n 0 = 0"
  by (simp_all add: mfs_laws_def)

section \<open>The block map of a file\<close>

text \<open>
  \<open>ind\<close> is entry \<open>k\<close> of the indirect block in zone \<open>z\<close>. The indirect blocks of a file are numbered: 0 is
  the single one, 1 the double one, \<open>k + 2\<close> the one the double refers to in entry \<open>k\<close>; \<open>iz\<close> gives their
  zones. \<open>bmap\<close> is the zone that holds relative zone \<open>n\<close> of the file.
\<close>

definition ind :: "'w mfs_env \<Rightarrow> inode \<Rightarrow> 'w mfs \<Rightarrow> zone_t \<Rightarrow> nat \<Rightarrow> zone_t" where
  "ind e rip fs z k = conv4 e (s_native (superblock fs)) (get32 (4 * k) (blocks fs (i_dev rip, z)))"

definition iz :: "'w mfs_env \<Rightarrow> inode \<Rightarrow> 'w mfs \<Rightarrow> nat \<Rightarrow> zone_t" where
  "iz e rip fs i =
     (let z2 = izone rip (i_ndzones rip + 1) in
      if i = 0 then izone rip (i_ndzones rip) else if i = 1 then z2
      else if z2 = NO_ZONE then NO_ZONE else ind e rip fs z2 (i - 2))"

definition place :: "inode \<Rightarrow> nat \<Rightarrow> nat \<times> nat" where
  "place rip n =
     (let x = n - i_ndzones rip; m = i_nindirs rip in
      if x < m then (0, x) else ((x - m) div m + 2, (x - m) mod m))"

definition bmap :: "'w mfs_env \<Rightarrow> inode \<Rightarrow> 'w mfs \<Rightarrow> nat \<Rightarrow> zone_t" where
  "bmap e rip fs n =
     (if n < i_ndzones rip then izone rip n
      else case place rip n of (i, k) \<Rightarrow> if iz e rip fs i = NO_ZONE then NO_ZONE else ind e rip fs (iz e rip fs i) k)"

definition max_zones :: "inode \<Rightarrow> nat" where
  "max_zones rip = i_ndzones rip + i_nindirs rip + i_nindirs rip * i_nindirs rip"

text \<open>
  A well-formed map: zones and blocks coincide, indirect blocks are full of 32-bit entries, the
  indirect zones are legal, in use and pairwise different, and all their entries are free or legal.
\<close>

definition map_ok :: "'w mfs_env \<Rightarrow> ('w \<Rightarrow> zone_t set) \<Rightarrow> inode \<Rightarrow> 'w mfs \<Rightarrow> bool" where
  "map_ok e U rip fs \<longleftrightarrow>
     s_log_zone_size (superblock fs) = 0 \<and> s_version_V3 (superblock fs) \<and> 0 < i_nindirs rip
   \<and> 4 * (i_ndzones rip + 2) \<le> length (i_zone rip) \<and> 0 < i_ndzones rip
   \<and> (\<forall>b. length (blocks fs (i_dev rip, b)) = 4 * i_nindirs rip)
   \<and> s_block_size (superblock fs) = 4 * i_nindirs rip
   \<and> (\<forall>i<i_nindirs rip + 2. iz e rip fs i \<noteq> NO_ZONE \<longrightarrow> iz e rip fs i \<in> U (fs_world fs) \<and> legal fs (iz e rip fs i))
   \<and> (\<forall>i<i_nindirs rip + 2. \<forall>j<i_nindirs rip + 2. iz e rip fs i = iz e rip fs j \<longrightarrow> iz e rip fs i \<noteq> NO_ZONE \<longrightarrow> i = j)
   \<and> (\<forall>i<i_nindirs rip + 2. iz e rip fs i \<noteq> NO_ZONE \<longrightarrow>
        (\<forall>k<i_nindirs rip. ind e rip fs (iz e rip fs i) k = NO_ZONE \<or> legal fs (ind e rip fs (iz e rip fs i) k)))"

lemma place_bounds:
  assumes "i_ndzones rip \<le> n" and "n < max_zones rip" and "place rip n = (i, k)"
  shows "i < i_nindirs rip + 2" "k < i_nindirs rip" "i \<noteq> 1"
proof -
  let ?m = "i_nindirs rip" and ?x = "n - i_ndzones rip"
  have m: "0 < ?m" using assms(1,2) by (cases "?m = 0") (simp_all add: max_zones_def)
  have "(?x - ?m) div ?m < ?m" if "\<not> ?x < ?m"
    using assms(1,2) that m by (intro less_mult_imp_div_less) (auto simp: max_zones_def)
  then show "i < ?m + 2" "k < ?m" "i \<noteq> 1" using assms(3) m by (auto simp: place_def Let_def split: if_splits)
qed

lemma place_inj:
  assumes "i_ndzones rip \<le> n" "i_ndzones rip \<le> n'" "place rip n = place rip n'"
  shows "n = n'"
proof -
  let ?m = "i_nindirs rip" and ?x = "n - i_ndzones rip" and ?y = "n' - i_ndzones rip"
  have "?x = ?y"
  proof (cases "?x < ?m")
    case True
    then show ?thesis using assms(3) by (auto simp: place_def Let_def split: if_splits)
  next
    case False
    then have "\<not> ?y < ?m" "(?x - ?m) div ?m = (?y - ?m) div ?m" "(?x - ?m) mod ?m = (?y - ?m) mod ?m"
      using assms(3) by (auto simp: place_def Let_def split: if_splits)
    then have "?x - ?m = ?y - ?m" by (metis div_mult_mod_eq)
    then show ?thesis using False \<open>\<not> ?y < ?m\<close> by linarith
  qed
  then show ?thesis using assms(1,2) by linarith
qed

lemma state_view:
  assumes "superblock s = superblock t" "blocks s = blocks t"
  shows "ind e rip s = ind e rip t" "iz e rip s = iz e rip t" "bmap e rip s = bmap e rip t" "legal s = legal t"
proof -
  show i: "ind e rip s = ind e rip t" using assms by (simp add: ind_def fun_eq_iff)
  show z: "iz e rip s = iz e rip t" unfolding iz_def i ..
  show "bmap e rip s = bmap e rip t" unfolding bmap_def i z ..
  show "legal s = legal t" using assms by (simp add: legal_def fun_eq_iff)
qed

lemma same_view:
  assumes "same U s t"
  shows "ind e rip s = ind e rip t" "iz e rip s = iz e rip t" "bmap e rip s = bmap e rip t" "map_ok e U rip s = map_ok e U rip t"
    "legal s = legal t"
proof -
  note v = state_view [OF same_sel(1,2) [OF assms]]
  show "ind e rip s = ind e rip t" "iz e rip s = iz e rip t" "bmap e rip s = bmap e rip t" "legal s = legal t" by (rule v)+
  show "map_ok e U rip s = map_ok e U rip t" unfolding map_ok_def v using same_sel [OF assms] by simp
qed

lemma map_ok_sel:
  assumes "map_ok e U rip fs"
  shows "s_log_zone_size (superblock fs) = 0" "s_version_V3 (superblock fs)" "0 < i_nindirs rip"
    "4 * (i_ndzones rip + 2) \<le> length (i_zone rip)" "0 < i_ndzones rip"
    "length (blocks fs (i_dev rip, b)) = 4 * i_nindirs rip" "s_block_size (superblock fs) = 4 * i_nindirs rip"
  using assms by (simp_all add: map_ok_def)

lemma map_ok_iz:
  assumes "map_ok e U rip fs" "i < i_nindirs rip + 2" "iz e rip fs i \<noteq> NO_ZONE"
  shows "iz e rip fs i \<in> U (fs_world fs)" "legal fs (iz e rip fs i)"
    "k < i_nindirs rip \<Longrightarrow> ind e rip fs (iz e rip fs i) k = NO_ZONE \<or> legal fs (ind e rip fs (iz e rip fs i) k)"
    "j < i_nindirs rip + 2 \<Longrightarrow> iz e rip fs i = iz e rip fs j \<Longrightarrow> i = j"
proof -
  have "\<forall>i<i_nindirs rip + 2. iz e rip fs i \<noteq> NO_ZONE \<longrightarrow> iz e rip fs i \<in> U (fs_world fs) \<and> legal fs (iz e rip fs i)"
   and "\<forall>i<i_nindirs rip + 2. \<forall>j<i_nindirs rip + 2. iz e rip fs i = iz e rip fs j \<longrightarrow> iz e rip fs i \<noteq> NO_ZONE \<longrightarrow> i = j"
   and "\<forall>i<i_nindirs rip + 2. iz e rip fs i \<noteq> NO_ZONE \<longrightarrow>
        (\<forall>k<i_nindirs rip. ind e rip fs (iz e rip fs i) k = NO_ZONE \<or> legal fs (ind e rip fs (iz e rip fs i) k))"
    using assms(1) unfolding map_ok_def by - (elim conjE, assumption)+
  then show "iz e rip fs i \<in> U (fs_world fs)" "legal fs (iz e rip fs i)"
    "k < i_nindirs rip \<Longrightarrow> ind e rip fs (iz e rip fs i) k = NO_ZONE \<or> legal fs (ind e rip fs (iz e rip fs i) k)"
    "j < i_nindirs rip + 2 \<Longrightarrow> iz e rip fs i = iz e rip fs j \<Longrightarrow> i = j"
    using assms(2,3) by simp_all
qed

lemma iz_simps:
  "iz e rip fs 0 = izone rip (i_ndzones rip)" "iz e rip fs 1 = izone rip (i_ndzones rip + 1)"
  "iz e rip fs (Suc 0) = izone rip (i_ndzones rip + 1)"
  "iz e rip fs (k + 2) = (if iz e rip fs 1 = NO_ZONE then NO_ZONE else ind e rip fs (iz e rip fs 1) k)"
  "iz e rip fs (Suc (Suc k)) = (if iz e rip fs 1 = NO_ZONE then NO_ZONE else ind e rip fs (iz e rip fs 1) k)"
  by (simp_all add: iz_def)

section \<open>Lookup\<close>

lemma rd_indir_ind:
  assumes ok: "map_ok e U rip fs" and i: "i < i_nindirs rip + 2" "iz e rip fs i \<noteq> NO_ZONE" and k: "k < i_nindirs rip"
    and bp: "b_key bp = (i_dev rip, iz e rip fs i)" and t: "same U t fs"
  shows "rd_indir e bp k t = Some (ind e rip fs (iz e rip fs i) k)"
proof -
  have l: "length (blocks fs (i_dev rip, iz e rip fs i)) = 4 * i_nindirs rip" "s_version_V3 (superblock fs)"
    using map_ok_sel [OF ok] by simp_all
  have "ind e rip fs (iz e rip fs i) k = NO_ZONE \<or> legal fs (ind e rip fs (iz e rip fs i) k)"
    using map_ok_iz(3) [OF ok i k] .
  then show ?thesis using l k bp same_sel [OF t]
    by (auto simp: rd_indir_def b_data_def ind_def legal_def Let_def)
qed

lemma read_single_spec:
  assumes laws: "mfs_laws e U" and ok: "map_ok e U rip fs" and i: "i < i_nindirs rip + 2" and k: "k < i_nindirs rip"
    and t: "same U t fs"
  shows "\<exists>t'. read_single e rip (iz e rip fs i) k 0 NORMAL t
      = Some (if iz e rip fs i = NO_ZONE then NO_ZONE else ind e rip fs (iz e rip fs i) k, t') \<and> same U t' fs"
proof (cases "iz e rip fs i = NO_ZONE")
  case True
  then show ?thesis using t by (simp add: read_single_def NO_BLOCK_def NO_ZONE_def)
next
  case False
  have sc: "s_log_zone_size (superblock t) = 0" using map_ok_sel(1) [OF ok] same_sel(1) [OF t] by simp
  obtain bp t1 where g: "get_block e (i_dev rip) (iz e rip fs i) NORMAL t = (bp, t1)" by force
  have t1: "same U t1 fs" using get_block_normal(2) [OF laws g] t by (rule same_trans)
  have "rd_indir e bp k t1 = Some (ind e rip fs (iz e rip fs i) k)"
    using rd_indir_ind [OF ok i False k get_block_normal(1) [OF laws g] t1] .
  then show ?thesis
    using False g sc same_trans [OF put_block_same(1) [OF laws] t1] by (simp add: read_single_def NO_BLOCK_def NO_ZONE_def)
qed

lemma read_map_place:
  assumes laws: "mfs_laws e U" and ok: "map_ok e U rip fs" and n: "position div s_block_size (superblock fs) < max_zones rip"
  shows "\<exists>t. read_map e rip position False fs = Some (bmap e rip fs (position div s_block_size (superblock fs)), t) \<and> same U t fs"
proof -
  define n where "n = position div s_block_size (superblock fs)"
  let ?m = "i_nindirs rip" and ?x = "n - i_ndzones rip"
  have sc: "s_log_zone_size (superblock fs) = 0" using map_ok_sel(1) [OF ok] .
  show ?thesis
  proof (cases "n < i_ndzones rip")
    case True
    then show ?thesis
      using sc by (simp add: read_map_def bmap_def Let_def n_def NO_BLOCK_def NO_ZONE_def)
  next
    case False
    obtain i k where pl: "place rip n = (i, k)" by force
    note b = place_bounds [OF _ n [folded n_def] pl]
    have i: "i < ?m + 2" and k: "k < ?m" using b False by simp_all
    have bm: "bmap e rip fs n = (if iz e rip fs i = NO_ZONE then NO_ZONE else ind e rip fs (iz e rip fs i) k)"
      using False pl by (simp add: bmap_def)
    show ?thesis
    proof (cases "?x < ?m")
      case True
      then have "i = 0" "k = ?x" using pl by (simp_all add: place_def Let_def)
      then show ?thesis
        using read_single_spec [OF laws ok i k same_refl] False True sc bm
        by (simp add: read_map_def n_def [symmetric] Let_def iz_simps)
    next
      case single: False
      have ik: "i = (?x - ?m) div ?m + 2" "k = (?x - ?m) mod ?m" using pl single by (simp_all add: place_def Let_def)
      have d: "(?x - ?m) div ?m < ?m" using i ik by simp
      show ?thesis
      proof (cases "iz e rip fs 1 = NO_ZONE")
        case True
        then have "izone rip (Suc (i_ndzones rip)) = NO_ZONE" by (simp add: iz_simps)
        moreover have "bmap e rip fs n = NO_ZONE" using True bm ik by (simp add: iz_simps)
        ultimately show ?thesis
          using False single sc by (simp add: read_map_def n_def [symmetric] Let_def NO_BLOCK_def NO_ZONE_def)
      next
        case nz: False
        let ?z = "iz e rip fs 1"
        obtain bp t1 where g: "get_block e (i_dev rip) ?z NORMAL fs = (bp, t1)" by force
        note g' = get_block_normal [OF laws g]
        have "rd_indir e bp ((?x - ?m) div ?m) t1 = Some (ind e rip fs ?z ((?x - ?m) div ?m))"
          using rd_indir_ind [OF ok _ nz d g'(1,2)] by simp
        moreover have "ind e rip fs ?z ((?x - ?m) div ?m) = iz e rip fs i" using ik nz by (simp add: iz_simps)
        moreover have "same U (put_block e bp INDIRECT_BLOCK t1) fs" using put_block_same(1) [OF laws] g'(2) by (rule same_trans)
        note read_single_spec [OF laws ok i k this]
        ultimately show ?thesis
          using False single sc bm nz g ik(2) d
          by (simp add: read_map_def n_def [symmetric] Let_def iz_simps)
      qed
    qed
  qed
qed


section \<open>Growing the map\<close>

text \<open>
  What a call that adds a zone leaves alone: the geometry, the zones in use, and the contents of
  every block in use that is not an indirect block of the file. New indirect blocks come from zones
  that were not in use.
\<close>

definition grows :: "'w mfs_env \<Rightarrow> ('w \<Rightarrow> zone_t set) \<Rightarrow> inode \<Rightarrow> 'w mfs \<Rightarrow> inode \<Rightarrow> 'w mfs \<Rightarrow> bool" where
  "grows e U rip fs rip' fs' \<longleftrightarrow>
     map_ok e U rip' fs' \<and> superblock fs' = superblock fs \<and> i_dev rip' = i_dev rip
   \<and> i_ndzones rip' = i_ndzones rip \<and> i_nindirs rip' = i_nindirs rip \<and> U (fs_world fs) \<subseteq> U (fs_world fs')
   \<and> (\<forall>i<i_nindirs rip + 2. iz e rip' fs' i = iz e rip fs i \<or> iz e rip' fs' i \<notin> U (fs_world fs))
   \<and> (\<forall>d b. d \<noteq> i_dev rip \<or> b \<in> U (fs_world fs) \<and> (\<forall>i<i_nindirs rip + 2. iz e rip fs i \<noteq> b) \<longrightarrow> blocks fs' (d, b) = blocks fs (d, b))"

lemma grows_sel:
  assumes "grows e U rip fs rip' fs'"
  shows "map_ok e U rip' fs'" "superblock fs' = superblock fs" "i_dev rip' = i_dev rip" "i_ndzones rip' = i_ndzones rip"
    "i_nindirs rip' = i_nindirs rip" "U (fs_world fs) \<subseteq> U (fs_world fs')"
    "i < i_nindirs rip + 2 \<Longrightarrow> iz e rip' fs' i = iz e rip fs i \<or> iz e rip' fs' i \<notin> U (fs_world fs)"
    "d \<noteq> i_dev rip \<Longrightarrow> blocks fs' (d, b) = blocks fs (d, b)"
    "b \<in> U (fs_world fs) \<Longrightarrow> (\<forall>i<i_nindirs rip + 2. iz e rip fs i \<noteq> b) \<Longrightarrow> blocks fs' (d, b) = blocks fs (d, b)"
  using assms by (simp_all add: grows_def)

lemma grows_refl: "map_ok e U rip fs \<Longrightarrow> grows e U rip fs rip fs"
  by (simp add: grows_def)

lemma grows_trans [trans]:
  assumes a: "grows e U r1 f1 r2 f2" and b: "grows e U r2 f2 r3 f3"
  shows "grows e U r1 f1 r3 f3"
proof -
  note A = grows_sel [OF a] and B = grows_sel [OF b]
  have iz: "iz e r3 f3 i = iz e r1 f1 i \<or> iz e r3 f3 i \<notin> U (fs_world f1)" if "i < i_nindirs r1 + 2" for i
    using A(5,6) A(7) [OF that] B(7) [of i] that by auto
  have "blocks f3 (d, c) = blocks f1 (d, c)"
    if "d \<noteq> i_dev r1 \<or> c \<in> U (fs_world f1) \<and> (\<forall>i<i_nindirs r1 + 2. iz e r1 f1 i \<noteq> c)" for d c
    using that
  proof
    assume "d \<noteq> i_dev r1"
    then show ?thesis using A(3) A(8) [of d c] B(8) [of d c] by simp
  next
    assume c: "c \<in> U (fs_world f1) \<and> (\<forall>i<i_nindirs r1 + 2. iz e r1 f1 i \<noteq> c)"
    then have "\<forall>i<i_nindirs r2 + 2. iz e r2 f2 i \<noteq> c" using A(5,7) by metis
    then show ?thesis using c A(6) A(9) [of c d] B(9) [of c d] by auto
  qed
  then show ?thesis using A(2-6) B(1-6) iz by (simp add: grows_def subset_trans [OF A(6)])
qed

lemma grows_same:
  assumes "grows e U rip fs rip' t" and "same U t' t"
  shows "grows e U rip fs rip' t'"
  using assms same_view [OF assms(2)] same_sel [OF assms(2)] by (simp add: grows_def)

text \<open>Linking an empty indirect block in a fresh zone \<open>z\<close> as number \<open>i\<close>.\<close>

lemma attach:
  assumes ok: "map_ok e U rip fs" and dim: "i_dev rip' = i_dev rip" "i_ndzones rip' = i_ndzones rip" "i_nindirs rip' = i_nindirs rip"
      "length (i_zone rip') = length (i_zone rip)" "superblock fs' = superblock fs"
    and direct: "\<forall>n<i_ndzones rip. izone rip' n = izone rip n"
    and new: "iz e rip fs i = NO_ZONE" "iz e rip' fs' i = z" "\<forall>j<i_nindirs rip + 2. j \<noteq> i \<longrightarrow> iz e rip' fs' j = iz e rip fs j"
    and z: "legal fs z" "z \<notin> U (fs_world fs)" "U (fs_world fs') = insert z (U (fs_world fs))"
      "\<forall>k<i_nindirs rip. ind e rip' fs' z k = NO_ZONE"
    and frame: "\<forall>d b. d \<noteq> i_dev rip \<or> b \<noteq> z \<and> b \<noteq> iz e rip fs 1 \<longrightarrow> blocks fs' (d, b) = blocks fs (d, b)"
      "\<forall>b. length (blocks fs' (i_dev rip, b)) = 4 * i_nindirs rip"
      "\<forall>k<i_nindirs rip. iz e rip fs 1 \<noteq> NO_ZONE \<longrightarrow> ind e rip' fs' (iz e rip fs 1) k = NO_ZONE \<or> legal fs (ind e rip' fs' (iz e rip fs 1) k)"
  shows "grows e U rip fs rip' fs'" "\<forall>n<max_zones rip. bmap e rip' fs' n = bmap e rip fs n"
proof -
  let ?m = "i_nindirs rip"
  note sel = map_ok_sel [OF ok]
  have leg: "legal fs' = legal fs" using dim(5) by (simp add: legal_def fun_eq_iff)
  have znz: "z \<noteq> NO_ZONE" using z(1) by (simp add: legal_def)
  have old: "ind e rip' fs' (iz e rip fs j) k = ind e rip fs (iz e rip fs j) k"
    if j: "j < ?m + 2" "iz e rip fs j \<noteq> NO_ZONE" "j \<noteq> 1" for j k
  proof -
    have "iz e rip fs j \<noteq> z" using map_ok_iz(1) [OF ok j(1,2)] z(2) by metis
    moreover have "iz e rip fs j \<noteq> iz e rip fs 1" using map_ok_iz(4) [OF ok j(1,2), of 1] j(3) by auto
    ultimately show ?thesis using frame(1) dim by (simp add: ind_def)
  qed
  have cases: "j = i \<and> iz e rip' fs' j = z \<or> j \<noteq> i \<and> iz e rip' fs' j = iz e rip fs j" if "j < ?m + 2" for j
    using new that by blast
  have U: "\<forall>j<?m + 2. iz e rip' fs' j \<noteq> NO_ZONE \<longrightarrow> iz e rip' fs' j \<in> U (fs_world fs') \<and> legal fs' (iz e rip' fs' j)"
  proof (intro allI impI)
    fix j assume j: "j < ?m + 2" "iz e rip' fs' j \<noteq> NO_ZONE"
    show "iz e rip' fs' j \<in> U (fs_world fs') \<and> legal fs' (iz e rip' fs' j)"
      using cases [OF j(1)] j(2) z(1) map_ok_iz(1,2) [OF ok j(1)] unfolding leg z(3) by (elim disjE conjE) simp_all
  qed
  have inj: "\<forall>j<?m + 2. \<forall>l<?m + 2. iz e rip' fs' j = iz e rip' fs' l \<longrightarrow> iz e rip' fs' j \<noteq> NO_ZONE \<longrightarrow> j = l"
  proof (intro allI impI)
    fix j l assume j: "j < ?m + 2" and l: "l < ?m + 2" and eq: "iz e rip' fs' j = iz e rip' fs' l" and nz: "iz e rip' fs' j \<noteq> NO_ZONE"
    show "j = l"
      using cases [OF j] cases [OF l] eq nz z(2) map_ok_iz(1) [OF ok j] map_ok_iz(4) [OF ok j _ l] map_ok_iz(1) [OF ok l]
      by (elim disjE conjE) simp_all
  qed
  have ent: "\<forall>j<?m + 2. iz e rip' fs' j \<noteq> NO_ZONE \<longrightarrow>
      (\<forall>k<?m. ind e rip' fs' (iz e rip' fs' j) k = NO_ZONE \<or> legal fs' (ind e rip' fs' (iz e rip' fs' j) k))"
  proof (intro allI impI)
    fix j k assume j: "j < ?m + 2" "iz e rip' fs' j \<noteq> NO_ZONE" and k: "k < ?m"
    show "ind e rip' fs' (iz e rip' fs' j) k = NO_ZONE \<or> legal fs' (ind e rip' fs' (iz e rip' fs' j) k)"
    proof (cases "j = i")
      case True
      then show ?thesis using new(2) z(4) k by simp
    next
      case False
      then have eq: "iz e rip' fs' j = iz e rip fs j" using new(3) j(1) by simp
      show ?thesis
        using old [OF j(1), of k] map_ok_iz(3) [OF ok j(1) _ k] frame(3) [rule_format, OF k] j(2) unfolding leg eq by (cases "j = 1") simp_all
    qed
  qed
  have "map_ok e U rip' fs'" unfolding map_ok_def dim using sel frame(2) U inj ent by simp
  moreover have "blocks fs' (d, b) = blocks fs (d, b)"
    if "d \<noteq> i_dev rip \<or> b \<in> U (fs_world fs) \<and> (\<forall>i<?m + 2. iz e rip fs i \<noteq> b)" for d b
    using that
  proof
    assume b: "b \<in> U (fs_world fs) \<and> (\<forall>i<?m + 2. iz e rip fs i \<noteq> b)"
    then have "iz e rip fs 1 \<noteq> b" "b \<noteq> z" using z(2) by auto
    then show ?thesis using frame(1) by auto
  qed (use frame(1) in simp)
  moreover have "iz e rip' fs' j = iz e rip fs j \<or> iz e rip' fs' j \<notin> U (fs_world fs)" if "j < ?m + 2" for j
    using cases [OF that] z(2) by auto
  ultimately show "grows e U rip fs rip' fs'" using dim z(3) by (auto simp: grows_def)
  show "\<forall>n<max_zones rip. bmap e rip' fs' n = bmap e rip fs n"
  proof (intro allI impI)
    fix n assume n: "n < max_zones rip"
    show "bmap e rip' fs' n = bmap e rip fs n"
    proof (cases "n < i_ndzones rip")
      case True
      then show ?thesis using direct dim by (simp add: bmap_def)
    next
      case False
      obtain j k where pl: "place rip n = (j, k)" by force
      note b = place_bounds [OF _ n pl]
      have pl': "place rip' n = (j, k)" using pl dim by (simp add: place_def)
      show ?thesis
        using False pl pl' dim(2) b cases [of j] old [of j k] new(1) z(4) znz by (auto simp: bmap_def)
    qed
  qed
qed

text \<open>Entering zone \<open>z\<close> as entry \<open>k\<close> of indirect block \<open>i\<close>.\<close>

lemma enter:
  assumes laws: "mfs_laws e U" and ok: "map_ok e U rip fs" and n: "n < max_zones rip" "i_ndzones rip \<le> n"
    and pl: "place rip n = (i, k)" and nz: "iz e rip fs i \<noteq> NO_ZONE" and z: "z = NO_ZONE \<or> legal fs z"
    and t: "same U t (fs\<lparr>blocks := (blocks fs)((i_dev rip, iz e rip fs i) :=
              put32 (4 * k) (conv4 e (s_native (superblock fs)) z) (blocks fs (i_dev rip, iz e rip fs i)))\<rparr>)"
  shows "grows e U rip fs rip t" "\<forall>j<max_zones rip. bmap e rip t j = (if j = n then z else bmap e rip fs j)"
proof -
  let ?m = "i_nindirs rip" and ?z = "iz e rip fs i"
  note sel = map_ok_sel [OF ok] and b = place_bounds [OF n(2,1) pl]
  have T: "superblock t = superblock fs" "U (fs_world t) = U (fs_world fs)"
    "blocks t = (blocks fs)((i_dev rip, ?z) := put32 (4 * k) (conv4 e (s_native (superblock fs)) z) (blocks fs (i_dev rip, ?z)))"
    using same_sel [OF t] by simp_all
  have leg: "legal t = legal fs" using T(1) by (simp add: legal_def fun_eq_iff)
  have ind: "ind e rip t y l = (if y = ?z \<and> l = k then z else ind e rip fs y l)" for y l
  proof -
    have "4 * l + 4 \<le> 4 * k \<or> 4 * k + 4 \<le> 4 * l" if "l \<noteq> k" using that by arith
    then show ?thesis using T b(2) sel(6) conv4_laws(1) [OF laws] by (auto simp: ind_def get32_put32_other)
  qed
  have neq: "iz e rip fs 1 \<noteq> ?z" using map_ok_iz(4) [OF ok b(1) nz, of 1] b(3) by auto
  have "ind e rip t (izone rip (i_ndzones rip + 1)) = ind e rip fs (izone rip (i_ndzones rip + 1))"
    using neq by (simp add: fun_eq_iff ind iz_simps)
  then have izt: "iz e rip t j = iz e rip fs j" for j unfolding iz_def Let_def by simp
  have ent: "\<forall>j<?m + 2. iz e rip fs j \<noteq> NO_ZONE \<longrightarrow>
      (\<forall>l<?m. ind e rip t (iz e rip fs j) l = NO_ZONE \<or> legal fs (ind e rip t (iz e rip fs j) l))"
    using map_ok_iz(3) [OF ok] z unfolding ind by auto
  have "map_ok e U rip t"
    unfolding map_ok_def izt leg T(1,2) using sel ent map_ok_iz(1,2) [OF ok] map_ok_iz(4) [OF ok] T(3) by auto
  then show "grows e U rip fs rip t" using T izt b(1) by (auto simp: grows_def)
  show "\<forall>j<max_zones rip. bmap e rip t j = (if j = n then z else bmap e rip fs j)"
  proof (intro allI impI)
    fix j assume j: "j < max_zones rip"
    show "bmap e rip t j = (if j = n then z else bmap e rip fs j)"
    proof (cases "j < i_ndzones rip")
      case True
      then show ?thesis using n(2) by (simp add: bmap_def)
    next
      case False
      obtain i' k' where pl': "place rip j = (i', k')" by force
      have b': "i' < ?m + 2" using place_bounds(1) [OF _ j pl'] False by simp
      have same: "iz e rip fs i' = ?z \<Longrightarrow> i' = i" using map_ok_iz(4) [OF ok b(1) nz b'] by simp
      show ?thesis
        using False pl' pl nz n(2) same place_inj [of rip j n] by (auto simp: bmap_def izt ind)
    qed
  qed
qed


section \<open>write\_map\<close>

definition keeps :: "'w mfs_env \<Rightarrow> ('w \<Rightarrow> zone_t set) \<Rightarrow> inode \<Rightarrow> 'w mfs \<Rightarrow> inode \<Rightarrow> 'w mfs \<Rightarrow> bool" where
  "keeps e U rip fs rip' fs' \<longleftrightarrow>
     grows e U rip fs rip' fs' \<and> (\<forall>n<max_zones rip. bmap e rip' fs' n = bmap e rip fs n)"

lemma max_zones_cong: "i_ndzones r = i_ndzones s \<Longrightarrow> i_nindirs r = i_nindirs s \<Longrightarrow> max_zones r = max_zones s"
  by (simp add: max_zones_def)

lemma keeps_trans [trans]: "keeps e U r1 f1 r2 f2 \<Longrightarrow> keeps e U r2 f2 r3 f3 \<Longrightarrow> keeps e U r1 f1 r3 f3"
  unfolding keeps_def using grows_trans max_zones_cong grows_sel(4,5) by metis

lemma keeps_same: "map_ok e U rip fs \<Longrightarrow> same U t fs \<Longrightarrow> keeps e U rip fs rip t"
  using grows_same [OF grows_refl] same_view(3) by (metis keeps_def)

lemma keeps_ok: "keeps e U rip fs rip' t \<Longrightarrow> map_ok e U rip' t"
  by (auto simp: keeps_def dest: grows_sel(1))

abbreviation zeroed :: "inode \<Rightarrow> zone_t \<Rightarrow> 'w mfs \<Rightarrow> 'w mfs" where
  "zeroed rip z fs \<equiv> fs\<lparr>blocks := (blocks fs)((i_dev rip, z) := replicate (length (blocks fs (i_dev rip, z))) 0)\<rparr>"

lemma ind_zeroed:
  assumes "mfs_laws e U" and "map_ok e U rip fs" and "blocks t (i_dev rip, z) = replicate (4 * i_nindirs rip) 0"
    and "i_dev rip' = i_dev rip" and "k < i_nindirs rip"
  shows "ind e rip' t z k = NO_ZONE"
  using assms(3-5) conv4_laws(2) [OF assms(1)] by (simp add: ind_def NO_ZONE_def)

lemma same_unfold:
  "same U t (fs\<lparr>blocks := B\<rparr>) \<Longrightarrow> superblock t = superblock fs \<and> blocks t = B \<and> U (fs_world t) = U (fs_world fs)"
  by (simp add: same_def)

lemma alloc_failed:
  assumes laws: "mfs_laws e U" and ok: "map_ok e U rip fs" and al: "alloc_zone e d z0 fs = (NO_ZONE, t)"
  shows "same U t fs" "err_code t \<noteq> OK"
  using alloc_zone_laws [OF laws al] by (simp_all add: same_def)

lemma wm_double_spec:
  assumes laws: "mfs_laws e U" and ok: "map_ok e U rip fs" and d: "(excess - i_nindirs rip) div i_nindirs rip = d" "d < i_nindirs rip"
  shows "(\<exists>r t. wm_double e False excess rip fs = Some (Return (r, rip, t)) \<and> r \<noteq> OK \<and> keeps e U rip fs rip t) \<or>
    (\<exists>rip' bp t. wm_double e False excess rip fs = Some (Continue (rip', Some bp, iz e rip' t (d + 2), t))
       \<and> b_key bp = (i_dev rip, iz e rip' t 1) \<and> iz e rip' t 1 \<noteq> NO_ZONE \<and> keeps e U rip fs rip' t)"
proof (cases "iz e rip fs 1 = NO_ZONE")
  case False
  have sc: "s_log_zone_size (superblock fs) = 0" using map_ok_sel(1) [OF ok] .
  obtain bp t where g: "get_block e (i_dev rip) (iz e rip fs 1) NORMAL fs = (bp, t)" by force
  note g' = get_block_normal [OF laws g]
  have iz: "iz e rip t = iz e rip fs" using same_view(2) [OF g'(2)] .
  have "rd_indir e bp d t = Some (ind e rip fs (iz e rip fs 1) d)" using rd_indir_ind [OF ok _ False d(2) g'] by simp
  then have rd: "rd_indir e bp d t = Some (iz e rip t (d + 2))" unfolding iz iz_simps(4) using False by simp
  define z where "z = izone rip (i_ndzones rip + 1)"
  have z: "iz e rip fs 1 = z" by (simp add: z_def iz_simps)
  have "wm_double e False excess rip fs = Some (Continue (rip, Some bp, iz e rip t (d + 2), t))"
    using rd g False d unfolding z by (simp add: wm_double_def Let_def sc z_def [symmetric, simplified])
  moreover have "keeps e U rip fs rip t" using keeps_same [OF ok g'(2)] .
  moreover have "b_key bp = (i_dev rip, iz e rip t 1)" "iz e rip t 1 \<noteq> NO_ZONE" unfolding iz using g'(1) False by simp_all
  ultimately show ?thesis by blast
next
  case nz: True
  note sel = map_ok_sel [OF ok]
  obtain z t1 where al: "alloc_zone e (i_dev rip) (izone rip 0) fs = (z, t1)" by force
  have z0: "izone rip (Suc (i_ndzones rip)) = NO_ZONE" using nz by (simp add: iz_simps)
  show ?thesis
  proof (cases "z = NO_ZONE")
    case True
    note f = alloc_failed [OF laws ok al [unfolded True]]
    have "wm_double e False excess rip fs = Some (Return (err_code t1, rip, t1))"
      using True al z0 by (simp add: wm_double_def Let_def)
    then show ?thesis using f keeps_same [OF ok f(1)] by blast
  next
    case False
    note A = alloc_zone_laws [OF laws al]
    define rip' where "rip' = set_izone (i_ndzones rip + 1) z rip"
    obtain bp t2 where g: "get_block e (i_dev rip) z NO_READ t1 = (bp, t2)" by force
    define t3 where "t3 = zero_block bp t2"
    have T: "superblock t3 = superblock fs" "U (fs_world t3) = insert z (U (fs_world fs))"
      "blocks t3 = (blocks fs)((i_dev rip, z) := replicate (4 * i_nindirs rip) 0)"
      using same_unfold [OF get_block_zeroed(2) [OF laws g]] A False sel(6) by (simp_all add: t3_def)
    have dim: "i_dev rip' = i_dev rip" "i_ndzones rip' = i_ndzones rip" "i_nindirs rip' = i_nindirs rip"
      "length (i_zone rip') = length (i_zone rip)" by (simp_all add: rip'_def)
    have zn: "izone rip' n = (if n = Suc (i_ndzones rip) then z else izone rip n)" for n
      using sel(4) by (simp add: rip'_def izone_set_izone)
    have zz: "\<forall>k<i_nindirs rip. ind e rip' t3 z k = NO_ZONE" using ind_zeroed [OF laws ok _ dim(1)] T(3) by simp
    have rest: "iz e rip' t3 j = iz e rip fs j" if j: "j < i_nindirs rip + 2" "j \<noteq> 1" for j
    proof (cases j)
      case (Suc l)
      then obtain k where "j = Suc (Suc k)" "k < i_nindirs rip" using j by (cases l) auto
      then show ?thesis using zz dim(2) zn z0 by (simp add: iz_simps)
    qed (use dim(2) zn in \<open>simp add: iz_simps\<close>)
    have "grows e U rip fs rip' t3" "\<forall>n<max_zones rip. bmap e rip' t3 n = bmap e rip fs n"
      by (rule attach [OF ok dim T(1) _ nz _ _ _ _ T(2) zz]; use A(6) False zn dim(2) rest sel(6) T(3) z0 in \<open>simp add: iz_simps\<close>)+
    then have k: "keeps e U rip fs rip' t3" by (simp add: keeps_def)
    have one: "iz e rip' t3 1 = z" using zn dim(2) by (simp add: iz_simps)
    have "rd_indir e bp d t3 = Some (ind e rip' t3 (iz e rip' t3 1) d)"
    proof (rule rd_indir_ind [OF keeps_ok [OF k] _ _ _ _ same_refl])
      show "b_key bp = (i_dev rip', iz e rip' t3 1)" unfolding one dim by (rule get_block_zeroed(1) [OF laws g])
    qed (use one False d(2) dim(3) in simp_all)
    then have rd: "rd_indir e bp d t3 = Some (iz e rip' t3 (d + 2))" unfolding iz_simps(4) one using False by simp
    have "wm_double e False excess rip fs = Some (Continue (rip', Some bp, iz e rip' t3 (d + 2), t3))"
      using False g sel(1) d al z0 A(1) rd by (simp add: wm_double_def Let_def rip'_def [symmetric, simplified] t3_def [symmetric] dim)
    moreover have "b_key bp = (i_dev rip, iz e rip' t3 1)" "iz e rip' t3 1 \<noteq> NO_ZONE"
      unfolding one using False get_block_zeroed(1) [OF laws g] by simp_all
    ultimately show ?thesis using k by blast
  qed
qed


text \<open>
  After \<open>wm_create\<close> the new single indirect block is linked but holds garbage; the map is in order
  again once the block is zeroed, the first thing \<open>wm_enter\<close> does.
\<close>

definition linked :: "'w mfs_env \<Rightarrow> ('w \<Rightarrow> zone_t set) \<Rightarrow> nat \<Rightarrow> inode \<Rightarrow> 'w mfs \<Rightarrow> inode \<Rightarrow> zone_t \<Rightarrow> 'w mfs \<Rightarrow> bool" where
  "linked e U i rip fs rip' z t \<longleftrightarrow>
     z \<noteq> NO_ZONE \<and> superblock t = superblock fs \<and> i_dev rip' = i_dev rip \<and>
     (\<forall>t'. same U t' (zeroed rip z t) \<longrightarrow> keeps e U rip fs rip' t' \<and> iz e rip' t' i = z)"

lemma wm_create_single:
  assumes laws: "mfs_laws e U" and ok: "map_ok e U rip fs" and nz: "iz e rip fs 0 = NO_ZONE"
  shows "(\<exists>r rip' t. wm_create e True d rip None fs = Some (Return (r, rip', t)) \<and> r \<noteq> OK \<and> keeps e U rip fs rip' t) \<or>
    (\<exists>rip' z t. wm_create e True d rip None fs = Some (Continue (rip', z, t)) \<and> linked e U 0 rip fs rip' z t)"
proof -
  note sel = map_ok_sel [OF ok]
  obtain z t where al: "alloc_zone e (i_dev rip) (izone rip 0) fs = (z, t)" by force
  have z0: "izone rip (i_ndzones rip) = NO_ZONE" using nz by (simp add: iz_simps)
  define rip' where "rip' = set_izone (i_ndzones rip) z rip"
  show ?thesis
  proof (cases "z = NO_ZONE")
    case True
    note f = alloc_failed [OF laws ok al [unfolded True]]
    have "rip' = rip" using set_izone_same [OF _ z0] sel(4) True by (simp add: rip'_def)
    then have "wm_create e True d rip None fs = Some (Return (err_code t, rip, t))"
      using True al by (simp add: wm_create_def rip'_def)
    then show ?thesis using f keeps_same [OF ok f(1)] by blast
  next
    case False
    note A = alloc_zone_laws [OF laws al]
    have dim: "i_dev rip' = i_dev rip" "i_ndzones rip' = i_ndzones rip" "i_nindirs rip' = i_nindirs rip"
      "length (i_zone rip') = length (i_zone rip)" by (simp_all add: rip'_def)
    have zn: "izone rip' n = (if n = i_ndzones rip then z else izone rip n)" for n
      using sel(4) by (simp add: rip'_def izone_set_izone)
    have "keeps e U rip fs rip' t' \<and> iz e rip' t' 0 = z" if t': "same U t' (zeroed rip z t)" for t'
    proof -
      have T: "superblock t' = superblock fs" "U (fs_world t') = insert z (U (fs_world fs))"
        "blocks t' = (blocks fs)((i_dev rip, z) := replicate (4 * i_nindirs rip) 0)"
        using same_unfold [OF t'] A False sel(6) by simp_all
      have zz: "\<forall>k<i_nindirs rip. ind e rip' t' z k = NO_ZONE" using ind_zeroed [OF laws ok _ dim(1)] T(3) by simp
      have dbl: "ind e rip' t' (iz e rip fs 1) k = ind e rip fs (iz e rip fs 1) k" if "iz e rip fs 1 \<noteq> NO_ZONE" for k
      proof -
        have "iz e rip fs 1 \<noteq> z" using map_ok_iz(1) [OF ok _ that] A(6) False by auto
        then show ?thesis using T dim by (simp add: ind_def)
      qed
      have rest: "iz e rip' t' j = iz e rip fs j" if "j < i_nindirs rip + 2" "j \<noteq> 0" for j
        using that dbl unfolding iz_def Let_def by (simp add: dim zn)
      have "grows e U rip fs rip' t'" "\<forall>n<max_zones rip. bmap e rip' t' n = bmap e rip fs n"
        by (rule attach [OF ok dim T(1) _ nz _ _ _ _ T(2) zz];
            use A(6) False zn dim(2) rest sel(6) T(3) z0 dbl map_ok_iz(3) [OF ok, of 1] in \<open>simp add: iz_simps\<close>)+
      then show ?thesis using zn dim(2) by (simp add: keeps_def iz_simps)
    qed
    then have "linked e U 0 rip fs rip' z t" using False dim(1) A(1) by (simp add: linked_def)
    moreover have "wm_create e True d rip None fs = Some (Continue (rip', z, t))"
      using False al by (simp add: wm_create_def rip'_def)
    ultimately show ?thesis by blast
  qed
qed

lemma wr_indir_eq:
  assumes "map_ok e U rip fs" and "superblock t = superblock fs" and "blocks t (b_key bp) = blocks fs (i_dev rip, z)" and "k < i_nindirs rip"
  shows "wr_indir e bp k x t = Some (t\<lparr>blocks := (blocks t)(b_key bp := put32 (4 * k) (conv4 e (s_native (superblock fs)) x) (blocks t (b_key bp)))\<rparr>)"
  using assms(2-4) map_ok_sel(2,6) [OF assms(1)] by (simp add: wr_indir_def set_data_def b_data_def Let_def)

lemma wm_create_double:
  assumes laws: "mfs_laws e U" and ok: "map_ok e U rip fs" and nz: "iz e rip fs (d + 2) = NO_ZONE" and d: "d < i_nindirs rip"
    and bd: "b_key bd = (i_dev rip, iz e rip fs 1)" and one: "iz e rip fs 1 \<noteq> NO_ZONE"
  shows "(\<exists>r rip' t. wm_create e False d rip (Some bd) fs = Some (Return (r, rip', t)) \<and> r \<noteq> OK \<and> keeps e U rip fs rip' t) \<or>
    (\<exists>z t. wm_create e False d rip (Some bd) fs = Some (Continue (rip, z, t)) \<and> linked e U (d + 2) rip fs rip z t)"
proof -
  note sel = map_ok_sel [OF ok]
  obtain z t where al: "alloc_zone e (i_dev rip) (izone rip 0) fs = (z, t)" by force
  note A = alloc_zone_laws [OF laws al]
  define n where "n = s_native (superblock fs)"
  define z2 where "z2 = iz e rip fs 1"
  let ?k2 = "(i_dev rip, z2)"
  have bd': "b_key bd = ?k2" using bd by (simp add: z2_def)
  define t1 where "t1 = MARKDIRTY bd (t\<lparr>blocks := (blocks fs)(?k2 := put32 (4 * d) (conv4 e n z) (blocks fs ?k2))\<rparr>)"
  have wr: "wr_indir e bd d z t = Some (t\<lparr>blocks := (blocks fs)(?k2 := put32 (4 * d) (conv4 e n z) (blocks fs ?k2))\<rparr>)"
    using wr_indir_eq [OF ok A(1) _ d, of bd z2 z] A(2) bd' n_def by simp
  have e0: "ind e rip fs z2 d = NO_ZONE" using nz one by (simp add: iz_simps z2_def)
  show ?thesis
  proof (cases "z = NO_ZONE")
    case True
    note f = alloc_failed [OF laws ok al [unfolded True]]
    have "get32 (4 * d) (blocks fs ?k2) = conv4 e n z"
      using conv4_laws(1) [OF laws, of n "get32 (4 * d) (blocks fs ?k2)"] e0 True by (simp add: ind_def n_def)
    then have "put32 (4 * d) (conv4 e n z) (blocks fs ?k2) = blocks fs ?k2" using d sel(6) by (simp add: put32_get32_same)
    then have t1: "same U t1 fs" using f(1) by (simp add: t1_def MARKDIRTY_def same_def)
    have "wm_create e False d rip (Some bd) fs = Some (Return (err_code (put_block e bd INDIRECT_BLOCK t1), rip, put_block e bd INDIRECT_BLOCK t1))"
      using True al wr by (simp add: wm_create_def t1_def Let_def)
    moreover have "err_code (put_block e bd INDIRECT_BLOCK t1) \<noteq> OK" using put_block_same(2) [OF laws] f(2) by (simp add: t1_def MARKDIRTY_def)
    moreover have "keeps e U rip fs rip (put_block e bd INDIRECT_BLOCK t1)"
      using keeps_same [OF ok same_trans [OF put_block_same(1) [OF laws] t1]] .
    ultimately show ?thesis by blast
  next
    case False
    have z: "legal fs z" "z \<notin> U (fs_world fs)" "z \<noteq> z2" using A(6) False map_ok_iz(1) [OF ok _ one] z2_def by auto
    have "keeps e U rip fs rip t' \<and> iz e rip t' (d + 2) = z" if t': "same U t' (zeroed rip z t1)" for t'
    proof -
      have T: "superblock t' = superblock fs" "U (fs_world t') = insert z (U (fs_world fs))"
        "blocks t' = (blocks fs)(?k2 := put32 (4 * d) (conv4 e n z) (blocks fs ?k2), (i_dev rip, z) := replicate (4 * i_nindirs rip) 0)"
        using same_unfold [OF t'] A False sel(6) z(3) by (simp_all add: t1_def MARKDIRTY_def)
      have zz: "\<forall>k<i_nindirs rip. ind e rip t' z k = NO_ZONE" using ind_zeroed [OF laws ok _ refl] T(3) by simp
      have dbl: "ind e rip t' z2 k = (if k = d then z else ind e rip fs z2 k)" for k
      proof -
        have "4 * k + 4 \<le> 4 * d \<or> 4 * d + 4 \<le> 4 * k" if "k \<noteq> d" using that by arith
        then show ?thesis using T z(3) d sel(6) conv4_laws(1) [OF laws] by (auto simp: ind_def n_def get32_put32_other)
      qed
      have izd: "iz e rip t' j = (if j = d + 2 then z else iz e rip fs j)" for j
      proof -
        have z2: "izone rip (i_ndzones rip + 1) = z2" and nz2: "z2 \<noteq> NO_ZONE" using one by (simp_all add: z2_def iz_simps)
        show ?thesis unfolding iz_def Let_def z2 dbl using nz2 by auto
      qed
      have ent: "\<forall>k<i_nindirs rip. iz e rip fs 1 \<noteq> NO_ZONE \<longrightarrow> ind e rip t' (iz e rip fs 1) k = NO_ZONE \<or> legal fs (ind e rip t' (iz e rip fs 1) k)"
        unfolding z2_def [symmetric] dbl using map_ok_iz(3) [OF ok _ one] z(1) by (simp add: z2_def)
      have "grows e U rip fs rip t'" "\<forall>n<max_zones rip. bmap e rip t' n = bmap e rip fs n"
        by (rule attach [OF ok refl refl refl refl T(1) _ nz _ _ z(1,2) T(2) zz _ _ ent];
            use izd sel(6) T(3) z2_def in simp)+
      then show ?thesis using izd by (simp add: keeps_def)
    qed
    then have "linked e U (d + 2) rip fs rip z t1" using False A(1) by (simp add: linked_def t1_def MARKDIRTY_def)
    moreover have "wm_create e False d rip (Some bd) fs = Some (Continue (rip, z, t1))"
      using False al wr by (simp add: wm_create_def t1_def)
    ultimately show ?thesis by blast
  qed
qed


text \<open>
  \<open>ready\<close> is the state \<open>wm_enter\<close> works on once it has the single indirect block, zeroed when it is
  new.
\<close>

lemma wm_enter_spec:
  assumes laws: "mfs_laws e U" and n: "n < max_zones rip" "i_ndzones rip \<le> n" "place rip n = (i, k)"
    and sc: "s_log_zone_size (superblock fs) = 0" and z1: "z1 \<noteq> NO_ZONE"
    and rdy: "\<And>t. same U t (if new then zeroed rip z1 fs else fs) \<Longrightarrow> map_ok e U rip t \<and> iz e rip t i = z1"
    and z: "legal fs z"
  shows "\<exists>t0 t. same U t0 (if new then zeroed rip z1 fs else fs) \<and> wm_enter e False single new d k z1 z rip dbl fs = Some (z1, rip, t)
    \<and> grows e U rip t0 rip t \<and> (\<forall>j<max_zones rip. bmap e rip t j = (if j = n then z else bmap e rip t0 j))"
proof -
  obtain bp t1 where g: "get_block e (i_dev rip) z1 (if new then NO_READ else NORMAL) fs = (bp, t1)" by force
  define t0 where "t0 = (if new then zero_block bp t1 else t1)"
  have t0: "b_key bp = (i_dev rip, z1) \<and> same U t0 (if new then zeroed rip z1 fs else fs)"
  proof (cases new)
    case True
    then show ?thesis using g get_block_zeroed [OF laws, of "i_dev rip" z1 fs bp t1] by (simp add: t0_def)
  next
    case False
    then show ?thesis using g get_block_normal [OF laws, of "i_dev rip" z1 fs bp t1] by (simp add: t0_def)
  qed
  note r = rdy [OF conjunct2 [OF t0]]
  have sb: "superblock t0 = superblock fs" using same_sel(1) [OF conjunct2 [OF t0]] by (simp split: if_splits)
  define t2 where "t2 = t0\<lparr>blocks := (blocks t0)((i_dev rip, z1) :=
      put32 (4 * k) (conv4 e (s_native (superblock t0)) z) (blocks t0 (i_dev rip, z1)))\<rparr>"
  have wr: "wr_indir e bp k z t0 = Some t2"
    using wr_indir_eq [OF conjunct1 [OF r] refl _ place_bounds(2) [OF n(2,1,3)], of bp z1 z] t0 by (simp add: t2_def)
  define t where "t = put_block e bp INDIRECT_BLOCK (MARKDIRTY bp t2)"
  have "same U t (MARKDIRTY bp t2)" unfolding t_def by (rule put_block_same(1) [OF laws])
  then have t: "same U t t2" by (simp add: same_def MARKDIRTY_def)
  have "wm_enter e False single new d k z1 z rip dbl fs = Some (z1, rip, t)"
    using g wr z1 sc by (simp add: wm_enter_def Let_def t0_def [symmetric] t_def)
  moreover have "grows e U rip t0 rip t" "\<forall>j<max_zones rip. bmap e rip t j = (if j = n then z else bmap e rip t0 j)"
    by (rule enter [OF laws conjunct1 [OF r] n]; use r z1 z sb t in \<open>simp add: t2_def legal_def\<close>)+
  ultimately show ?thesis using t0 by blast
qed

lemma dirty_sel [simp]:
  "i_zone (IN_MARKDIRTY rip) = i_zone rip" "i_mode (IN_MARKDIRTY rip) = i_mode rip" "i_size (IN_MARKDIRTY rip) = i_size rip"
  "i_dev (IN_MARKDIRTY rip) = i_dev rip" "i_num (IN_MARKDIRTY rip) = i_num rip" "i_ndzones (IN_MARKDIRTY rip) = i_ndzones rip"
  "i_nindirs (IN_MARKDIRTY rip) = i_nindirs rip" "i_zsearch (IN_MARKDIRTY rip) = i_zsearch rip"
  by (simp_all add: IN_MARKDIRTY_def)

lemma view_cong:
  assumes "i_zone r = i_zone s" "i_dev r = i_dev s" "i_ndzones r = i_ndzones s" "i_nindirs r = i_nindirs s"
  shows "izone r = izone s" "ind e r = ind e s" "iz e r = iz e s" "bmap e r = bmap e s" "map_ok e U r = map_ok e U s"
    "max_zones r = max_zones s" "place r = place s"
    "grows e U r = grows e U s" "keeps e U r = keeps e U s"
proof -
  show z: "izone r = izone s" using assms by (simp add: izone_def fun_eq_iff)
  show i: "ind e r = ind e s" using assms by (simp add: ind_def fun_eq_iff)
  show iz: "iz e r = iz e s" unfolding iz_def z i assms ..
  show p: "place r = place s" unfolding place_def assms ..
  show b: "bmap e r = bmap e s" unfolding bmap_def z i iz p assms ..
  show m: "map_ok e U r = map_ok e U s" unfolding map_ok_def i iz assms ..
  show x: "max_zones r = max_zones s" unfolding max_zones_def assms ..
  show g: "grows e U r = grows e U s" unfolding grows_def iz assms ..
  show "keeps e U r = keeps e U s" unfolding keeps_def g b x ..
qed

lemma direct_entry:
  assumes ok: "map_ok e U rip fs" and n: "n < i_ndzones rip"
  shows "grows e U rip fs (set_izone n z rip) fs"
    "\<forall>j<max_zones rip. bmap e (set_izone n z rip) fs j = (if j = n then z else bmap e rip fs j)"
proof -
  let ?r = "set_izone n z rip"
  have zn: "izone ?r j = (if j = n then z else izone rip j)" for j
    using n map_ok_sel(4) [OF ok] by (simp add: izone_set_izone)
  have i: "ind e ?r fs = ind e rip fs" by (simp add: ind_def fun_eq_iff)
  have iz: "iz e ?r fs = iz e rip fs" using n by (simp add: iz_def Let_def fun_eq_iff zn i)
  have p: "place ?r = place rip" by (simp add: place_def fun_eq_iff)
  have "map_ok e U ?r fs" using ok unfolding map_ok_def i iz by simp
  then show "grows e U rip fs ?r fs" by (simp add: grows_def iz)
  show "\<forall>j<max_zones rip. bmap e ?r fs j = (if j = n then z else bmap e rip fs j)"
    unfolding bmap_def p i iz using n by (simp add: zn)
qed

text \<open>The result of a call that enters a zone: it is entered, or the call failed and no entry changed.\<close>

definition entered :: "'w mfs_env \<Rightarrow> ('w \<Rightarrow> zone_t set) \<Rightarrow> inode \<Rightarrow> 'w mfs \<Rightarrow> nat \<Rightarrow> zone_t \<Rightarrow> (ret \<times> inode \<times> 'w mfs) option \<Rightarrow> bool" where
  "entered e U rip fs n z out \<longleftrightarrow>
     (\<exists>r rip' fs'. out = Some (r, rip', fs') \<and> grows e U rip fs rip' fs'
        \<and> (\<forall>j<max_zones rip. bmap e rip' fs' j = (if r = OK \<and> j = n then z else bmap e rip fs j)))"

lemma enteredI_keeps: "keeps e U rip fs rip' t \<Longrightarrow> r \<noteq> OK \<Longrightarrow> entered e U rip fs n z (Some (r, rip', t))"
  by (auto simp: entered_def keeps_def)

lemma enteredI_enter:
  assumes "keeps e U rip fs rip' t0" "grows e U rip' t0 rip' t1" "same U t t1"
    and "\<forall>j<max_zones rip'. bmap e rip' t1 j = (if j = n then z else bmap e rip' t0 j)"
  shows "entered e U rip fs n z (Some (OK, rip', t))"
proof -
  have "grows e U rip fs rip' t" using assms(1-3) grows_trans grows_same by (metis keeps_def)
  moreover have "max_zones rip' = max_zones rip" using assms(1) max_zones_cong grows_sel(4,5) by (metis keeps_def)
  ultimately show ?thesis using assms(1,4) same_view(3) [OF assms(3)] by (simp add: entered_def keeps_def)
qed


lemma wm_single_spec:
  assumes laws: "mfs_laws e U" and ok: "map_ok e U rip fs" and n: "n < max_zones rip" "i_ndzones rip \<le> n" "place rip n = (i, k)"
    and z: "legal fs z" and z1: "z1 = iz e rip fs i"
    and dbl: "single \<and> i = 0 \<and> dbl = None \<or>
      \<not> single \<and> i = d + 2 \<and> (\<exists>bd. dbl = Some bd \<and> b_key bd = (i_dev rip, iz e rip fs 1)) \<and> iz e rip fs 1 \<noteq> NO_ZONE"
  shows "entered e U rip fs n z (wm_single e False single d k z z2 rip dbl z1 fs)"
proof -
  have sc: "s_log_zone_size (superblock fs) = 0" using map_ok_sel(1) [OF ok] .
  have fin: "\<exists>t'. wm_finish e single y z2 r dbl t = (OK, r, t') \<and> same U t' t" if "y \<noteq> NO_ZONE" for y r t
    using that put_block_same(1) [OF laws] by (cases dbl) (simp_all add: wm_finish_def)
  have tail: "entered e U rip fs n z (case wm_enter e False single new d k y z r dbl f of None \<Rightarrow> None
        | Some (y', r', f') \<Rightarrow> Some (wm_finish e single y' z2 r' dbl f'))"
    if y: "y \<noteq> NO_ZONE" and r: "i_dev r = i_dev rip" "i_ndzones r = i_ndzones rip" "i_nindirs r = i_nindirs rip"
      and f: "superblock f = superblock fs"
      and rdy: "\<And>t. same U t (if new then zeroed rip y f else f) \<Longrightarrow> keeps e U rip fs r t \<and> iz e r t i = y" for y r f new
  proof -
    have R: "\<And>t. same U t (if new then zeroed r y f else f) \<Longrightarrow> keeps e U rip fs r t \<and> iz e r t i = y" using rdy unfolding r(1) .
    have mz: "max_zones r = max_zones rip" "place r = place rip" using r by (simp_all add: max_zones_def place_def fun_eq_iff)
    have "legal f z" using z f by (simp add: legal_def)
    then obtain t0 t where t: "same U t0 (if new then zeroed r y f else f)" "wm_enter e False single new d k y z r dbl f = Some (y, r, t)"
      "grows e U r t0 r t" "\<forall>j<max_zones r. bmap e r t j = (if j = n then z else bmap e r t0 j)"
      using wm_enter_spec [OF laws _ _ _ _ y, of n r i k f new z single d dbl] n mz r sc f R keeps_ok by fastforce
    obtain t' where t': "wm_finish e single y z2 r dbl t = (OK, r, t')" "same U t' t" using fin [OF y] by blast
    show ?thesis
      using enteredI_enter [OF conjunct1 [OF R [OF t(1)]] t(3) t'(2) t(4)] t(2) t'(1) by simp
  qed
  show ?thesis
  proof (cases "z1 = NO_ZONE")
    case False
    have "keeps e U rip fs rip t \<and> iz e rip t i = z1" if "same U t fs" for t
      using keeps_same [OF ok that] same_view(2) [OF that] z1 by simp
    then show ?thesis using False tail [of z1 rip fs False] by (simp add: wm_single_def bind_split split: option.splits prod.splits)
  next
    case True
    have "(\<exists>r rip' t. wm_create e single d rip dbl fs = Some (Return (r, rip', t)) \<and> r \<noteq> OK \<and> keeps e U rip fs rip' t) \<or>
      (\<exists>rip' y t. wm_create e single d rip dbl fs = Some (Continue (rip', y, t)) \<and> linked e U i rip fs rip' y t)"
      using dbl
    proof
      assume "single \<and> i = 0 \<and> dbl = None"
      then show ?thesis using wm_create_single [OF laws ok] True z1 by simp
    next
      assume "\<not> single \<and> i = d + 2 \<and> (\<exists>bd. dbl = Some bd \<and> b_key bd = (i_dev rip, iz e rip fs 1)) \<and> iz e rip fs 1 \<noteq> NO_ZONE"
      then obtain bd where bd: "\<not> single" "i = d + 2" "dbl = Some bd" "b_key bd = (i_dev rip, iz e rip fs 1)" "iz e rip fs 1 \<noteq> NO_ZONE"
        by blast
      have "d < i_nindirs rip" using place_bounds(1) [OF n(2,1,3)] bd(2) by simp
      then show ?thesis using wm_create_double [OF laws ok _ _ bd(4,5), of d] True z1 bd(1-3) by simp blast
    qed
    then show ?thesis
    proof (elim disjE exE conjE)
      fix r rip' t assume c: "wm_create e single d rip dbl fs = Some (Return (r, rip', t))" "r \<noteq> OK" "keeps e U rip fs rip' t"
      then show ?thesis using enteredI_keeps [OF c(3,2)] True by (simp add: wm_single_def)
    next
      fix rip' y t assume c: "wm_create e single d rip dbl fs = Some (Continue (rip', y, t))" and l: "linked e U i rip fs rip' y t"
      have L: "y \<noteq> NO_ZONE" "superblock t = superblock fs" "\<And>t'. same U t' (zeroed rip y t) \<Longrightarrow> keeps e U rip fs rip' t' \<and> iz e rip' t' i = y"
        using l by (simp_all add: linked_def)
      have "grows e U rip fs rip' (zeroed rip y t)" using L(3) [OF same_refl] by (simp add: keeps_def)
      from grows_sel(3-5) [OF this] show ?thesis
        using c True L(1) tail [of y rip' t True] L(2,3) by (simp add: wm_single_def bind_split split: option.splits prod.splits)
    qed
  qed
qed

lemma write_map_entered:
  assumes laws: "mfs_laws e U" and ok: "map_ok e U rip fs" and imm: "i_mode rip AND I_TYPE \<noteq> I_IMMEDIATE"
    and n: "position div s_block_size (superblock fs) < max_zones rip" and z: "legal fs z"
  shows "entered e U rip fs (position div s_block_size (superblock fs)) z (write_map e rip position z False fs)"
proof -
  define n where "n = position div s_block_size (superblock fs)"
  define r where "r = IN_MARKDIRTY rip"
  have dim: "i_dev r = i_dev rip" "i_ndzones r = i_ndzones rip" "i_nindirs r = i_nindirs rip" "i_zone r = i_zone rip"
    by (simp_all add: r_def)
  note v = view_cong [of r rip, OF dim(4,1,2,3)]
  have ok': "map_ok e U r fs" using ok by (simp add: v(5))
  have n': "n < max_zones r" using n by (simp add: n_def v(6))
  have eq: "entered e U rip = entered e U r" by (simp add: entered_def fun_eq_iff v)
  have sc: "s_log_zone_size (superblock fs) = 0" using map_ok_sel(1) [OF ok] .
  note W = write_map_def [of e rip position z False fs] sc imm n_def [symmetric] r_def [symmetric]
  have "entered e U r fs n z (write_map e rip position z False fs)"
  proof (cases "n < i_ndzones r")
    case True
    then have "write_map e rip position z False fs = Some (OK, set_izone n z r, fs)" by (simp add: W Let_def)
    then show ?thesis using direct_entry [OF ok' True] by (simp add: entered_def)
  next
    case False
    then have nz: "i_ndzones r \<le> n" by simp
    obtain i k where pl: "place r n = (i, k)" by force
    note b = place_bounds [OF nz n' pl]
    let ?m = "i_nindirs r" and ?x = "n - i_ndzones r"
    show ?thesis
    proof (cases "?x < ?m")
      case True
      then have ik: "i = 0" "k = ?x" using pl by (simp_all add: place_def Let_def)
      have "write_map e rip position z False fs = wm_single e False True 0 k z NO_ZONE r None (izone r (i_ndzones r)) fs"
        using False True ik by (simp add: W Let_def)
      then show ?thesis using wm_single_spec [OF laws ok' n' nz pl z] ik by (simp add: iz_simps)
    next
      case dbl: False
      define d where "d = (?x - ?m) div ?m"
      have ik: "i = d + 2" "k = (?x - ?m) mod ?m" using pl dbl by (simp_all add: place_def Let_def d_def)
      have wm: "write_map e rip position z False fs = (case wm_double e False ?x r fs of None \<Rightarrow> None | Some (Return out) \<Rightarrow> Some out
          | Some (Continue (r1, dbl, z1, fs1)) \<Rightarrow> wm_single e False False d k z (izone r (i_ndzones r + 1)) r1 dbl z1 fs1)"
        using False dbl by (auto simp: W Let_def d_def ik(2) bind_split split: option.splits outcome.splits)
      have "d < ?m" using b(1) ik(1) by simp
      from wm_double_spec [OF laws ok' d_def [symmetric] this]
      show ?thesis
      proof (elim disjE exE conjE)
        fix c t assume c: "wm_double e False ?x r fs = Some (Return (c, r, t))" "c \<noteq> OK" "keeps e U r fs r t"
        then show ?thesis using enteredI_keeps [OF c(3,2)] wm by simp
      next
        fix r1 bp t assume c: "wm_double e False ?x r fs = Some (Continue (r1, Some bp, iz e r1 t (d + 2), t))"
          and bp: "b_key bp = (i_dev r, iz e r1 t 1)" "iz e r1 t 1 \<noteq> NO_ZONE" and k: "keeps e U r fs r1 t"
        have g: "grows e U r fs r1 t" using k by (simp add: keeps_def)
        note G = grows_sel(2-5) [OF g]
        have mz: "max_zones r1 = max_zones r" "place r1 = place r" using G by (simp_all add: max_zones_def place_def fun_eq_iff)
        have "entered e U r1 t n z (wm_single e False False d k z (izone r (i_ndzones r + 1)) r1 (Some bp) (iz e r1 t (d + 2)) t)"
          using wm_single_spec [OF laws keeps_ok [OF k], of n i k z "iz e r1 t (d + 2)" False "Some bp" d] n' nz pl z ik bp mz G
          by (simp add: legal_def)
        then show ?thesis
          using wm c grows_trans [OF g] k mz by (auto simp: entered_def keeps_def)
      qed
    qed
  qed
  then show ?thesis by (simp add: eq n_def)
qed


section \<open>The data zones\<close>

text \<open>
  A write only changes the zone array and the dirty mark of the inode.
\<close>

definition core :: "inode \<Rightarrow> inode" where
  "core rip = rip\<lparr>i_zone := [], i_dirty := False\<rparr>"

lemma core_set [simp]: "core (set_izone k z rip) = core rip" "core (IN_MARKDIRTY rip) = core rip"
  by (simp_all add: core_def set_izone_def IN_MARKDIRTY_def)

lemma core_sel:
  assumes "core r = core s"
  shows "i_mode r = i_mode s" "i_size r = i_size s" "i_dev r = i_dev s" "i_num r = i_num s" "i_zsearch r = i_zsearch s"
  using assms by (auto simp: core_def dest: arg_cong [of _ _ i_mode] arg_cong [of _ _ i_size] arg_cong [of _ _ i_dev]
      arg_cong [of _ _ i_num] arg_cong [of _ _ i_zsearch])

lemma wm_single_core:
  "wm_single e wfree single d k z z2 rip dbl z1 fs = Some (r, rip', t) \<Longrightarrow> core rip' = core rip"
  unfolding wm_single_def wm_create_def wm_enter_def wm_finish_def Let_def
  by (auto split: bind_splits option.splits if_splits prod.splits outcome.splits)

lemma wm_double_core:
  "wm_double e wfree x rip fs = Some (Return (r, rip', t)) \<Longrightarrow> core rip' = core rip"
  "wm_double e wfree x rip fs = Some (Continue (rip', dbl, z1, t)) \<Longrightarrow> core rip' = core rip"
  unfolding wm_double_def Let_def by (auto split: bind_splits if_splits prod.splits)

lemma write_map_core: "write_map e rip position z wfree fs = Some (r, rip', t) \<Longrightarrow> core rip' = core rip"
  unfolding write_map_def Let_def
  by (auto split: bind_splits if_splits prod.splits outcome.splits dest!: wm_single_core wm_double_core)


text \<open>
  A file is in order when its map is and its data zones are in use, in the data area, pairwise
  different and none of its indirect blocks.
\<close>

definition file_ok :: "'w mfs_env \<Rightarrow> ('w \<Rightarrow> zone_t set) \<Rightarrow> inode \<Rightarrow> 'w mfs \<Rightarrow> bool" where
  "file_ok e U rip fs \<longleftrightarrow>
     map_ok e U rip fs
   \<and> (\<forall>n<max_zones rip. bmap e rip fs n \<noteq> NO_ZONE \<longrightarrow>
        bmap e rip fs n \<in> U (fs_world fs) \<and> (\<forall>i<i_nindirs rip + 2. iz e rip fs i \<noteq> bmap e rip fs n)
      \<and> (\<forall>j<max_zones rip. bmap e rip fs j = bmap e rip fs n \<longrightarrow> j = n))"

lemma file_ok_sel:
  assumes "file_ok e U rip fs"
  shows "map_ok e U rip fs"
    "n < max_zones rip \<Longrightarrow> bmap e rip fs n \<noteq> NO_ZONE \<Longrightarrow> bmap e rip fs n \<in> U (fs_world fs)"
    "n < max_zones rip \<Longrightarrow> bmap e rip fs n \<noteq> NO_ZONE \<Longrightarrow> i < i_nindirs rip + 2 \<Longrightarrow> iz e rip fs i \<noteq> bmap e rip fs n"
    "n < max_zones rip \<Longrightarrow> bmap e rip fs n \<noteq> NO_ZONE \<Longrightarrow> j < max_zones rip \<Longrightarrow> bmap e rip fs j = bmap e rip fs n \<Longrightarrow> j = n"
  using assms by (simp_all add: file_ok_def)

lemma file_ok_state:
  assumes "superblock s = superblock t" "blocks s = blocks t" "U (fs_world s) = U (fs_world t)"
  shows "file_ok e U rip s = file_ok e U rip t"
  unfolding file_ok_def map_ok_def state_view [OF assms(1,2)] assms ..

lemma file_ok_same: "same U s t \<Longrightarrow> file_ok e U rip s = file_ok e U rip t"
  by (rule file_ok_state) (rule same_sel; assumption)+

lemma file_ok_cong:
  assumes "i_zone r = i_zone s" "i_dev r = i_dev s" "i_ndzones r = i_ndzones s" "i_nindirs r = i_nindirs s"
  shows "file_ok e U r = file_ok e U s"
  unfolding file_ok_def view_cong [OF assms] assms ..

text \<open>Writing the contents of a block that is not an indirect block of the file keeps the map.\<close>

lemma bmap_data:
  assumes ok: "map_ok e U rip fs" and b: "\<forall>i<i_nindirs rip + 2. iz e rip fs i \<noteq> b" and l: "length d = 4 * i_nindirs rip"
    and t: "superblock t = superblock fs" "blocks t = (blocks fs)((i_dev rip, b) := d)" "U (fs_world t) = U (fs_world fs)"
  shows "n < max_zones rip \<Longrightarrow> bmap e rip t n = bmap e rip fs n" "i < i_nindirs rip + 2 \<Longrightarrow> iz e rip t i = iz e rip fs i" "map_ok e U rip t"
proof -
  have ind: "ind e rip t (iz e rip fs i) = ind e rip fs (iz e rip fs i)" if "i < i_nindirs rip + 2" for i
    using b that t by (auto simp: ind_def fun_eq_iff)
  have iz: "iz e rip t i = iz e rip fs i" if "i < i_nindirs rip + 2" for i
  proof -
    have "ind e rip t (izone rip (i_ndzones rip + 1)) = ind e rip fs (izone rip (i_ndzones rip + 1))"
      using ind [of 1] by (simp add: iz_simps)
    then show ?thesis unfolding iz_def Let_def by simp
  qed
  have leg: "legal t = legal fs" using t(1) by (simp add: legal_def fun_eq_iff)
  show "map_ok e U rip t"
    unfolding map_ok_def t(1,3) leg using map_ok_sel [OF ok] map_ok_iz [OF ok] iz ind t(2) l by auto
  show "i < i_nindirs rip + 2 \<Longrightarrow> iz e rip t i = iz e rip fs i" by (rule iz)
  assume n: "n < max_zones rip"
  show "bmap e rip t n = bmap e rip fs n"
  proof (cases "n < i_ndzones rip")
    case False
    obtain i k where pl: "place rip n = (i, k)" by force
    have "i < i_nindirs rip + 2" using place_bounds(1) [OF _ n pl] False by simp
    then show ?thesis using False pl iz ind by (simp add: bmap_def)
  qed (simp add: bmap_def)
qed

lemma file_ok_data:
  assumes ok: "file_ok e U rip fs" and b: "\<forall>i<i_nindirs rip + 2. iz e rip fs i \<noteq> b" and l: "length d = 4 * i_nindirs rip"
    and t: "superblock t = superblock fs" "blocks t = (blocks fs)((i_dev rip, b) := d)" "U (fs_world t) = U (fs_world fs)"
  shows "file_ok e U rip t"
proof -
  note D = bmap_data [OF file_ok_sel(1) [OF ok] b l t]
  show ?thesis unfolding file_ok_def t(3) using file_ok_sel [OF ok] D by simp
qed

text \<open>A fresh zone entered by \<^const>\<open>write_map\<close> becomes a data zone of the file.\<close>

lemma file_ok_entered:
  assumes ok: "file_ok e U rip fs" and g: "grows e U rip fs rip' t" and z: "z \<in> U (fs_world fs)" "z \<noteq> NO_ZONE"
    and new: "\<forall>i<i_nindirs rip + 2. iz e rip fs i \<noteq> z" "\<forall>j<max_zones rip. bmap e rip fs j \<noteq> z"
    and b: "\<forall>j<max_zones rip. bmap e rip' t j = (if P \<and> j = n then z else bmap e rip fs j)"
  shows "file_ok e U rip' t"
proof -
  note G = grows_sel [OF g]
  have mz: "max_zones rip' = max_zones rip" using G(4,5) by (rule max_zones_cong)
  have izn: "iz e rip' t i \<noteq> c" if "i < i_nindirs rip + 2" "c \<in> U (fs_world fs)" "iz e rip fs i \<noteq> c" for i c
    using G(7) [OF that(1)] that(2,3) by auto
  show ?thesis unfolding file_ok_def mz G(5)
  proof (intro conjI allI impI G(1))
    fix j assume j: "j < max_zones rip" "bmap e rip' t j \<noteq> NO_ZONE"
    have c: "bmap e rip' t j = z \<and> P \<and> j = n \<or> bmap e rip' t j = bmap e rip fs j \<and> bmap e rip fs j \<noteq> NO_ZONE \<and> \<not> (P \<and> j = n)"
      using b j by auto
    then have U: "bmap e rip' t j \<in> U (fs_world fs)" using z(1) file_ok_sel(2) [OF ok j(1)] by (elim disjE conjE) simp_all
    then show "bmap e rip' t j \<in> U (fs_world t)" using G(6) by auto
    show "iz e rip' t i \<noteq> bmap e rip' t j" if i: "i < i_nindirs rip + 2" for i
      using c new(1) i file_ok_sel(3) [OF ok j(1) _ i] by (intro izn [OF i U]) (elim disjE conjE; simp)
    show "l = j" if l: "l < max_zones rip" "bmap e rip' t l = bmap e rip' t j" for l
      using c b l new(2) j(1) file_ok_sel(4) [OF ok j(1) _ l(1)] by (elim disjE conjE) (auto split: if_splits)
  qed
qed


lemma free_zone_laws:
  assumes "mfs_laws e U"
  shows "superblock (free_zone e d z fs) = superblock fs" "blocks (free_zone e d z fs) = blocks fs"
    "U (fs_world (free_zone e d z fs)) = U (fs_world fs) - {z}"
  using assms by (simp_all add: mfs_laws_def)

lemma file_ok_freed:
  assumes ok: "file_ok e U rip fs" and t: "superblock t = superblock fs" "blocks t = blocks fs" "U (fs_world t) = U (fs_world fs) - {z}"
    and z: "\<forall>i<i_nindirs rip + 2. iz e rip fs i \<noteq> z" "\<forall>j<max_zones rip. bmap e rip fs j \<noteq> z"
  shows "file_ok e U rip t"
proof -
  have m: "map_ok e U rip t"
    using file_ok_sel(1) [OF ok] z(1) unfolding map_ok_def state_view [OF t(1,2)] t by simp
  show ?thesis unfolding file_ok_def state_view [OF t(1,2)] t using file_ok_sel [OF ok] m z(2) by simp
qed

text \<open>The contents of block \<open>n\<close> of a file; a hole reads as zeros.\<close>

definition fblock :: "'w mfs_env \<Rightarrow> inode \<Rightarrow> 'w mfs \<Rightarrow> nat \<Rightarrow> u8 list" where
  "fblock e rip fs n =
     (if bmap e rip fs n = NO_ZONE then replicate (s_block_size (superblock fs)) 0 else blocks fs (i_dev rip, bmap e rip fs n))"

lemma fblock_same: "same U s t \<Longrightarrow> fblock e rip s = fblock e rip t"
  using same_view(3) [of U s t e rip] by (auto simp: fblock_def same_def fun_eq_iff)

lemma fblock_state: "superblock s = superblock t \<Longrightarrow> blocks s = blocks t \<Longrightarrow> fblock e rip s = fblock e rip t"
  using state_view(3) [of s t e rip] by (auto simp: fblock_def fun_eq_iff)

lemma length_fblock: "map_ok e U rip fs \<Longrightarrow> length (fblock e rip fs n) = s_block_size (superblock fs)"
  by (simp add: fblock_def map_ok_sel)

text \<open>Replacing the contents of data block \<open>n\<close>.\<close>

lemma fblock_data:
  assumes ok: "file_ok e U rip fs" and n: "n < max_zones rip" "bmap e rip fs n \<noteq> NO_ZONE"
    and d: "length d = s_block_size (superblock fs)"
    and t: "superblock t = superblock fs" "blocks t = (blocks fs)((i_dev rip, bmap e rip fs n) := d)" "U (fs_world t) = U (fs_world fs)"
  shows "file_ok e U rip t" "j < max_zones rip \<Longrightarrow> fblock e rip t j = (if j = n then d else fblock e rip fs j)"
    "j < max_zones rip \<Longrightarrow> bmap e rip t j = bmap e rip fs j"
proof -
  have b: "\<forall>i<i_nindirs rip + 2. iz e rip fs i \<noteq> bmap e rip fs n" using file_ok_sel(3) [OF ok n] by simp
  have l: "length d = 4 * i_nindirs rip" using d map_ok_sel(7) [OF file_ok_sel(1) [OF ok]] by simp
  show "file_ok e U rip t" by (rule file_ok_data [OF ok b l t])
  show bm: "bmap e rip t j = bmap e rip fs j" if "j < max_zones rip" for j
    by (rule bmap_data(1) [OF file_ok_sel(1) [OF ok] b l t that])
  show "j < max_zones rip \<Longrightarrow> fblock e rip t j = (if j = n then d else fblock e rip fs j)"
    using file_ok_sel(4) [OF ok n, of j] n bm t by (auto simp: fblock_def)
qed

text \<open>Entering a fresh zone leaves the contents of the other blocks alone.\<close>

lemma fblock_entered:
  assumes ok: "file_ok e U rip fs" and g: "grows e U rip fs rip' t" and j: "j < max_zones rip" and b: "bmap e rip' t j = bmap e rip fs j"
  shows "fblock e rip' t j = fblock e rip fs j"
proof (cases "bmap e rip fs j = NO_ZONE")
  case True
  then show ?thesis using b grows_sel(2) [OF g] by (simp add: fblock_def)
next
  case False
  have "blocks t (i_dev rip, bmap e rip fs j) = blocks fs (i_dev rip, bmap e rip fs j)"
    using file_ok_sel(2,3) [OF ok j False] by (intro grows_sel(9) [OF g]) simp_all
  then show ?thesis using False b grows_sel(3) [OF g] by (simp add: fblock_def)
qed

lemma get_block_ino_zeroed:
  assumes "mfs_laws e U" and "lmfs_get_block_ino e dev b NO_READ i off fs = (bp, t)"
  shows "b_key bp = (dev, b)"
    and "same U (zero_block bp t) (fs\<lparr>blocks := (blocks fs)((dev, b) := replicate (length (blocks fs (dev, b))) 0)\<rparr>)"
proof -
  have "fills U dev b NO_READ fs (lmfs_get_block_ino e dev b NO_READ i off fs)" by (rule get_block_ino_fills [OF assms(1)]) simp
  then show key: "b_key bp = (dev, b)"
    and "same U (zero_block bp t) (fs\<lparr>blocks := (blocks fs)((dev, b) := replicate (length (blocks fs (dev, b))) 0)\<rparr>)"
    using assms(2) by (auto simp: fills_def same_def zero_block_def MARKDIRTY_def set_data_def b_data_def)
qed

text \<open>What \<^const>\<open>new_block\<close> promises.\<close>

definition block_made :: "'w mfs_env \<Rightarrow> ('w \<Rightarrow> zone_t set) \<Rightarrow> inode \<Rightarrow> 'w mfs \<Rightarrow> nat \<Rightarrow> (buf option \<times> inode \<times> 'w mfs) option \<Rightarrow> bool" where
  "block_made e U rip fs n out \<longleftrightarrow>
     (\<exists>bo rip' t. out = Some (bo, rip', t) \<and> file_ok e U rip' t \<and> superblock t = superblock fs
        \<and> max_zones rip' = max_zones rip \<and> i_mode rip' = i_mode rip \<and> i_size rip' = i_size rip
        \<and> i_dev rip' = i_dev rip \<and> i_num rip' = i_num rip
        \<and> (\<forall>j<max_zones rip. j \<noteq> n \<longrightarrow> bmap e rip' t j = bmap e rip fs j \<and> fblock e rip' t j = fblock e rip fs j)
        \<and> (case bo of
             None \<Rightarrow> bmap e rip fs n = NO_ZONE \<and> bmap e rip' t n = NO_ZONE
           | Some bp \<Rightarrow> bmap e rip' t n \<noteq> NO_ZONE \<and> b_key bp = (i_dev rip, bmap e rip' t n)
                        \<and> fblock e rip' t n = replicate (s_block_size (superblock fs)) 0))"

lemma fill_block:
  assumes laws: "mfs_laws e U" and ok: "file_ok e U rip fs" and n: "n < max_zones rip" "bmap e rip fs n \<noteq> NO_ZONE"
    and g: "lmfs_get_block_ino e (i_dev rip) (bmap e rip fs n) NO_READ i off fs = (bp, t)"
  shows "file_ok e U rip (zero_block bp t)" "superblock (zero_block bp t) = superblock fs"
    "j < max_zones rip \<Longrightarrow> bmap e rip (zero_block bp t) j = bmap e rip fs j"
    "j < max_zones rip \<Longrightarrow> fblock e rip (zero_block bp t) j
       = (if j = n then replicate (s_block_size (superblock fs)) 0 else fblock e rip fs j)"
proof -
  have l: "length (blocks fs (i_dev rip, bmap e rip fs n)) = s_block_size (superblock fs)"
    using map_ok_sel(6,7) [OF file_ok_sel(1) [OF ok]] by simp
  note T = same_unfold [OF get_block_ino_zeroed(2) [OF laws g]]
  note F = fblock_data [OF ok n, of "replicate (s_block_size (superblock fs)) 0" "zero_block bp t"]
  show "file_ok e U rip (zero_block bp t)" "superblock (zero_block bp t) = superblock fs"
    "j < max_zones rip \<Longrightarrow> bmap e rip (zero_block bp t) j = bmap e rip fs j"
    "j < max_zones rip \<Longrightarrow> fblock e rip (zero_block bp t) j
       = (if j = n then replicate (s_block_size (superblock fs)) 0 else fblock e rip fs j)"
    using T F l by simp_all
qed


lemma new_block_made:
  assumes laws: "mfs_laws e U" and ok: "file_ok e U rip fs" and imm: "i_mode rip AND I_TYPE \<noteq> I_IMMEDIATE"
    and n: "position div s_block_size (superblock fs) < max_zones rip"
  shows "block_made e U rip fs (position div s_block_size (superblock fs)) (new_block e rip position fs)"
proof -
  define n where "n = position div s_block_size (superblock fs)"
  let ?bs = "s_block_size (superblock fs)"
  note mok = file_ok_sel(1) [OF ok] and n' = n [folded n_def]
  have nb: "NO_BLOCK = NO_ZONE" by (simp add: NO_BLOCK_def NO_ZONE_def)
  have sc: "s_log_zone_size (superblock fs) = 0" and bs: "0 < ?bs" using map_ok_sel [OF mok] by simp_all
  obtain t where rd: "read_map e rip position False fs = Some (bmap e rip fs n, t)" and t: "same U t fs"
    using read_map_place [OF laws mok n] unfolding n_def by blast
  have okt: "file_ok e U rip t" using ok file_ok_same [OF t] by simp
  have vt: "superblock t = superblock fs" "bmap e rip t = bmap e rip fs" "fblock e rip t = fblock e rip fs"
    using same_sel(1) [OF t] same_view(3) [OF t] fblock_same [OF t] by simp_all
  show ?thesis
  proof (cases "bmap e rip fs n = NO_ZONE")
    case False
    obtain bp t1 where g: "lmfs_get_block_ino e (i_dev rip) (bmap e rip t n) NO_READ (i_num rip) (rounddown position ?bs) t = (bp, t1)"
      by force
    have "new_block e rip position fs = Some (Some bp, rip, zero_block bp t1)"
      using rd False g vt by (simp add: new_block_def Let_def NO_BLOCK_def NO_ZONE_def)
    then show ?thesis
      using fill_block [OF laws okt n' _ g] vt False get_block_ino_zeroed(1) [OF laws g] n'
      by (simp add: block_made_def n_def [symmetric])
  next
    case True
    define z0 where "z0 = (if i_zsearch rip = NO_ZONE then (if izone rip 0 = NO_ZONE then s_firstdatazone (superblock fs) else izone rip 0)
                           else i_zsearch rip)"
    obtain z t1 where al: "alloc_zone e (i_dev rip) z0 t = (z, t1)" by force
    note A = alloc_zone_laws [OF laws al]
    note NB = new_block_def [of e rip position fs] rd True sc al z0_def [symmetric] Let_def nb
    show ?thesis
    proof (cases "z = NO_ZONE")
      case zn: True
      then have s: "superblock t1 = superblock t" "blocks t1 = blocks t" "U (fs_world t1) = U (fs_world t)" using A by simp_all
      have "new_block e rip position fs = Some (None, rip, t1)" using zn by (simp add: NB)
      then show ?thesis
        using okt True vt file_ok_state [OF s] state_view(3) [OF s(1,2)] fblock_state [OF s(1,2)] s(1)
        by (simp add: block_made_def n_def [symmetric])
    next
      case zn: False
      define r0 where "r0 = rip\<lparr>i_zsearch := z\<rparr>"
      have d0: "i_zone r0 = i_zone rip" "i_dev r0 = i_dev rip" "i_ndzones r0 = i_ndzones rip" "i_nindirs r0 = i_nindirs rip" by (simp_all add: r0_def)
      note v0 = view_cong [OF d0]
      have z: "legal t z" "z \<notin> U (fs_world t)" "U (fs_world t1) = insert z (U (fs_world t))" using A(6) [OF zn] by simp_all
      have ok1: "file_ok e U r0 t1"
      proof -
        have "U (fs_world t) \<subseteq> U (fs_world t1)" using z by auto
        moreover have "map_ok e U rip t1" using file_ok_sel(1) [OF okt] calculation
          unfolding map_ok_def state_view [OF A(1,2)] A(1,2) by blast
        ultimately show ?thesis
          unfolding file_ok_cong [OF d0] file_ok_def state_view [OF A(1,2)] using file_ok_sel [OF okt] by blast
      qed
      have fresh: "\<forall>i<i_nindirs r0 + 2. iz e r0 t1 i \<noteq> z" "\<forall>j<max_zones r0. bmap e r0 t1 j \<noteq> z"
        using map_ok_iz(1) [OF file_ok_sel(1) [OF okt]] file_ok_sel(2) [OF okt] z(2) zn
        unfolding v0 d0 state_view [OF A(1,2)] by metis+
      have "entered e U r0 t1 n z (write_map e r0 position z False t1)"
        using write_map_entered [OF laws file_ok_sel(1) [OF ok1], of position z] imm n z(1) A(1) vt(1)
        by (simp add: r0_def [symmetric] v0 n_def legal_def) (simp add: r0_def)
      then obtain c r t2 where wm: "write_map e r0 position z False t1 = Some (c, r, t2)" and gr: "grows e U r0 t1 r t2"
        and bm: "\<forall>j<max_zones r0. bmap e r t2 j = (if c = OK \<and> j = n then z else bmap e r0 t1 j)"
        unfolding entered_def by blast
      have zU: "z \<in> U (fs_world t1)" using z(3) by simp
      have ok2: "file_ok e U r t2" by (rule file_ok_entered [OF ok1 gr zU zn fresh bm])
      note G = grows_sel [OF gr] and C = core_sel [OF write_map_core [OF wm]]
      have mz: "max_zones r = max_zones rip" using max_zones_cong [OF G(4,5)] v0(6) by simp
      have bm': "bmap e r t2 j = (if c = OK \<and> j = n then z else bmap e rip fs j)" if "j < max_zones rip" for j
        using bm that unfolding v0 state_view [OF A(1,2)] vt by simp
      have fb: "fblock e r t2 j = fblock e rip fs j" if "j < max_zones rip" "j \<noteq> n" for j
      proof -
        have "fblock e r t2 j = fblock e r0 t1 j" using fblock_entered [OF ok1 gr, of j] that bm v0(6) by simp
        also have "\<dots> = fblock e rip t1 j" by (simp add: fblock_def v0 d0)
        finally show ?thesis using fblock_state [OF A(1,2)] vt(3) by simp
      qed
      have rsel: "i_mode r = i_mode rip" "i_size r = i_size rip" "i_dev r = i_dev rip" "i_num r = i_num rip"
        using C by (simp_all add: r0_def)
      have sb: "superblock t2 = superblock fs" using G(2) A(1) vt(1) by simp
      show ?thesis
      proof (cases "c = OK")
        case False
        define t3 where "t3 = (free_zone e (i_dev r) z t2)\<lparr>err_code := c\<rparr>"
        have T: "superblock t3 = superblock t2" "blocks t3 = blocks t2" "U (fs_world t3) = U (fs_world t2) - {z}"
          by (simp_all add: t3_def free_zone_laws [OF laws])
        have "iz e r t2 i \<noteq> z" if "i < i_nindirs r + 2" for i
          using G(5) G(7) [of i] that fresh(1) zU by auto
        moreover have "bmap e r t2 j \<noteq> z" if "j < max_zones r" for j
          using bm fresh(2) that mz v0(6) False by auto
        ultimately have ok3: "file_ok e U r t3" using file_ok_freed [OF ok2 T] by blast
        have "new_block e rip position fs = Some (None, r, t3)" using wm False zn by (simp add: NB r0_def t3_def)
        then show ?thesis
          using ok3 True fb bm' n' False T rsel sb mz state_view(3) [OF T(1,2)] fblock_state [OF T(1,2)]
          by (simp add: block_made_def n_def [symmetric])
      next
        case c: True
        obtain bp t3 where g: "lmfs_get_block_ino e (i_dev r) (bmap e r t2 n) NO_READ (i_num r) (rounddown position ?bs) t2 = (bp, t3)"
          by force
        have zb: "bmap e r t2 n = z" using bm' n' c by simp
        have "(position mod ?bs) div ?bs = 0" using bs by simp
        then have "new_block e rip position fs = Some (Some bp, r, zero_block bp t3)"
          using wm c zn g sb by (simp add: NB r0_def clear_zone_def zb)
        then show ?thesis
          using fill_block [OF laws ok2 _ _ g] zb zn fb bm' n' c rsel sb mz get_block_ino_zeroed(1) [OF laws g]
          by (simp add: block_made_def n_def [symmetric])
      qed
    qed
  qed
qed


text \<open>A file whose zone array is all zeros has no blocks.\<close>

lemma empty_file:
  assumes z: "i_zone rip = replicate l 0" "4 * (i_ndzones rip + 2) \<le> l"
    and sb: "s_log_zone_size (superblock fs) = 0" "s_version_V3 (superblock fs)" "s_block_size (superblock fs) = 4 * i_nindirs rip"
    and dim: "0 < i_nindirs rip" "0 < i_ndzones rip" "\<forall>b. length (blocks fs (i_dev rip, b)) = 4 * i_nindirs rip"
  shows "file_ok e U rip fs" "bmap e rip fs n = NO_ZONE" "iz e rip fs i = NO_ZONE"
proof -
  have izn: "izone rip k = NO_ZONE" if "k < i_ndzones rip + 2" for k
    using z that by (simp add: izone_def NO_ZONE_def)
  show iz: "iz e rip fs i = NO_ZONE" for i using izn by (simp add: iz_def)
  show bm: "bmap e rip fs n = NO_ZONE" for n using izn by (simp add: bmap_def iz split: prod.split)
  have "map_ok e U rip fs" unfolding map_ok_def iz using z sb dim by simp
  then show "file_ok e U rip fs" by (simp add: file_ok_def bm)
qed

section \<open>The interface of a zone map\<close>

text \<open>
  A map from zone numbers to zones that is changed one entry at a time, where a change may fail
  for lack of space. \<open>enter_all\<close> enters a list of zones and stops at the first failure.
\<close>

fun enter_all :: "('s \<Rightarrow> nat \<Rightarrow> 'z \<Rightarrow> bool \<times> 's) \<Rightarrow> 's \<Rightarrow> (nat \<times> 'z) list \<Rightarrow> bool \<times> 's" where
  "enter_all f s [] = (True, s)"
| "enter_all f s ((n, z) # xs) = (let (b, s1) = f s n z in if b then enter_all f s1 xs else (False, s1))"

locale zone_map =
  fixes ok :: "'s \<Rightarrow> bool" and cap :: "'s \<Rightarrow> nat" and good :: "'s \<Rightarrow> 'z \<Rightarrow> bool"
    and look :: "'s \<Rightarrow> nat \<Rightarrow> 'z" and put :: "'s \<Rightarrow> nat \<Rightarrow> 'z \<Rightarrow> bool \<times> 's"
  assumes put_spec: "ok s \<Longrightarrow> n < cap s \<Longrightarrow> good s z \<Longrightarrow> put s n z = (b, s') \<Longrightarrow>
      ok s' \<and> cap s' = cap s \<and> good s' = good s \<and> (\<forall>j<cap s. look s' j = (if b \<and> j = n then z else look s j))"
begin

lemma enter_all_spec:
  assumes "ok s" "\<And>n z. (n, z) \<in> set xs \<Longrightarrow> n < cap s \<and> good s z" "enter_all put s xs = (True, s')" "j < cap s"
  shows "ok s' \<and> look s' j = (case map_of (rev xs) j of Some z \<Rightarrow> z | None \<Rightarrow> look s j)"
  using assms
proof (induction xs arbitrary: s)
  case (Cons p xs)
  obtain n z where p: "p = (n, z)" by force
  obtain b s1 where s1: "put s n z = (b, s1)" by force
  have b: "b" "enter_all put s1 xs = (True, s')" using Cons.prems(3) p s1 by (simp_all split: if_splits)
  have nz: "n < cap s" "good s z" using Cons.prems(2) [of n z] p by simp_all
  note S = put_spec [OF Cons.prems(1) nz s1]
  have "ok s' \<and> look s' j = (case map_of (rev xs) j of Some z \<Rightarrow> z | None \<Rightarrow> look s1 j)"
    using Cons.prems(2,4) S b(2) by (intro Cons.IH) auto
  then show ?case using S b(1) p Cons.prems(4) by (auto simp: map_add_def split: option.splits)
qed simp

end

text \<open>
  The map of a file provides this interface: the state is the environment, the zones in use, the
  inode and the file system; entries are looked up by \<^const>\<open>read_map\<close> and changed by \<^const>\<open>write_map\<close>.
\<close>

type_synonym 'w file_state = "'w mfs_env \<times> ('w \<Rightarrow> zone_t set) \<times> inode \<times> 'w mfs"

fun fm_ok :: "'w file_state \<Rightarrow> bool" where
  "fm_ok (e, U, rip, fs) \<longleftrightarrow> mfs_laws e U \<and> map_ok e U rip fs \<and> i_mode rip AND I_TYPE \<noteq> I_IMMEDIATE"

fun fm_cap :: "'w file_state \<Rightarrow> nat" where
  "fm_cap (e, U, rip, fs) = max_zones rip"

fun fm_good :: "'w file_state \<Rightarrow> zone_t \<Rightarrow> bool" where
  "fm_good (e, U, rip, fs) z = legal fs z"

fun fm_look :: "'w file_state \<Rightarrow> nat \<Rightarrow> zone_t" where
  "fm_look (e, U, rip, fs) n =
     (case read_map e rip (n * s_block_size (superblock fs)) False fs of Some (b, t) \<Rightarrow> b | None \<Rightarrow> NO_BLOCK)"

fun fm_put :: "'w file_state \<Rightarrow> nat \<Rightarrow> zone_t \<Rightarrow> bool \<times> 'w file_state" where
  "fm_put (e, U, rip, fs) n z =
     (case write_map e rip (n * s_block_size (superblock fs)) z False fs of
        Some (r, rip', fs') \<Rightarrow> (r = OK, e, U, rip', fs')
      | None \<Rightarrow> (False, e, U, rip, fs))"

lemma fm_look_bmap:
  assumes "fm_ok (e, U, rip, fs)" and "n < max_zones rip"
  shows "fm_look (e, U, rip, fs) n = bmap e rip fs n"
proof -
  have "0 < s_block_size (superblock fs)" using assms(1) map_ok_sel(3,7) by fastforce
  then show ?thesis
    using assms read_map_place [of e U rip fs "n * s_block_size (superblock fs)"] by auto
qed

interpretation file_map: zone_map fm_ok fm_cap fm_good fm_look fm_put
proof (standard, goal_cases)
  case (1 s n z b s')
  obtain e U rip fs where s: "s = (e, U, rip, fs)" by (cases s)
  let ?bs = "s_block_size (superblock fs)"
  have ok: "mfs_laws e U" "map_ok e U rip fs" "i_mode rip AND I_TYPE \<noteq> I_IMMEDIATE" and n: "n < max_zones rip" and z: "legal fs z"
    using 1 s by simp_all
  have bs: "(n * ?bs) div ?bs = n" using map_ok_sel(3,7) [OF ok(2)] by simp
  obtain r rip' fs' where w: "write_map e rip (n * ?bs) z False fs = Some (r, rip', fs')" and g: "grows e U rip fs rip' fs'"
    and bm: "\<forall>j<max_zones rip. bmap e rip' fs' j = (if r = OK \<and> j = n then z else bmap e rip fs j)"
    using write_map_entered [OF ok(1,2,3), of "n * ?bs" z] n z unfolding bs entered_def by blast
  note G = grows_sel [OF g]
  have s': "s' = (e, U, rip', fs')" "b = (r = OK)" using 1(4) w s by simp_all
  have ok': "fm_ok (e, U, rip', fs')" using ok G(1) core_sel(1) [OF write_map_core [OF w]] by simp
  have mz: "max_zones rip' = max_zones rip" using max_zones_cong [OF G(4,5)] .
  have "fm_look s' j = (if b \<and> j = n then z else fm_look s j)" if j: "j < max_zones rip" for j
    using fm_look_bmap [OF ok'] fm_look_bmap [OF 1(1) [unfolded s]] j mz bm s s' by simp
  then show ?case using ok' mz G(2) s s' by (simp add: fun_eq_iff legal_def)
qed


section \<open>An instance\<close>

text \<open>
  A small disk: blocks of 40 bytes, zones 2 to 19 for data, seven direct zones per inode; the world is the
  list of zones in use and the memory of the calling process.
\<close>

record mworld =
  used :: "zone_t list"
  mem :: "u8 list"
  inuse :: nat

definition mdemo_env :: "mworld mfs_env" where
  "mdemo_env =
     \<lparr>get_block = (\<lambda>dev b m fs. (\<lparr>b_key = (dev, b), lmfs_dev = dev\<rparr>, fs\<lparr>fs_world := (fs_world fs)\<lparr>inuse := inuse (fs_world fs) + 1\<rparr>\<rparr>)),
      lmfs_get_block_ino = (\<lambda>dev b m i off fs. (\<lparr>b_key = (dev, b), lmfs_dev = dev\<rparr>, fs\<lparr>fs_world := (fs_world fs)\<lparr>inuse := inuse (fs_world fs) + 1\<rparr>\<rparr>)),
      put_block = (\<lambda>bp t fs. fs\<lparr>fs_world := (fs_world fs)\<lparr>inuse := inuse (fs_world fs) - 1\<rparr>\<rparr>),
      get_block_size = (\<lambda>dev. 40),
      alloc_zone = (\<lambda>dev z0 fs.
        case find (\<lambda>z. legal fs z \<and> z \<notin> set (used (fs_world fs))) [2, 3, 4, 5, 6, 7, 8, 9] of
          Some z \<Rightarrow> (z, fs\<lparr>fs_world := (fs_world fs)\<lparr>used := z # used (fs_world fs)\<rparr>\<rparr>)
        | None \<Rightarrow> (NO_ZONE, fs\<lparr>err_code := Err ENOSPC\<rparr>)),
      free_zone = (\<lambda>dev z fs. fs\<lparr>fs_world := (fs_world fs)\<lparr>used := removeAll z (used (fs_world fs))\<rparr>\<rparr>),
      conv4 = (\<lambda>n x. x),
      V2_INDIRECTS = (\<lambda>bs. bs div 4),
      V2_NR_TZONES = 10,
      VMC_NO_INODE = 0,
      NR_IOREQS = 4,
      lmfs_nr_bufs = 8,
      lmfs_bufs_in_use = inuse,
      lmfs_rw_scattered = (\<lambda>dev bs rw fs. fs\<lparr>fs_world := (fs_world fs)\<lparr>inuse := inuse (fs_world fs) - length bs\<rparr>\<rparr>),
      lmfs_reset_rdwt_err = (\<lambda>fs. fs),
      lmfs_rdwt_err = (\<lambda>fs. OK),
      END_OF_FILE = Err (EOTHER 104),
      find_inode = (\<lambda>n fs. if n = 5 then Some 0 else None),
      get_inode = (\<lambda>n fs. (if n = 5 then Some 0 else None, fs)),
      put_inode = (\<lambda>i fs. fs),
      sys_safecopyto = (\<lambda>gid off d fs. if off + length d \<le> length (mem (fs_world fs))
        then (OK, fs\<lparr>fs_world := (fs_world fs)\<lparr>mem := put_bytes off d (mem (fs_world fs))\<rparr>\<rparr>) else (Err EINVAL, fs)),
      sys_safecopyfrom = (\<lambda>gid off n fs. if off + n \<le> length (mem (fs_world fs))
        then (OK, take n (drop off (mem (fs_world fs))), fs) else (Err EINVAL, [], fs)),
      sys_safememset = (\<lambda>gid off c n fs. if off + n \<le> length (mem (fs_world fs))
        then (OK, fs\<lparr>fs_world := (fs_world fs)\<lparr>mem := put_bytes off (replicate n c) (mem (fs_world fs))\<rparr>\<rparr>) else (Err EINVAL, fs))\<rparr>"

definition mdemo_used :: "mworld \<Rightarrow> zone_t set" where
  "mdemo_used w = set (used w)"

definition mdemo_sb :: super_block where
  "mdemo_sb = \<lparr>s_block_size = 40, s_log_zone_size = 0, s_max_size = 4600, s_rd_only = False, s_firstdatazone = 2,
     s_zones = 20, s_native = True, s_version_V3 = True, s_dev = 1\<rparr>"

definition mdemo_inode :: "mode_t \<Rightarrow> zone_t \<Rightarrow> inode" where
  "mdemo_inode mode z2 = \<lparr>i_mode = mode, i_size = 0, i_zone = put32 32 z2 (replicate 40 0), i_dev = 1, i_num = 5, i_ndzones = 7,
     i_nindirs = 10, i_zsearch = NO_ZONE, i_update = {}, i_dirty = False, i_no_seek = False\<rparr>"

definition mdemo_fs :: "mode_t \<Rightarrow> zone_t list \<Rightarrow> u8 list \<Rightarrow> mworld mfs" where
  "mdemo_fs mode us m = \<lparr>superblock = mdemo_sb, blocks = (\<lambda>_. replicate 40 0), dirty = {}, err_code = OK,
     inodes = [mdemo_inode mode 0], fs_console = [], fs_world = \<lparr>used = us, mem = m, inuse = 0\<rparr>\<rparr>"

lemma mdemo_alloc:
  assumes "alloc_zone mdemo_env dev z0 fs = (z, t)"
  shows "superblock t = superblock fs \<and> blocks t = blocks fs \<and> inodes t = inodes fs \<and> fs_console t = fs_console fs
      \<and> (if z = NO_ZONE then mdemo_used (fs_world t) = mdemo_used (fs_world fs) \<and> err_code t \<noteq> OK
         else legal fs z \<and> z \<notin> mdemo_used (fs_world fs) \<and> mdemo_used (fs_world t) = insert z (mdemo_used (fs_world fs)))"
proof (cases "find (\<lambda>z. legal fs z \<and> z \<notin> set (used (fs_world fs))) [2, 3, 4, 5, 6, 7, 8, 9]")
  case None
  then have "z = NO_ZONE" "t = fs\<lparr>err_code := Err ENOSPC\<rparr>"
    using assms unfolding mdemo_env_def by (simp_all add: None del: find.simps)
  then show ?thesis by simp
next
  case (Some y)
  then have "legal fs y \<and> y \<notin> set (used (fs_world fs))" by (auto simp: find_Some_iff simp del: find.simps)
  moreover have "z = y" "t = fs\<lparr>fs_world := (fs_world fs)\<lparr>used := y # used (fs_world fs)\<rparr>\<rparr>"
    using assms unfolding mdemo_env_def by (auto simp: Some simp del: find.simps)
  ultimately show ?thesis by (auto simp: mdemo_used_def legal_def)
qed

lemma mdemo_env_sel [simp]:
  "get_block mdemo_env dev b m fs = (\<lparr>b_key = (dev, b), lmfs_dev = dev\<rparr>, fs\<lparr>fs_world := (fs_world fs)\<lparr>inuse := inuse (fs_world fs) + 1\<rparr>\<rparr>)"
  "lmfs_get_block_ino mdemo_env dev b m i off fs = (\<lparr>b_key = (dev, b), lmfs_dev = dev\<rparr>, fs\<lparr>fs_world := (fs_world fs)\<lparr>inuse := inuse (fs_world fs) + 1\<rparr>\<rparr>)"
  "put_block mdemo_env bp t fs = fs\<lparr>fs_world := (fs_world fs)\<lparr>inuse := inuse (fs_world fs) - 1\<rparr>\<rparr>"
  "get_block_size mdemo_env dev = 40" "conv4 mdemo_env n x = x"
  "free_zone mdemo_env dev z fs = fs\<lparr>fs_world := (fs_world fs)\<lparr>used := removeAll z (used (fs_world fs))\<rparr>\<rparr>"
  "VMC_NO_INODE mdemo_env = 0" "lmfs_rdwt_err mdemo_env fs = OK" "lmfs_reset_rdwt_err mdemo_env fs = fs"
  by (simp_all add: mdemo_env_def)

lemma mdemo_laws: "mfs_laws mdemo_env mdemo_used"
  unfolding mfs_laws_def
  by (intro conjI allI impI; (drule mdemo_alloc)?; auto simp: fills_def same_def mdemo_used_def fun_upd_idem)

lemma mdemo_file:
  "file_ok mdemo_env U (mdemo_inode mode 0) (mdemo_fs mode us m)" "bmap mdemo_env (mdemo_inode mode 0) (mdemo_fs mode us m) n = NO_ZONE"
  "iz mdemo_env (mdemo_inode mode 0) (mdemo_fs mode us m) i = NO_ZONE"
proof -
  have "put32 32 0 (replicate 40 0) = replicate 40 (0 :: u8)" by (rule put32_get32_same) simp_all
  then have z: "i_zone (mdemo_inode mode 0) = replicate 40 0" by (simp add: mdemo_inode_def)
  show "file_ok mdemo_env U (mdemo_inode mode 0) (mdemo_fs mode us m)" "bmap mdemo_env (mdemo_inode mode 0) (mdemo_fs mode us m) n = NO_ZONE"
    "iz mdemo_env (mdemo_inode mode 0) (mdemo_fs mode us m) i = NO_ZONE"
    by (rule empty_file [OF z]; simp add: mdemo_inode_def mdemo_fs_def mdemo_sb_def)+
qed

lemma mdemo_legal: "legal (mdemo_fs mode us m) z \<longleftrightarrow> 2 \<le> z \<and> z < 20"
proof -
  have "z \<noteq> 0" if "2 \<le> z" using that by (auto simp: word_le_nat_alt)
  then show ?thesis by (auto simp: legal_def mdemo_fs_def mdemo_sb_def NO_ZONE_def)
qed


section \<open>Properties\<close>

text \<open>
  \<^const>\<open>read_map\<close> terminates without a panic and computes the abstract block map: for every
  position inside the addressable range it returns the zone that the inode and its indirect blocks
  record (0 for a hole), and changes neither blocks nor zones in use.
\<close>

theorem read_map_finds:
  assumes "mfs_laws e U" and "map_ok e U rip fs" and "position div s_block_size (superblock fs) < max_zones rip"
  shows "\<exists>t. read_map e rip position False fs = Some (bmap e rip fs (position div s_block_size (superblock fs)), t) \<and> same U t fs"
  by (rule read_map_place [OF assms])

lemma read_map_finds_witness:
  "\<exists>t. read_map mdemo_env (mdemo_inode I_REGULAR 0) 810 False (mdemo_fs I_REGULAR [] [])
     = Some (bmap mdemo_env (mdemo_inode I_REGULAR 0) (mdemo_fs I_REGULAR [] []) 20, t) \<and> same mdemo_used t (mdemo_fs I_REGULAR [] [])"
  using read_map_finds [OF mdemo_laws file_ok_sel(1) [OF mdemo_file(1)], of 810 I_REGULAR "[]" "[]"]
  by (simp add: mdemo_fs_def mdemo_sb_def max_zones_def mdemo_inode_def)

text \<open>
  Entering a zone with \<^const>\<open>write_map\<close> and looking positions up with \<^const>\<open>read_map\<close> fit together, through
  the direct, single and double indirect levels, also when indirect blocks have to be created:
  the call returns; if it reports success exactly the entry of the position changed, if it reports
  an error no entry changed; the map stays well-formed; and no block in use changes, except the
  indirect blocks of this file.
\<close>

theorem write_map_roundtrip:
  assumes "mfs_laws e U" and "map_ok e U rip fs" and "i_mode rip AND I_TYPE \<noteq> I_IMMEDIATE"
    and "n < max_zones rip" and "legal fs z"
  shows "\<exists>r rip' fs'. write_map e rip (n * s_block_size (superblock fs)) z False fs = Some (r, rip', fs') \<and> map_ok e U rip' fs'
    \<and> (\<forall>j<max_zones rip. fm_look (e, U, rip', fs') j = (if r = OK \<and> j = n then z else fm_look (e, U, rip, fs) j))
    \<and> (\<forall>b\<in>U (fs_world fs). (\<forall>i<i_nindirs rip + 2. iz e rip fs i \<noteq> b) \<longrightarrow> blocks fs' (i_dev rip, b) = blocks fs (i_dev rip, b))"
proof -
  have "n * s_block_size (superblock fs) div s_block_size (superblock fs) = n" using map_ok_sel(3,7) [OF assms(2)] by simp
  then obtain r rip' fs' where w: "write_map e rip (n * s_block_size (superblock fs)) z False fs = Some (r, rip', fs')"
    and g: "grows e U rip fs rip' fs'"
    using write_map_entered [OF assms(1,2,3), of "n * s_block_size (superblock fs)" z] assms(4,5) unfolding entered_def by auto
  have "\<forall>j<max_zones rip. fm_look (e, U, rip', fs') j = (if r = OK \<and> j = n then z else fm_look (e, U, rip, fs) j)"
    using file_map.put_spec [of "(e, U, rip, fs)" n z "r = OK" "(e, U, rip', fs')"] assms w by auto
  then show ?thesis using w grows_sel(1,9) [OF g] by blast
qed

lemma write_map_roundtrip_witness:
  "\<exists>r rip' fs'. write_map mdemo_env (mdemo_inode I_REGULAR 0) 800 9 False (mdemo_fs I_REGULAR [9] []) = Some (r, rip', fs')
    \<and> fm_look (mdemo_env, mdemo_used, rip', fs') 20 = (if r = OK then 9 else 0)
    \<and> blocks fs' (1, 9) = blocks (mdemo_fs I_REGULAR [9] []) (1, 9)"
proof -
  let ?r = "mdemo_inode I_REGULAR 0" and ?f = "mdemo_fs I_REGULAR [9] []"
  have mode: "i_mode ?r AND I_TYPE \<noteq> I_IMMEDIATE" by (simp add: mdemo_inode_def mode_consts)
  have mz: "max_zones ?r = 117" "s_block_size (superblock ?f) = 40" "i_nindirs ?r = 10" "i_dev ?r = 1"
    by (simp_all add: max_zones_def mdemo_inode_def mdemo_fs_def mdemo_sb_def)
  have ok: "map_ok mdemo_env mdemo_used ?r ?f" by (rule file_ok_sel(1) [OF mdemo_file(1)])
  have "iz mdemo_env ?r ?f i \<noteq> 9" if "i < 12" for i
    by (simp add: mdemo_file(3) NO_ZONE_def)
  moreover have "fm_look (mdemo_env, mdemo_used, ?r, ?f) 20 = 0"
    using fm_look_bmap [of mdemo_env mdemo_used ?r ?f 20] mdemo_laws ok mode mz mdemo_file(2) by (simp add: NO_ZONE_def)
  moreover have "9 \<in> mdemo_used (fs_world ?f)" by (simp add: mdemo_used_def mdemo_fs_def)
  moreover obtain r rip' fs' where "write_map mdemo_env ?r (20 * 40) 9 False ?f = Some (r, rip', fs')"
    "\<forall>j<117. fm_look (mdemo_env, mdemo_used, rip', fs') j = (if r = OK \<and> j = 20 then 9 else fm_look (mdemo_env, mdemo_used, ?r, ?f) j)"
    "\<forall>b\<in>mdemo_used (fs_world ?f). (\<forall>i<12. iz mdemo_env ?r ?f i \<noteq> b) \<longrightarrow> blocks fs' (1, b) = blocks ?f (1, b)"
    using write_map_roundtrip [OF mdemo_laws ok mode, of 20 9, unfolded mz] by (auto simp: mdemo_legal)
  ultimately show ?thesis by auto
qed



lemma fm_put_direct:
  assumes "i_mode rip AND I_TYPE \<noteq> I_IMMEDIATE" and "0 < s_block_size (superblock fs)" and "s_log_zone_size (superblock fs) = 0"
    and "n < i_ndzones rip"
  shows "fm_put (e, U, rip, fs) n z = (True, e, U, set_izone n z (IN_MARKDIRTY rip), fs)"
  using assms by (simp add: write_map_def Let_def)


text \<open>
  C34. At the first position past the double indirect block the two functions disagree: \<^const>\<open>write_map\<close>
  answers \<^verbatim>\<open>EFBIG\<close>, but \<^const>\<open>read_map\<close> compares with \<^verbatim>\<open>>\<close> and then reads the entry after the last one of
  the double indirect block, an access outside the buffer.
\<close>

theorem read_map_past_end:
  assumes laws: "mfs_laws e U" and ok: "map_ok e U rip fs" and imm: "i_mode rip AND I_TYPE \<noteq> I_IMMEDIATE"
    and dbl: "izone rip (i_ndzones rip + 1) \<noteq> NO_ZONE" and n: "position div s_block_size (superblock fs) = max_zones rip"
  shows "read_map e rip position False fs = None \<and> write_map e rip position z False fs = Some (Err EFBIG, IN_MARKDIRTY rip, fs)"
proof
  note sel = map_ok_sel [OF ok]
  let ?m = "i_nindirs rip"
  have n': "max_zones rip - i_ndzones rip - ?m = ?m * ?m" "\<not> max_zones rip < i_ndzones rip" "\<not> max_zones rip - i_ndzones rip < ?m"
    "?m * ?m div ?m = ?m"
    using sel(3) by (simp_all add: max_zones_def)
  define zd where "zd = izone rip (i_ndzones rip + 1)"
  obtain bp t where g: "get_block e (i_dev rip) zd NORMAL fs = (bp, t)" by force
  note g' = get_block_normal [OF laws g]
  have "rd_indir e bp ?m t = None"
    using g' sel(6) same_sel [OF g'(2)] by (simp add: rd_indir_def b_data_def)
  then show "read_map e rip position False fs = None"
    using n n' sel(1) dbl g zd_def by (simp add: read_map_def Let_def)
  have iz: "izone (IN_MARKDIRTY rip) k = izone rip k" for k by (simp add: izone_def)
  show "write_map e rip position z False fs = Some (Err EFBIG, IN_MARKDIRTY rip, fs)"
    using n n' sel(1,3) dbl imm by (simp add: write_map_def wm_double_def Let_def iz)
qed

lemma read_map_past_end_witness:
  "read_map mdemo_env (mdemo_inode I_REGULAR 4) 4680 False (mdemo_fs I_REGULAR [4] []) = None
   \<and> write_map mdemo_env (mdemo_inode I_REGULAR 4) 4680 9 False (mdemo_fs I_REGULAR [4] [])
     = Some (Err EFBIG, IN_MARKDIRTY (mdemo_inode I_REGULAR 4), mdemo_fs I_REGULAR [4] [])"
proof (rule read_map_past_end [OF mdemo_laws])
  let ?r = "mdemo_inode I_REGULAR 4" and ?f = "mdemo_fs I_REGULAR [4] []"
  have iz: "izone ?r 7 = 0" "izone ?r 8 = 4" by (simp_all add: izone_def mdemo_inode_def get32_put32_other)
  have ind: "ind mdemo_env ?r ?f 4 k = 0" if "k < 10" for k
    using that by (simp add: ind_def mdemo_fs_def)
  have nd: "i_ndzones ?r = 7" by (simp add: mdemo_inode_def)
  have izs: "iz mdemo_env ?r ?f i = (if i = 1 then 4 else 0)" if "i < 12" for i
    using that iz ind [of "i - 2"] by (auto simp: iz_def Let_def nd NO_ZONE_def)
  have four: "i < 12 \<longleftrightarrow> i < 10 + (2::nat)" for i by simp
  show "map_ok mdemo_env mdemo_used ?r ?f"
    unfolding map_ok_def using izs ind
    by (simp add: four [symmetric] mdemo_legal mdemo_used_def)
       (simp add: mdemo_inode_def mdemo_fs_def mdemo_sb_def mdemo_used_def NO_ZONE_def)
  show "izone ?r (i_ndzones ?r + 1) \<noteq> NO_ZONE" using iz(2) by (simp add: nd NO_ZONE_def)
qed (simp_all add: mdemo_inode_def mode_consts mdemo_fs_def mdemo_sb_def max_zones_def)

text \<open>
  \<^const>\<open>new_block\<close> returns; with a buffer, the position is mapped to the zone of that buffer, the
  block reads as zeros and every other block of the file has its old place and contents; without
  one, the position is still a hole and all other blocks are as before.
\<close>

theorem new_block_zeroed:
  assumes "mfs_laws e U" and "file_ok e U rip fs" and "i_mode rip AND I_TYPE \<noteq> I_IMMEDIATE"
    and "position div s_block_size (superblock fs) < max_zones rip"
  shows "block_made e U rip fs (position div s_block_size (superblock fs)) (new_block e rip position fs)"
  by (rule new_block_made [OF assms])

lemma new_block_zeroed_witness:
  "block_made mdemo_env mdemo_used (mdemo_inode I_REGULAR 0) (mdemo_fs I_REGULAR [] []) 20
     (new_block mdemo_env (mdemo_inode I_REGULAR 0) 810 (mdemo_fs I_REGULAR [] []))"
  using new_block_zeroed [OF mdemo_laws mdemo_file(1), of I_REGULAR 810 "[]" "[]"]
  by (simp add: mdemo_inode_def mode_consts max_zones_def mdemo_fs_def mdemo_sb_def)

end
