(* ===== verification/MFS_IO.thy ===== *)
theory MFS_IO
  imports MFS_Map
begin

text \<open>
  Reading and writing: the rest of \<^verbatim>\<open>src/Lab-10/mfs/read.c\<close>, with the immediate files of Lab 10 whose
  data lives in the zone array of the inode.

  The request message is the argument of a call and the reply fields are part of its result. The
  inode a call works on is read from the inode table, passed along, and written back on every
  return. File positions and sizes are natural numbers below \<open>2 ^ 32\<close> where the code casts them to
  \<^verbatim>\<open>unsigned\<close>; the block counters of \<^verbatim>\<open>rahead\<close> are 32-bit words and wrap. The queue of \<^verbatim>\<open>rahead\<close> is a
  list; its allocation and the reference counts of buffers are not modelled, the number of buffers
  in use is.
\<close>

section \<open>Operations\<close>

definition block_special :: "inode \<Rightarrow> bool" where
  "block_special rip \<longleftrightarrow> i_mode rip AND I_TYPE = I_BLOCK_SPECIAL"

text \<open>The loop of \<^verbatim>\<open>rahead\<close> that acquires buffers.\<close>

function rahead_loop :: "'w mfs_env \<Rightarrow> inode \<Rightarrow> dev_t \<Rightarrow> nat \<Rightarrow> u32 \<Rightarrow> block_t \<Rightarrow> nat \<Rightarrow> buf \<Rightarrow> buf list \<Rightarrow> 'w mfs
    \<Rightarrow> (buf list \<times> 'w mfs) option" where
  "rahead_loop e rip dev block_size blocks_ahead block position_running bp read_q fs =
     (let q = read_q @ [bp] in
      if blocks_ahead - 1 = 0 then Some (q, fs)
      else if int (lmfs_nr_bufs e) - 4 \<le> int (lmfs_bufs_in_use e (fs_world fs)) then Some (q, fs)
      else
        (case (if block_special rip then Some (NO_BLOCK, fs)
               else read_map e rip ((position_running + block_size) mod 2 ^ 32) True fs) of
           None \<Rightarrow> None
         | Some (thisblock, fs1) \<Rightarrow>
             (let (bp1, fs2) = (if \<not> block_special rip \<and> thisblock \<noteq> NO_BLOCK
                                then lmfs_get_block_ino e dev thisblock PREFETCH (i_num rip) (position_running + block_size) fs1
                                else get_block e dev (block + 1) PREFETCH fs1)
              in if lmfs_dev bp1 \<noteq> NO_DEV then Some (q, put_block e bp1 FULL_DATA_BLOCK fs2)
                 else rahead_loop e rip dev block_size (blocks_ahead - 1) (block + 1) (position_running + block_size) bp1 q fs2)))"
  by pat_completeness auto
termination
proof (relation "measure (\<lambda>(e, rip, dev, bs, ahead, b, p, bp, q, fs). unat (ahead - 1))", goal_cases)
  case (2 e rip dev block_size ahead)
  have "unat (ahead - 1 - 1) < unat (ahead - 1)" if "ahead - 1 \<noteq> 0" for ahead :: u32
    using unat_sub1 [OF that] that by (metis diff_less less_numeral_extra(1) unat_gt_0)
  then show ?case using 2 by simp
qed simp

declare rahead_loop.simps [simp del]

text \<open>How many blocks to acquire, given the number that covers the request.\<close>

definition rahead_blocks :: "'w mfs_env \<Rightarrow> inode \<Rightarrow> nat \<Rightarrow> nat \<Rightarrow> nat \<Rightarrow> u32 \<Rightarrow> u32" where
  "rahead_blocks e rip scale block_size position ahead0 =
     (let blocks_minimum = (if lmfs_nr_bufs e < 50 then 18 else 32);
          ind1_pos = i_ndzones rip * push_bit scale block_size;
          near = (\<not> block_special rip \<and> position mod 2 ^ 32 \<le> ind1_pos \<and> ind1_pos < i_size rip);
          left0 = (if block_special rip \<and> i_size rip = 0 then NR_IOREQS e
                   else of_int (int (i_size rip) - int (position mod 2 ^ 32) + (int block_size - 1)) div of_nat block_size);
          ahead1 = (if near then ahead0 + 1 else ahead0);
          blocks_left = (if near then left0 + 1 else left0);
          ahead2 = (if NR_IOREQS e < ahead1 then NR_IOREQS e else ahead1);
          ahead3 = (if ahead2 < blocks_minimum \<and> i_no_seek rip then blocks_minimum else ahead2)
      in if blocks_left < ahead3 then blocks_left else ahead3)"

definition rahead :: "'w mfs_env \<Rightarrow> inode \<Rightarrow> block_t \<Rightarrow> nat \<Rightarrow> nat \<Rightarrow> 'w mfs \<Rightarrow> (buf \<times> 'w mfs) option" where
  "rahead e rip baseblock position0 bytes_ahead0 fs =
     (let inuse_before = lmfs_bufs_in_use e (fs_world fs);
          block_spec = block_special rip;
          dev = (if block_spec then izone rip 0 else i_dev rip);
          block_size = get_block_size e dev
      in if dev = NO_DEV \<or> block_size = 0 then None
         else
           (let fragment = position0 mod block_size;
                position = position0 - fragment;
                bytes_ahead = (of_nat bytes_ahead0 + of_nat fragment :: u32);
                blocks_ahead = (bytes_ahead + of_nat block_size - 1) div of_nat block_size;
                (bp, fs1) = (if block_spec then get_block e dev baseblock PREFETCH fs
                             else lmfs_get_block_ino e dev baseblock PREFETCH (i_num rip) position fs)
            in if lmfs_dev bp \<noteq> NO_DEV then Some (bp, fs1)
               else do { (read_q, fs2) \<leftarrow> rahead_loop e rip dev block_size
                                            (rahead_blocks e rip (s_log_zone_size (superblock fs)) block_size position blocks_ahead)
                                            baseblock position bp [] fs1;
                         let fs3 = lmfs_rw_scattered e dev read_q READING fs2;
                         if inuse_before \<noteq> lmfs_bufs_in_use e (fs_world fs3) then None
                         else Some (if block_spec then get_block e dev baseblock NORMAL fs3
                                    else lmfs_get_block_ino e dev baseblock NORMAL (i_num rip) position fs3) }))"

text \<open>
  \<open>rw_buffer\<close> finds the buffer for a chunk: a result, or the inode and the buffer. \<open>rw_copy\<close> moves the bytes.
  The bytes that arrive from the caller are stored in the block.
\<close>

definition rw_buffer :: "'w mfs_env \<Rightarrow> inode \<Rightarrow> nat \<Rightarrow> nat \<Rightarrow> nat \<Rightarrow> nat \<Rightarrow> rw \<Rightarrow> nat \<Rightarrow> nat \<Rightarrow> nat \<Rightarrow> 'w mfs
    \<Rightarrow> (ret \<times> inode \<times> 'w mfs, buf \<times> inode \<times> 'w mfs) outcome option" where
  "rw_buffer e rip position off chunk left rw_flag gid buf_off block_size fs =
     (let block_spec = block_special rip in
      if \<not> block_spec \<and> 2 ^ 32 \<le> position then None
      else do {
        (b, fs1) \<leftarrow> (if block_spec then Some (of_nat (position div block_size), fs) else read_map e rip position False fs);
        let dev = (if block_spec then izone rip 0 else i_dev rip);
        if \<not> block_spec \<and> i_num rip = VMC_NO_INODE e then None
        else if \<not> block_spec \<and> b = NO_BLOCK
        then (if rw_flag = READING
              then (let (r, fs2) = sys_safememset e gid buf_off 0 chunk fs1;
                        fs3 = (if r \<noteq> OK then fs_print ''MFS: sys_safememset failed'' [] fs2 else fs2)
                    in Some (Return (r, rip, fs3)))
              else do { (bo, rip1, fs2) \<leftarrow> new_block e rip position fs1;
                        Some (case bo of None \<Rightarrow> Return (err_code fs2, rip1, fs2) | Some bp \<Rightarrow> Continue (bp, rip1, fs2)) })
        else if rw_flag \<noteq> WRITING
        then do { (bp, fs2) \<leftarrow> rahead e rip b position left fs1; Some (Continue (bp, rip, fs2)) }
        else
          (let n = (if chunk = block_size \<or> \<not> block_spec \<and> off = 0 \<and> i_size rip \<le> position then NO_READ else NORMAL);
               (bp, fs2) = (if block_spec then get_block e dev b n fs1
                            else lmfs_get_block_ino e dev b n (i_num rip) (rounddown position block_size) fs1)
           in Some (Continue (bp, rip, fs2))) })"

definition rw_copy :: "'w mfs_env \<Rightarrow> inode \<Rightarrow> nat \<Rightarrow> nat \<Rightarrow> nat \<Rightarrow> rw \<Rightarrow> nat \<Rightarrow> nat \<Rightarrow> nat \<Rightarrow> buf \<Rightarrow> 'w mfs \<Rightarrow> ret \<times> 'w mfs" where
  "rw_copy e rip position off chunk rw_flag gid buf_off block_size bp fs =
     (let fs1 = (if rw_flag = WRITING \<and> chunk \<noteq> block_size \<and> \<not> block_special rip \<and> i_size rip \<le> position \<and> off = 0
                 then zero_block bp fs else fs);
          (r, fs2) = (case rw_flag of
             READING \<Rightarrow> sys_safecopyto e gid buf_off (take chunk (drop off (b_data bp fs1))) fs1
           | WRITING \<Rightarrow> (let (r, d, t) = sys_safecopyfrom e gid buf_off chunk fs1
                         in (r, MARKDIRTY bp (set_data bp (put_bytes off d (b_data bp t)) t)))
           | PEEKING \<Rightarrow> (OK, fs1))
      in (r, put_block e bp (if off + chunk = block_size then FULL_DATA_BLOCK else PARTIAL_DATA_BLOCK) fs2))"

definition rw_chunk :: "'w mfs_env \<Rightarrow> inode \<Rightarrow> nat \<Rightarrow> nat \<Rightarrow> nat \<Rightarrow> nat \<Rightarrow> rw \<Rightarrow> nat \<Rightarrow> nat \<Rightarrow> nat \<Rightarrow> 'w mfs
    \<Rightarrow> (ret \<times> inode \<times> 'w mfs) option" where
  "rw_chunk e rip position off chunk left rw_flag gid buf_off block_size fs =
     do { out \<leftarrow> rw_buffer e rip position off chunk left rw_flag gid buf_off block_size fs;
          Some (case out of
                  Return x \<Rightarrow> x
                | Continue (bp, rip1, fs1) \<Rightarrow>
                    (let (r, fs2) = rw_copy e rip1 position off chunk rw_flag gid buf_off block_size bp fs1 in (r, rip1, fs2))) }"

text \<open>
  The chunk loop of \<^verbatim>\<open>fs_readwrite\<close>, and of \<^verbatim>\<open>fs_breadwrite\<close> where \<open>limit\<close> is absent: result, inode, position
  and bytes moved. \<open>limit\<close> is the size a read may not pass. \<open>rw_off\<close> is the offset in the block, \<open>rw_len\<close> the size
  of the next chunk. A block size of 0 is a division by zero.
\<close>

fun rw_off :: "nat option \<Rightarrow> nat \<Rightarrow> nat \<Rightarrow> nat" where
  "rw_off (Some f_size) position block_size = position mod 2 ^ 32 mod block_size"
| "rw_off None position block_size = position mod block_size"

fun rw_len :: "nat option \<Rightarrow> rw \<Rightarrow> nat \<Rightarrow> nat \<Rightarrow> nat \<Rightarrow> nat" where
  "rw_len limit rw_flag position nrbytes block_size =
     (let chunk = min nrbytes (block_size - rw_off limit position block_size)
      in case limit of Some f_size \<Rightarrow> if rw_flag = READING then min chunk (f_size - position) else chunk | None \<Rightarrow> chunk)"

fun rw_eof :: "nat option \<Rightarrow> rw \<Rightarrow> nat \<Rightarrow> bool" where
  "rw_eof (Some f_size) rw_flag position \<longleftrightarrow> rw_flag = READING \<and> f_size \<le> position"
| "rw_eof None rw_flag position \<longleftrightarrow> False"

lemma rw_len_pos:
  assumes "nrbytes \<noteq> 0" "block_size \<noteq> 0" "\<not> rw_eof limit rw_flag position"
  shows "0 < rw_len limit rw_flag position nrbytes block_size"
proof -
  have "rw_off limit position block_size < block_size" using assms(2) by (cases limit) simp_all
  then show ?thesis using assms by (cases limit) (auto simp: Let_def)
qed

declare rw_len.simps [simp del]

function rw_loop :: "'w mfs_env \<Rightarrow> nat option \<Rightarrow> rw \<Rightarrow> nat \<Rightarrow> nat \<Rightarrow> ret \<Rightarrow> inode \<Rightarrow> nat \<Rightarrow> nat \<Rightarrow> nat \<Rightarrow> 'w mfs
    \<Rightarrow> (ret \<times> inode \<times> nat \<times> nat \<times> 'w mfs) option" where
  "rw_loop e limit rw_flag gid block_size r rip position nrbytes cum_io fs =
     (if nrbytes = 0 then Some (r, rip, position, cum_io, fs)
      else if block_size = 0 then None
      else if rw_eof limit rw_flag position then Some (r, rip, position, cum_io, fs)
      else
        (let chunk = rw_len limit rw_flag position nrbytes block_size in
         case rw_chunk e rip position (rw_off limit position block_size) chunk nrbytes rw_flag gid cum_io block_size fs of
           None \<Rightarrow> None
         | Some (r1, rip1, fs1) \<Rightarrow>
             if r1 \<noteq> OK \<or> \<not> ret_nonneg (lmfs_rdwt_err e fs1) then Some (r1, rip1, position, cum_io, fs1)
             else rw_loop e limit rw_flag gid block_size r1 rip1 (position + chunk) (nrbytes - chunk) (cum_io + chunk) fs1))"
  by pat_completeness auto
termination
proof (relation "measure (\<lambda>(e, limit, rw, gid, bs, r, rip, pos, nrbytes, cum, fs). nrbytes)", goal_cases)
  case (2 e limit rw_flag gid block_size r rip position nrbytes)
  then show ?case using rw_len_pos [of nrbytes block_size limit rw_flag position] by simp
qed simp

declare rw_loop.simps [simp del]

definition removeInodeEntry :: "'w mfs_env \<Rightarrow> inode \<Rightarrow> inode" where
  "removeInodeEntry e rip =
     fold (\<lambda>i. set_izone i NO_ZONE) [0..<V2_NR_TZONES e] (IN_MARKDIRTY (rip\<lparr>i_size := 0, i_update := {ATIME, CTIME, MTIME}\<rparr>))"

datatype req_type = REQ_READ | REQ_WRITE | REQ_PEEK | REQ_ODD

record rwreq =
  rq_type :: req_type
  rq_inode :: nat
  rq_grant :: nat
  rq_pos :: nat
  rq_nbytes :: nat

fun rw_of :: "req_type \<Rightarrow> rw option" where
  "rw_of REQ_READ = Some READING"
| "rw_of REQ_WRITE = Some WRITING"
| "rw_of REQ_PEEK = Some PEEKING"
| "rw_of REQ_ODD = None"

text \<open>
  Moving the data of an immediate file to its first block, before a write that no longer fits: a
  result, or the inode with its new mode. The array of 40 bytes bounds the copy.
\<close>

definition imm_convert :: "'w mfs_env \<Rightarrow> nat \<Rightarrow> inode \<Rightarrow> 'w mfs \<Rightarrow> (ret \<times> inode \<times> 'w mfs, inode \<times> 'w mfs) outcome option" where
  "imm_convert e f_size rip fs =
     (if 40 < f_size \<or> length (i_zone rip) < f_size then None
      else
        (let buffer = take f_size (i_zone rip);
             rip0 = removeInodeEntry e rip;
             rip1 = rip0\<lparr>i_mode := I_REGULAR OR (i_mode rip0 AND ALL_MODES)\<rparr>
         in do { (bo, rip2, fs1) \<leftarrow> new_block e rip1 0 fs;
                 case bo of
                   None \<Rightarrow> Some (Return (err_code fs1, rip2, fs1))
                 | Some bp \<Rightarrow>
                     if length (b_data bp fs1) < f_size then None
                     else Some (Continue (rip2, put_block e bp PARTIAL_DATA_BLOCK
                                  (MARKDIRTY bp (set_data bp (put_bytes 0 buffer (b_data bp fs1)) fs1)))) }))"

text \<open>The transfer of an immediate file: result, inode, position, bytes left, bytes moved.\<close>

definition imm_transfer :: "'w mfs_env \<Rightarrow> rw \<Rightarrow> nat \<Rightarrow> nat \<Rightarrow> nat \<Rightarrow> nat \<Rightarrow> inode \<Rightarrow> 'w mfs
    \<Rightarrow> (ret \<times> inode \<times> nat \<times> nat \<times> nat \<times> 'w mfs) option" where
  "imm_transfer e rw_flag gid f_size position nrbytes rip fs =
     (if rw_flag = READING
      then (if 40 < f_size \<or> length (i_zone rip) < f_size then None
            else
              (let buffer = take f_size (i_zone rip);
                   (r, fs1) = sys_safecopyto e gid 0 buffer (fs_print ''Reading from Immediate File...'' [] fs);
                   fs2 = fs_print ''File Contents of Immediate File :'' [] fs1;
                   fs3 = fold (\<lambda>c. fs_print ''%c'' [AInt (uint c)]) buffer fs2;
                   fs4 = fs_print ''-- EOF - Immediate File --'' [] fs3
               in Some (if r = OK then (r, rip, position + f_size, 0, f_size, fs4) else (r, rip, position, nrbytes, 0, fs4))))
      else
        (let (r, d, fs1) = sys_safecopyfrom e gid 0 nrbytes (fs_print ''Writing to Immediate File...'' [] fs) in
         if length (i_zone rip) < position + length d then None
         else
           (let rip1 = IN_MARKDIRTY (rip\<lparr>i_zone := put_bytes position d (i_zone rip)\<rparr>)
            in Some (if r = OK then (r, rip1, position + nrbytes, 0, nrbytes, fs1) else (r, rip1, position, nrbytes, 0, fs1)))))"

definition put_back :: "nat \<Rightarrow> inode \<Rightarrow> 'w mfs \<Rightarrow> 'w mfs" where
  "put_back i rip fs = fs\<lparr>inodes := (inodes fs)[i := rip]\<rparr>"

text \<open>The end of \<^verbatim>\<open>fs_readwrite\<close>: size, times and the result.\<close>

definition rw_finish :: "'w mfs_env \<Rightarrow> rw \<Rightarrow> bool \<Rightarrow> mode_t \<Rightarrow> nat \<Rightarrow> ret \<Rightarrow> nat \<Rightarrow> inode \<Rightarrow> 'w mfs \<Rightarrow> ret \<times> inode" where
  "rw_finish e rw_flag regular mode_word f_size r0 position rip0 fs =
     (let rip1 = (if rw_flag = WRITING \<and> (regular \<or> mode_word = I_DIRECTORY) \<and> f_size < position then rip0\<lparr>i_size := position\<rparr> else rip0);
          rip2 = rip1\<lparr>i_no_seek := True\<rparr>;
          err = lmfs_rdwt_err e fs;
          r1 = (if err \<noteq> OK then err else r0);
          r = (if err = END_OF_FILE e then OK else r1);
          times = (case rw_flag of READING \<Rightarrow> {ATIME} | WRITING \<Rightarrow> {CTIME, MTIME} | PEEKING \<Rightarrow> {})
      in (r, if r = OK \<and> \<not> s_rd_only (superblock fs) then IN_MARKDIRTY (rip2\<lparr>i_update := i_update rip2 \<union> times\<rparr>) else rip2))"

text \<open>The part of \<^verbatim>\<open>fs_readwrite\<close> after its checks, on the inode; the reply is position and byte count.\<close>

definition rw_file :: "'w mfs_env \<Rightarrow> rw \<Rightarrow> nat \<Rightarrow> nat \<Rightarrow> nat \<Rightarrow> nat \<Rightarrow> nat \<Rightarrow> inode \<Rightarrow> 'w mfs
    \<Rightarrow> (ret \<times> (nat \<times> nat) option \<times> inode \<times> 'w mfs) option" where
  "rw_file e rw_flag gid block_size f_size position nrbytes rip fs =
     (let mode_word = i_mode rip AND I_TYPE;
          regular = (mode_word = I_REGULAR \<or> mode_word = I_NAMED_PIPE \<or> mode_word = I_IMMEDIATE);
          imm = (mode_word = I_IMMEDIATE);
          convert = (imm \<and> rw_flag = WRITING \<and> 32 < position + nrbytes);
          immediate = (imm \<and> (if rw_flag = WRITING then \<not> 32 < position + nrbytes else position < f_size))
      in do { out \<leftarrow> (if convert then imm_convert e f_size rip fs else Some (Continue (rip, fs)));
              case out of
                Return (r, rip1, fs1) \<Rightarrow> Some (r, None, rip1, fs1)
              | Continue (rip1, fs1) \<Rightarrow>
                  do { (r1, rip2, position1, nrbytes1, cum_io, fs2) \<leftarrow>
                         (if immediate then imm_transfer e rw_flag gid f_size position nrbytes rip1 fs1
                          else Some (OK, rip1, position, nrbytes, 0, fs1));
                       (r2, rip3, position2, cum_io2, fs3) \<leftarrow>
                         rw_loop e (Some f_size) rw_flag gid block_size r1 rip2 position1 nrbytes1 cum_io fs2;
                       let (r, rip4) = rw_finish e rw_flag regular (i_mode rip1 AND I_TYPE) f_size r2 position2 rip3 fs3;
                       Some (r, Some (position2, cum_io2), rip4, fs3) } })"

definition fs_readwrite :: "'w mfs_env \<Rightarrow> rwreq \<Rightarrow> 'w mfs \<Rightarrow> (ret \<times> (nat \<times> nat) option \<times> 'w mfs) option" where
  "fs_readwrite e rq fs =
     (case find_inode e (rq_inode rq) fs of
        None \<Rightarrow> Some (Err EINVAL, None, fs)
      | Some i \<Rightarrow>
          (let rip = inodes fs ! i;
               block_spec = block_special rip;
               block_size = (if block_spec then get_block_size e (izone rip 0) else s_block_size (superblock fs));
               f_size = (if block_spec then MAX_FILE_POS else i_size rip)
           in do { rw_flag \<leftarrow> rw_of (rq_type rq);
                   let fs1 = lmfs_reset_rdwt_err e fs;
                   if rw_flag = WRITING \<and> \<not> block_spec \<and> s_rd_only (superblock fs1) then Some (Err EROFS, None, fs1)
                   else if rw_flag = WRITING \<and> \<not> block_spec \<and> s_max_size (superblock fs1) - int (rq_nbytes rq) < int (rq_pos rq)
                   then Some (Err EFBIG, None, fs1)
                   else do {
                     _ \<leftarrow> (if rw_flag = WRITING \<and> \<not> block_spec \<and> f_size < rq_pos rq then clear_zone fs1 else Some ());
                     if block_spec \<and> rw_flag = WRITING \<and> izone rip 0 = s_dev (superblock fs1) \<and> s_rd_only (superblock fs1)
                     then Some (Err EROFS, None, fs1)
                     else do { (r, out, rip1, fs2) \<leftarrow> rw_file e rw_flag (rq_grant rq) block_size f_size (rq_pos rq) (rq_nbytes rq) rip fs1;
                               Some (r, out, put_back i rip1 fs2) } } }))"

text \<open>
  Block device transfers. The pseudo inode is an uninitialised local variable, \<open>junk\<close>, with three
  fields set.
\<close>

definition fs_breadwrite :: "'w mfs_env \<Rightarrow> inode \<Rightarrow> rw \<Rightarrow> dev_t \<Rightarrow> nat \<Rightarrow> nat \<Rightarrow> nat \<Rightarrow> 'w mfs \<Rightarrow> (ret \<times> (nat \<times> nat) option \<times> 'w mfs) option" where
  "fs_breadwrite e junk rw_flag target_dev gid position nrbytes fs =
     (let block_size = get_block_size e target_dev in
      if s_dev (superblock fs) = target_dev \<and> s_rd_only (superblock fs) then Some (Err EROFS, None, fs)
      else do {
        let rip = (set_izone 0 target_dev junk)\<lparr>i_mode := I_BLOCK_SPECIAL, i_size := 0\<rparr>;
        (r, _, position1, cum_io, fs1) \<leftarrow> rw_loop e None rw_flag gid block_size OK rip position nrbytes 0 (lmfs_reset_rdwt_err e fs);
        let err = lmfs_rdwt_err e fs1;
        let r1 = (if err \<noteq> OK then err else r);
        Some (if err = END_OF_FILE e then OK else r1, Some (position1, cum_io), fs1) })"


subsection \<open>fs\_getdents\<close>

text \<open>
  The layout of directory entries on disk and of \<^verbatim>\<open>struct dirent\<close> comes from headers that are not
  part of the repository: entry size and count, inode number and name field of entry \<open>k\<close> of a block, the record length
  for a name length, and storing a record at an offset of the buffer.
\<close>

record dir_env =
  DIR_ENTRY_SIZE :: nat
  NR_DIR_ENTRIES :: "nat \<Rightarrow> nat"
  mfs_d_ino :: "u8 list \<Rightarrow> nat \<Rightarrow> nat"
  mfs_d_name :: "u8 list \<Rightarrow> nat \<Rightarrow> u8 list"
  DIRENT_RECLEN :: "nat \<Rightarrow> nat"
  sizeof_dirent :: nat
  MFS_NAME_MAX :: nat
  put_dirent :: "nat \<Rightarrow> nat \<Rightarrow> nat \<Rightarrow> nat \<Rightarrow> u8 list \<Rightarrow> dtype \<Rightarrow> u8 list \<Rightarrow> u8 list"

definition GETDENTS_BUFSIZE :: "dir_env \<Rightarrow> nat" where
  "GETDENTS_BUFSIZE d = sizeof_dirent d + MFS_NAME_MAX d + 1"

definition GETDENTS_ENTRIES :: nat where
  "GETDENTS_ENTRIES = 8"

record gdents =
  g_done :: bool
  tmpbuf_off :: nat
  userbuf_off :: nat
  new_pos :: nat
  getdents_buf :: "u8 list"

text \<open>The entries \<open>ks\<close> of the directory block in \<open>bp\<close>: a failed copy, or the state after them.\<close>

fun gd_block :: "'w mfs_env \<Rightarrow> dir_env \<Rightarrow> nat \<Rightarrow> nat \<Rightarrow> nat \<Rightarrow> buf \<Rightarrow> nat list \<Rightarrow> gdents \<Rightarrow> 'w mfs
    \<Rightarrow> (ret \<times> 'w mfs, gdents \<times> 'w mfs) outcome option" where
  "gd_block e d gid usize block_pos bp [] g fs = Some (Continue (g, fs))"
| "gd_block e d gid usize block_pos bp (k # ks) g fs =
     (let ino = mfs_d_ino d (b_data bp fs) k; name = mfs_d_name d (b_data bp fs) k;
          len = length (takeWhile (\<lambda>c. c \<noteq> 0) name); reclen = DIRENT_RECLEN d len in
      if ino = 0 then gd_block e d gid usize block_pos bp ks g fs
      else if usize \<le> userbuf_off g + tmpbuf_off g + reclen
      then Some (Continue (g\<lparr>g_done := True, new_pos := block_pos + k * DIR_ENTRY_SIZE d\<rparr>, fs))
      else
        (let flush = (GETDENTS_BUFSIZE d * GETDENTS_ENTRIES \<le> tmpbuf_off g + reclen);
             (r, fs1) = (if flush then sys_safecopyto e gid (userbuf_off g) (take (tmpbuf_off g) (getdents_buf g)) fs else (OK, fs));
             g1 = (if flush then g\<lparr>userbuf_off := userbuf_off g + tmpbuf_off g, tmpbuf_off := 0\<rparr> else g);
             (io, fs2) = get_inode e ino fs1
         in if flush \<and> r \<noteq> OK then Some (Return (r, fs1))
            else do { i \<leftarrow> io;
                      ty \<leftarrow> fs_mode_to_type (i_mode (inodes fs2 ! i));
                      gd_block e d gid usize block_pos bp ks
                        (g1\<lparr>getdents_buf := put_dirent d (tmpbuf_off g1) ino reclen len (take len name) ty (getdents_buf g1),
                            tmpbuf_off := tmpbuf_off g1 + reclen\<rparr>) (put_inode e i fs2) }))"

function gd_blocks :: "'w mfs_env \<Rightarrow> dir_env \<Rightarrow> nat \<Rightarrow> nat \<Rightarrow> nat \<Rightarrow> nat \<Rightarrow> inode \<Rightarrow> nat \<Rightarrow> gdents \<Rightarrow> 'w mfs
    \<Rightarrow> (ret \<times> 'w mfs, gdents \<times> 'w mfs) outcome option" where
  "gd_blocks e d gid usize pos block_size rip block_pos g fs =
     (if block_size = 0 then None
      else if \<not> block_pos < i_size rip then Some (Continue (g, fs))
      else
        (case get_block_map e rip block_pos fs of
           Some (Some bp, fs1) \<Rightarrow>
             (case gd_block e d gid usize block_pos bp
                     [(if block_pos < pos then pos mod block_size div DIR_ENTRY_SIZE d else 0)..<NR_DIR_ENTRIES d block_size] g fs1 of
                Some (Continue (g1, fs2)) \<Rightarrow>
                  (let fs3 = put_block e bp DIRECTORY_BLOCK fs2 in
                   if g_done g1 then Some (Continue (g1, fs3))
                   else gd_blocks e d gid usize pos block_size rip (block_pos + block_size) g1 fs3)
              | out \<Rightarrow> out)
         | _ \<Rightarrow> None))"
  by pat_completeness auto
termination
  by (relation "measure (\<lambda>(e, d, gid, usize, pos, block_size, rip, block_pos, g, fs). i_size rip - block_pos)") simp_all

declare gd_blocks.simps [simp del]

definition fs_getdents :: "'w mfs_env \<Rightarrow> dir_env \<Rightarrow> nat \<Rightarrow> nat \<Rightarrow> nat \<Rightarrow> nat \<Rightarrow> 'w mfs \<Rightarrow> (ret \<times> (nat \<times> nat) option \<times> 'w mfs) option" where
  "fs_getdents e d ino gid usize pos fs =
     (if pos mod 2 ^ 32 mod DIR_ENTRY_SIZE d \<noteq> 0 then Some (Err ENOENT, None, fs)
      else
        (let (io, fs1) = get_inode e ino fs in
         case io of
           None \<Rightarrow> Some (Err EINVAL, None, fs1)
         | Some i \<Rightarrow>
             (let rip = inodes fs1 ! i;
                  block_size = s_block_size (superblock fs1);
                  g = \<lparr>g_done = False, tmpbuf_off = 0, userbuf_off = 0, new_pos = i_size rip,
                       getdents_buf = replicate (GETDENTS_BUFSIZE d * GETDENTS_ENTRIES) 0\<rparr>
              in do { out \<leftarrow> gd_blocks e d gid usize pos block_size rip (pos - pos mod block_size) g fs1;
                      case out of
                        Return (r, fs2) \<Rightarrow> Some (r, None, put_inode e i fs2)
                      | Continue (g1, fs2) \<Rightarrow>
                          (let rest = (tmpbuf_off g1 \<noteq> 0);
                               (r, fs3) = (if rest then sys_safecopyto e gid (userbuf_off g1) (take (tmpbuf_off g1) (getdents_buf g1)) fs2 else (OK, fs2));
                               total = userbuf_off g1 + tmpbuf_off g1
                           in if rest \<and> r \<noteq> OK then Some (r, None, put_inode e i fs3)
                              else if g_done g1 \<and> total = 0 then Some (Err EINVAL, None, put_inode e i fs3)
                              else
                                (let fs4 = (if s_rd_only (superblock fs3) then fs3
                                            else fs3\<lparr>inodes := upd_at i (\<lambda>rip. IN_MARKDIRTY (rip\<lparr>i_update := i_update rip \<union> {ATIME}\<rparr>)) (inodes fs3)\<rparr>)
                                 in Some (OK, Some (total, new_pos g1), put_inode e i fs4))) })))"

end
