(* ===== verification/MFS_File.thy ===== *)
theory MFS_File
  imports MFS_IO
begin

text \<open>
  Files as byte sequences. The abstraction of a regular file is the function from positions to
  bytes that its block map gives; \<open>rw_chunk\<close>, the chunk loop and \<open>fs_readwrite\<close> are related to it, and
  the immediate files of Lab 10 to the bytes of the inode.
\<close>

section \<open>What the transfers rely on\<close>

text \<open>
  \<open>M\<close> gives the memory behind the caller's grant. Only the copies to the caller change it; a copy
  that fails has moved nothing. Acquiring a buffer adds one to the number of buffers in use, releasing
  or reading in queued buffers takes them back; a \<^const>\<open>PREFETCH\<close> changes no contents.
\<close>

abbreviation cnt :: "'w mfs_env \<Rightarrow> 'w mfs \<Rightarrow> nat" where
  "cnt e fs \<equiv> lmfs_bufs_in_use e (fs_world fs)"

abbreviation mm :: "('w \<Rightarrow> u8 list) \<Rightarrow> 'w mfs \<Rightarrow> u8 list" where
  "mm M fs \<equiv> M (fs_world fs)"

definition cache_laws :: "'w mfs_env \<Rightarrow> ('w \<Rightarrow> zone_t set) \<Rightarrow> ('w \<Rightarrow> u8 list) \<Rightarrow> bool" where
  "cache_laws e U M \<longleftrightarrow>
     (\<forall>dev b fs. b_key (fst (get_block e dev b PREFETCH fs)) = (dev, b) \<and> same U (snd (get_block e dev b PREFETCH fs)) fs)
   \<and> (\<forall>dev b i off fs. b_key (fst (lmfs_get_block_ino e dev b PREFETCH i off fs)) = (dev, b)
        \<and> same U (snd (lmfs_get_block_ino e dev b PREFETCH i off fs)) fs)
   \<and> (\<forall>dev b m fs. cnt e (snd (get_block e dev b m fs)) = cnt e fs + 1 \<and> mm M (snd (get_block e dev b m fs)) = mm M fs)
   \<and> (\<forall>dev b m i off fs. cnt e (snd (lmfs_get_block_ino e dev b m i off fs)) = cnt e fs + 1
        \<and> mm M (snd (lmfs_get_block_ino e dev b m i off fs)) = mm M fs)
   \<and> (\<forall>bp t fs. cnt e (put_block e bp t fs) = cnt e fs - 1 \<and> mm M (put_block e bp t fs) = mm M fs)
   \<and> (\<forall>dev z fs. mm M (snd (alloc_zone e dev z fs)) = mm M fs)
   \<and> (\<forall>dev z fs. mm M (free_zone e dev z fs) = mm M fs)
   \<and> (\<forall>dev q fs. same U (lmfs_rw_scattered e dev q READING fs) fs \<and> cnt e (lmfs_rw_scattered e dev q READING fs) = cnt e fs - length q
        \<and> mm M (lmfs_rw_scattered e dev q READING fs) = mm M fs)"

definition copy_laws :: "'w mfs_env \<Rightarrow> ('w \<Rightarrow> zone_t set) \<Rightarrow> ('w \<Rightarrow> u8 list) \<Rightarrow> bool" where
  "copy_laws e U M \<longleftrightarrow>
     (\<forall>gid off d fs r t. sys_safecopyto e gid off d fs = (r, t) \<longrightarrow> same U t fs
        \<and> (if r = OK then off + length d \<le> length (mm M fs) \<and> mm M t = put_bytes off d (mm M fs) else mm M t = mm M fs))
   \<and> (\<forall>gid off n fs r d t. sys_safecopyfrom e gid off n fs = (r, d, t) \<longrightarrow> same U t fs \<and> mm M t = mm M fs
        \<and> (if r = OK then off + n \<le> length (mm M fs) \<and> d = take n (drop off (mm M fs)) else d = []))
   \<and> (\<forall>gid off c n fs r t. sys_safememset e gid off c n fs = (r, t) \<longrightarrow> same U t fs
        \<and> (if r = OK then off + n \<le> length (mm M fs) \<and> mm M t = put_bytes off (replicate n c) (mm M fs) else mm M t = mm M fs))
   \<and> (\<forall>fs. same U (lmfs_reset_rdwt_err e fs) fs \<and> mm M (lmfs_reset_rdwt_err e fs) = mm M fs)"

lemma cache_lawsD:
  assumes "cache_laws e U M"
  shows "get_block e dev b PREFETCH fs = (bp, t) \<Longrightarrow> b_key bp = (dev, b) \<and> same U t fs"
    "lmfs_get_block_ino e dev b PREFETCH i off fs = (bp, t) \<Longrightarrow> b_key bp = (dev, b) \<and> same U t fs"
    "get_block e dev b m fs = (bp, t) \<Longrightarrow> cnt e t = cnt e fs + 1 \<and> mm M t = mm M fs"
    "lmfs_get_block_ino e dev b m i off fs = (bp, t) \<Longrightarrow> cnt e t = cnt e fs + 1 \<and> mm M t = mm M fs"
    "cnt e (put_block e bp ty fs) = cnt e fs - 1 \<and> mm M (put_block e bp ty fs) = mm M fs"
    "alloc_zone e dev z fs = (z', t) \<Longrightarrow> mm M t = mm M fs"
    "mm M (free_zone e dev z fs) = mm M fs"
    "same U (lmfs_rw_scattered e dev q READING fs) fs \<and> cnt e (lmfs_rw_scattered e dev q READING fs) = cnt e fs - length q
        \<and> mm M (lmfs_rw_scattered e dev q READING fs) = mm M fs"
proof -
  note L = assms [unfolded cache_laws_def]
  have 1: "b_key (fst (get_block e dev b PREFETCH fs)) = (dev, b) \<and> same U (snd (get_block e dev b PREFETCH fs)) fs" using L by simp
  have 2: "b_key (fst (lmfs_get_block_ino e dev b PREFETCH i off fs)) = (dev, b)
        \<and> same U (snd (lmfs_get_block_ino e dev b PREFETCH i off fs)) fs" using L by simp
  have 3: "cnt e (snd (get_block e dev b m fs)) = cnt e fs + 1 \<and> mm M (snd (get_block e dev b m fs)) = mm M fs" using L by simp
  have 4: "cnt e (snd (lmfs_get_block_ino e dev b m i off fs)) = cnt e fs + 1
        \<and> mm M (snd (lmfs_get_block_ino e dev b m i off fs)) = mm M fs" using L by simp
  have 6: "mm M (snd (alloc_zone e dev z fs)) = mm M fs" using L by simp
  show "get_block e dev b PREFETCH fs = (bp, t) \<Longrightarrow> b_key bp = (dev, b) \<and> same U t fs" using 1 by simp
  show "lmfs_get_block_ino e dev b PREFETCH i off fs = (bp, t) \<Longrightarrow> b_key bp = (dev, b) \<and> same U t fs" using 2 by simp
  show "get_block e dev b m fs = (bp, t) \<Longrightarrow> cnt e t = cnt e fs + 1 \<and> mm M t = mm M fs" using 3 by simp
  show "lmfs_get_block_ino e dev b m i off fs = (bp, t) \<Longrightarrow> cnt e t = cnt e fs + 1 \<and> mm M t = mm M fs" using 4 by simp
  show "alloc_zone e dev z fs = (z', t) \<Longrightarrow> mm M t = mm M fs" using 6 by simp
  show "cnt e (put_block e bp ty fs) = cnt e fs - 1 \<and> mm M (put_block e bp ty fs) = mm M fs"
    "mm M (free_zone e dev z fs) = mm M fs"
    "same U (lmfs_rw_scattered e dev q READING fs) fs \<and> cnt e (lmfs_rw_scattered e dev q READING fs) = cnt e fs - length q
        \<and> mm M (lmfs_rw_scattered e dev q READING fs) = mm M fs" using L by simp_all
qed

lemma copy_lawsD:
  assumes "copy_laws e U M"
  shows "sys_safecopyto e gid off d fs = (r, t) \<Longrightarrow> same U t fs
        \<and> (if r = OK then off + length d \<le> length (mm M fs) \<and> mm M t = put_bytes off d (mm M fs) else mm M t = mm M fs)"
    "sys_safecopyfrom e gid off n fs = (r, d, t) \<Longrightarrow> same U t fs \<and> mm M t = mm M fs
        \<and> (if r = OK then off + n \<le> length (mm M fs) \<and> d = take n (drop off (mm M fs)) else d = [])"
    "sys_safememset e gid off c n fs = (r, t) \<Longrightarrow> same U t fs
        \<and> (if r = OK then off + n \<le> length (mm M fs) \<and> mm M t = put_bytes off (replicate n c) (mm M fs) else mm M t = mm M fs)"
    "same U (lmfs_reset_rdwt_err e fs) fs" "mm M (lmfs_reset_rdwt_err e fs) = mm M fs"
proof -
  note L = assms [unfolded copy_laws_def]
  from L show "same U (lmfs_reset_rdwt_err e fs) fs" "mm M (lmfs_reset_rdwt_err e fs) = mm M fs" by simp_all
qed (use assms in \<open>unfold copy_laws_def, elim conjE, blast\<close>)+

text \<open>
  An observation of the state that no operation of the cache and the allocator changes, nor a change
  of block contents, is the same after the operations on the map. The caller's memory and the inode
  table are such observations.
\<close>

definition quiet :: "'w mfs_env \<Rightarrow> ('w mfs \<Rightarrow> 'x) \<Rightarrow> bool" where
  "quiet e f \<longleftrightarrow>
     (\<forall>dev b m fs. f (snd (get_block e dev b m fs)) = f fs) \<and> (\<forall>dev b m i off fs. f (snd (lmfs_get_block_ino e dev b m i off fs)) = f fs)
   \<and> (\<forall>bp t fs. f (put_block e bp t fs) = f fs) \<and> (\<forall>dev z fs. f (snd (alloc_zone e dev z fs)) = f fs)
   \<and> (\<forall>dev z fs. f (free_zone e dev z fs) = f fs) \<and> (\<forall>fs B. f (fs\<lparr>blocks := B\<rparr>) = f fs)
   \<and> (\<forall>fs D. f (fs\<lparr>dirty := D\<rparr>) = f fs) \<and> (\<forall>fs r. f (fs\<lparr>err_code := r\<rparr>) = f fs)"

lemma quietD:
  assumes "quiet e f"
  shows "get_block e dev b m fs = (bp, t) \<Longrightarrow> f t = f fs" "lmfs_get_block_ino e dev b m i off fs = (bp, t) \<Longrightarrow> f t = f fs"
    "alloc_zone e dev z fs = (z', t) \<Longrightarrow> f t = f fs"
proof -
  have 1: "f (snd (get_block e dev b m fs)) = f fs" and 2: "f (snd (lmfs_get_block_ino e dev b m i off fs)) = f fs"
    and 3: "f (snd (alloc_zone e dev z fs)) = f fs"
    using assms by (simp_all add: quiet_def)
  show "get_block e dev b m fs = (bp, t) \<Longrightarrow> f t = f fs" "lmfs_get_block_ino e dev b m i off fs = (bp, t) \<Longrightarrow> f t = f fs"
    "alloc_zone e dev z fs = (z', t) \<Longrightarrow> f t = f fs" using 1 2 3 by simp_all
qed

lemma quiet_simps:
  assumes "quiet e f"
  shows "f (put_block e bp ty fs) = f fs" "f (free_zone e dev z fs) = f fs" "f (fs\<lparr>err_code := r\<rparr>) = f fs"
    "f (zero_block bp fs) = f fs" "f (MARKDIRTY bp fs) = f fs" "f (MARKCLEAN bp fs) = f fs" "f (set_data bp d fs) = f fs"
  using assms by (simp_all add: quiet_def zero_block_def MARKDIRTY_def MARKCLEAN_def set_data_def)

lemma quiet_mem:
  assumes "cache_laws e U M"
  shows "quiet e (mm M)"
  using assms by (simp add: quiet_def cache_laws_def)

lemma quiet_inodes:
  assumes l: "mfs_laws e U" and c: "cache_laws e U M"
  shows "quiet e inodes"
proof -
  have f: "inodes t = inodes fs" if "fills U dev b m fs (bp, t)" for dev b m fs bp t
    using that by (auto simp: fills_def same_def split: if_splits)
  have "inodes (snd (get_block e dev b m fs)) = inodes fs" for dev b m fs
  proof (cases "m = PREFETCH")
    case True
    obtain bp t where g: "get_block e dev b PREFETCH fs = (bp, t)" by force
    then show ?thesis using True cache_lawsD(1) [OF c g] by (simp add: same_def)
  next
    case False
    then show ?thesis using get_block_fills [OF l False, of dev b fs] f by (metis prod.collapse)
  qed
  moreover have "inodes (snd (lmfs_get_block_ino e dev b m i off fs)) = inodes fs" for dev b m i off fs
  proof (cases "m = PREFETCH")
    case True
    obtain bp t where g: "lmfs_get_block_ino e dev b PREFETCH i off fs = (bp, t)" by force
    then show ?thesis using True cache_lawsD(2) [OF c g] by (simp add: same_def)
  next
    case False
    then show ?thesis using get_block_ino_fills [OF l False, of dev b fs i off] f by (metis prod.collapse)
  qed
  moreover have "inodes (snd (alloc_zone e dev z fs)) = inodes fs" for dev z fs
    using alloc_zone_laws(3) [OF l] by (cases "alloc_zone e dev z fs") auto
  moreover have "inodes (put_block e bp t fs) = inodes fs" for bp t fs using put_block_same(1) [OF l] by (simp add: same_def)
  moreover have "inodes (free_zone e dev z fs) = inodes fs" for dev z fs using l by (simp add: mfs_laws_def)
  ultimately show ?thesis by (simp add: quiet_def)
qed

lemma wr_indir_quiet: "quiet e f \<Longrightarrow> wr_indir e bp k z fs = Some t \<Longrightarrow> f t = f fs"
  by (auto simp: wr_indir_def Let_def quiet_simps split: if_splits)

lemma read_map_quiet:
  assumes q: "quiet e f" and "read_map e rip p opp fs = Some (b, t)"
  shows "f t = f fs"
  using assms(2) unfolding read_map_def read_single_def Let_def
  by (auto simp: quiet_simps [OF q] split: if_splits prod.splits bind_splits dest!: quietD(1) [OF q])

lemma read_map_count:
  assumes c: "cache_laws e U M" and "read_map e rip p opp fs = Some (b, t)"
  shows "cnt e t = cnt e fs"
  using assms(2) unfolding read_map_def read_single_def Let_def
  by (auto simp: cache_lawsD(5) [OF c] split: if_splits prod.splits bind_splits dest!: cache_lawsD(3) [OF c])

lemma wm_double_quiet:
  assumes q: "quiet e f"
  shows "wm_double e wfree x rip fs = Some (Return (r, rip', t)) \<Longrightarrow> f t = f fs"
    "wm_double e wfree x rip fs = Some (Continue (rip', dbl, z1, t)) \<Longrightarrow> f t = f fs"
  unfolding wm_double_def Let_def
  by (auto simp: quiet_simps [OF q] split: bind_splits if_splits prod.splits dest!: quietD [OF q])

lemma wm_create_quiet:
  assumes q: "quiet e f"
  shows "wm_create e single d rip dbl fs = Some (Return (r, rip', t)) \<Longrightarrow> f t = f fs"
    "wm_create e single d rip dbl fs = Some (Continue (rip', z1, t)) \<Longrightarrow> f t = f fs"
  unfolding wm_create_def Let_def
  by (auto simp: quiet_simps [OF q] split: bind_splits if_splits prod.splits option.splits
      dest!: quietD(3) [OF q] wr_indir_quiet [OF q])

lemma wm_enter_quiet:
  assumes q: "quiet e f"
  shows "wm_enter e wfree single new d k z1 z rip dbl fs = Some (z1', rip', t) \<Longrightarrow> f t = f fs"
  unfolding wm_enter_def Let_def
  by (auto simp: quiet_simps [OF q] split: bind_splits if_splits prod.splits option.splits
      dest!: quietD(1) [OF q] wr_indir_quiet [OF q])

lemma wm_finish_quiet:
  assumes q: "quiet e f"
  shows "wm_finish e single z1 z2 rip dbl fs = (r, rip', t) \<Longrightarrow> f t = f fs"
  unfolding wm_finish_def Let_def by (auto simp: quiet_simps [OF q] split: option.splits if_splits)

lemma wm_single_quiet:
  assumes q: "quiet e f"
  shows "wm_single e wfree single d k z z2 rip dbl z1 fs = Some (r, rip', t) \<Longrightarrow> f t = f fs"
  unfolding wm_single_def
  by (auto split: bind_splits if_splits prod.splits outcome.splits
      dest!: wm_create_quiet [OF q] wm_enter_quiet [OF q] wm_finish_quiet [OF q])

lemma write_map_quiet:
  assumes q: "quiet e f"
  shows "write_map e rip p z wfree fs = Some (r, rip', t) \<Longrightarrow> f t = f fs"
  unfolding write_map_def Let_def
  by (auto simp: quiet_simps [OF q] split: bind_splits if_splits prod.splits outcome.splits
      dest!: wm_single_quiet [OF q] wm_double_quiet [OF q])

lemma new_block_quiet:
  assumes q: "quiet e f"
  shows "new_block e rip p fs = Some (bo, rip', t) \<Longrightarrow> f t = f fs"
  unfolding new_block_def Let_def
  by (auto simp: quiet_simps [OF q] split: bind_splits if_splits prod.splits
      dest!: read_map_quiet [OF q] write_map_quiet [OF q] quietD(2) [OF q] quietD(3) [OF q])

section \<open>Reading ahead\<close>

lemma read_single_peek:
  assumes laws: "mfs_laws e U" and c: "cache_laws e U M" and ok: "map_ok e U rip fs" and i: "i < i_nindirs rip + 2" and k: "k < i_nindirs rip"
    and t: "same U t fs"
  shows "\<exists>b t'. read_single e rip (iz e rip fs i) k 0 PREFETCH t = Some (b, t') \<and> same U t' fs"
proof (cases "iz e rip fs i = NO_ZONE")
  case True
  then show ?thesis using t by (simp add: read_single_def)
next
  case False
  have sc: "s_log_zone_size (superblock t) = 0" using map_ok_sel(1) [OF ok] same_sel(1) [OF t] by simp
  obtain bp t1 where g: "get_block e (i_dev rip) (iz e rip fs i) PREFETCH t = (bp, t1)" by force
  note g' = cache_lawsD(1) [OF c g]
  have t1: "same U t1 fs" using g' t by (blast intro: same_trans)
  have "rd_indir e bp k t1 = Some (ind e rip fs (iz e rip fs i) k)"
    using rd_indir_ind [OF ok i False k conjunct1 [OF g'] t1] .
  then show ?thesis
    using False g sc same_trans [OF put_block_same(1) [OF laws] t1] by (auto simp: read_single_def)
qed

lemma read_map_peek:
  assumes laws: "mfs_laws e U" and c: "cache_laws e U M" and ok: "map_ok e U rip fs"
    and n: "position div s_block_size (superblock fs) < max_zones rip"
  shows "\<exists>b t. read_map e rip position True fs = Some (b, t) \<and> same U t fs"
proof -
  define n where "n = position div s_block_size (superblock fs)"
  let ?m = "i_nindirs rip" and ?x = "n - i_ndzones rip"
  have sc: "s_log_zone_size (superblock fs) = 0" using map_ok_sel(1) [OF ok] .
  show ?thesis
  proof (cases "n < i_ndzones rip")
    case True
    then show ?thesis using sc by (simp add: read_map_def Let_def n_def)
  next
    case False
    obtain i k where pl: "place rip n = (i, k)" by force
    note b = place_bounds [OF _ n [folded n_def] pl]
    have i: "i < ?m + 2" and k: "k < ?m" using b False by simp_all
    show ?thesis
    proof (cases "?x < ?m")
      case True
      then have "i = 0" "k = ?x" using pl by (simp_all add: place_def Let_def)
      then show ?thesis
        using read_single_peek [OF laws c ok i k same_refl] False True sc
        by (simp add: read_map_def n_def [symmetric] Let_def iz_simps)
    next
      case single: False
      define d where "d = (?x - ?m) div ?m"
      have ik: "i = d + 2" "k = (?x - ?m) mod ?m" using pl single by (simp_all add: place_def Let_def d_def)
      have d: "d < ?m" using i ik by simp
      define zd where "zd = izone rip (i_ndzones rip + 1)"
      have one: "iz e rip fs 1 = zd" by (simp add: zd_def iz_simps)
      obtain bp t1 where g: "get_block e (i_dev rip) zd PREFETCH fs = (bp, t1)" by force
      note g' = cache_lawsD(1) [OF c g]
      have t2: "same U (put_block e bp INDIRECT_BLOCK t1) fs" using put_block_same(1) [OF laws] conjunct2 [OF g'] by (rule same_trans)
      have rm: "read_map e rip position True fs = (if zd = NO_ZONE then Some (NO_BLOCK, fs)
          else if lmfs_dev bp = NO_DEV then Some (NO_BLOCK, put_block e bp INDIRECT_BLOCK t1)
          else do { z1 \<leftarrow> rd_indir e bp d t1; read_single e rip z1 k 0 PREFETCH (put_block e bp INDIRECT_BLOCK t1) })"
        using False single sc d g by (simp add: read_map_def n_def [symmetric] Let_def zd_def [symmetric, simplified] d_def ik(2))
      have "rd_indir e bp d t1 = Some (iz e rip fs i)" if "zd \<noteq> NO_ZONE"
        using rd_indir_ind [OF ok _ _ d _ conjunct2 [OF g'], of 1] one that g' ik(1) by (simp add: iz_simps(5))
      then show ?thesis using rm read_single_peek [OF laws c ok i k t2] t2 by simp
    qed
  qed
qed


lemma rahead_loop_returns:
  assumes laws: "mfs_laws e U" and c: "cache_laws e U M" and ok: "map_ok e U rip fs0" and reg: "\<not> block_special rip"
    and bs: "bs = s_block_size (superblock fs0)" and N: "N \<le> max_zones rip" "N * bs \<le> 2 ^ 32"
  shows "ahead \<noteq> 0 \<Longrightarrow> pr div bs + unat ahead \<le> N \<Longrightarrow> same U fs fs0 \<Longrightarrow> cnt e fs = c0 + length q + 1 \<Longrightarrow>
    \<exists>q' t. rahead_loop e rip dev bs ahead block pr bp q fs = Some (q', t) \<and> same U t fs0 \<and> mm M t = mm M fs \<and> cnt e t = c0 + length q'"
proof (induction "unat ahead" arbitrary: ahead block pr bp q fs rule: less_induct)
  case less
  note L = rahead_loop.simps [of e rip dev bs ahead block pr bp q fs]
  have bs0: "0 < bs" using map_ok_sel(3,7) [OF ok] bs by simp
  show ?case
  proof (cases "ahead - 1 = 0 \<or> int (lmfs_nr_bufs e) - 4 \<le> int (cnt e fs)")
    case True
    then show ?thesis using less.prems by (auto simp: L Let_def)
  next
    case False
    have nz: "ahead - 1 \<noteq> 0" using False by blast
    have u: "unat (ahead - 1) = unat ahead - 1" "0 < unat (ahead - 1)"
      using unat_sub1 [OF less.prems(1)] nz unfolding unat_gt_0 by - assumption+
    have pd: "(pr + bs) div bs = pr div bs + 1" using bs0 by (intro div_add_self2) simp
    have p1: "(pr + bs) div bs + unat (ahead - 1) \<le> N" using less.prems(2) u pd by linarith
    have pN: "(pr + bs) div bs < N" using p1 u by linarith
    have p32: "(pr + bs) mod 2 ^ 32 = pr + bs"
    proof (rule mod_less)
      have "pr + bs < N * bs" using pN bs0 by (simp add: div_less_iff_less_mult)
      then show "pr + bs < 2 ^ 32" using N(2) by linarith
    qed
    have ok': "map_ok e U rip fs" using ok same_view(4) [OF less.prems(3)] by simp
    have "(pr + bs) div s_block_size (superblock fs) < max_zones rip"
      using pN N(1) bs same_sel(1) [OF less.prems(3)] by simp
    then obtain b t where rd: "read_map e rip (pr + bs) True fs = Some (b, t)" and t: "same U t fs"
      using read_map_peek [OF laws c ok'] by blast
    note tq = read_map_quiet [OF quiet_mem [OF c] rd] read_map_count [OF c rd]
    define out where "out = (if b \<noteq> NO_BLOCK then lmfs_get_block_ino e dev b PREFETCH (i_num rip) (pr + bs) t
        else get_block e dev (block + 1) PREFETCH t)"
    obtain bp1 t1 where o: "out = (bp1, t1)" by force
    have t1: "same U t1 t" "cnt e t1 = cnt e t + 1" "mm M t1 = mm M t"
      using o cache_lawsD(1-4) [OF c] unfolding out_def by (simp split: if_splits)+
    have T1: "same U t1 fs0" using t1(1) t less.prems(3) by (blast intro: same_trans)
    have eq: "rahead_loop e rip dev bs ahead block pr bp q fs =
        (if lmfs_dev bp1 \<noteq> NO_DEV then Some (q @ [bp], put_block e bp1 FULL_DATA_BLOCK t1)
         else rahead_loop e rip dev bs (ahead - 1) (block + 1) (pr + bs) bp1 (q @ [bp]) t1)"
      using False reg p32 rd o by (simp add: L Let_def out_def)
    show ?thesis
    proof (cases "lmfs_dev bp1 \<noteq> NO_DEV")
      case True
      have "same U (put_block e bp1 FULL_DATA_BLOCK t1) fs0" using put_block_same(1) [OF laws] T1 by (rule same_trans)
      then show ?thesis using True eq cache_lawsD(5) [OF c] t1 tq less.prems(4) by simp
    next
      case nd: False
      have "unat (ahead - 1) < unat ahead" using u by linarith
      from less.hyps [OF this _ p1 T1, of "q @ [bp]" "block + 1" bp1] show ?thesis
        using nd eq t1 tq less.prems(4) False by simp
    qed
  qed
qed

text \<open>The geometry and sizes under which the 32-bit arithmetic of the transfers does not wrap.\<close>

definition io_ok :: "'w mfs_env \<Rightarrow> inode \<Rightarrow> 'w mfs \<Rightarrow> bool" where
  "io_ok e rip fs \<longleftrightarrow>
     i_dev rip \<noteq> NO_DEV \<and> get_block_size e (i_dev rip) = s_block_size (superblock fs) \<and> s_block_size (superblock fs) < 2 ^ 29
   \<and> NR_IOREQS e \<noteq> 0 \<and> i_num rip \<noteq> VMC_NO_INODE e
   \<and> s_max_size (superblock fs) \<le> int MAX_FILE_POS
   \<and> s_max_size (superblock fs) + int (s_block_size (superblock fs)) \<le> int (max_zones rip * s_block_size (superblock fs))
   \<and> int (i_size rip) \<le> s_max_size (superblock fs)"

lemma unat_of_nat32: "n < 2 ^ 32 \<Longrightarrow> unat (of_nat n :: u32) = n"
  by (simp add: unsigned_of_nat take_bit_eq_mod)

lemma word_div_of_nat:
  assumes "a < 2 ^ 32" "b < 2 ^ 32"
  shows "(of_nat a :: u32) div of_nat b = of_nat (a div b)"
proof -
  have "unat ((of_nat a :: u32) div of_nat b) = a div b" using assms by (simp add: unat_div unat_of_nat32)
  moreover have "a div b < 2 ^ 32" using assms(1) div_le_dividend [of a b] by linarith
  ultimately show ?thesis by (simp add: word_unat_eq_iff unat_of_nat32)
qed


lemma rahead_returns:
  assumes laws: "mfs_laws e U" and c: "cache_laws e U M" and ok: "map_ok e U rip fs" and io: "io_ok e rip fs"
    and reg: "\<not> block_special rip" and pos: "position < i_size rip" and lft: "0 < left" "left < 2 ^ 31"
  shows "\<exists>bp t. rahead e rip b position left fs = Some (bp, t) \<and> b_key bp = (i_dev rip, b) \<and> same U t fs \<and> mm M t = mm M fs"
proof -
  define bs where "bs = s_block_size (superblock fs)"
  define p where "p = position - position mod bs"
  have bs: "0 < bs" "bs < 2 ^ 29" using map_ok_sel(3,7) [OF ok] io by (simp_all add: bs_def io_ok_def)
  have "int (i_size rip) \<le> int MAX_FILE_POS" "int (i_size rip + bs) \<le> int (max_zones rip * bs)"
    using io by (simp_all add: io_ok_def bs_def)
  then have sz: "i_size rip < 2 ^ 31" "i_size rip + bs \<le> max_zones rip * bs"
    unfolding of_nat_le_iff by (simp_all add: MAX_FILE_POS_def)
  have p: "p = position div bs * bs" "p \<le> position" unfolding p_def by (simp_all add: minus_mod_eq_div_mult)
  have dev: "i_dev rip \<noteq> NO_DEV" "get_block_size e (i_dev rip) = bs" using io by (simp_all add: io_ok_def bs_def)
  define near where "near \<longleftrightarrow> p mod 2 ^ 32 \<le> i_ndzones rip * bs \<and> i_ndzones rip * bs < i_size rip"
  define a0 where "a0 = left + position mod bs + bs - 1"
  define l0 where "l0 = i_size rip - p + (bs - 1)"
  have a0: "a0 < 2 ^ 32 - 1" "bs \<le> a0" using lft bs mod_less_divisor [OF bs(1), of position] unfolding a0_def by simp_all
  have l0: "l0 < 2 ^ 32 - 1" "bs \<le> l0" using sz bs pos p(2) unfolding l0_def by simp_all
  have "(of_nat left + of_nat (position mod bs) + of_nat bs - 1 :: u32) = of_nat a0"
    unfolding a0_def using bs(1) by (simp add: of_nat_diff)
  then have ahead0: "(of_nat left + of_nat (position mod bs) + of_nat bs - 1 :: u32) div of_nat bs = of_nat (a0 div bs)"
    using a0 bs by (simp add: word_div_of_nat)
  have pm: "p mod 2 ^ 32 = p" using p(2) pos sz(1) by simp
  have "int (i_size rip) - int p + (int bs - 1) = int l0" using pos p(2) bs(1) unfolding l0_def by (simp add: of_nat_diff)
  then have left0: "(of_int (int (i_size rip) - int (p mod 2 ^ 32) + (int bs - 1)) :: u32) div of_nat bs = of_nat (l0 div bs)"
    unfolding pm using l0 bs by (simp add: word_div_of_nat)
  define ahead where "ahead = (let a1 = (if near then of_nat (a0 div bs) + 1 else of_nat (a0 div bs) :: u32);
      bl = (if near then of_nat (l0 div bs) + 1 else of_nat (l0 div bs));
      a2 = (if NR_IOREQS e < a1 then NR_IOREQS e else a1);
      a3 = (if a2 < (if lmfs_nr_bufs e < 50 then 18 else 32) \<and> i_no_seek rip then (if lmfs_nr_bufs e < 50 then 18 else 32) else a2)
      in if bl < a3 then bl else a3)"
  have nz: "of_nat k \<noteq> (0 :: u32) \<and> of_nat k + 1 \<noteq> (0 :: u32) \<and> unat (of_nat k + 1 :: u32) = k + 1"
    if "0 < k" "k < 2 ^ 32 - 1" for k
  proof -
    have "unat (of_nat k :: u32) = k" "unat (of_nat (k + 1) :: u32) = k + 1" using that by (intro unat_of_nat32; simp)+
    then show ?thesis using that(1) by (metis add.commute add_is_0 less_irrefl of_nat_Suc plus_1_eq_Suc unat_eq_0 zero_neq_one)
  qed
  have q: "0 < a0 div bs" "a0 div bs < 2 ^ 32 - 1" "0 < l0 div bs" "l0 div bs < 2 ^ 32 - 1"
    using a0 l0 bs le_less_trans [OF div_le_dividend a0(1)] le_less_trans [OF div_le_dividend l0(1)] by (simp_all add: div_greater_zero_iff)
  have ah: "ahead \<noteq> 0" "unat ahead \<le> l0 div bs + 1"
  proof -
    define bl where "bl = (if near then of_nat (l0 div bs) + 1 else of_nat (l0 div bs) :: u32)"
    have bl: "bl \<noteq> 0" "unat bl \<le> l0 div bs + 1" using nz [OF q(3,4)] q(4) by (auto simp: bl_def unat_of_nat32)
    have "NR_IOREQS e \<noteq> 0" using io by (simp add: io_ok_def)
    define a1 where "a1 = (if near then of_nat (a0 div bs) + 1 else of_nat (a0 div bs) :: u32)"
    define a2 where "a2 = (if NR_IOREQS e < a1 then NR_IOREQS e else a1)"
    define bm where "bm = (if lmfs_nr_bufs e < 50 then 18 else 32 :: u32)"
    define a3 where "a3 = (if a2 < bm \<and> i_no_seek rip then bm else a2)"
    have "a1 \<noteq> 0" using nz [OF q(1,2)] by (simp add: a1_def)
    then have "a2 \<noteq> 0" using \<open>NR_IOREQS e \<noteq> 0\<close> by (simp add: a2_def)
    moreover have "bm \<noteq> 0" by (simp add: bm_def)
    moreover have "ahead = (if bl < a3 then bl else a3)"
      unfolding ahead_def Let_def bl_def a3_def a2_def a1_def bm_def by (rule refl)
    ultimately have a3: "a3 \<noteq> 0" "ahead = (if bl < a3 then bl else a3)" by (simp_all add: a3_def)
    then show "ahead \<noteq> 0" using bl by simp
    show "unat ahead \<le> l0 div bs + 1" using a3 bl(2) by (auto simp: word_less_nat_alt split: if_splits)
  qed
  obtain bp t0 where g: "lmfs_get_block_ino e (i_dev rip) b PREFETCH (i_num rip) p fs = (bp, t0)" by force
  have spec: "block_special rip = False" "push_bit 0 bs = bs" using reg by simp_all
  have "rahead_blocks e rip 0 bs p (of_nat (a0 div bs)) = ahead"
    by (simp only: rahead_blocks_def ahead_def near_def Let_def left0 spec simp_thms if_False)
  then have rb: "rahead_blocks e rip (s_log_zone_size (superblock fs)) bs p (of_nat (a0 div bs)) = ahead"
    using map_ok_sel(1) [OF ok] by simp
  have R: "rahead e rip b position left fs = (if lmfs_dev bp \<noteq> NO_DEV then Some (bp, t0) else
      do { (q, t1) \<leftarrow> rahead_loop e rip (i_dev rip) bs ahead b p bp [] t0;
           let t2 = lmfs_rw_scattered e (i_dev rip) q READING t1;
           if cnt e fs \<noteq> cnt e t2 then None else Some (lmfs_get_block_ino e (i_dev rip) b NORMAL (i_num rip) p t2) })"
    using reg dev bs(1) g [unfolded p_def] unfolding rahead_def Let_def p_def spec(1) if_False dev(2)
    by (simp add: ahead0 rb [unfolded p_def, simplified])
  note g' = cache_lawsD(2) [OF c g] and gq = cache_lawsD(4) [OF c g]
  show ?thesis
  proof (cases "lmfs_dev bp \<noteq> NO_DEV")
    case True
    then show ?thesis using R g' gq by simp
  next
    case False
    define N where "N = (i_size rip + bs - 1) div bs + 1"
    have N: "N \<le> max_zones rip" "N * bs \<le> 2 ^ 32"
    proof -
      have "(i_size rip + bs - 1) div bs < max_zones rip" using sz(2) bs by (simp add: div_less_iff_less_mult)
      then show "N \<le> max_zones rip" by (simp add: N_def)
      define x where "x = (i_size rip + bs - 1) div bs * bs"
      have "x \<le> i_size rip + bs - 1" unfolding x_def by (rule div_times_less_eq_dividend)
      moreover have "N * bs = x + bs" by (simp add: N_def x_def)
      ultimately show "N * bs \<le> 2 ^ 32" using sz(1) bs by simp
    qed
    have "l0 + p = i_size rip + bs - 1" using pos p(2) bs(1) by (simp add: l0_def)
    then have "l0 div bs + p div bs = (i_size rip + bs - 1) div bs" using bs(1) p(1) by (metis div_mult_self1 div_mult_self_is_m less_not_refl add.commute)
    then have "p div bs + unat ahead \<le> N" using ah(2) by (simp add: N_def)
    then obtain q t1 where l: "rahead_loop e rip (i_dev rip) bs ahead b p bp [] t0 = Some (q, t1)" "same U t1 fs" "mm M t1 = mm M t0"
      "cnt e t1 = cnt e fs + length q"
      using rahead_loop_returns [OF laws c ok reg bs_def N ah(1), of p t0 "cnt e fs" "[]" "i_dev rip" b bp] g' gq by auto
    define t2 where "t2 = lmfs_rw_scattered e (i_dev rip) q READING t1"
    note s2 = cache_lawsD(8) [OF c, of "i_dev rip" q t1, folded t2_def]
    obtain bp' t3 where g3: "lmfs_get_block_ino e (i_dev rip) b NORMAL (i_num rip) p t2 = (bp', t3)" by force
    have "fills U (i_dev rip) b NORMAL t2 (bp', t3)" using get_block_ino_fills [OF laws, of NORMAL "i_dev rip" b t2 "i_num rip" p] g3 by simp
    then have "b_key bp' = (i_dev rip, b)" "same U t3 t2" by (simp_all add: fills_def)
    moreover have "rahead e rip b position left fs = Some (bp', t3)"
      using R False l(1,4) s2 g3 by (simp add: t2_def [symmetric])
    moreover have "same U t3 fs" using \<open>same U t3 t2\<close> s2 l(2) by (blast intro: same_trans)
    ultimately show ?thesis using cache_lawsD(4) [OF c g3] s2 l(3) gq by simp
  qed
qed


section \<open>The bytes of a file\<close>

definition fbyte :: "'w mfs_env \<Rightarrow> inode \<Rightarrow> 'w mfs \<Rightarrow> nat \<Rightarrow> u8" where
  "fbyte e rip fs p = fblock e rip fs (p div s_block_size (superblock fs)) ! (p mod s_block_size (superblock fs))"

definition capacity :: "inode \<Rightarrow> 'w mfs \<Rightarrow> nat" where
  "capacity rip fs = max_zones rip * s_block_size (superblock fs)"

text \<open>Blocks, super block, inode table and zones in use are the same; the console may differ.\<close>

definition same_disk :: "('w \<Rightarrow> zone_t set) \<Rightarrow> 'w mfs \<Rightarrow> 'w mfs \<Rightarrow> bool" where
  "same_disk U s t \<longleftrightarrow> superblock s = superblock t \<and> blocks s = blocks t \<and> inodes s = inodes t \<and> U (fs_world s) = U (fs_world t)"

lemma same_diskI: "same U s t \<Longrightarrow> same_disk U s t"
  by (simp add: same_def same_disk_def)

lemma same_disk_trans [trans]: "same_disk U s t \<Longrightarrow> same_disk U t u \<Longrightarrow> same_disk U s u"
  by (simp add: same_disk_def)

lemma same_disk_view:
  assumes "same_disk U s t"
  shows "superblock s = superblock t" "fblock e rip s = fblock e rip t" "fbyte e rip s = fbyte e rip t" "file_ok e U rip s = file_ok e U rip t"
    "io_ok e rip s = io_ok e rip t" "capacity rip s = capacity rip t"
proof -
  show sb: "superblock s = superblock t" using assms by (simp add: same_disk_def)
  show f: "fblock e rip s = fblock e rip t" using assms by (intro fblock_state) (simp_all add: same_disk_def)
  show "fbyte e rip s = fbyte e rip t" by (simp add: fbyte_def fun_eq_iff f sb)
  show "file_ok e U rip s = file_ok e U rip t" using assms by (intro file_ok_state) (simp_all add: same_disk_def)
  show "io_ok e rip s = io_ok e rip t" "capacity rip s = capacity rip t" by (simp_all add: io_ok_def capacity_def sb)
qed

text \<open>Replacing part of one block replaces the bytes at the corresponding positions.\<close>

lemma fbyte_chunk:
  assumes bs: "0 < bs" "s_block_size (superblock fs) = bs" "s_block_size (superblock t) = bs"
    and len: "length (fblock e rip fs (pos div bs)) = bs" "pos mod bs + length d \<le> bs"
    and blk: "fblock e rip' t (pos div bs) = put_bytes (pos mod bs) d (fblock e rip fs (pos div bs))"
    and p: "p div bs \<noteq> pos div bs \<Longrightarrow> fblock e rip' t (p div bs) = fblock e rip fs (p div bs)"
  shows "fbyte e rip' t p = (if pos \<le> p \<and> p < pos + length d then d ! (p - pos) else fbyte e rip fs p)"
proof -
  define a where "a = pos mod bs"
  define b where "b = p mod bs"
  have b: "b < bs" using bs(1) by (simp add: b_def)
  have P: "pos = pos div bs * bs + a" "p = p div bs * bs + b" by (simp_all add: a_def b_def)
  show ?thesis
  proof (cases "p div bs = pos div bs")
    case True
    then have pq: "p = pos div bs * bs + b" using P(2) by simp
    have r: "pos \<le> p \<longleftrightarrow> a \<le> b" "p < pos + length d \<longleftrightarrow> b < a + length d" "a \<le> b \<Longrightarrow> p - pos = b - a"
      using P(1) pq by linarith+
    have "fbyte e rip' t p = put_bytes a d (fblock e rip fs (pos div bs)) ! b"
      using bs True blk by (simp add: fbyte_def a_def b_def)
    also have "\<dots> = (if a \<le> b \<and> b < a + length d then d ! (b - a) else fblock e rip fs (pos div bs) ! b)"
      using len b by (intro nth_put_bytes) (simp_all add: a_def)
    finally show ?thesis using r bs True by (auto simp: fbyte_def b_def)
  next
    case False
    have "\<not> (pos \<le> p \<and> p < pos + length d)"
    proof
      assume r: "pos \<le> p \<and> p < pos + length d"
      moreover have "(pos div bs + 1) * bs = pos div bs * bs + bs" by simp
      ultimately have "p < (pos div bs + 1) * bs" using P(1) len(2) unfolding a_def by linarith
      then have "p div bs < pos div bs + 1" using bs(1) by (simp add: div_less_iff_less_mult)
      moreover have "pos div bs \<le> p div bs" using r by (simp add: div_le_mono)
      ultimately show False using False by linarith
    qed
    then show ?thesis using False p bs by (auto simp: fbyte_def)
  qed
qed

section \<open>One chunk\<close>

lemma get_block_ino_normal:
  assumes "mfs_laws e U" and "lmfs_get_block_ino e dev b NORMAL i off fs = (bp, t)"
  shows "b_key bp = (dev, b)" and "same U t fs"
  using get_block_ino_fills [OF assms(1), of NORMAL dev b fs i off] assms(2) by (simp_all add: fills_def)

lemma rw_chunk_read:
  assumes laws: "mfs_laws e U" "cache_laws e U M" "copy_laws e U M" and ok: "file_ok e U rip fs" and io: "io_ok e rip fs"
    and reg: "\<not> block_special rip" and pos: "pos < i_size rip" and lft: "0 < left" "left < 2 ^ 31"
    and bs: "bs = s_block_size (superblock fs)" and ch: "pos mod bs + chunk \<le> bs"
  shows "\<exists>r t. rw_chunk e rip pos (pos mod bs) chunk left READING gid bo bs fs = Some (r, rip, t) \<and> same_disk U t fs
    \<and> (if r = OK then bo + chunk \<le> length (mm M fs) \<and> mm M t = put_bytes bo (take chunk (drop (pos mod bs) (fblock e rip fs (pos div bs)))) (mm M fs)
       else mm M t = mm M fs)"
proof -
  note mok = file_ok_sel(1) [OF ok]
  have bs0: "0 < bs" using map_ok_sel(3,7) [OF mok] bs by simp
  have "int (i_size rip) \<le> int MAX_FILE_POS" "int (i_size rip) \<le> int (max_zones rip * bs)" using io by (simp_all add: io_ok_def bs)
  then have sz: "i_size rip < 2 ^ 31" "i_size rip \<le> max_zones rip * bs" unfolding of_nat_le_iff by (simp_all add: MAX_FILE_POS_def)
  have n: "pos div bs < max_zones rip" using pos sz(2) bs0 by (simp add: div_less_iff_less_mult)
  obtain t where rd: "read_map e rip pos False fs = Some (bmap e rip fs (pos div bs), t)" and t: "same U t fs"
    using read_map_place [OF laws(1) mok] n unfolding bs by blast
  note tq = read_map_quiet [OF quiet_mem [OF laws(2)] rd]
  have num: "i_num rip \<noteq> VMC_NO_INODE e" using io by (simp add: io_ok_def)
  show ?thesis
  proof (cases "bmap e rip fs (pos div bs) = NO_ZONE")
    case True
    obtain r t1 where m: "sys_safememset e gid bo 0 chunk t = (r, t1)" by force
    note m' = copy_lawsD(3) [OF laws(3) m]
    have "fblock e rip fs (pos div bs) = replicate bs 0" using True by (simp add: fblock_def bs)
    then have "take chunk (drop (pos mod bs) (fblock e rip fs (pos div bs))) = replicate chunk 0" 
      using ch by (simp add: min_absorb1)
    moreover have "same_disk U t1 fs" "same_disk U (fs_print f [] t1) fs" for f
      using m' t by (auto simp: same_disk_def same_def fs_print_def)
    moreover have "rw_chunk e rip pos (pos mod bs) chunk left READING gid bo bs fs
        = Some (r, rip, if r \<noteq> OK then fs_print ''MFS: sys_safememset failed'' [] t1 else t1)"
      using reg pos sz(1) rd num m True by (simp add: rw_chunk_def rw_buffer_def Let_def NO_BLOCK_def NO_ZONE_def)
    moreover have "mm M (fs_print f [] t1) = mm M t1" for f by (simp add: fs_print_def)
    ultimately show ?thesis using m' tq by auto
  next
    case False
    have tok: "map_ok e U rip t" "io_ok e rip t" using mok same_view(4) [OF t] io same_disk_view(5) [OF same_diskI [OF t]] by simp_all
    obtain bp t1 where ra: "rahead e rip (bmap e rip fs (pos div bs)) pos left t = Some (bp, t1)" "b_key bp = (i_dev rip, bmap e rip fs (pos div bs))"
      "same U t1 t" "mm M t1 = mm M t"
      using rahead_returns [OF laws(1,2) tok reg pos lft] by blast
    have t1: "same U t1 fs" using ra(3) t by (rule same_trans)
    have dat: "b_data bp t1 = fblock e rip fs (pos div bs)"
      using ra(2) False same_sel(2) [OF t1] by (simp add: b_data_def fblock_def)
    obtain r t2 where m: "sys_safecopyto e gid bo (take chunk (drop (pos mod bs) (b_data bp t1))) t1 = (r, t2)" by force
    note m' = copy_lawsD(1) [OF laws(3) m]
    define t3 where "t3 = put_block e bp (if pos mod bs + chunk = bs then FULL_DATA_BLOCK else PARTIAL_DATA_BLOCK) t2"
    have "same U t3 t2" unfolding t3_def by (rule put_block_same(1) [OF laws(1)])
    then have "same U t3 fs" using m' t1 by (blast intro: same_trans)
    moreover have "mm M t3 = mm M t2" unfolding t3_def using cache_lawsD(5) [OF laws(2)] by simp
    moreover have "rw_chunk e rip pos (pos mod bs) chunk left READING gid bo bs fs = Some (r, rip, t3)"
      using reg pos sz(1) rd num ra(1) m False
      by (simp add: rw_chunk_def rw_buffer_def rw_copy_def Let_def NO_BLOCK_def NO_ZONE_def t3_def)
    moreover have "length (take chunk (drop (pos mod bs) (fblock e rip fs (pos div bs)))) = chunk"
      using ch length_fblock [OF mok] by (simp add: bs)
    ultimately show ?thesis using m' ra(4) tq same_diskI [of U t3 fs] unfolding dat by auto
  qed
qed


lemma new_block_none_err:
  assumes laws: "mfs_laws e U"
  shows "new_block e rip p fs = Some (None, rip', t) \<Longrightarrow> err_code t \<noteq> OK"
  unfolding new_block_def Let_def
  by (auto split: bind_splits if_splits prod.splits dest!: alloc_zone_laws(5) [OF laws])

lemma rw_copy_write:
  assumes laws: "mfs_laws e U" "cache_laws e U M" "copy_laws e U M" and ok: "file_ok e U rip fs" and reg: "\<not> block_special rip"
    and bs: "bs = s_block_size (superblock fs)" and ch: "off + chunk \<le> bs"
    and n: "n < max_zones rip" "bmap e rip fs n \<noteq> NO_ZONE" "b_key bp = (i_dev rip, bmap e rip fs n)"
    and zer: "zer \<longleftrightarrow> chunk \<noteq> bs \<and> i_size rip \<le> pos \<and> off = 0"
  shows "\<exists>r t. rw_copy e rip pos off chunk WRITING gid bo bs bp fs = (r, t) \<and> file_ok e U rip t \<and> superblock t = superblock fs \<and> mm M t = mm M fs \<and> inodes t = inodes fs
    \<and> (\<forall>j<max_zones rip. j \<noteq> n \<longrightarrow> fblock e rip t j = fblock e rip fs j)
    \<and> (r = OK \<longrightarrow> bo + chunk \<le> length (mm M fs)
        \<and> fblock e rip t n = put_bytes off (take chunk (drop bo (mm M fs))) (if zer then replicate bs 0 else fblock e rip fs n))"
proof -
  note mok = file_ok_sel(1) [OF ok]
  have lb: "length (blocks fs (b_key bp)) = bs" using map_ok_sel(6,7) [OF mok] n(3) bs by simp
  define X where "X = (if zer then replicate bs 0 else fblock e rip fs n)"
  have fn: "fblock e rip fs n = blocks fs (b_key bp)" using n by (simp add: fblock_def)
  have X: "length X = bs" using lb by (simp add: X_def fn)
  define f1 where "f1 = (if zer then zero_block bp fs else fs)"
  have f1: "superblock f1 = superblock fs" "blocks f1 = (blocks fs)(b_key bp := X)" "fs_world f1 = fs_world fs" "inodes f1 = inodes fs"
    using lb by (simp_all add: f1_def X_def fn zero_block_def MARKDIRTY_def set_data_def b_data_def)
  obtain r d t2 where cp: "sys_safecopyfrom e gid bo chunk f1 = (r, d, t2)" by (cases "sys_safecopyfrom e gid bo chunk f1") auto
  note c' = copy_lawsD(2) [OF laws(3) cp]
  have t2: "superblock t2 = superblock fs" "blocks t2 = (blocks fs)(b_key bp := X)" "U (fs_world t2) = U (fs_world fs)" "mm M t2 = mm M fs" "inodes t2 = inodes fs"
    using c' f1 by (simp_all add: same_def)
  define Y where "Y = put_bytes off d X"
  have ld: "length d \<le> chunk" using c' by (simp split: if_splits)
  have Y: "length Y = bs" unfolding Y_def using X ch ld by simp
  define t3 where "t3 = MARKDIRTY bp (set_data bp (put_bytes off d (b_data bp t2)) t2)"
  have "put_bytes off d (b_data bp t2) = Y" using t2(2) by (simp add: b_data_def Y_def)
  then have t3: "superblock t3 = superblock fs" "blocks t3 = (blocks fs)((i_dev rip, bmap e rip fs n) := Y)" "U (fs_world t3) = U (fs_world fs)" "mm M t3 = mm M fs" "inodes t3 = inodes fs"
    using t2 n(3) by (simp_all add: t3_def MARKDIRTY_def set_data_def)
  note D = fblock_data [OF ok n(1,2) _ t3(1-3)]
  define t4 where "t4 = put_block e bp (if off + chunk = bs then FULL_DATA_BLOCK else PARTIAL_DATA_BLOCK) t3"
  have t4: "same U t4 t3" "mm M t4 = mm M t3"
    unfolding t4_def using put_block_same(1) [OF laws(1)] cache_lawsD(5) [OF laws(2)] by auto
  have "rw_copy e rip pos off chunk WRITING gid bo bs bp fs = (r, t4)"
    using reg cp unfolding rw_copy_def Let_def t4_def t3_def f1_def zer by simp
  moreover have "file_ok e U rip t4" using D(1) Y bs file_ok_same [OF t4(1)] by simp
  moreover have "fblock e rip t4 j = (if j = n then Y else fblock e rip fs j)" if "j < max_zones rip" for j
    using D(2) [OF _ that] Y bs fblock_same [OF t4(1)] by simp
  moreover have "superblock t4 = superblock fs" "mm M t4 = mm M fs" "inodes t4 = inodes fs"
    using t3 t4 same_sel(1) [OF t4(1)] by (simp_all add: same_def)
  moreover have "r = OK \<longrightarrow> bo + chunk \<le> length (mm M fs) \<and> Y = put_bytes off (take chunk (drop bo (mm M fs))) X"
    using c' unfolding f1(3) by (simp add: Y_def)
  ultimately show ?thesis using n(1) by (auto simp: X_def)
qed

lemma put_bytes_full: "length d = length x \<Longrightarrow> length x = length y \<Longrightarrow> put_bytes 0 d x = put_bytes 0 d y"
  by (simp add: put_bytes_def)


lemma fills_data:
  assumes "fills U dev b m fs (bp, t)"
  shows "\<exists>x. b_key bp = (dev, b) \<and> length x = length (blocks fs (dev, b)) \<and> superblock t = superblock fs
    \<and> blocks t = (blocks fs)((dev, b) := x) \<and> U (fs_world t) = U (fs_world fs) \<and> (m \<noteq> NO_READ \<longrightarrow> x = blocks fs (dev, b))"
proof (cases "m = NO_READ")
  case True
  then show ?thesis using assms by (auto simp: fills_def same_def)
next
  case False
  then show ?thesis using assms by (intro exI [of _ "blocks fs (dev, b)"]) (simp add: fills_def same_def)
qed

text \<open>What a write keeps of the inode and the disk.\<close>

definition meta :: "'w mfs_env \<Rightarrow> ('w \<Rightarrow> zone_t set) \<Rightarrow> ('w \<Rightarrow> u8 list) \<Rightarrow> inode \<Rightarrow> 'w mfs \<Rightarrow> inode \<Rightarrow> 'w mfs \<Rightarrow> bool" where
  "meta e U M rip fs rip' t \<longleftrightarrow>
     file_ok e U rip' t \<and> superblock t = superblock fs \<and> max_zones rip' = max_zones rip \<and> i_mode rip' = i_mode rip
   \<and> i_size rip' = i_size rip \<and> i_dev rip' = i_dev rip \<and> i_num rip' = i_num rip \<and> mm M t = mm M fs
   \<and> inodes t = inodes fs"

lemma meta_trans [trans]: "meta e U M r1 f1 r2 f2 \<Longrightarrow> meta e U M r2 f2 r3 f3 \<Longrightarrow> meta e U M r1 f1 r3 f3"
  by (simp add: meta_def)

lemma meta_io:
  assumes "meta e U M rip fs rip' t"
  shows "io_ok e rip' t = io_ok e rip fs" "block_special rip' = block_special rip" "capacity rip' t = capacity rip fs"
  using assms by (simp_all add: meta_def io_ok_def block_special_def capacity_def)

lemma rw_chunk_write:
  assumes laws: "mfs_laws e U" "cache_laws e U M" "copy_laws e U M" and ok: "file_ok e U rip fs"
    and reg: "\<not> block_special rip" and imm: "i_mode rip AND I_TYPE \<noteq> I_IMMEDIATE" and num: "i_num rip \<noteq> VMC_NO_INODE e"
    and pos: "pos < 2 ^ 32" "pos div bs < max_zones rip" and bs: "bs = s_block_size (superblock fs)" and ch: "pos mod bs + chunk \<le> bs"
    and clean: "chunk \<noteq> bs \<Longrightarrow> i_size rip \<le> pos \<Longrightarrow> pos mod bs = 0 \<Longrightarrow> drop chunk (fblock e rip fs (pos div bs)) = replicate (bs - chunk) 0"
  shows "\<exists>r rip' t. rw_chunk e rip pos (pos mod bs) chunk left WRITING gid bo bs fs = Some (r, rip', t) \<and> meta e U M rip fs rip' t
    \<and> (\<forall>j<max_zones rip. j \<noteq> pos div bs \<longrightarrow> fblock e rip' t j = fblock e rip fs j)
    \<and> (r = OK \<longrightarrow> bo + chunk \<le> length (mm M fs)
        \<and> fblock e rip' t (pos div bs) = put_bytes (pos mod bs) (take chunk (drop bo (mm M fs))) (fblock e rip fs (pos div bs)))"
proof -
  note mok = file_ok_sel(1) [OF ok]
  let ?n = "pos div bs"
  let ?zer = "\<lambda>rip. chunk \<noteq> bs \<and> i_size rip \<le> pos \<and> pos mod bs = 0"
  obtain t where rd: "read_map e rip pos False fs = Some (bmap e rip fs ?n, t)" and t: "same U t fs"
    using read_map_place [OF laws(1) mok] pos(2) unfolding bs by blast
  note tq = read_map_quiet [OF quiet_mem [OF laws(2)] rd]
  have T: "file_ok e U rip t" "superblock t = superblock fs" "fblock e rip t = fblock e rip fs" "bmap e rip t = bmap e rip fs"
    using ok file_ok_same [OF t] same_sel(1) [OF t] fblock_same [OF t] same_view(3) [OF t] by simp_all
  have ti: "inodes t = inodes fs" using t by (simp add: same_def)
  have nb: "NO_BLOCK = NO_ZONE" by (simp add: NO_BLOCK_def NO_ZONE_def)
  have pos': "\<not> 4294967296 \<le> pos" using pos(1) by simp
  note RW = rw_chunk_def [of e rip pos "pos mod bs" chunk left WRITING gid bo bs fs] rw_buffer_def Let_def
  show ?thesis
  proof (cases "bmap e rip fs ?n = NO_ZONE")
    case hole: True
    have nm: "block_made e U rip t ?n (new_block e rip pos t)"
      using new_block_made [OF laws(1) T(1) imm, of pos] pos(2) T(2) bs by simp
    then obtain bo' rip' t1 where w: "new_block e rip pos t = Some (bo', rip', t1)" by (auto simp: block_made_def)
    note B = nm [unfolded w block_made_def, simplified, unfolded T(2,3,4) bs [symmetric]]
    have me: "meta e U M rip fs rip' t1" using B new_block_quiet [OF quiet_mem [OF laws(2)] w] new_block_quiet [OF quiet_inodes [OF laws(1,2)] w] tq ti by (simp add: meta_def)
    show ?thesis
    proof (cases bo')
      case None
      have "rw_chunk e rip pos (pos mod bs) chunk left WRITING gid bo bs fs = Some (err_code t1, rip', t1)"
        using reg pos' rd num hole w None by (simp add: RW nb)
      then show ?thesis using me B new_block_none_err [OF laws(1) w [unfolded None]] by blast
    next
      case (Some bp)
      have bp: "bmap e rip' t1 ?n \<noteq> NO_ZONE" "b_key bp = (i_dev rip', bmap e rip' t1 ?n)" "fblock e rip' t1 ?n = replicate bs 0"
        "file_ok e U rip' t1" "superblock t1 = superblock fs" "?n < max_zones rip'" "\<not> block_special rip'"
        using B Some pos(2) reg meta_io(2) [OF me] by simp_all
      obtain r t2 where cp: "rw_copy e rip' pos (pos mod bs) chunk WRITING gid bo bs bp t1 = (r, t2)" "file_ok e U rip' t2" "superblock t2 = superblock t1"
        "mm M t2 = mm M t1" "inodes t2 = inodes t1" "\<forall>j<max_zones rip'. j \<noteq> ?n \<longrightarrow> fblock e rip' t2 j = fblock e rip' t1 j"
        "r = OK \<longrightarrow> bo + chunk \<le> length (mm M t1) \<and> fblock e rip' t2 ?n = put_bytes (pos mod bs) (take chunk (drop bo (mm M t1))) (replicate bs 0)"
        using rw_copy_write [OF laws bp(4,7) _ ch bp(6,1,2) refl, of pos gid bo] bp(3,5) bs by auto
      have "rw_chunk e rip pos (pos mod bs) chunk left WRITING gid bo bs fs = Some (r, rip', t2)"
        using reg pos' rd num hole w Some cp(1) by (simp add: RW nb)
      moreover have "fblock e rip fs ?n = replicate bs 0" using hole by (simp add: fblock_def bs)
      moreover have "meta e U M rip fs rip' t2" using me cp(2,3,4,5) by (simp add: meta_def)
      moreover have "mm M t1 = mm M fs" "max_zones rip' = max_zones rip" using me by (simp_all add: meta_def)
      ultimately show ?thesis using cp B by auto
    qed
  next
    case False
    let ?nr = "chunk = bs \<or> pos mod bs = 0 \<and> i_size rip \<le> pos"
    obtain bp t1 where g: "lmfs_get_block_ino e (i_dev rip) (bmap e rip fs ?n) (if ?nr then NO_READ else NORMAL) (i_num rip) (rounddown pos bs) t = (bp, t1)"
      by force
    have "fills U (i_dev rip) (bmap e rip fs ?n) (if ?nr then NO_READ else NORMAL) t (bp, t1)"
      using get_block_ino_fills [OF laws(1), of "if ?nr then NO_READ else NORMAL"] g by (metis bmode.distinct(4,5))
    from fills_data [OF this] obtain x where F: "b_key bp = (i_dev rip, bmap e rip fs ?n)"
      "length x = length (blocks t (i_dev rip, bmap e rip fs ?n))" "superblock t1 = superblock t"
      "blocks t1 = (blocks t)((i_dev rip, bmap e rip fs ?n) := x)" "U (fs_world t1) = U (fs_world t)"
      "(if ?nr then NO_READ else NORMAL) \<noteq> NO_READ \<longrightarrow> x = blocks t (i_dev rip, bmap e rip fs ?n)" by blast
    note key = F(1)
    have t1: "superblock t1 = superblock t" "blocks t1 = (blocks t)((i_dev rip, bmap e rip t ?n) := x)" "U (fs_world t1) = U (fs_world t)"
      unfolding T(4) by (rule F)+
    have len: "length x = bs" using F(2) map_ok_sel(6,7) [OF mok] same_sel(2) [OF t] bs by simp
    have x: "x = fblock e rip fs ?n" if "\<not> ?nr" using F(6) that False same_sel(2) [OF t] by (simp add: fblock_def)
    have D: "file_ok e U rip t1" "fblock e rip t1 j = (if j = ?n then x else fblock e rip fs j)" "bmap e rip t1 j = bmap e rip fs j"
      if "j < max_zones rip" for j
      using fblock_data [OF T(1) pos(2) _ _ t1] that len bs False unfolding T by simp_all
    have bs1: "bs = s_block_size (superblock t1)" and bn: "bmap e rip t1 ?n \<noteq> NO_ZONE" and key1: "b_key bp = (i_dev rip, bmap e rip t1 ?n)"
      using bs t1(1) T(2) D(3) [OF pos(2)] False key by simp_all
    obtain r t2 where cp: "rw_copy e rip pos (pos mod bs) chunk WRITING gid bo bs bp t1 = (r, t2)" "file_ok e U rip t2" "superblock t2 = superblock t1"
      "mm M t2 = mm M t1" "inodes t2 = inodes t1" "\<forall>j<max_zones rip. j \<noteq> ?n \<longrightarrow> fblock e rip t2 j = fblock e rip t1 j"
      "r = OK \<longrightarrow> bo + chunk \<le> length (mm M t1) \<and> fblock e rip t2 ?n = put_bytes (pos mod bs) (take chunk (drop bo (mm M t1)))
         (if ?zer rip then replicate bs 0 else fblock e rip t1 ?n)"
      using rw_copy_write [OF laws D(1) [OF pos(2)] reg bs1 ch pos(2) bn key1 refl, of pos gid bo] by blast
    have mem: "mm M t1 = mm M fs" "inodes t1 = inodes fs"
      using cache_lawsD(4) [OF laws(2) g] quietD(2) [OF quiet_inodes [OF laws(1,2)] g] tq ti by simp_all
    have "rw_chunk e rip pos (pos mod bs) chunk left WRITING gid bo bs fs = Some (r, rip, t2)"
      using reg pos' rd num False g cp(1) by (simp add: RW nb)
    moreover have "meta e U M rip fs rip t2" using cp(2,3,4,5) t1(1) T(2) mem by (simp add: meta_def)
    moreover have "fblock e rip t2 j = fblock e rip fs j" if "j < max_zones rip" "j \<noteq> ?n" for j
      using cp(6) D(2) that by simp
    moreover have "fblock e rip t2 ?n = put_bytes (pos mod bs) (take chunk (drop bo (mm M fs))) (fblock e rip fs ?n)" if r: "r = OK"
    proof -
      have c: "bo + chunk \<le> length (mm M fs)" and f: "fblock e rip t2 ?n = put_bytes (pos mod bs) (take chunk (drop bo (mm M fs)))
         (if ?zer rip then replicate bs 0 else x)" using cp(7) r mem D(2) [OF pos(2)] by simp_all
      show ?thesis
      proof (cases "?zer rip")
        case True
        have "length (take chunk (drop bo (mm M fs))) = chunk" using c by simp
        then show ?thesis using True f clean by (simp add: put_bytes_def)
      next
        case nz: False
        show ?thesis
        proof (cases ?nr)
          case True
          then have "chunk = bs" "pos mod bs = 0" using nz ch by auto
          then show ?thesis using f nz c len length_fblock [OF mok] bs
            put_bytes_full [of "take chunk (drop bo (mm M fs))" x "fblock e rip fs ?n"] by simp
        qed (use f nz x in auto)
      qed
    qed
    ultimately show ?thesis using cp(7) mem by auto
  qed
qed


section \<open>The chunk loop\<close>

text \<open>The bytes of a file from a position on, and the memory a read leaves.\<close>

definition fbytes :: "'w mfs_env \<Rightarrow> inode \<Rightarrow> 'w mfs \<Rightarrow> nat \<Rightarrow> nat \<Rightarrow> u8 list" where
  "fbytes e rip fs p n = map (fbyte e rip fs) [p..<p + n]"

lemma length_fbytes [simp]: "length (fbytes e rip fs p n) = n"
  by (simp add: fbytes_def)

lemma fbytes_add: "fbytes e rip fs p (m + n) = fbytes e rip fs p m @ fbytes e rip fs (p + m) n"
proof -
  have "[p..<p + (m + n)] = [p..<p + m] @ [p + m..<p + m + n]"
    using upt_add_eq_append [of p "p + m" n] by (simp add: add.assoc)
  then show ?thesis by (simp add: fbytes_def)
qed

lemma fbytes_block:
  assumes "0 < bs" "bs = s_block_size (superblock fs)" "length (fblock e rip fs (p div bs)) = bs" "p mod bs + n \<le> bs"
  shows "fbytes e rip fs p n = take n (drop (p mod bs) (fblock e rip fs (p div bs)))"
proof (rule nth_equalityI)
  show "length (fbytes e rip fs p n) = length (take n (drop (p mod bs) (fblock e rip fs (p div bs))))" using assms by simp
  fix i assume "i < length (fbytes e rip fs p n)"
  then have i: "i < n" by simp
  have "(p + i) div bs = p div bs \<and> (p + i) mod bs = p mod bs + i"
  proof -
    have "p + i = p mod bs + i + bs * (p div bs)" by simp
    moreover have "p mod bs + i < bs" using i assms(4) by simp
    ultimately show ?thesis by (metis div_mult_self2 div_less mod_mult_self2 mod_less add_0 add.right_neutral less_nat_zero_code)
  qed
  then show "fbytes e rip fs p n ! i = take n (drop (p mod bs) (fblock e rip fs (p div bs))) ! i"
    using i assms by (simp add: fbytes_def fbyte_def)
qed

lemma put_bytes_append:
  assumes "n + length a + length b \<le> length m"
  shows "put_bytes (n + length a) b (put_bytes n a m) = put_bytes n (a @ b) m"
  using assms by (simp add: put_bytes_def min_absorb2 ac_simps)

lemma put_bytes_nil [simp]: "n \<le> length m \<Longrightarrow> put_bytes n [] m = m"
  by (simp add: put_bytes_def)

lemma rw_off_mod: "p < 2 ^ 32 \<Longrightarrow> rw_off (Some f) p bs = p mod bs"
  by simp

text \<open>
  A read moves the bytes of the file to the caller, from the position up to the end of the file or of the request.
  It may stop early, after a failed copy or when the cache reports an error; only in the second case has
  the last chunk been copied without being counted.
\<close>

definition read_moved :: "'w mfs_env \<Rightarrow> ('w \<Rightarrow> zone_t set) \<Rightarrow> ('w \<Rightarrow> u8 list) \<Rightarrow> inode \<Rightarrow> nat \<Rightarrow> nat \<Rightarrow> nat \<Rightarrow> 'w mfs \<Rightarrow> ret \<Rightarrow> nat \<Rightarrow> 'w mfs \<Rightarrow> bool" where
  "read_moved e U M rip pos nr cum fs r k t \<longleftrightarrow>
     k \<le> min nr (i_size rip - pos) \<and> same_disk U t fs
   \<and> (r = OK \<longrightarrow> ret_nonneg (lmfs_rdwt_err e t) \<longrightarrow> k = min nr (i_size rip - pos))
   \<and> (r \<noteq> OK \<or> ret_nonneg (lmfs_rdwt_err e t) \<longrightarrow>
        cum + k \<le> length (mm M fs) \<and> mm M t = put_bytes cum (fbytes e rip fs pos k) (mm M fs))"

lemma rw_loop_read:
  assumes laws: "mfs_laws e U" "cache_laws e U M" "copy_laws e U M" and reg: "\<not> block_special rip" and bs0: "0 < bs"
  shows "file_ok e U rip fs \<Longrightarrow> io_ok e rip fs \<Longrightarrow> bs = s_block_size (superblock fs) \<Longrightarrow> nr < 2 ^ 31 \<Longrightarrow> cum \<le> length (mm M fs) \<Longrightarrow>
    \<exists>r k t. rw_loop e (Some (i_size rip)) READING gid bs OK rip pos nr cum fs = Some (r, rip, pos + k, cum + k, t)
      \<and> read_moved e U M rip pos nr cum fs r k t"
proof (induction nr arbitrary: pos cum fs rule: less_induct)
  case (less nr)
  note L = rw_loop.simps [of e "Some (i_size rip)" READING gid bs OK rip pos nr cum fs]
  show ?case
  proof (cases "nr = 0 \<or> i_size rip \<le> pos")
    case True
    then show ?thesis using less.prems(5) bs0
      by (intro exI [of _ OK] exI [of _ 0] exI [of _ fs]) (auto simp: L read_moved_def same_disk_def fbytes_def)
  next
    case False
    let ?n = "pos div bs"
    have p: "pos < i_size rip" "0 < nr" using False by simp_all
    have "int (i_size rip) \<le> int MAX_FILE_POS" using less.prems(2) by (simp add: io_ok_def)
    then have p32: "pos < 2 ^ 32" using p unfolding of_nat_le_iff by (simp add: MAX_FILE_POS_def)
    define ch where "ch = min (min nr (bs - pos mod bs)) (i_size rip - pos)"
    have len: "rw_len (Some (i_size rip)) READING pos nr bs = ch" using p32 by (simp add: rw_len.simps Let_def ch_def)
    have ch: "0 < ch" "ch \<le> nr" "pos + ch \<le> i_size rip" "pos mod bs + ch \<le> bs"
      using p mod_less_divisor [OF bs0, of pos] by (auto simp: ch_def)
    obtain r1 t where c: "rw_chunk e rip pos (pos mod bs) ch nr READING gid cum bs fs = Some (r1, rip, t)" and sd: "same_disk U t fs"
      and m: "if r1 = OK then cum + ch \<le> length (mm M fs) \<and> mm M t = put_bytes cum (take ch (drop (pos mod bs) (fblock e rip fs ?n))) (mm M fs)
       else mm M t = mm M fs"
      using rw_chunk_read [OF laws less.prems(1,2) reg p(1,2) less.prems(4,3) ch(4)] by blast
    have fb: "take ch (drop (pos mod bs) (fblock e rip fs ?n)) = fbytes e rip fs pos ch"
      using fbytes_block [OF bs0 less.prems(3) _ ch(4)] length_fblock [OF file_ok_sel(1) [OF less.prems(1)]] less.prems(3) by simp
    have eq: "rw_loop e (Some (i_size rip)) READING gid bs OK rip pos nr cum fs =
        (if r1 \<noteq> OK \<or> \<not> ret_nonneg (lmfs_rdwt_err e t) then Some (r1, rip, pos, cum, t)
         else rw_loop e (Some (i_size rip)) READING gid bs OK rip (pos + ch) (nr - ch) (cum + ch) t)"
      using p bs0 c len rw_off_mod [OF p32] by (simp add: L Let_def del: rw_off.simps)
    show ?thesis
    proof (cases "r1 \<noteq> OK \<or> \<not> ret_nonneg (lmfs_rdwt_err e t)")
      case True
      then show ?thesis using eq sd m p less.prems(5)
        by (intro exI [of _ r1] exI [of _ 0] exI [of _ t]) (auto simp: read_moved_def fbytes_def)
    next
      case okc: False
      then have m: "cum + ch \<le> length (mm M fs)" "mm M t = put_bytes cum (fbytes e rip fs pos ch) (mm M fs)" using m fb by simp_all
      have lm: "length (mm M t) = length (mm M fs)" using m by simp
      note V = same_disk_view [OF sd]
      have pre: "nr - ch < nr" "nr - ch < 2 ^ 31" "file_ok e U rip t" "io_ok e rip t" "bs = s_block_size (superblock t)" "cum + ch \<le> length (mm M t)"
        using ch p less.prems V lm m(1) by (simp_all add: less_imp_diff_less)
      obtain r k t' where IH: "rw_loop e (Some (i_size rip)) READING gid bs OK rip (pos + ch) (nr - ch) (cum + ch) t
          = Some (r, rip, pos + ch + k, cum + ch + k, t')" "read_moved e U M rip (pos + ch) (nr - ch) (cum + ch) t r k t'"
        using less.IH [OF pre(1,3,4,5,2,6)] by blast
      have tot: "min nr (i_size rip - pos) = ch + min (nr - ch) (i_size rip - (pos + ch))" using ch by linarith
      have fbt: "fbytes e rip t = fbytes e rip fs" using V(3) by (simp add: fbytes_def fun_eq_iff)
      have cat: "put_bytes (cum + ch) (fbytes e rip fs (pos + ch) k) (mm M t) = put_bytes cum (fbytes e rip fs pos (ch + k)) (mm M fs)"
        if "cum + ch + k \<le> length (mm M fs)"
        using that put_bytes_append [of cum "fbytes e rip fs pos ch" "fbytes e rip fs (pos + ch) k" "mm M fs"] m(2)
        by (simp add: fbytes_add)
      have "read_moved e U M rip pos nr cum fs r (ch + k) t'"
        using IH(2) tot cat lm same_disk_trans [OF _ sd] unfolding read_moved_def fbt by (auto simp: add.assoc)
      then show ?thesis using eq okc IH(1) by (intro exI [of _ r] exI [of _ "ch + k"] exI [of _ t']) (simp add: add.assoc)
    qed
  qed
qed


text \<open>
  A write replaces the bytes from the position on by the caller's. When it stops early the block where
  it stopped may hold anything, all other bytes are as they should be.
\<close>

definition write_moved :: "'w mfs_env \<Rightarrow> ('w \<Rightarrow> zone_t set) \<Rightarrow> ('w \<Rightarrow> u8 list) \<Rightarrow> inode \<Rightarrow> nat \<Rightarrow> nat \<Rightarrow> nat \<Rightarrow> 'w mfs \<Rightarrow> ret \<Rightarrow> nat \<Rightarrow> inode \<Rightarrow> 'w mfs \<Rightarrow> bool" where
  "write_moved e U M rip pos nr cum fs r k rip' t \<longleftrightarrow>
     k \<le> nr \<and> meta e U M rip fs rip' t \<and> (0 < k \<longrightarrow> cum + k \<le> length (mm M fs))
   \<and> (r = OK \<and> ret_nonneg (lmfs_rdwt_err e t) \<longrightarrow> k = nr)
   \<and> (\<forall>p<capacity rip fs. k = nr \<or> p div s_block_size (superblock fs) \<noteq> (pos + k) div s_block_size (superblock fs) \<longrightarrow>
        fbyte e rip' t p = (if pos \<le> p \<and> p < pos + k then mm M fs ! (cum + (p - pos)) else fbyte e rip fs p))"

lemma fblock_tail:
  assumes "map_ok e U rip fs" and "bs = s_block_size (superblock fs)" and "pos mod bs = 0" and "pos div bs < max_zones rip" and "ch \<le> bs"
    and z: "\<And>p. pos + ch \<le> p \<Longrightarrow> p < capacity rip fs \<Longrightarrow> fbyte e rip fs p = 0"
  shows "drop ch (fblock e rip fs (pos div bs)) = replicate (bs - ch) 0"
proof (rule nth_equalityI)
  note len = length_fblock [OF assms(1), of "pos div bs", folded assms(2)]
  show "length (drop ch (fblock e rip fs (pos div bs))) = length (replicate (bs - ch) (0 :: u8))" using len by simp
  fix i assume "i < length (drop ch (fblock e rip fs (pos div bs)))"
  then have i: "ch + i < bs" using len by simp
  have d: "(pos + (ch + i)) div bs = pos div bs" "(pos + (ch + i)) mod bs = ch + i"
    using i assms(3) by (auto elim!: dvdE simp: mod_eq_0_iff_dvd)
  have "pos = pos div bs * bs" using assms(3) by (simp add: mod_eq_0_iff_dvd)
  moreover have "(pos div bs + 1) * bs \<le> max_zones rip * bs" using assms(4) by (intro mult_le_mono1) simp
  ultimately have "pos + (ch + i) < capacity rip fs" using i assms(2) unfolding capacity_def by (simp add: algebra_simps)
  then have "fblock e rip fs (pos div bs) ! (ch + i) = 0" using z [of "pos + (ch + i)"] d assms(2) by (simp add: fbyte_def)
  then show "drop ch (fblock e rip fs (pos div bs)) ! i = replicate (bs - ch) 0 ! i" using i len by simp
qed

lemma rw_loop_write:
  assumes laws: "mfs_laws e U" "cache_laws e U M" "copy_laws e U M" and bs0: "0 < bs"
  shows "file_ok e U rip fs \<Longrightarrow> bs = s_block_size (superblock fs) \<Longrightarrow> \<not> block_special rip \<Longrightarrow> i_mode rip AND I_TYPE \<noteq> I_IMMEDIATE \<Longrightarrow>
    i_num rip \<noteq> VMC_NO_INODE e \<Longrightarrow> pos + nr \<le> capacity rip fs \<Longrightarrow> pos + nr < 2 ^ 32 \<Longrightarrow>
    (\<And>p. i_size rip \<le> p \<Longrightarrow> pos + nr \<le> p \<Longrightarrow> p < capacity rip fs \<Longrightarrow> fbyte e rip fs p = 0) \<Longrightarrow>
    \<exists>r k rip' t. rw_loop e (Some f) WRITING gid bs OK rip pos nr cum fs = Some (r, rip', pos + k, cum + k, t)
      \<and> write_moved e U M rip pos nr cum fs r k rip' t"
proof (induction nr arbitrary: pos cum rip fs rule: less_induct)
  case (less nr)
  note L = rw_loop.simps [of e "Some f" WRITING gid bs OK rip pos nr cum fs]
  show ?case
  proof (cases "nr = 0")
    case True
    have "meta e U M rip fs rip fs" using less.prems(1) by (simp add: meta_def)
    then show ?thesis using True
      by (intro exI [of _ OK] exI [of _ 0] exI [of _ rip] exI [of _ fs]) (auto simp: rw_loop.simps [of _ _ _ _ _ _ _ _ 0] write_moved_def)
  next
    case False
    let ?n = "pos div bs"
    have p32: "pos < 2 ^ 32" using less.prems(7) by linarith
    have n: "?n < max_zones rip"
      using less.prems(6) False bs0 less.prems(2) by (simp add: capacity_def div_less_iff_less_mult)
    define ch where "ch = min nr (bs - pos mod bs)"
    have len: "rw_len (Some f) WRITING pos nr bs = ch" using p32 by (simp add: rw_len.simps Let_def ch_def)
    have ch: "0 < ch" "ch \<le> nr" "pos mod bs + ch \<le> bs"
      using False mod_less_divisor [OF bs0, of pos] by (auto simp: ch_def)
    have clean: "drop ch (fblock e rip fs ?n) = replicate (bs - ch) 0" if "ch \<noteq> bs" "i_size rip \<le> pos" "pos mod bs = 0"
    proof (rule fblock_tail [OF file_ok_sel(1) [OF less.prems(1)] less.prems(2) that(3) n])
      show "ch \<le> bs" using ch(3) by simp
      have "ch = nr" using that(1,3) unfolding ch_def by (auto simp: min_def split: if_splits)
      then show "fbyte e rip fs p = 0" if "pos + ch \<le> p" "p < capacity rip fs" for p
        using less.prems(8) [of p] that \<open>i_size rip \<le> pos\<close> by simp
    qed
    obtain r1 rip1 t where c: "rw_chunk e rip pos (pos mod bs) ch nr WRITING gid cum bs fs = Some (r1, rip1, t)" and me: "meta e U M rip fs rip1 t"
      and oth: "\<forall>j<max_zones rip. j \<noteq> ?n \<longrightarrow> fblock e rip1 t j = fblock e rip fs j"
      and okr: "r1 = OK \<longrightarrow> cum + ch \<le> length (mm M fs)
        \<and> fblock e rip1 t ?n = put_bytes (pos mod bs) (take ch (drop cum (mm M fs))) (fblock e rip fs ?n)"
      using rw_chunk_write [OF laws less.prems(1,3,4,5) p32 n less.prems(2) ch(3) clean, of nr gid cum] by blast
    have sb: "superblock t = superblock fs" using me by (simp add: meta_def)
    have eq: "rw_loop e (Some f) WRITING gid bs OK rip pos nr cum fs =
        (if r1 \<noteq> OK \<or> \<not> ret_nonneg (lmfs_rdwt_err e t) then Some (r1, rip1, pos, cum, t)
         else rw_loop e (Some f) WRITING gid bs OK rip1 (pos + ch) (nr - ch) (cum + ch) t)"
      using False bs0 c len rw_off_mod [OF p32] by (simp add: L Let_def del: rw_off.simps)
    have pdiv: "p div bs < max_zones rip" if "p < capacity rip fs" for p
      using that bs0 less.prems(2) by (simp add: capacity_def div_less_iff_less_mult)
    show ?thesis
    proof (cases "r1 \<noteq> OK \<or> \<not> ret_nonneg (lmfs_rdwt_err e t)")
      case True
      have "fbyte e rip1 t p = fbyte e rip fs p" if "p < capacity rip fs" "p div bs \<noteq> ?n" for p
        using oth pdiv [OF that(1)] that(2) sb less.prems(2) by (simp add: fbyte_def)
      then show ?thesis using eq True me False less.prems(2)
        by (intro exI [of _ r1] exI [of _ 0] exI [of _ rip1] exI [of _ t]) (auto simp: write_moved_def)
    next
      case okc: False
      define d where "d = take ch (drop cum (mm M fs))"
      have cm: "cum + ch \<le> length (mm M fs)" and blk: "fblock e rip1 t ?n = put_bytes (pos mod bs) d (fblock e rip fs ?n)"
        using okr okc by (simp_all add: d_def)
      have ld: "length d = ch" using cm by (simp add: d_def)
      have one: "fbyte e rip1 t p = (if pos \<le> p \<and> p < pos + ch then mm M fs ! (cum + (p - pos)) else fbyte e rip fs p)"
        if "p < capacity rip fs" for p
      proof -
        have "fbyte e rip1 t p = (if pos \<le> p \<and> p < pos + length d then d ! (p - pos) else fbyte e rip fs p)"
          using fbyte_chunk [OF bs0 _ _ _ _ blk, of p] less.prems(2) sb ld ch(3) oth pdiv [OF that]
            length_fblock [OF file_ok_sel(1) [OF less.prems(1)]] by simp
        then show ?thesis using cm by (auto simp: ld d_def)
      qed
      have ME: "max_zones rip1 = max_zones rip" "i_mode rip1 = i_mode rip" "i_size rip1 = i_size rip" "i_num rip1 = i_num rip"
        "mm M t = mm M fs" "file_ok e U rip1 t" using me by (simp_all add: meta_def)
      have cap: "capacity rip1 t = capacity rip fs" by (rule meta_io(3) [OF me])
      have pre: "nr - ch < nr" "bs = s_block_size (superblock t)" "\<not> block_special rip1" "i_mode rip1 AND I_TYPE \<noteq> I_IMMEDIATE"
        "i_num rip1 \<noteq> VMC_NO_INODE e" "pos + ch + (nr - ch) \<le> capacity rip1 t" "pos + ch + (nr - ch) < 2 ^ 32"
        using ch False less.prems sb ME cap meta_io(2) [OF me] by simp_all
      have z: "fbyte e rip1 t p = 0" if "i_size rip1 \<le> p" "pos + ch + (nr - ch) \<le> p" "p < capacity rip1 t" for p
        using that ch(2) one [of p] less.prems(8) [of p] ME(3) cap by simp
      obtain r k rip' t' where IH: "rw_loop e (Some f) WRITING gid bs OK rip1 (pos + ch) (nr - ch) (cum + ch) t
          = Some (r, rip', pos + ch + k, cum + ch + k, t')" and wm: "write_moved e U M rip1 (pos + ch) (nr - ch) (cum + ch) t r k rip' t'"
        using less.IH [OF pre(1) ME(6) pre(2-7) z] by blast
      have W: "k \<le> nr - ch" "meta e U M rip1 t rip' t'" "0 < k \<longrightarrow> cum + ch + k \<le> length (mm M t)"
        "r = OK \<and> ret_nonneg (lmfs_rdwt_err e t') \<longrightarrow> k = nr - ch" using wm by (simp_all add: write_moved_def)
      have "fbyte e rip' t' p = (if pos \<le> p \<and> p < pos + (ch + k) then mm M fs ! (cum + (p - pos)) else fbyte e rip fs p)"
        if p: "p < capacity rip fs" "ch + k = nr \<or> p div bs \<noteq> (pos + (ch + k)) div bs" for p
      proof -
        have "fbyte e rip' t' p = (if pos + ch \<le> p \<and> p < pos + ch + k then mm M t ! (cum + ch + (p - (pos + ch))) else fbyte e rip1 t p)"
          using wm p pre(2) cap ch(2) unfolding write_moved_def by (auto simp: add.assoc)
        moreover have "cum + ch + (p - (pos + ch)) = cum + (p - pos)" if "pos + ch \<le> p" using that by simp
        ultimately show ?thesis using one [OF p(1)] ME(5) by auto
      qed
      then have "write_moved e U M rip pos nr cum fs r (ch + k) rip' t'"
        using W ch cm ME(5) meta_trans [OF me W(2)] less.prems(2) unfolding write_moved_def by auto
      then show ?thesis using eq okc IH by (intro exI [of _ r] exI [of _ "ch + k"] exI [of _ rip'] exI [of _ t']) (simp add: add.assoc)
    qed
  qed
qed

end
