(* ===== verification/MFS_RW.thy ===== *)
theory MFS_RW
  imports MFS_File
begin

text \<open>
  What \<open>fs_readwrite\<close> does to a file seen as a list of bytes: reading and writing regular files, the
  immediate files of Lab 10, the conversion of an immediate file to a regular one, block device transfers
  and directory listings.
\<close>

section \<open>Files as lists of bytes\<close>

definition contents :: "'w mfs_env \<Rightarrow> inode \<Rightarrow> 'w mfs \<Rightarrow> u8 list" where
  "contents e rip fs = fbytes e rip fs 0 (i_size rip)"

text \<open>Writing \<open>d\<close> at position \<open>p\<close> of a list of bytes; a gap is filled with zeros.\<close>

definition overwrite :: "nat \<Rightarrow> u8 list \<Rightarrow> u8 list \<Rightarrow> u8 list" where
  "overwrite p d xs = take p (xs @ replicate (p - length xs) 0) @ d @ drop (p + length d) xs"

text \<open>The bytes of the blocks of a file behind its end are zero.\<close>

definition tail_zero :: "'w mfs_env \<Rightarrow> inode \<Rightarrow> 'w mfs \<Rightarrow> bool" where
  "tail_zero e rip fs \<longleftrightarrow> (\<forall>p. i_size rip \<le> p \<longrightarrow> p < capacity rip fs \<longrightarrow> fbyte e rip fs p = 0)"

lemma length_contents [simp]: "length (contents e rip fs) = i_size rip"
  by (simp add: contents_def)

lemma length_overwrite: "length (overwrite p d xs) = max (length xs) (p + length d)"
  by (simp add: overwrite_def)

lemma nth_contents: "p < i_size rip \<Longrightarrow> contents e rip fs ! p = fbyte e rip fs p"
  by (simp add: contents_def fbytes_def)

lemma nth_overwrite:
  assumes "i < max (length xs) (p + length d)"
  shows "overwrite p d xs ! i = (if p \<le> i \<and> i < p + length d then d ! (i - p) else if i < length xs then xs ! i else 0)"
  using assms by (auto simp: overwrite_def nth_append min_def not_less)

lemma take_overwrite: "take (length d) (drop p (overwrite p d xs)) = d"
  by (simp add: overwrite_def)

lemma contents_overwrite:
  assumes size: "i_size rip' = max (i_size rip) (pos + length d)" and cap: "i_size rip \<le> capacity rip fs" "pos + length d \<le> capacity rip fs"
    and tz: "tail_zero e rip fs"
    and b: "\<And>p. p < capacity rip fs \<Longrightarrow> fbyte e rip' t p = (if pos \<le> p \<and> p < pos + length d then d ! (p - pos) else fbyte e rip fs p)"
  shows "contents e rip' t = overwrite pos d (contents e rip fs)"
proof (rule nth_equalityI)
  show "length (contents e rip' t) = length (overwrite pos d (contents e rip fs))" using size by (simp add: length_overwrite)
  fix i assume "i < length (contents e rip' t)"
  then have i: "i < max (i_size rip) (pos + length d)" "i < i_size rip'" using size by simp_all
  have "fbyte e rip fs i = 0" if "\<not> i < i_size rip" using tz that i(1) cap by (auto simp: tail_zero_def)
  then show "contents e rip' t ! i = overwrite pos d (contents e rip fs) ! i"
    using b [of i] i cap by (auto simp: nth_contents nth_overwrite)
qed

section \<open>Requests on regular files\<close>

text \<open>The laws together with a disk that reports no errors.\<close>

definition rw_laws :: "'w mfs_env \<Rightarrow> ('w \<Rightarrow> zone_t set) \<Rightarrow> ('w \<Rightarrow> u8 list) \<Rightarrow> bool" where
  "rw_laws e U M \<longleftrightarrow> mfs_laws e U \<and> cache_laws e U M \<and> copy_laws e U M \<and> (\<forall>t. lmfs_rdwt_err e t = OK) \<and> END_OF_FILE e \<noteq> OK"

lemma rw_lawsD:
  assumes "rw_laws e U M"
  shows "mfs_laws e U" "cache_laws e U M" "copy_laws e U M" "lmfs_rdwt_err e t = OK" "END_OF_FILE e \<noteq> OK"
  using assms by (simp_all add: rw_laws_def)

text \<open>The request refers to slot \<open>i\<close> of the inode table, where \<open>rip\<close> is.\<close>

definition refers :: "'w mfs_env \<Rightarrow> rwreq \<Rightarrow> 'w mfs \<Rightarrow> nat \<Rightarrow> inode \<Rightarrow> bool" where
  "refers e rq fs i rip \<longleftrightarrow> find_inode e (rq_inode rq) fs = Some i \<and> i < length (inodes fs) \<and> inodes fs ! i = rip"

lemma rw_file_plain:
  assumes "i_mode rip AND I_TYPE \<noteq> I_IMMEDIATE"
  shows "rw_file e rw_flag gid bs f_size pos n rip fs =
    (case rw_loop e (Some f_size) rw_flag gid bs OK rip pos n 0 fs of
       None \<Rightarrow> None
     | Some (r, rip3, p, c, fs3) \<Rightarrow>
         (let (r', rip4) = rw_finish e rw_flag (i_mode rip AND I_TYPE = I_REGULAR \<or> i_mode rip AND I_TYPE = I_NAMED_PIPE)
                             (i_mode rip AND I_TYPE) f_size r p rip3 fs3
          in Some (r', Some (p, c), rip4, fs3)))"
  using assms by (simp add: rw_file_def Let_def bind_split split: option.split)

lemma rw_finish_calm:
  assumes "rw_laws e U M"
  shows "rw_finish e rw_flag regular mode f_size r p rip fs = (r, snd (rw_finish e rw_flag regular mode f_size r p rip fs))"
    "i_zone (snd (rw_finish e rw_flag regular mode f_size r p rip fs)) = i_zone rip"
    "i_mode (snd (rw_finish e rw_flag regular mode f_size r p rip fs)) = i_mode rip"
    "i_dev (snd (rw_finish e rw_flag regular mode f_size r p rip fs)) = i_dev rip"
    "i_num (snd (rw_finish e rw_flag regular mode f_size r p rip fs)) = i_num rip"
    "i_ndzones (snd (rw_finish e rw_flag regular mode f_size r p rip fs)) = i_ndzones rip"
    "i_nindirs (snd (rw_finish e rw_flag regular mode f_size r p rip fs)) = i_nindirs rip"
    "i_size (snd (rw_finish e rw_flag regular mode f_size r p rip fs)) =
       (if rw_flag = WRITING \<and> (regular \<or> mode = I_DIRECTORY) \<and> f_size < p then p else i_size rip)"
  using rw_lawsD(4,5) [OF assms] by (auto simp: rw_finish_def Let_def)

lemma finish_view:
  assumes "i_zone r = i_zone s" "i_dev r = i_dev s" "i_ndzones r = i_ndzones s" "i_nindirs r = i_nindirs s"
  shows "file_ok e U r = file_ok e U s" "fbyte e r = fbyte e s" "capacity r = capacity s" "fblock e r = fblock e s"
proof -
  show "file_ok e U r = file_ok e U s" by (rule file_ok_cong [OF assms])
  show f: "fblock e r = fblock e s" unfolding fblock_def view_cong [OF assms] assms ..
  show "fbyte e r = fbyte e s" unfolding fbyte_def f ..
  show "capacity r = capacity s" unfolding capacity_def view_cong [OF assms] ..
qed

lemma size_view [simp]:
  "fbyte e (rip\<lparr>i_size := n\<rparr>) = fbyte e rip" "capacity (rip\<lparr>i_size := n\<rparr>) = capacity rip"
  by (rule finish_view; simp)+

lemma put_back_sel [simp]:
  "superblock (put_back i rip fs) = superblock fs" "blocks (put_back i rip fs) = blocks fs" "fs_world (put_back i rip fs) = fs_world fs"
  "inodes (put_back i rip fs) = (inodes fs)[i := rip]"
  by (simp_all add: put_back_def)

lemma put_back_view [simp]:
  "file_ok e U r (put_back i rip fs) = file_ok e U r fs" "fbyte e r (put_back i rip fs) = fbyte e r fs"
  "capacity r (put_back i rip fs) = capacity r fs" "io_ok e r (put_back i rip fs) = io_ok e r fs"
proof -
  show "file_ok e U r (put_back i rip fs) = file_ok e U r fs" by (rule file_ok_state) simp_all
  show "fbyte e r (put_back i rip fs) = fbyte e r fs" using fblock_state [of "put_back i rip fs" fs e r] by (simp add: fbyte_def fun_eq_iff)
qed (simp_all add: capacity_def io_ok_def)

lemma fs_readwrite_plain:
  assumes rf: "refers e rq fs i rip" and ty: "rw_of (rq_type rq) = Some rw_flag" and reg: "\<not> block_special rip"
    and wr: "rw_flag = WRITING \<Longrightarrow> \<not> s_rd_only (superblock fs) \<and> int (rq_pos rq) + int (rq_nbytes rq) \<le> s_max_size (superblock fs)
      \<and> s_log_zone_size (superblock fs) = 0"
    and sb: "superblock (lmfs_reset_rdwt_err e fs) = superblock fs"
  shows "fs_readwrite e rq fs =
    (case rw_file e rw_flag (rq_grant rq) (s_block_size (superblock fs)) (i_size rip) (rq_pos rq) (rq_nbytes rq) rip (lmfs_reset_rdwt_err e fs) of
       None \<Rightarrow> None | Some (r, out, rip1, fs2) \<Rightarrow> Some (r, out, put_back i rip1 fs2))"
  using assms by (auto simp: fs_readwrite_def refers_def Let_def clear_zone_def bind_split split: option.split)


lemma regular_mode:
  assumes "i_mode rip AND I_TYPE = I_REGULAR"
  shows "\<not> block_special rip" "i_mode rip AND I_TYPE \<noteq> I_IMMEDIATE"
  using assms by (simp_all add: block_special_def mode_consts)

lemma io_ok_size:
  assumes "io_ok e rip fs"
  shows "i_size rip \<le> capacity rip fs" "i_size rip < 2 ^ 31"
proof -
  have "int (i_size rip) \<le> int MAX_FILE_POS" "int (i_size rip) \<le> int (max_zones rip * s_block_size (superblock fs))"
    using assms by (simp_all add: io_ok_def)
  then show "i_size rip \<le> capacity rip fs" "i_size rip < 2 ^ 31"
    unfolding of_nat_le_iff by (simp_all add: MAX_FILE_POS_def capacity_def)
qed

text \<open>What the inode table is searched by.\<close>

definition inode_key :: "inode \<Rightarrow> dev_t \<times> nat" where
  "inode_key rip = (i_dev rip, i_num rip)"

text \<open>A call that changed nothing of the file in slot \<open>i\<close> but its times.\<close>

definition file_kept :: "'w mfs_env \<Rightarrow> ('w \<Rightarrow> zone_t set) \<Rightarrow> nat \<Rightarrow> inode \<Rightarrow> 'w mfs \<Rightarrow> 'w mfs \<Rightarrow> bool" where
  "file_kept e U i rip fs fs' \<longleftrightarrow>
     i < length (inodes fs') \<and> superblock fs' = superblock fs \<and> map inode_key (inodes fs') = map inode_key (inodes fs)
   \<and> file_ok e U (inodes fs' ! i) fs' \<and> io_ok e (inodes fs' ! i) fs' \<and> i_mode (inodes fs' ! i) = i_mode rip
   \<and> (tail_zero e rip fs \<longrightarrow> tail_zero e (inodes fs' ! i) fs')"

lemma fs_read_bytes_frame:
  assumes laws: "rw_laws e U M" and rf: "refers e rq fs i rip" and reg: "i_mode rip AND I_TYPE = I_REGULAR"
    and ok: "file_ok e U rip fs" "io_ok e rip fs" and rq: "rq_type rq = REQ_READ" "rq_nbytes rq < 2 ^ 31"
  shows "\<exists>r k fs'. fs_readwrite e rq fs = Some (r, Some (rq_pos rq + k, k), fs')
    \<and> k \<le> min (rq_nbytes rq) (i_size rip - rq_pos rq) \<and> (r = OK \<longrightarrow> k = min (rq_nbytes rq) (i_size rip - rq_pos rq))
    \<and> k \<le> length (mm M fs) \<and> mm M fs' = put_bytes 0 (fbytes e rip fs (rq_pos rq) k) (mm M fs) \<and> blocks fs' = blocks fs
    \<and> contents e (inodes fs' ! i) fs' = contents e rip fs \<and> file_kept e U i rip fs fs'"
proof -
  note L = rw_lawsD [OF laws]
  define f0 where "f0 = lmfs_reset_rdwt_err e fs"
  have f0: "same U f0 fs" "mm M f0 = mm M fs" using copy_lawsD(4,5) [OF L(3)] by (simp_all add: f0_def)
  note V = same_disk_view [OF same_diskI [OF f0(1)]]
  have bs: "0 < s_block_size (superblock fs)" "s_block_size (superblock fs) = s_block_size (superblock f0)"
    using map_ok_sel(3,7) [OF file_ok_sel(1) [OF ok(1)]] V(1) by simp_all
  have ok0: "file_ok e U rip f0" "io_ok e rip f0" using ok V by simp_all
  obtain r k t where lp: "rw_loop e (Some (i_size rip)) READING (rq_grant rq) (s_block_size (superblock fs)) OK rip (rq_pos rq) (rq_nbytes rq) 0 f0
      = Some (r, rip, rq_pos rq + k, 0 + k, t)" and mv: "read_moved e U M rip (rq_pos rq) (rq_nbytes rq) 0 f0 r k t"
    using rw_loop_read [OF L(1,2,3) regular_mode(1) [OF reg] bs(1) ok0 bs(2) rq(2), of 0 "rq_grant rq" "rq_pos rq"] by auto
  define rip' where "rip' = snd (rw_finish e READING True (i_mode rip AND I_TYPE) (i_size rip) r (rq_pos rq + k) rip t)"
  note F = rw_finish_calm [OF laws, of READING True "i_mode rip AND I_TYPE" "i_size rip" r "rq_pos rq + k" rip t, folded rip'_def]
  have call: "fs_readwrite e rq fs = Some (r, Some (rq_pos rq + k, k), put_back i rip' t)"
    using fs_readwrite_plain [OF rf _ regular_mode(1) [OF reg], of READING] rq(1) V(1) lp F(1) regular_mode(2) [OF reg] reg
    by (simp add: rw_file_plain f0_def [symmetric] Let_def)
  have sd: "same_disk U t f0" using mv by (simp add: read_moved_def)
  note W = same_disk_view [OF sd]
  have fv: "fbyte e rip' = fbyte e rip" "i_size rip' = i_size rip" using finish_view(2) F by simp_all
  have il: "i < length (inodes t)" using rf sd f0(1) by (simp add: refers_def same_disk_def same_def)
  have "contents e (inodes (put_back i rip' t) ! i) (put_back i rip' t) = contents e rip fs"
    using il fv V(3) W(3) by (simp add: contents_def fbytes_def)
  moreover have "fbytes e rip f0 = fbytes e rip fs" using V(3) by (simp add: fbytes_def fun_eq_iff)
  moreover have "blocks t = blocks fs" using sd f0(1) by (simp add: same_disk_def same_def)
  moreover have "file_kept e U i rip fs (put_back i rip' t)"
  proof -
    have st: "superblock (put_back i rip' t) = superblock fs" "inodes (put_back i rip' t) ! i = rip'" "i < length (inodes (put_back i rip' t))"
      using V(1) W(1) il by (simp_all add: put_back_def)
    have pv: "file_ok e U rip' (put_back i rip' t) = file_ok e U rip' t" "fbyte e rip' (put_back i rip' t) = fbyte e rip' t"
      by (simp_all add: put_back_view)
    have v: "file_ok e U rip' t" "max_zones rip' = max_zones rip"
      using ok V(4) W(4) by (simp_all add: finish_view(1) [of rip' rip, OF F(2,4,6,7)] view_cong(6) [of rip' rip, OF F(2,4,6,7)])
    have "map inode_key (inodes (put_back i rip' t)) = map inode_key (inodes fs)"
      using rf sd f0(1) F(4,5) by (auto simp: put_back_def map_update inode_key_def refers_def same_disk_def same_def intro!: nth_equalityI simp: nth_list_update)
    moreover have "io_ok e rip' (put_back i rip' t)" using ok(2) F(4,5) fv(2) v(2) st(1) by (simp add: io_ok_def)
    moreover have "tail_zero e rip fs \<longrightarrow> tail_zero e rip' (put_back i rip' t)"
      using fv pv(2) V(3,6) W(3,6) by (simp add: tail_zero_def finish_view(3) [of rip' rip, OF F(2,4,6,7)])
    ultimately show ?thesis using st pv(1) v(1) F(3) by (simp add: file_kept_def)
  qed
  ultimately show ?thesis using call mv f0(2) L(4) by (auto simp: read_moved_def)
qed

lemma fs_read_bytes:
  assumes laws: "rw_laws e U M" and rf: "refers e rq fs i rip" and reg: "i_mode rip AND I_TYPE = I_REGULAR"
    and ok: "file_ok e U rip fs" "io_ok e rip fs" and rq: "rq_type rq = REQ_READ" "rq_nbytes rq < 2 ^ 31"
  shows "\<exists>r k fs'. fs_readwrite e rq fs = Some (r, Some (rq_pos rq + k, k), fs')
    \<and> k \<le> min (rq_nbytes rq) (i_size rip - rq_pos rq) \<and> (r = OK \<longrightarrow> k = min (rq_nbytes rq) (i_size rip - rq_pos rq))
    \<and> k \<le> length (mm M fs) \<and> mm M fs' = put_bytes 0 (fbytes e rip fs (rq_pos rq) k) (mm M fs) \<and> blocks fs' = blocks fs
    \<and> contents e (inodes fs' ! i) fs' = contents e rip fs"
  using fs_read_bytes_frame [OF assms] by blast

text \<open>
  The loop and the end of a write on a regular file, for a file of which the first \<open>f_size\<close> bytes count;
  the size recorded in the inode may be smaller, as it is after a conversion.
\<close>

lemma write_file_bytes:
  assumes laws: "rw_laws e U M" and reg: "i_mode rip AND I_TYPE = I_REGULAR" and ok: "file_ok e U rip fs" "i_num rip \<noteq> VMC_NO_INODE e"
    and fits: "pos + n \<le> capacity rip fs" "pos + n < 2 ^ 32" "f_size \<le> capacity rip fs"
    and size: "i_size rip \<le> f_size" "i_size rip = f_size \<or> f_size < pos + n"
    and tz: "\<And>p. f_size \<le> p \<Longrightarrow> p < capacity rip fs \<Longrightarrow> fbyte e rip fs p = 0"
  shows "\<exists>r k rip' t. rw_file e WRITING gid (s_block_size (superblock fs)) f_size pos n rip fs = Some (r, Some (pos + k, k), rip', t)
    \<and> k \<le> n \<and> file_ok e U rip' t \<and> mm M t = mm M fs \<and> inodes t = inodes fs \<and> superblock t = superblock fs \<and> i_mode rip' = i_mode rip
    \<and> i_dev rip' = i_dev rip \<and> i_num rip' = i_num rip \<and> max_zones rip' = max_zones rip
    \<and> (r = OK \<longrightarrow> k = n \<and> n \<le> length (mm M fs) \<and> i_size rip' = max f_size (pos + n) \<and> tail_zero e rip' t
        \<and> contents e rip' t = overwrite pos (take n (mm M fs)) (fbytes e rip fs 0 f_size))"
proof -
  note L = rw_lawsD [OF laws] and R = regular_mode [OF reg]
  let ?bs = "s_block_size (superblock fs)"
  have bs: "0 < ?bs" using map_ok_sel(3,7) [OF file_ok_sel(1) [OF ok(1)]] by simp
  have clean: "fbyte e rip fs p = 0" if "i_size rip \<le> p" "pos + n \<le> p" "p < capacity rip fs" for p
    using tz [of p] that size by auto
  obtain r k rip3 t where lp: "rw_loop e (Some f_size) WRITING gid ?bs OK rip pos n 0 fs = Some (r, rip3, pos + k, 0 + k, t)"
    and wm: "write_moved e U M rip pos n 0 fs r k rip3 t"
    using rw_loop_write [OF L(1,2,3) bs ok(1) refl R ok(2) fits(1,2) clean] by blast
  define rip' where "rip' = snd (rw_finish e WRITING True (i_mode rip AND I_TYPE) f_size r (pos + k) rip3 t)"
  note F = rw_finish_calm [OF laws, of WRITING True "i_mode rip AND I_TYPE" f_size r "pos + k" rip3 t, folded rip'_def]
  have FV: "file_ok e U rip' t = file_ok e U rip3 t" "fbyte e rip' t p = fbyte e rip3 t p" "max_zones rip' = max_zones rip3" for p
    by (simp_all add: finish_view [of rip' rip3, OF F(2,4,6,7)] view_cong(6) [of rip' rip3, OF F(2,4,6,7)])
  have call: "rw_file e WRITING gid ?bs f_size pos n rip fs = Some (r, Some (pos + k, k), rip', t)"
    using lp F(1) R(2) reg by (simp add: rw_file_plain Let_def)
  have W: "k \<le> n" "meta e U M rip fs rip3 t" "0 < k \<longrightarrow> k \<le> length (mm M fs)" "r = OK \<longrightarrow> k = n"
    using wm L(4) by (simp_all add: write_moved_def)
  note ME = W(2) [unfolded meta_def]
  have cap: "capacity rip3 t = capacity rip fs" "capacity rip' t = capacity rip fs" using meta_io(3) [OF W(2)] by (simp_all add: capacity_def FV(3))
  have res: "n \<le> length (mm M fs) \<and> i_size rip' = max f_size (pos + n) \<and> tail_zero e rip' t
        \<and> contents e rip' t = overwrite pos (take n (mm M fs)) (fbytes e rip fs 0 f_size)" if r: "r = OK"
  proof -
    have k: "k = n" using W(4) r by simp
    have lm: "length (take n (mm M fs)) = n" using W(3) k by (cases n) simp_all
    have b: "fbyte e rip' t p = (if pos \<le> p \<and> p < pos + n then mm M fs ! (p - pos) else fbyte e rip fs p)" if "p < capacity rip fs" for p
      using wm that k FV(2) by (simp add: write_moved_def)
    have sz: "i_size rip' = max f_size (pos + n)" using F(8) k size ME by auto
    have "tail_zero e rip' t" using b tz sz cap by (simp add: tail_zero_def)
    moreover have "contents e rip' t = overwrite pos (take n (mm M fs)) (contents e (rip\<lparr>i_size := f_size\<rparr>) fs)"
    proof (rule contents_overwrite)
      show "tail_zero e (rip\<lparr>i_size := f_size\<rparr>) fs" using tz by (simp add: tail_zero_def)
      show "fbyte e rip' t p = (if pos \<le> p \<and> p < pos + length (take n (mm M fs)) then take n (mm M fs) ! (p - pos) else fbyte e (rip\<lparr>i_size := f_size\<rparr>) fs p)"
        if "p < capacity (rip\<lparr>i_size := f_size\<rparr>) fs" for p
        using b [of p] that lm by auto
    qed (use sz lm fits in simp_all)
    moreover have "contents e (rip\<lparr>i_size := f_size\<rparr>) fs = fbytes e rip fs 0 f_size"
      by (simp add: contents_def fbytes_def)
    ultimately show ?thesis using sz lm by simp
  qed
  show ?thesis using call W ME F FV(1,3) res by auto
qed

lemma fs_write_bytes_frame:
  assumes laws: "rw_laws e U M" and rf: "refers e rq fs i rip" and reg: "i_mode rip AND I_TYPE = I_REGULAR"
    and ok: "file_ok e U rip fs" "io_ok e rip fs" "tail_zero e rip fs" and rq: "rq_type rq = REQ_WRITE"
    and fits: "\<not> s_rd_only (superblock fs)" "int (rq_pos rq) + int (rq_nbytes rq) \<le> s_max_size (superblock fs)"
  shows "\<exists>r k fs'. fs_readwrite e rq fs = Some (r, Some (rq_pos rq + k, k), fs') \<and> k \<le> rq_nbytes rq
    \<and> file_ok e U (inodes fs' ! i) fs' \<and> mm M fs' = mm M fs \<and> i < length (inodes fs')
    \<and> superblock fs' = superblock fs \<and> map inode_key (inodes fs') = map inode_key (inodes fs)
    \<and> (r = OK \<longrightarrow> k = rq_nbytes rq \<and> rq_nbytes rq \<le> length (mm M fs) \<and> io_ok e (inodes fs' ! i) fs' \<and> i_mode (inodes fs' ! i) = i_mode rip
        \<and> contents e (inodes fs' ! i) fs' = overwrite (rq_pos rq) (take (rq_nbytes rq) (mm M fs)) (contents e rip fs)
        \<and> tail_zero e (inodes fs' ! i) fs')"
proof -
  note L = rw_lawsD [OF laws]
  define f0 where "f0 = lmfs_reset_rdwt_err e fs"
  have f0: "same U f0 fs" "mm M f0 = mm M fs" using copy_lawsD(4,5) [OF L(3)] by (simp_all add: f0_def)
  note V = same_disk_view [OF same_diskI [OF f0(1)]]
  have cap: "rq_pos rq + rq_nbytes rq \<le> capacity rip f0" "rq_pos rq + rq_nbytes rq < 2 ^ 32" "i_size rip \<le> capacity rip f0"
  proof -
    have "int (rq_pos rq + rq_nbytes rq) \<le> int MAX_FILE_POS" "int (rq_pos rq + rq_nbytes rq) \<le> int (max_zones rip * s_block_size (superblock fs))"
      using ok(2) fits(2) by (simp_all add: io_ok_def)
    then show "rq_pos rq + rq_nbytes rq \<le> capacity rip f0" "rq_pos rq + rq_nbytes rq < 2 ^ 32" "i_size rip \<le> capacity rip f0"
      unfolding of_nat_le_iff V(6) using io_ok_size(1) [OF ok(2)] by (simp_all add: MAX_FILE_POS_def capacity_def)
  qed
  have num: "i_num rip \<noteq> VMC_NO_INODE e" using ok(2) by (simp add: io_ok_def)
  have tz: "fbyte e rip f0 p = 0" if "i_size rip \<le> p" "p < capacity rip f0" for p
    using ok(3) that V by (simp add: tail_zero_def)
  have okf: "file_ok e U rip f0" using ok(1) V(4) by simp
  obtain r k rip' t where w: "rw_file e WRITING (rq_grant rq) (s_block_size (superblock f0)) (i_size rip) (rq_pos rq) (rq_nbytes rq) rip f0
      = Some (r, Some (rq_pos rq + k, k), rip', t)" "k \<le> rq_nbytes rq" "file_ok e U rip' t" "mm M t = mm M f0" "inodes t = inodes f0"
      "superblock t = superblock f0" "i_mode rip' = i_mode rip" "i_dev rip' = i_dev rip" "i_num rip' = i_num rip" "max_zones rip' = max_zones rip"
    and res: "r = OK \<longrightarrow> k = rq_nbytes rq \<and> rq_nbytes rq \<le> length (mm M f0) \<and> i_size rip' = max (i_size rip) (rq_pos rq + rq_nbytes rq) \<and> tail_zero e rip' t
        \<and> contents e rip' t = overwrite (rq_pos rq) (take (rq_nbytes rq) (mm M f0)) (fbytes e rip f0 0 (i_size rip))"
    using write_file_bytes [OF laws reg okf num cap order_refl disjI1 [OF refl] tz, of "rq_grant rq"] by blast
  have call: "fs_readwrite e rq fs = Some (r, Some (rq_pos rq + k, k), put_back i rip' t)"
    using fs_readwrite_plain [OF rf _ regular_mode(1) [OF reg], of WRITING] rq fits map_ok_sel(1) [OF file_ok_sel(1) [OF ok(1)]] V(1) w(1)
    by (simp add: f0_def [symmetric])
  have il: "i < length (inodes t)" using rf w(5) f0(1) by (simp add: refers_def same_def)
  have io': "io_ok e rip' t" if "r = OK"
    using ok(2) res that w(6-10) V(1) fits(2) by (simp add: io_ok_def max_def)
  have tz': "tail_zero e rip' (put_back i rip' t) = tail_zero e rip' t" "contents e rip' (put_back i rip' t) = contents e rip' t"
    by (simp_all add: tail_zero_def contents_def fbytes_def)
  have "fbytes e rip f0 0 (i_size rip) = contents e rip fs" using V(3) by (simp add: contents_def fbytes_def)
  moreover have "map inode_key (inodes (put_back i rip' t)) = map inode_key (inodes fs)"
    using rf w(5,8,9) f0(1) by (auto simp: put_back_def map_update inode_key_def refers_def same_def intro!: nth_equalityI simp: nth_list_update)
  moreover have "superblock (put_back i rip' t) = superblock fs" using w(6) V(1) by (simp add: put_back_def)
  ultimately show ?thesis using call w il io' res f0(2) tz' by auto
qed

lemma fs_write_bytes:
  assumes laws: "rw_laws e U M" and rf: "refers e rq fs i rip" and reg: "i_mode rip AND I_TYPE = I_REGULAR"
    and ok: "file_ok e U rip fs" "io_ok e rip fs" "tail_zero e rip fs" and rq: "rq_type rq = REQ_WRITE"
    and fits: "\<not> s_rd_only (superblock fs)" "int (rq_pos rq) + int (rq_nbytes rq) \<le> s_max_size (superblock fs)"
  shows "\<exists>r k fs'. fs_readwrite e rq fs = Some (r, Some (rq_pos rq + k, k), fs') \<and> k \<le> rq_nbytes rq
    \<and> file_ok e U (inodes fs' ! i) fs' \<and> mm M fs' = mm M fs \<and> i < length (inodes fs')
    \<and> (r = OK \<longrightarrow> k = rq_nbytes rq \<and> rq_nbytes rq \<le> length (mm M fs) \<and> io_ok e (inodes fs' ! i) fs' \<and> i_mode (inodes fs' ! i) = i_mode rip
        \<and> contents e (inodes fs' ! i) fs' = overwrite (rq_pos rq) (take (rq_nbytes rq) (mm M fs)) (contents e rip fs)
        \<and> tail_zero e (inodes fs' ! i) fs')"
  using fs_write_bytes_frame [OF assms] by blast


section \<open>Immediate files\<close>

text \<open>The contents of an immediate file are in the zone array.\<close>

definition imm_bytes :: "inode \<Rightarrow> u8 list" where
  "imm_bytes rip = take (i_size rip) (i_zone rip)"

definition imm_ok :: "inode \<Rightarrow> bool" where
  "imm_ok rip \<longleftrightarrow> i_mode rip AND I_TYPE = I_IMMEDIATE \<and> i_size rip \<le> 32 \<and> length (i_zone rip) = 40
     \<and> (\<forall>p. i_size rip \<le> p \<longrightarrow> p < 40 \<longrightarrow> i_zone rip ! p = 0)"

lemma put32_zero_prefix:
  assumes "4 * k + 4 \<le> length xs" "\<forall>p<4 * k. xs ! p = 0"
  shows "\<forall>p<4 * k + 4. put32 (4 * k) 0 xs ! p = 0"
  using assms by (auto simp: put32_def nth_list_update)

lemma clear_zones:
  assumes "4 * k \<le> length (i_zone rip)"
  shows "core (fold (\<lambda>i. set_izone i NO_ZONE) [0..<k] rip) = core rip \<and> length (i_zone (fold (\<lambda>i. set_izone i NO_ZONE) [0..<k] rip)) = length (i_zone rip)
    \<and> (\<forall>p<4 * k. i_zone (fold (\<lambda>i. set_izone i NO_ZONE) [0..<k] rip) ! p = 0)"
  using assms
proof (induction k)
  case (Suc k)
  define r where "r = fold (\<lambda>i. set_izone i NO_ZONE) [0..<k] rip"
  have f: "fold (\<lambda>i. set_izone i NO_ZONE) [0..<Suc k] rip = set_izone k NO_ZONE r" by (simp add: r_def)
  have r: "core r = core rip" "length (i_zone r) = length (i_zone rip)" "\<forall>p<4 * k. i_zone r ! p = 0"
    using Suc unfolding r_def by simp_all
  have "i_zone (set_izone k NO_ZONE r) = put32 (4 * k) 0 (i_zone r)" by (simp add: set_izone_def NO_ZONE_def)
  moreover have "\<forall>p<4 * k + 4. put32 (4 * k) 0 (i_zone r) ! p = 0" using r Suc.prems by (intro put32_zero_prefix) simp_all
  ultimately show ?case unfolding f using r by simp
qed simp

lemma core_geom: "core r = core s \<Longrightarrow> i_ndzones r = i_ndzones s" "core r = core s \<Longrightarrow> i_nindirs r = i_nindirs s"
  by (auto simp: core_def dest: arg_cong [of _ _ i_ndzones] arg_cong [of _ _ i_nindirs])

lemma removeInodeEntry_spec:
  assumes "length (i_zone rip) = 4 * V2_NR_TZONES e"
  shows "i_zone (removeInodeEntry e rip) = replicate (4 * V2_NR_TZONES e) 0" "i_size (removeInodeEntry e rip) = 0"
    "i_mode (removeInodeEntry e rip) = i_mode rip" "i_dev (removeInodeEntry e rip) = i_dev rip" "i_num (removeInodeEntry e rip) = i_num rip"
    "i_ndzones (removeInodeEntry e rip) = i_ndzones rip" "i_nindirs (removeInodeEntry e rip) = i_nindirs rip"
proof -
  define r0 where "r0 = IN_MARKDIRTY (rip\<lparr>i_size := 0, i_update := {ATIME, CTIME, MTIME}\<rparr>)"
  have r: "removeInodeEntry e rip = fold (\<lambda>i. set_izone i NO_ZONE) [0..<V2_NR_TZONES e] r0" by (simp add: removeInodeEntry_def r0_def)
  have "4 * V2_NR_TZONES e \<le> length (i_zone r0)" using assms by (simp add: r0_def)
  note C = clear_zones [OF this, folded r]
  show "i_zone (removeInodeEntry e rip) = replicate (4 * V2_NR_TZONES e) 0"
    using C assms by (intro nth_equalityI) (simp_all add: r0_def)
  show "i_size (removeInodeEntry e rip) = 0"
    "i_mode (removeInodeEntry e rip) = i_mode rip" "i_dev (removeInodeEntry e rip) = i_dev rip" "i_num (removeInodeEntry e rip) = i_num rip"
    "i_ndzones (removeInodeEntry e rip) = i_ndzones rip" "i_nindirs (removeInodeEntry e rip) = i_nindirs rip"
    using core_sel [OF conjunct1 [OF C]] core_geom [OF conjunct1 [OF C]] by (simp_all add: r0_def IN_MARKDIRTY_def)
qed

lemma mode_convert: "(I_REGULAR OR (m AND ALL_MODES)) AND I_TYPE = I_REGULAR"
proof -
  have "(m AND ALL_MODES) AND I_TYPE = 0" by (simp add: mode_consts and.assoc)
  moreover have "(I_REGULAR OR (m AND ALL_MODES)) AND I_TYPE = (I_REGULAR AND I_TYPE) OR ((m AND ALL_MODES) AND I_TYPE)"
    by (rule bit.conj_disj_distrib2)
  ultimately show ?thesis by (simp add: mode_consts)
qed

text \<open>The geometry that a converted file needs.\<close>

definition geom_ok :: "'w mfs_env \<Rightarrow> inode \<Rightarrow> 'w mfs \<Rightarrow> bool" where
  "geom_ok e rip fs \<longleftrightarrow>
     V2_NR_TZONES e = 10 \<and> i_ndzones rip + 2 \<le> 10 \<and> 0 < i_ndzones rip \<and> 10 \<le> i_nindirs rip
   \<and> s_log_zone_size (superblock fs) = 0 \<and> s_version_V3 (superblock fs) \<and> s_block_size (superblock fs) = 4 * i_nindirs rip
   \<and> (\<forall>b. length (blocks fs (i_dev rip, b)) = 4 * i_nindirs rip)"


lemma fbyte_blocks:
  assumes "0 < bs" "bs = s_block_size (superblock t)" "f \<le> bs" "length z = f" "p < max_zones rip * bs"
    and "\<And>j. j < max_zones rip \<Longrightarrow> fblock e rip t j = (if j = 0 then put_bytes 0 z (replicate bs 0) else replicate bs 0)"
  shows "fbyte e rip t p = (if p < f then z ! p else 0)"
proof -
  have "p div bs < max_zones rip" using assms(1,5) by (simp add: div_less_iff_less_mult)
  then have b: "fbyte e rip t p = (if p div bs = 0 then put_bytes 0 z (replicate bs 0) else replicate bs 0) ! (p mod bs)"
    using assms(2,6) by (simp add: fbyte_def)
  show ?thesis
  proof (cases "p < bs")
    case True
    then show ?thesis using b assms(3,4) by (simp add: nth_put_bytes)
  next
    case False
    then have "p div bs \<noteq> 0" using assms(1) by (simp add: div_eq_0_iff)
    then show ?thesis using b False assms(1,3) by simp
  qed
qed

lemma imm_convert_moves:
  assumes laws: "rw_laws e U M" and imm: "imm_ok rip" and geo: "geom_ok e rip fs"
  shows "(\<exists>r rip' t. imm_convert e (i_size rip) rip fs = Some (Return (r, rip', t)) \<and> r \<noteq> OK \<and> i_size rip' = 0 \<and> inodes t = inodes fs
        \<and> i_mode rip' = I_REGULAR OR (i_mode rip AND ALL_MODES)) \<or>
    (\<exists>rip' t. imm_convert e (i_size rip) rip fs = Some (Continue (rip', t)) \<and> i_mode rip' = I_REGULAR OR (i_mode rip AND ALL_MODES)
        \<and> i_size rip' = 0 \<and> i_dev rip' = i_dev rip \<and> i_num rip' = i_num rip \<and> max_zones rip' = max_zones rip \<and> file_ok e U rip' t
        \<and> superblock t = superblock fs \<and> mm M t = mm M fs \<and> inodes t = inodes fs
        \<and> (\<forall>p<capacity rip' t. fbyte e rip' t p = (if p < i_size rip then i_zone rip ! p else 0)))"
proof -
  note L = rw_lawsD [OF laws] and G = geo [unfolded geom_ok_def]
  let ?bs = "s_block_size (superblock fs)"
  have Z: "length (i_zone rip) = 40" "i_size rip \<le> 32" using imm by (simp_all add: imm_ok_def)
  have "length (i_zone rip) = 4 * V2_NR_TZONES e" using Z G by simp
  note R = removeInodeEntry_spec [OF this]
  define rip1 where "rip1 = (removeInodeEntry e rip)\<lparr>i_mode := I_REGULAR OR (i_mode (removeInodeEntry e rip) AND ALL_MODES)\<rparr>"
  have r1: "i_zone rip1 = replicate 40 0" "i_size rip1 = 0" "i_mode rip1 = I_REGULAR OR (i_mode rip AND ALL_MODES)" "i_dev rip1 = i_dev rip"
    "i_num rip1 = i_num rip" "i_ndzones rip1 = i_ndzones rip" "i_nindirs rip1 = i_nindirs rip" using R G by (simp_all add: rip1_def)
  have E: "file_ok e U rip1 fs" "bmap e rip1 fs n = NO_ZONE" for n
    by (rule empty_file [OF r1(1)]; use G r1 in simp)+
  have mode: "i_mode rip1 AND I_TYPE \<noteq> I_IMMEDIATE" unfolding r1(3) mode_convert by (simp add: mode_consts)
  have mz: "0 < max_zones rip1" "max_zones rip1 = max_zones rip" using G r1 by (simp_all add: max_zones_def)
  have bm: "block_made e U rip1 fs 0 (new_block e rip1 0 fs)" using new_block_made [OF L(1) E(1) mode, of 0] mz by simp
  then obtain bo rip2 t1 where nb: "new_block e rip1 0 fs = Some (bo, rip2, t1)" by (auto simp: block_made_def)
  note q = new_block_quiet [OF quiet_mem [OF L(2)] nb] new_block_quiet [OF quiet_inodes [OF L(1,2)] nb]
  note B = bm [unfolded nb block_made_def, simplified]
  have cv: "imm_convert e (i_size rip) rip fs = (case bo of None \<Rightarrow> Some (Return (err_code t1, rip2, t1))
      | Some bp \<Rightarrow> if length (b_data bp t1) < i_size rip then None
         else Some (Continue (rip2, put_block e bp PARTIAL_DATA_BLOCK (MARKDIRTY bp (set_data bp (put_bytes 0 (imm_bytes rip) (b_data bp t1)) t1)))))"
    using Z nb by (simp add: imm_convert_def Let_def rip1_def [symmetric] imm_bytes_def split: option.splits)
  show ?thesis
  proof (cases bo)
    case None
    then show ?thesis using cv B r1 q new_block_none_err [OF L(1) nb [unfolded None]] by simp
  next
    case (Some bp)
    have bp: "b_key bp = (i_dev rip2, bmap e rip2 t1 0)" "bmap e rip2 t1 0 \<noteq> NO_ZONE" "fblock e rip2 t1 0 = replicate ?bs 0"
      "file_ok e U rip2 t1" "superblock t1 = superblock fs" "0 < max_zones rip2" "max_zones rip2 = max_zones rip"
      using B Some mz r1 by simp_all
    have dat: "b_data bp t1 = replicate ?bs 0" using bp by (simp add: b_data_def fblock_def)
    define Y where "Y = put_bytes 0 (imm_bytes rip) (replicate ?bs (0 :: u8))"
    have li: "length (imm_bytes rip) = i_size rip" "i_size rip \<le> ?bs" using Z G by (simp_all add: imm_bytes_def)
    have Y: "length Y = ?bs" using li by (simp add: Y_def)
    define t2 where "t2 = MARKDIRTY bp (set_data bp Y t1)"
    have t2: "superblock t2 = superblock t1" "blocks t2 = (blocks t1)((i_dev rip2, bmap e rip2 t1 0) := Y)" "U (fs_world t2) = U (fs_world t1)"
      "mm M t2 = mm M fs" "inodes t2 = inodes fs" using bp(1) q by (simp_all add: t2_def MARKDIRTY_def set_data_def)
    have lY: "length Y = s_block_size (superblock t1)" using Y bp(5) by simp
    note D = fblock_data [OF bp(4,6,2) lY t2(1-3)]
    define t3 where "t3 = put_block e bp PARTIAL_DATA_BLOCK t2"
    have t3: "same U t3 t2" "mm M t3 = mm M t2" unfolding t3_def using put_block_same(1) [OF L(1)] cache_lawsD(5) [OF L(2)] by auto
    have S: "superblock t3 = superblock fs" using same_sel(1) [OF t3(1)] t2(1) bp(5) by simp
    have fb: "fblock e rip2 t3 j = (if j = 0 then Y else replicate ?bs 0)" if "j < max_zones rip2" for j
    proof -
      have "fblock e rip2 t1 j = replicate ?bs 0" if "j \<noteq> 0" using B \<open>j < max_zones rip2\<close> that E(2) by (simp add: fblock_def)
      then show ?thesis using D(2) [OF that] fblock_same [OF t3(1)] by simp
    qed
    have "imm_convert e (i_size rip) rip fs = Some (Continue (rip2, t3))"
      using cv Some dat li(2) by (simp add: t3_def t2_def Y_def)
    moreover have "file_ok e U rip2 t3" using D(1) file_ok_same [OF t3(1)] by simp
    moreover have "fbyte e rip2 t3 p = (if p < i_size rip then i_zone rip ! p else 0)" if "p < capacity rip2 t3" for p
    proof -
      have "fbyte e rip2 t3 p = (if p < i_size rip then imm_bytes rip ! p else 0)"
        by (rule fbyte_blocks [of ?bs]) (use G S li fb that in \<open>auto simp: capacity_def Y_def\<close>)
      then show ?thesis by (simp add: imm_bytes_def)
    qed
    moreover have "inodes t3 = inodes fs" using t3(1) t2(5) by (simp add: same_def)
    ultimately show ?thesis using B r1 S t3(2) t2(4) bp(7) by auto
  qed
qed


lemma imm_mode:
  assumes "imm_ok rip"
  shows "\<not> block_special rip" "i_mode rip AND I_TYPE = I_IMMEDIATE"
  using assms by (simp_all add: imm_ok_def block_special_def mode_consts)

text \<open>A write that does not fit in 32 bytes first moves the data to a block.\<close>

lemma imm_convert_bytes:
  assumes laws: "rw_laws e U M" and rf: "refers e rq fs i rip" and imm: "imm_ok rip" and geo: "geom_ok e rip fs" and io: "io_ok e rip fs"
    and rq: "rq_type rq = REQ_WRITE" "32 < rq_pos rq + rq_nbytes rq"
    and fits: "\<not> s_rd_only (superblock fs)" "int (rq_pos rq) + int (rq_nbytes rq) \<le> s_max_size (superblock fs)"
  shows "\<exists>r out fs'. fs_readwrite e rq fs = Some (r, out, fs')
    \<and> i_mode (inodes fs' ! i) = I_REGULAR OR (i_mode rip AND ALL_MODES)
    \<and> (r = OK \<longrightarrow> out = Some (rq_pos rq + rq_nbytes rq, rq_nbytes rq) \<and> file_ok e U (inodes fs' ! i) fs'
        \<and> tail_zero e (inodes fs' ! i) fs'
        \<and> contents e (inodes fs' ! i) fs' = overwrite (rq_pos rq) (take (rq_nbytes rq) (mm M fs)) (imm_bytes rip))"
proof -
  note L = rw_lawsD [OF laws] and G = geo [unfolded geom_ok_def]
  define f0 where "f0 = lmfs_reset_rdwt_err e fs"
  have f0: "same U f0 fs" "mm M f0 = mm M fs" using copy_lawsD(4,5) [OF L(3)] by (simp_all add: f0_def)
  have sb: "superblock f0 = superblock fs" "blocks f0 = blocks fs" "inodes f0 = inodes fs" using f0(1) by (simp_all add: same_def)
  have geo0: "geom_ok e rip f0" using geo sb by (simp add: geom_ok_def)
  define rf0 where "rf0 = rw_file e WRITING (rq_grant rq) (s_block_size (superblock fs)) (i_size rip) (rq_pos rq) (rq_nbytes rq) rip f0"
  have call: "fs_readwrite e rq fs = (case rf0 of None \<Rightarrow> None | Some (r, out, rip1, fs2) \<Rightarrow> Some (r, out, put_back i rip1 fs2))"
    unfolding rf0_def f0_def
    by (rule fs_readwrite_plain [OF rf _ imm_mode(1) [OF imm]]) (use rq(1) fits G sb(1) in \<open>simp_all add: f0_def\<close>)
  have il: "i < length (inodes f0)" using rf sb by (simp add: refers_def)
  have m: "i_mode rip AND I_TYPE = I_IMMEDIATE" by (rule imm_mode(2) [OF imm])
  from imm_convert_moves [OF laws imm geo0] show ?thesis
  proof (elim disjE exE conjE)
    fix r rip' t assume c: "imm_convert e (i_size rip) rip f0 = Some (Return (r, rip', t))" and r: "r \<noteq> OK"
      and q: "inodes t = inodes f0" "i_mode rip' = I_REGULAR OR (i_mode rip AND ALL_MODES)"
    have "rf0 = Some (r, None, rip', t)" unfolding rf0_def using c m rq(2) by (simp add: rw_file_def Let_def)
    then show ?thesis using call r q il by simp
  next
    fix rip2 t assume c: "imm_convert e (i_size rip) rip f0 = Some (Continue (rip2, t))" and mode: "i_mode rip2 = I_REGULAR OR (i_mode rip AND ALL_MODES)"
      and z: "i_size rip2 = 0" and num: "i_num rip2 = i_num rip" and mz: "max_zones rip2 = max_zones rip"
      and ok: "file_ok e U rip2 t" and q: "superblock t = superblock f0" "mm M t = mm M f0" "inodes t = inodes f0"
      and b: "\<forall>p<capacity rip2 t. fbyte e rip2 t p = (if p < i_size rip then i_zone rip ! p else 0)"
    have reg: "i_mode rip2 AND I_TYPE = I_REGULAR" unfolding mode by (rule mode_convert)
    have cap: "capacity rip2 t = capacity rip fs" using mz q(1) sb(1) by (simp add: capacity_def)
    have szs: "i_size rip \<le> 32" "length (i_zone rip) = 40" using imm by (simp_all add: imm_ok_def)
    have "int (rq_pos rq + rq_nbytes rq) \<le> int MAX_FILE_POS" "int (rq_pos rq + rq_nbytes rq) \<le> int (max_zones rip * s_block_size (superblock fs))"
      using io fits(2) by (simp_all add: io_ok_def)
    then have lim: "rq_pos rq + rq_nbytes rq \<le> capacity rip2 t" "rq_pos rq + rq_nbytes rq < 2 ^ 32"
      unfolding of_nat_le_iff cap by (simp_all add: MAX_FILE_POS_def capacity_def)
    have fit: "i_size rip \<le> capacity rip2 t" "i_size rip2 \<le> i_size rip" "i_size rip < rq_pos rq + rq_nbytes rq" "i_num rip2 \<noteq> VMC_NO_INODE e"
      using lim(1) rq(2) szs z num io by (simp_all add: io_ok_def)
    have eq: "rf0 = rw_file e WRITING (rq_grant rq) (s_block_size (superblock t)) (i_size rip) (rq_pos rq) (rq_nbytes rq) rip2 t"
    proof -
      have "rf0 = (case rw_loop e (Some (i_size rip)) WRITING (rq_grant rq) (s_block_size (superblock fs)) OK rip2 (rq_pos rq) (rq_nbytes rq) 0 t of
          None \<Rightarrow> None | Some (r, rip3, p, c, fs3) \<Rightarrow>
            (let (r', rip4) = rw_finish e WRITING True (i_mode rip2 AND I_TYPE) (i_size rip) r p rip3 fs3 in Some (r', Some (p, c), rip4, fs3)))"
        unfolding rf0_def using c m rq(2) by (simp add: rw_file_def Let_def bind_split split: option.split)
      also have "\<dots> = rw_file e WRITING (rq_grant rq) (s_block_size (superblock t)) (i_size rip) (rq_pos rq) (rq_nbytes rq) rip2 t"
        using rw_file_plain [of rip2 e WRITING] regular_mode(2) [OF reg] q(1) sb(1) unfolding reg by (simp split: option.split)
      finally show ?thesis .
    qed
    have tz: "fbyte e rip2 t p = 0" if "i_size rip \<le> p" "p < capacity rip2 t" for p using b that by simp
    obtain r k rip3 t' where w: "rf0 = Some (r, Some (rq_pos rq + k, k), rip3, t')" "file_ok e U rip3 t'" "inodes t' = inodes t" "i_mode rip3 = i_mode rip2"
      and res: "r = OK \<longrightarrow> k = rq_nbytes rq \<and> rq_nbytes rq \<le> length (mm M t) \<and> i_size rip3 = max (i_size rip) (rq_pos rq + rq_nbytes rq) \<and> tail_zero e rip3 t'
        \<and> contents e rip3 t' = overwrite (rq_pos rq) (take (rq_nbytes rq) (mm M t)) (fbytes e rip2 t 0 (i_size rip))"
      unfolding eq using write_file_bytes [OF laws reg ok fit(4) lim fit(1,2) disjI2 [OF fit(3)] tz, of "rq_grant rq"] by blast
    have "fbytes e rip2 t 0 (i_size rip) = imm_bytes rip"
      using b fit(1) szs by (intro nth_equalityI) (simp_all add: fbytes_def imm_bytes_def)
    moreover have "tail_zero e rip3 (put_back i rip3 t') = tail_zero e rip3 t'" "contents e rip3 (put_back i rip3 t') = contents e rip3 t'"
      by (simp_all add: tail_zero_def contents_def fbytes_def)
    ultimately show ?thesis using call w res q il mode f0(2) by simp
  qed
qed


text \<open>Transfers that stay in the inode.\<close>

lemma rw_file_imm:
  assumes "i_mode rip AND I_TYPE = I_IMMEDIATE"
    and "rw_flag = WRITING \<and> pos + n \<le> 32 \<or> rw_flag = READING \<and> pos < f_size"
    and "imm_transfer e rw_flag gid f_size pos n rip fs = Some (OK, rip2, pos2, 0, c, fs2)"
  shows "rw_file e rw_flag gid bs f_size pos n rip fs =
    (let (r, rip4) = rw_finish e rw_flag True I_IMMEDIATE f_size OK pos2 rip2 fs2 in Some (r, Some (pos2, c), rip4, fs2))"
  using assms by (auto simp: rw_file_def Let_def rw_loop.simps [of _ _ _ _ _ _ _ _ 0])

text \<open>The caller's grant gives access to its memory, so copies that stay within it succeed.\<close>

definition granted :: "'w mfs_env \<Rightarrow> ('w \<Rightarrow> u8 list) \<Rightarrow> nat \<Rightarrow> bool" where
  "granted e M gid \<longleftrightarrow>
     (\<forall>fs d. length d \<le> length (M (fs_world fs)) \<longrightarrow> fst (sys_safecopyto e gid 0 d fs) = OK)
   \<and> (\<forall>fs n. n \<le> length (M (fs_world fs)) \<longrightarrow> fst (sys_safecopyfrom e gid 0 n fs) = OK)"

lemma imm_write_bytes:
  assumes laws: "rw_laws e U M" and rf: "refers e rq fs i rip" and imm: "imm_ok rip" and rq: "rq_type rq = REQ_WRITE" "rq_pos rq + rq_nbytes rq \<le> 32"
    and fits: "\<not> s_rd_only (superblock fs)" "int (rq_pos rq) + int (rq_nbytes rq) \<le> s_max_size (superblock fs)" "s_log_zone_size (superblock fs) = 0"
    and gr: "granted e M (rq_grant rq)" "rq_nbytes rq \<le> length (mm M fs)"
  shows "\<exists>fs'. fs_readwrite e rq fs = Some (OK, Some (rq_pos rq + rq_nbytes rq, rq_nbytes rq), fs') \<and> blocks fs' = blocks fs
    \<and> imm_ok (inodes fs' ! i) \<and> imm_bytes (inodes fs' ! i) = overwrite (rq_pos rq) (take (rq_nbytes rq) (mm M fs)) (imm_bytes rip)"
proof -
  note L = rw_lawsD [OF laws]
  let ?pos = "rq_pos rq" and ?n = "rq_nbytes rq"
  define f0 where "f0 = lmfs_reset_rdwt_err e fs"
  have f0: "same U f0 fs" "mm M f0 = mm M fs" using copy_lawsD(4,5) [OF L(3)] by (simp_all add: f0_def)
  have Z: "length (i_zone rip) = 40" "i_size rip \<le> 32" "\<forall>p. i_size rip \<le> p \<longrightarrow> p < 40 \<longrightarrow> i_zone rip ! p = 0"
    and m: "i_mode rip AND I_TYPE = I_IMMEDIATE" using imm by (simp_all add: imm_ok_def)
  define f1 where "f1 = fs_print ''Writing to Immediate File...'' [] f0"
  have f1: "blocks f1 = blocks fs" "inodes f1 = inodes fs" "mm M f1 = mm M fs" using f0 by (simp_all add: f1_def fs_print_def same_def)
  obtain r d t where cp: "sys_safecopyfrom e (rq_grant rq) 0 ?n f1 = (r, d, t)" by (cases "sys_safecopyfrom e (rq_grant rq) 0 ?n f1") auto
  have "fst (sys_safecopyfrom e (rq_grant rq) 0 ?n f1) = OK" using gr f1(3) by (simp add: granted_def)
  then have r: "r = OK" using cp by simp
  note c = copy_lawsD(2) [OF L(3) cp]
  have d: "d = take ?n (mm M fs)" "length d = ?n" using c r f1 by simp_all
  define rip1 where "rip1 = IN_MARKDIRTY (rip\<lparr>i_zone := put_bytes ?pos d (i_zone rip)\<rparr>)"
  have tr: "imm_transfer e WRITING (rq_grant rq) (i_size rip) ?pos ?n rip f0 = Some (OK, rip1, ?pos + ?n, 0, ?n, t)"
    using cp r d rq(2) Z(1) by (simp add: imm_transfer_def Let_def f1_def rip1_def)
  define rip' where "rip' = snd (rw_finish e WRITING True I_IMMEDIATE (i_size rip) OK (?pos + ?n) rip1 t)"
  note F = rw_finish_calm [OF laws, of WRITING True I_IMMEDIATE "i_size rip" OK "?pos + ?n" rip1 t, folded rip'_def]
  have call: "fs_readwrite e rq fs = Some (OK, Some (?pos + ?n, ?n), put_back i rip' t)"
    using fs_readwrite_plain [OF rf _ imm_mode(1) [OF imm], of WRITING] rq fits f0(1) rw_file_imm [OF m _ tr] F(1)
    by (simp add: f0_def [symmetric] same_def)
  have z': "i_zone rip' = put_bytes ?pos d (i_zone rip)" "i_mode rip' = i_mode rip" "i_size rip' = max (i_size rip) (?pos + ?n)"
    using F by (auto simp: rip1_def IN_MARKDIRTY_def)
  have nth: "i_zone rip' ! p = (if ?pos \<le> p \<and> p < ?pos + ?n then d ! (p - ?pos) else i_zone rip ! p)" if "p < 40" for p
    using nth_put_bytes [of ?pos d "i_zone rip" p] Z(1) d(2) rq(2) that z'(1) by simp
  have iok: "imm_ok rip'" using z' m Z nth rq(2) d(2) unfolding imm_ok_def by simp
  have "imm_bytes rip' = overwrite ?pos d (imm_bytes rip)"
  proof (rule nth_equalityI)
    show len: "length (imm_bytes rip') = length (overwrite ?pos d (imm_bytes rip))"
      using z' Z d(2) rq(2) by (simp add: imm_bytes_def length_overwrite)
    fix p assume "p < length (imm_bytes rip')"
    then have p: "p < max (i_size rip) (?pos + ?n)" using z'(3) by (simp add: imm_bytes_def)
    then show "imm_bytes rip' ! p = overwrite ?pos d (imm_bytes rip) ! p"
      using nth [of p] z'(3) Z d(2) rq(2) by (auto simp: imm_bytes_def nth_overwrite)
  qed
  moreover have "i < length (inodes t)" "blocks t = blocks fs" using rf c f1 by (simp_all add: refers_def same_def)
  ultimately show ?thesis using call iok d(1) by simp
qed

lemma fs_print_sel [simp]:
  "blocks (fs_print f a fs) = blocks fs" "inodes (fs_print f a fs) = inodes fs" "fs_world (fs_print f a fs) = fs_world fs"
  by (simp_all add: fs_print_def)

lemma print_chars:
  "blocks (fold (\<lambda>c. fs_print f (g c)) xs fs) = blocks fs" "inodes (fold (\<lambda>c. fs_print f (g c)) xs fs) = inodes fs"
  "fs_world (fold (\<lambda>c. fs_print f (g c)) xs fs) = fs_world fs"
  by (induction xs arbitrary: fs) simp_all

lemma imm_read_bytes:
  assumes laws: "rw_laws e U M" and rf: "refers e rq fs i rip" and imm: "imm_ok rip" and rq: "rq_type rq = REQ_READ" "rq_pos rq < i_size rip"
    and gr: "granted e M (rq_grant rq)" "i_size rip \<le> length (mm M fs)"
  shows "\<exists>fs'. fs_readwrite e rq fs = Some (OK, Some (rq_pos rq + i_size rip, i_size rip), fs') \<and> blocks fs' = blocks fs
    \<and> mm M fs' = put_bytes 0 (imm_bytes rip) (mm M fs) \<and> imm_bytes (inodes fs' ! i) = imm_bytes rip"
proof -
  note L = rw_lawsD [OF laws]
  let ?f = "i_size rip" and ?pos = "rq_pos rq"
  define f0 where "f0 = lmfs_reset_rdwt_err e fs"
  have f0: "same U f0 fs" "mm M f0 = mm M fs" using copy_lawsD(4,5) [OF L(3)] by (simp_all add: f0_def)
  have Z: "length (i_zone rip) = 40" "?f \<le> 32" and m: "i_mode rip AND I_TYPE = I_IMMEDIATE" using imm by (simp_all add: imm_ok_def)
  define f1 where "f1 = fs_print ''Reading from Immediate File...'' [] f0"
  have f1: "blocks f1 = blocks fs" "inodes f1 = inodes fs" "mm M f1 = mm M fs" using f0 by (simp_all add: f1_def fs_print_def same_def)
  obtain r t where cp: "sys_safecopyto e (rq_grant rq) 0 (imm_bytes rip) f1 = (r, t)" by force
  have "length (imm_bytes rip) = ?f" using Z by (simp add: imm_bytes_def)
  then have "fst (sys_safecopyto e (rq_grant rq) 0 (imm_bytes rip) f1) = OK" using gr f1(3) by (simp add: granted_def)
  then have r: "r = OK" using cp by simp
  note c = copy_lawsD(1) [OF L(3) cp]
  define t2 where "t2 = fs_print ''-- EOF - Immediate File --'' []
    (fold (\<lambda>c. fs_print ''%c'' [AInt (uint c)]) (imm_bytes rip) (fs_print ''File Contents of Immediate File :'' [] t))"
  have t2: "blocks t2 = blocks t" "inodes t2 = inodes t" "fs_world t2 = fs_world t"
    by (simp_all add: t2_def print_chars)
  have tr: "imm_transfer e READING (rq_grant rq) ?f ?pos (rq_nbytes rq) rip f0 = Some (OK, rip, ?pos + ?f, 0, ?f, t2)"
    using cp r Z by (simp add: imm_transfer_def Let_def f1_def t2_def imm_bytes_def)
  define rip' where "rip' = snd (rw_finish e READING True I_IMMEDIATE ?f OK (?pos + ?f) rip t2)"
  note F = rw_finish_calm [OF laws, of READING True I_IMMEDIATE ?f OK "?pos + ?f" rip t2, folded rip'_def]
  have call: "fs_readwrite e rq fs = Some (OK, Some (?pos + ?f, ?f), put_back i rip' t2)"
    using fs_readwrite_plain [OF rf _ imm_mode(1) [OF imm], of READING] rq f0(1) rw_file_imm [OF m _ tr] F(1)
    by (simp add: f0_def [symmetric] same_def)
  have "i < length (inodes t2)" "blocks t2 = blocks fs" using rf c f1 t2 by (simp_all add: refers_def same_def)
  then show ?thesis using call c r f1 t2 F by (simp add: imm_bytes_def)
qed


section \<open>An instance\<close>

definition demo_rq :: "req_type \<Rightarrow> nat \<Rightarrow> nat \<Rightarrow> rwreq" where
  "demo_rq ty p n = \<lparr>rq_type = ty, rq_inode = 5, rq_grant = 1, rq_pos = p, rq_nbytes = n\<rparr>"

text \<open>A regular file with one block, in zone 2.\<close>

definition wdemo_inode :: inode where
  "wdemo_inode = set_izone 0 2 (mdemo_inode I_REGULAR 0)"

definition wdemo_fs :: "u8 list \<Rightarrow> mworld mfs" where
  "wdemo_fs m = (mdemo_fs I_REGULAR [2] m)\<lparr>inodes := [wdemo_inode]\<rparr>"

lemma mdemo_copies:
  "sys_safecopyto mdemo_env gid off d fs = (if off + length d \<le> length (mem (fs_world fs))
     then (OK, fs\<lparr>fs_world := (fs_world fs)\<lparr>mem := put_bytes off d (mem (fs_world fs))\<rparr>\<rparr>) else (Err EINVAL, fs))"
  "sys_safecopyfrom mdemo_env gid off n fs = (if off + n \<le> length (mem (fs_world fs))
     then (OK, take n (drop off (mem (fs_world fs))), fs) else (Err EINVAL, [], fs))"
  "sys_safememset mdemo_env gid off c n fs = (if off + n \<le> length (mem (fs_world fs))
     then (OK, fs\<lparr>fs_world := (fs_world fs)\<lparr>mem := put_bytes off (replicate n c) (mem (fs_world fs))\<rparr>\<rparr>) else (Err EINVAL, fs))"
  "lmfs_rw_scattered mdemo_env dev q rw_flag fs = fs\<lparr>fs_world := (fs_world fs)\<lparr>inuse := inuse (fs_world fs) - length q\<rparr>\<rparr>"
  "lmfs_bufs_in_use mdemo_env = inuse" "NR_IOREQS mdemo_env = 4" "END_OF_FILE mdemo_env = Err (EOTHER 104)" "V2_NR_TZONES mdemo_env = 10"
  "find_inode mdemo_env n fs = (if n = 5 then Some 0 else None)"
  by (simp_all add: mdemo_env_def)

lemma mdemo_granted: "granted mdemo_env mem gid"
  by (simp add: granted_def mdemo_copies)

lemma mdemo_alloc_mem: "mem (fs_world (snd (alloc_zone mdemo_env dev z fs))) = mem (fs_world fs)"
  by (auto simp: mdemo_env_def simp del: find.simps split: option.split)

lemma mdemo_rw_laws: "rw_laws mdemo_env mdemo_used mem"
proof -
  have "cache_laws mdemo_env mdemo_used mem"
    unfolding cache_laws_def by (intro conjI allI; simp add: mdemo_alloc_mem mdemo_copies same_def mdemo_used_def)
  moreover have "copy_laws mdemo_env mdemo_used mem"
    unfolding copy_laws_def by (intro conjI allI impI; auto simp: mdemo_copies same_def mdemo_used_def split: if_splits)
  ultimately show ?thesis by (simp add: rw_laws_def mdemo_laws mdemo_copies)
qed

lemma wdemo_ok:
  "file_ok mdemo_env mdemo_used wdemo_inode (wdemo_fs m)" "io_ok mdemo_env wdemo_inode (wdemo_fs m)" "tail_zero mdemo_env wdemo_inode (wdemo_fs m)"
  "refers mdemo_env (demo_rq ty p n) (wdemo_fs m) 0 wdemo_inode" "i_mode wdemo_inode AND I_TYPE = I_REGULAR"
proof -
  let ?f = "mdemo_fs I_REGULAR [2] m" and ?r = "mdemo_inode I_REGULAR 0"
  have d: "0 < i_ndzones ?r" by (simp add: mdemo_inode_def)
  have b: "bmap mdemo_env ?r ?f j = NO_ZONE" "iz mdemo_env ?r ?f i = NO_ZONE" for i j by (rule mdemo_file)+
  have "file_ok mdemo_env mdemo_used wdemo_inode ?f"
    unfolding wdemo_inode_def
  proof (rule file_ok_entered [OF mdemo_file(1) direct_entry(1) [OF file_ok_sel(1) [OF mdemo_file(1)] d]])
    show "\<forall>j<max_zones ?r. bmap mdemo_env (set_izone 0 2 ?r) ?f j = (if True \<and> j = 0 then 2 else bmap mdemo_env ?r ?f j)"
      using direct_entry(2) [OF file_ok_sel(1) [OF mdemo_file(1)] d] by simp
  qed (simp_all add: b, simp_all add: NO_ZONE_def mdemo_fs_def mdemo_used_def)
  then show "file_ok mdemo_env mdemo_used wdemo_inode (wdemo_fs m)"
    using file_ok_state [of "wdemo_fs m" ?f mdemo_used mdemo_env wdemo_inode] by (simp add: wdemo_fs_def)
  show "io_ok mdemo_env wdemo_inode (wdemo_fs m)"
    by (simp add: io_ok_def wdemo_inode_def wdemo_fs_def mdemo_fs_def mdemo_sb_def mdemo_inode_def mdemo_copies NO_DEV_def MAX_FILE_POS_def max_zones_def set_izone_def)
  have "fblock mdemo_env wdemo_inode (wdemo_fs m) k = replicate 40 0" for k
    by (simp add: fblock_def wdemo_fs_def mdemo_fs_def mdemo_sb_def)
  then show "tail_zero mdemo_env wdemo_inode (wdemo_fs m)"
    by (simp add: tail_zero_def fbyte_def wdemo_fs_def mdemo_fs_def mdemo_sb_def)
  show "refers mdemo_env (demo_rq ty p n) (wdemo_fs m) 0 wdemo_inode"
    by (simp add: refers_def mdemo_copies demo_rq_def wdemo_fs_def)
  show "i_mode wdemo_inode AND I_TYPE = I_REGULAR"
    by (simp add: wdemo_inode_def mdemo_inode_def mode_consts set_izone_def)
qed

lemma wdemo_write: "map_option fst (fs_readwrite mdemo_env (demo_rq REQ_WRITE 3 2) (wdemo_fs [7, 8])) = Some OK"
proof -
  have reg: "\<not> block_special wdemo_inode" "i_mode wdemo_inode AND I_TYPE \<noteq> I_IMMEDIATE" using regular_mode [OF wdemo_ok(5)] .
  have z: "izone wdemo_inode 0 = 2" by (simp add: wdemo_inode_def izone_set_izone mdemo_inode_def)
  have sel: "i_ndzones wdemo_inode = 7" "i_num wdemo_inode = 5" "i_dev wdemo_inode = 1" "i_size wdemo_inode = 0"
    "superblock (wdemo_fs m) = mdemo_sb" "fs_world (wdemo_fs m) = \<lparr>used = [2], mem = m, inuse = 0\<rparr>" for m
    by (simp_all add: wdemo_inode_def mdemo_inode_def wdemo_fs_def mdemo_fs_def)
  have rd: "read_map mdemo_env wdemo_inode 3 False (wdemo_fs m) = Some (2, wdemo_fs m)" for m
    by (simp add: read_map_def sel z mdemo_sb_def NO_ZONE_def)
  have ch: "\<exists>t. rw_chunk mdemo_env wdemo_inode 3 3 2 2 WRITING 1 0 40 (wdemo_fs [7, 8]) = Some (OK, wdemo_inode, t)"
    using reg rd by (simp add: rw_chunk_def rw_buffer_def rw_copy_def sel mdemo_copies NO_BLOCK_def Let_def)
  obtain t where lp: "rw_loop mdemo_env (Some 0) WRITING 1 40 OK wdemo_inode 3 2 0 (wdemo_fs [7, 8]) = Some (OK, wdemo_inode, 5, 2, t)"
    using ch by (auto simp: rw_loop.simps [of _ _ _ _ _ _ _ 3] rw_loop.simps [of _ _ _ _ _ _ _ 5 0] rw_len.simps)
  obtain rip' where fin: "rw_finish mdemo_env WRITING True I_REGULAR 0 OK 5 wdemo_inode t = (OK, rip')"
    using rw_finish_calm(1) [OF mdemo_rw_laws] by metis
  have rf: "rw_file mdemo_env WRITING 1 40 0 3 2 wdemo_inode (wdemo_fs [7, 8]) = Some (OK, Some (5, 2), rip', t)"
    using lp fin by (simp add: rw_file_plain [OF reg(2)] wdemo_ok(5))
  have "fs_readwrite mdemo_env (demo_rq REQ_WRITE 3 2) (wdemo_fs [7, 8]) = Some (OK, Some (5, 2), put_back 0 rip' t)"
    by (subst fs_readwrite_plain [where rw_flag = WRITING, OF wdemo_ok(4) _ reg(1)])
       (simp_all add: sel, simp_all add: demo_rq_def mdemo_sb_def rf [simplified])
  then show ?thesis by simp
qed


text \<open>An immediate file of three bytes.\<close>

definition idemo_inode :: inode where
  "idemo_inode = (mdemo_inode I_IMMEDIATE 0)\<lparr>i_zone := [1, 2, 3] @ replicate 37 0, i_size := 3\<rparr>"

definition idemo_fs :: "u8 list \<Rightarrow> mworld mfs" where
  "idemo_fs m = (mdemo_fs I_IMMEDIATE [] m)\<lparr>inodes := [idemo_inode]\<rparr>"

lemma idemo_ok:
  "imm_ok idemo_inode" "geom_ok mdemo_env idemo_inode (idemo_fs m)" "io_ok mdemo_env idemo_inode (idemo_fs m)"
  "refers mdemo_env (demo_rq ty p n) (idemo_fs m) 0 idemo_inode"
  "\<not> s_rd_only (superblock (idemo_fs m))" "s_max_size (superblock (idemo_fs m)) = 4600" "s_log_zone_size (superblock (idemo_fs m)) = 0"
  "imm_bytes idemo_inode = [1, 2, 3]"
proof -
  have "([1, 2, 3] @ replicate 37 0) ! p = (0 :: u8)" if "3 \<le> p" "p < 40" for p using that by (simp add: nth_append)
  then show "imm_ok idemo_inode" by (simp add: imm_ok_def idemo_inode_def mdemo_inode_def mode_consts)
  show "geom_ok mdemo_env idemo_inode (idemo_fs m)"
    by (simp add: geom_ok_def idemo_inode_def mdemo_inode_def idemo_fs_def mdemo_fs_def mdemo_sb_def mdemo_copies)
  show "io_ok mdemo_env idemo_inode (idemo_fs m)"
    by (simp add: io_ok_def idemo_inode_def idemo_fs_def mdemo_fs_def mdemo_sb_def mdemo_inode_def mdemo_copies NO_DEV_def MAX_FILE_POS_def max_zones_def)
  show "refers mdemo_env (demo_rq ty p n) (idemo_fs m) 0 idemo_inode"
    by (simp add: refers_def mdemo_copies demo_rq_def idemo_fs_def)
qed (simp_all add: idemo_fs_def mdemo_fs_def mdemo_sb_def imm_bytes_def idemo_inode_def)

section \<open>Properties\<close>

text \<open>
  C4. Writing to a regular file refines overwriting a list of bytes: \<^const>\<open>fs_readwrite\<close> returns; when it
  reports success it has moved all bytes, the contents of the file are the old ones with the caller's bytes
  written at the position (a gap reads as zeros), the file is still well-formed and the caller's memory is
  untouched.
\<close>

theorem fs_write_overwrites:
  assumes "rw_laws e U M" and "refers e rq fs i rip" and "i_mode rip AND I_TYPE = I_REGULAR"
    and "file_ok e U rip fs" "io_ok e rip fs" "tail_zero e rip fs" and "rq_type rq = REQ_WRITE"
    and "\<not> s_rd_only (superblock fs)" "int (rq_pos rq) + int (rq_nbytes rq) \<le> s_max_size (superblock fs)"
  shows "\<exists>r k fs'. fs_readwrite e rq fs = Some (r, Some (rq_pos rq + k, k), fs') \<and> k \<le> rq_nbytes rq
    \<and> file_ok e U (inodes fs' ! i) fs' \<and> M (fs_world fs') = M (fs_world fs)
    \<and> (r = OK \<longrightarrow> k = rq_nbytes rq \<and> tail_zero e (inodes fs' ! i) fs'
        \<and> contents e (inodes fs' ! i) fs' = overwrite (rq_pos rq) (take (rq_nbytes rq) (M (fs_world fs))) (contents e rip fs))"
  using fs_write_bytes [OF assms] by blast

lemma fs_write_overwrites_witness:
  "\<exists>k fs'. fs_readwrite mdemo_env (demo_rq REQ_WRITE 3 2) (wdemo_fs [7, 8]) = Some (OK, Some (3 + k, k), fs')
    \<and> contents mdemo_env (inodes fs' ! 0) fs' = overwrite 3 [7, 8] (contents mdemo_env wdemo_inode (wdemo_fs [7, 8]))"
proof -
  have "\<not> s_rd_only (superblock (wdemo_fs [7, 8]))" "s_max_size (superblock (wdemo_fs [7, 8])) = 4600" "mem (fs_world (wdemo_fs [7, 8])) = [7, 8]"
    by (simp_all add: wdemo_fs_def mdemo_fs_def mdemo_sb_def)
  then show ?thesis
    using fs_write_overwrites [OF mdemo_rw_laws wdemo_ok(4,5,1,2,3), of REQ_WRITE 3 2 "[7, 8]"] wdemo_write by (auto simp: demo_rq_def)
qed

text \<open>
  Reading a regular file returns its contents: the bytes from the position on, as many as asked for or
  up to the end of the file, arrive at the start of the caller's buffer, and the file does not change.
\<close>

theorem fs_read_returns_contents:
  assumes "rw_laws e U M" and "refers e rq fs i rip" and "i_mode rip AND I_TYPE = I_REGULAR"
    and "file_ok e U rip fs" "io_ok e rip fs" and "rq_type rq = REQ_READ" "rq_nbytes rq < 2 ^ 31"
  shows "\<exists>r k fs'. fs_readwrite e rq fs = Some (r, Some (rq_pos rq + k, k), fs')
    \<and> (r = OK \<longrightarrow> k = min (rq_nbytes rq) (i_size rip - rq_pos rq))
    \<and> M (fs_world fs') = put_bytes 0 (take k (drop (rq_pos rq) (contents e rip fs))) (M (fs_world fs))
    \<and> blocks fs' = blocks fs \<and> contents e (inodes fs' ! i) fs' = contents e rip fs"
proof -
  obtain r k fs' where a: "fs_readwrite e rq fs = Some (r, Some (rq_pos rq + k, k), fs')" "k \<le> min (rq_nbytes rq) (i_size rip - rq_pos rq)"
    "r = OK \<longrightarrow> k = min (rq_nbytes rq) (i_size rip - rq_pos rq)"
    "M (fs_world fs') = put_bytes 0 (fbytes e rip fs (rq_pos rq) k) (M (fs_world fs))" "blocks fs' = blocks fs"
    "contents e (inodes fs' ! i) fs' = contents e rip fs"
    using fs_read_bytes [OF assms] by blast
  have "fbytes e rip fs (rq_pos rq) k = take k (drop (rq_pos rq) (contents e rip fs))"
    using a(2) by (intro nth_equalityI) (auto simp: contents_def fbytes_def)
  then show ?thesis using a by auto
qed

lemma fs_read_returns_contents_witness:
  "\<exists>r k fs'. fs_readwrite mdemo_env (demo_rq REQ_READ 0 2) (wdemo_fs [7, 8]) = Some (r, Some (0 + k, k), fs')
    \<and> mem (fs_world fs') = put_bytes 0 (take k (drop 0 (contents mdemo_env wdemo_inode (wdemo_fs [7, 8])))) [7, 8]"
proof -
  have m: "mem (fs_world (wdemo_fs [7, 8])) = [7, 8]" by (simp add: wdemo_fs_def mdemo_fs_def)
  show ?thesis
    using fs_read_returns_contents [OF mdemo_rw_laws wdemo_ok(4,5,1,2), of REQ_READ 0 2 "[7, 8]"] unfolding m by (auto simp: demo_rq_def)
qed

text \<open>
  C13. What was written is read back: after a successful write, a read of the same range that the caller issues
  with any memory contents, and that succeeds, fills its buffer with the bytes that were written.
\<close>

theorem fs_read_after_write:
  assumes laws: "rw_laws e U M" and rf: "refers e rq fs i rip" and reg: "i_mode rip AND I_TYPE = I_REGULAR"
    and ok: "file_ok e U rip fs" "io_ok e rip fs" "tail_zero e rip fs" and ty: "rq_type rq = REQ_WRITE"
    and fits: "\<not> s_rd_only (superblock fs)" "int (rq_pos rq) + int (rq_nbytes rq) \<le> s_max_size (superblock fs)"
    and w: "fs_readwrite e rq fs = Some (OK, out, fs')" and sd: "same_disk U fs2 fs'" and rf2: "refers e rq2 fs2 i (inodes fs' ! i)"
    and r: "rq_type rq2 = REQ_READ" "rq_pos rq2 = rq_pos rq" "rq_nbytes rq2 = rq_nbytes rq"
  shows "\<exists>c k fs3. fs_readwrite e rq2 fs2 = Some (c, Some (rq_pos rq + k, k), fs3)
    \<and> (c = OK \<longrightarrow> k = rq_nbytes rq \<and> M (fs_world fs3) = put_bytes 0 (take (rq_nbytes rq) (M (fs_world fs))) (M (fs_world fs2)))"
proof -
  let ?r = "inodes fs' ! i"
  obtain k where k: "out = Some (rq_pos rq + k, k)" "k = rq_nbytes rq" "io_ok e ?r fs'" "i_mode ?r = i_mode rip" "file_ok e U ?r fs'"
    "contents e ?r fs' = overwrite (rq_pos rq) (take (rq_nbytes rq) (M (fs_world fs))) (contents e rip fs)"
    using fs_write_bytes [OF laws rf reg ok ty fits] w by auto
  have L: "length (take (rq_nbytes rq) (M (fs_world fs))) = rq_nbytes rq"
    using fs_write_bytes [OF laws rf reg ok ty fits] w by auto
  have S: "rq_pos rq + rq_nbytes rq \<le> i_size ?r"
    using arg_cong [OF k(6), of length] L by (simp add: length_overwrite)
  note V = same_disk_view [OF sd]
  have c: "contents e ?r fs2 = contents e ?r fs'" using V(3) by (simp add: contents_def fbytes_def)
  have n31: "rq_nbytes rq2 < 2 ^ 31" using io_ok_size(2) [OF k(3)] S r(3) by simp
  have reg2: "i_mode ?r AND I_TYPE = I_REGULAR" and ok2: "file_ok e U ?r fs2" "io_ok e ?r fs2" using reg k V by simp_all
  obtain c q fs3 where a: "fs_readwrite e rq2 fs2 = Some (c, Some (rq_pos rq + q, q), fs3)" "c = OK \<longrightarrow> q = rq_nbytes rq"
    "M (fs_world fs3) = put_bytes 0 (fbytes e ?r fs2 (rq_pos rq) q) (M (fs_world fs2))"
    using fs_read_bytes [OF laws rf2 reg2 ok2 r(1) n31] r S by auto
  have "fbytes e ?r fs2 (rq_pos rq) (rq_nbytes rq) = take (rq_nbytes rq) (drop (rq_pos rq) (contents e ?r fs'))"
    using S V(3) by (intro nth_equalityI) (auto simp: contents_def fbytes_def)
  also have "\<dots> = take (rq_nbytes rq) (M (fs_world fs))"
    using take_overwrite [of "take (rq_nbytes rq) (M (fs_world fs))" "rq_pos rq" "contents e rip fs"] L k(6) by simp
  finally show ?thesis using a by auto
qed


lemma fs_read_after_write_witness:
  "\<exists>out fs' c k fs3. fs_readwrite mdemo_env (demo_rq REQ_WRITE 3 2) (wdemo_fs [7, 8]) = Some (OK, out, fs')
    \<and> fs_readwrite mdemo_env (demo_rq REQ_READ 3 2) fs' = Some (c, Some (3 + k, k), fs3)"
proof -
  have f: "\<not> s_rd_only (superblock (wdemo_fs [7, 8]))" "int (rq_pos (demo_rq REQ_WRITE 3 2)) + int (rq_nbytes (demo_rq REQ_WRITE 3 2)) \<le> s_max_size (superblock (wdemo_fs [7, 8]))"
    by (simp_all add: wdemo_fs_def mdemo_fs_def mdemo_sb_def demo_rq_def)
  have ty: "rq_type (demo_rq REQ_WRITE 3 2) = REQ_WRITE" by (simp add: demo_rq_def)
  obtain out fs' where w: "fs_readwrite mdemo_env (demo_rq REQ_WRITE 3 2) (wdemo_fs [7, 8]) = Some (OK, out, fs')" using wdemo_write by auto
  have "0 < length (inodes fs')" using fs_write_bytes [OF mdemo_rw_laws wdemo_ok(4,5,1,2,3) ty f] w by auto
  then have rf: "refers mdemo_env (demo_rq REQ_READ 3 2) fs' 0 (inodes fs' ! 0)" by (simp add: refers_def mdemo_copies demo_rq_def)
  have sd: "same_disk mdemo_used fs' fs'" by (simp add: same_disk_def)
  show ?thesis
    using fs_read_after_write [OF mdemo_rw_laws wdemo_ok(4,5,1,2,3) ty f w sd rf] w by (auto simp: demo_rq_def)
qed

text \<open>
  C23. A write that fits within 32 bytes stays in the inode of an immediate file: no block changes, and the
  bytes of the file are overwritten as the bytes of a regular file would be.
\<close>

theorem imm_write_overwrites:
  assumes "rw_laws e U M" and "refers e rq fs i rip" and "imm_ok rip" and "rq_type rq = REQ_WRITE" "rq_pos rq + rq_nbytes rq \<le> 32"
    and "\<not> s_rd_only (superblock fs)" "int (rq_pos rq) + int (rq_nbytes rq) \<le> s_max_size (superblock fs)" "s_log_zone_size (superblock fs) = 0"
    and "granted e M (rq_grant rq)" "rq_nbytes rq \<le> length (M (fs_world fs))"
  shows "\<exists>fs'. fs_readwrite e rq fs = Some (OK, Some (rq_pos rq + rq_nbytes rq, rq_nbytes rq), fs') \<and> blocks fs' = blocks fs
    \<and> imm_ok (inodes fs' ! i) \<and> imm_bytes (inodes fs' ! i) = overwrite (rq_pos rq) (take (rq_nbytes rq) (M (fs_world fs))) (imm_bytes rip)"
  by (rule imm_write_bytes [OF assms])

lemma imm_write_overwrites_witness:
  "\<exists>fs'. fs_readwrite mdemo_env (demo_rq REQ_WRITE 5 2) (idemo_fs [7, 8]) = Some (OK, Some (7, 2), fs')
     \<and> imm_bytes (inodes fs' ! 0) = [1, 2, 3, 0, 0, 7, 8]"
proof -
  have m: "2 \<le> length (mem (fs_world (idemo_fs [7, 8])))" "mem (fs_world (idemo_fs [7, 8])) = [7, 8]" by (simp_all add: idemo_fs_def mdemo_fs_def)
  show ?thesis
    using imm_write_overwrites [OF mdemo_rw_laws idemo_ok(4,1) _ _ idemo_ok(5) _ idemo_ok(7) mdemo_granted, of REQ_WRITE 5 2 "[7, 8]"] idemo_ok(6,8) m
    by (auto simp: demo_rq_def overwrite_def numeral_eq_Suc)
qed

text \<open>
  C35. A read inside an immediate file ignores the position and the number of bytes asked for: it copies the
  whole file to the start of the buffer and reports that many bytes, whatever the request said.
\<close>

theorem imm_read_whole_file:
  assumes "rw_laws e U M" and "refers e rq fs i rip" and "imm_ok rip" and "rq_type rq = REQ_READ" "rq_pos rq < i_size rip"
    and "granted e M (rq_grant rq)" "i_size rip \<le> length (M (fs_world fs))"
  shows "\<exists>fs'. fs_readwrite e rq fs = Some (OK, Some (rq_pos rq + i_size rip, i_size rip), fs') \<and> blocks fs' = blocks fs
    \<and> M (fs_world fs') = put_bytes 0 (imm_bytes rip) (M (fs_world fs)) \<and> imm_bytes (inodes fs' ! i) = imm_bytes rip"
  by (rule imm_read_bytes [OF assms])

lemma imm_read_whole_file_witness:
  "\<exists>fs'. fs_readwrite mdemo_env (demo_rq REQ_READ 2 1) (idemo_fs [9, 9, 9, 9]) = Some (OK, Some (5, 3), fs') \<and> mem (fs_world fs') = [1, 2, 3, 9]"
proof -
  have m: "mem (fs_world (idemo_fs [9, 9, 9, 9])) = [9, 9, 9, 9]" "i_size idemo_inode = 3" by (simp_all add: idemo_fs_def mdemo_fs_def idemo_inode_def)
  show ?thesis
    using imm_read_whole_file [OF mdemo_rw_laws idemo_ok(4,1) _ _ mdemo_granted, of REQ_READ 2 1 "[9, 9, 9, 9]"] m idemo_ok(8)
    by (auto simp: demo_rq_def put_bytes_def)
qed

text \<open>
  C12. A write past 32 bytes turns an immediate file into a regular one with the same permission bits; when the
  call succeeds, the new file has the old bytes with the caller's bytes written at the position, exactly as if the
  file had been regular before.
\<close>

theorem imm_convert_preserves:
  assumes "rw_laws e U M" and "refers e rq fs i rip" and "imm_ok rip" and "geom_ok e rip fs" and "io_ok e rip fs"
    and "rq_type rq = REQ_WRITE" "32 < rq_pos rq + rq_nbytes rq"
    and "\<not> s_rd_only (superblock fs)" "int (rq_pos rq) + int (rq_nbytes rq) \<le> s_max_size (superblock fs)"
  shows "\<exists>r out fs'. fs_readwrite e rq fs = Some (r, out, fs')
    \<and> i_mode (inodes fs' ! i) = I_REGULAR OR (i_mode rip AND ALL_MODES)
    \<and> (r = OK \<longrightarrow> out = Some (rq_pos rq + rq_nbytes rq, rq_nbytes rq) \<and> file_ok e U (inodes fs' ! i) fs'
        \<and> tail_zero e (inodes fs' ! i) fs'
        \<and> contents e (inodes fs' ! i) fs' = overwrite (rq_pos rq) (take (rq_nbytes rq) (M (fs_world fs))) (imm_bytes rip))"
  by (rule imm_convert_bytes [OF assms])

lemma imm_convert_preserves_witness:
  "\<exists>r out fs'. fs_readwrite mdemo_env (demo_rq REQ_WRITE 30 5) (idemo_fs [9, 8, 7, 6, 5]) = Some (r, out, fs')
    \<and> i_mode (inodes fs' ! 0) = I_REGULAR"
proof -
  have m: "I_REGULAR OR (i_mode idemo_inode AND ALL_MODES) = I_REGULAR" by (simp add: idemo_inode_def mdemo_inode_def mode_consts)
  show ?thesis
    using imm_convert_preserves [OF mdemo_rw_laws idemo_ok(4,1,2,3) _ _ idemo_ok(5), of REQ_WRITE 30 5 "[9, 8, 7, 6, 5]"] idemo_ok(6) m
    by (auto simp: demo_rq_def)
qed

end
