(* ===== verification/MFS_Seq.thy ===== *)
theory MFS_Seq
  imports MFS_RW
begin

text \<open>
  Sequences of reads and writes on one open regular file. The state of the file and of the caller's buffer is
  abstracted to two lists of bytes; a write overwrites a range of the file with the start of the buffer, a read
  copies a range of the file to the start of the buffer. Every successful call of \<^const>\<open>fs_readwrite\<close> refines its
  abstract operation, and with the locale of operation sequences so does every sequence.
\<close>

datatype file_op = Wr nat nat | Rd nat nat

fun file_spec :: "file_op \<Rightarrow> u8 list \<times> u8 list \<Rightarrow> u8 list \<times> u8 list" where
  "file_spec (Wr p n) (bs, m) = (overwrite p (take n m) bs, m)"
| "file_spec (Rd p n) (bs, m) = (bs, put_bytes 0 (take n (drop p bs)) m)"

fun op_request :: "nat \<Rightarrow> nat \<Rightarrow> file_op \<Rightarrow> rwreq" where
  "op_request ino gid (Wr p n) = \<lparr>rq_type = REQ_WRITE, rq_inode = ino, rq_grant = gid, rq_pos = p, rq_nbytes = n\<rparr>"
| "op_request ino gid (Rd p n) = \<lparr>rq_type = REQ_READ, rq_inode = ino, rq_grant = gid, rq_pos = p, rq_nbytes = n\<rparr>"

text \<open>
  An open file: the environment with its zones in use and the view of the caller's memory, the slot and number
  of the inode, the grant, and the file system. The inode table is searched by device and number.
\<close>

type_synonym 'w open_file = "'w mfs_env \<times> ('w \<Rightarrow> zone_t set) \<times> ('w \<Rightarrow> u8 list) \<times> nat \<times> nat \<times> nat \<times> 'w mfs"

definition find_laws :: "'w mfs_env \<Rightarrow> bool" where
  "find_laws e \<longleftrightarrow> (\<forall>ino fs fs'. map inode_key (inodes fs) = map inode_key (inodes fs') \<longrightarrow> find_inode e ino fs = find_inode e ino fs')"

fun of_good :: "'w open_file \<Rightarrow> bool" where
  "of_good (e, U, M, i, ino, gid, fs) \<longleftrightarrow>
     rw_laws e U M \<and> find_laws e \<and> find_inode e ino fs = Some i \<and> i < length (inodes fs)
   \<and> i_mode (inodes fs ! i) AND I_TYPE = I_REGULAR \<and> file_ok e U (inodes fs ! i) fs \<and> io_ok e (inodes fs ! i) fs
   \<and> tail_zero e (inodes fs ! i) fs \<and> \<not> s_rd_only (superblock fs)"

fun of_allowed :: "'w open_file \<Rightarrow> file_op \<Rightarrow> bool" where
  "of_allowed (e, U, M, i, ino, gid, fs) (Wr p n) \<longleftrightarrow> int p + int n \<le> s_max_size (superblock fs)"
| "of_allowed (e, U, M, i, ino, gid, fs) (Rd p n) \<longleftrightarrow> n < 2 ^ 31"

fun of_call :: "'w open_file \<Rightarrow> file_op \<Rightarrow> bool \<times> 'w open_file" where
  "of_call (e, U, M, i, ino, gid, fs) x =
     (case fs_readwrite e (op_request ino gid x) fs of
        Some (r, out, fs') \<Rightarrow> (r = OK, e, U, M, i, ino, gid, fs')
      | None \<Rightarrow> (False, e, U, M, i, ino, gid, fs))"

fun of_bytes :: "'w open_file \<Rightarrow> u8 list \<times> u8 list" where
  "of_bytes (e, U, M, i, ino, gid, fs) = (contents e (inodes fs ! i) fs, M (fs_world fs))"

lemma of_allowed_cong: "superblock fs' = superblock fs \<Longrightarrow> of_allowed (e, U, M, i, ino, gid, fs') = of_allowed (e, U, M, i, ino, gid, fs)"
proof
  fix x
  assume "superblock fs' = superblock fs"
  then show "of_allowed (e, U, M, i, ino, gid, fs') x = of_allowed (e, U, M, i, ino, gid, fs) x" by (cases x) simp_all
qed

lemma of_good_refers: "of_good (e, U, M, i, ino, gid, fs) \<Longrightarrow> refers e (op_request ino gid x) fs i (inodes fs ! i)"
  by (cases x) (simp_all add: refers_def)

lemma of_write:
  assumes g: "of_good (e, U, M, i, ino, gid, fs)" and a: "of_allowed (e, U, M, i, ino, gid, fs) (Wr p n)"
    and c: "fs_readwrite e (op_request ino gid (Wr p n)) fs = Some (OK, out, fs')"
  shows "of_good (e, U, M, i, ino, gid, fs') \<and> superblock fs' = superblock fs \<and> of_bytes (e, U, M, i, ino, gid, fs') = file_spec (Wr p n) (of_bytes (e, U, M, i, ino, gid, fs))"
proof -
  let ?rip = "inodes fs ! i" and ?rq = "op_request ino gid (Wr p n)"
  have G: "rw_laws e U M" "find_laws e" "find_inode e ino fs = Some i" "i_mode ?rip AND I_TYPE = I_REGULAR" "file_ok e U ?rip fs" "io_ok e ?rip fs"
    "tail_zero e ?rip fs" "\<not> s_rd_only (superblock fs)" using g by simp_all
  have rq: "rq_type ?rq = REQ_WRITE" "int (rq_pos ?rq) + int (rq_nbytes ?rq) \<le> s_max_size (superblock fs)" using a by simp_all
  obtain r k t where w: "fs_readwrite e ?rq fs = Some (r, Some (rq_pos ?rq + k, k), t)" "file_ok e U (inodes t ! i) t" "mm M t = mm M fs" "i < length (inodes t)"
      "superblock t = superblock fs" "map inode_key (inodes t) = map inode_key (inodes fs)"
    and ok: "r = OK \<longrightarrow> k = rq_nbytes ?rq \<and> rq_nbytes ?rq \<le> length (mm M fs) \<and> io_ok e (inodes t ! i) t \<and> i_mode (inodes t ! i) = i_mode ?rip
      \<and> contents e (inodes t ! i) t = overwrite (rq_pos ?rq) (take (rq_nbytes ?rq) (mm M fs)) (contents e ?rip fs) \<and> tail_zero e (inodes t ! i) t"
    using fs_write_bytes_frame [OF G(1) of_good_refers [OF g] G(4-7) rq(1) G(8) rq(2)] by (elim exE conjE) (rule that)
  have t: "t = fs'" "r = OK" using w(1) c by simp_all
  have "find_inode e ino t = Some i" using G(2,3) w(6) by (metis find_laws_def)
  then show ?thesis using G w ok t by simp
qed

lemma of_read:
  assumes g: "of_good (e, U, M, i, ino, gid, fs)" and a: "of_allowed (e, U, M, i, ino, gid, fs) (Rd p n)"
    and c: "fs_readwrite e (op_request ino gid (Rd p n)) fs = Some (OK, out, fs')"
  shows "of_good (e, U, M, i, ino, gid, fs') \<and> superblock fs' = superblock fs \<and> of_bytes (e, U, M, i, ino, gid, fs') = file_spec (Rd p n) (of_bytes (e, U, M, i, ino, gid, fs))"
proof -
  let ?rip = "inodes fs ! i" and ?rq = "op_request ino gid (Rd p n)"
  have G: "rw_laws e U M" "find_laws e" "find_inode e ino fs = Some i" "i_mode ?rip AND I_TYPE = I_REGULAR" "file_ok e U ?rip fs" "io_ok e ?rip fs"
    "tail_zero e ?rip fs" "\<not> s_rd_only (superblock fs)" using g by simp_all
  have rq: "rq_type ?rq = REQ_READ" "rq_nbytes ?rq < 2 ^ 31" using a by simp_all
  obtain r k t where w: "fs_readwrite e ?rq fs = Some (r, Some (rq_pos ?rq + k, k), t)" "r = OK \<longrightarrow> k = min (rq_nbytes ?rq) (i_size ?rip - rq_pos ?rq)"
      "mm M t = put_bytes 0 (fbytes e ?rip fs (rq_pos ?rq) k) (mm M fs)" "contents e (inodes t ! i) t = contents e ?rip fs" "file_kept e U i ?rip fs t"
    using fs_read_bytes_frame [OF G(1) of_good_refers [OF g] G(4-6) rq] by (elim exE conjE) (rule that)
  have t: "t = fs'" "r = OK" using w(1) c by simp_all
  have K: "i < length (inodes t)" "superblock t = superblock fs" "map inode_key (inodes t) = map inode_key (inodes fs)" "file_ok e U (inodes t ! i) t"
    "io_ok e (inodes t ! i) t" "i_mode (inodes t ! i) = i_mode ?rip" "tail_zero e (inodes t ! i) t" using w(5) G(7) by (simp_all add: file_kept_def)
  have "find_inode e ino t = Some i" using G(2,3) K(3) by (metis find_laws_def)
  moreover have "fbytes e ?rip fs p k = take n (drop p (contents e ?rip fs))"
    using w(2) t(2) by (intro nth_equalityI) (auto simp: contents_def fbytes_def)
  ultimately show ?thesis using G w(3,4) K t by simp
qed

interpretation open_file: op_refinement of_good of_allowed of_call of_bytes file_spec
proof (standard, goal_cases)
  case (1 s x s')
  obtain e U M i ino gid fs where s: "s = (e, U, M, i, ino, gid, fs)" by (cases s)
  obtain out fs' where c: "fs_readwrite e (op_request ino gid x) fs = Some (OK, out, fs')" "s' = (e, U, M, i, ino, gid, fs')"
    using 1(3) s by (auto split: option.splits prod.splits)
  have "of_good s' \<and> superblock fs' = superblock fs \<and> of_bytes s' = file_spec x (of_bytes s)"
    using 1(1,2) c s of_write [of e U M i ino gid fs] of_read [of e U M i ino gid fs] by (cases x) blast+
  then show ?case using of_allowed_cong [of fs' fs e U M i ino gid] s c(2) by (simp del: of_good.simps of_bytes.simps)
qed

text \<open>
  C11. Any sequence of reads and writes of a regular file that all report success does to the file and to the
  caller's buffer what the abstract operations do to two lists of bytes: writes overwrite, gaps read as zeros,
  reads deliver what was written last, and nothing else changes. The file is well-formed afterwards.\<close>

theorem fs_ops_refine:
  assumes "of_good s" and "list_all (of_allowed s) xs" and "run_ops of_call s xs = (True, s')"
  shows "of_good s' \<and> of_bytes s' = fold file_spec xs (of_bytes s)"
  using open_file.run_refines [OF assms] by blast

lemma mdemo_find_laws: "find_laws mdemo_env"
  by (simp add: find_laws_def mdemo_copies)

theorem fs_ops_refine_witness:
  "\<exists>s. of_good s \<and> fst s = mdemo_env \<and> of_bytes s = file_spec (Wr 3 2) (contents mdemo_env wdemo_inode (wdemo_fs [7, 8]), [7, 8])"
proof -
  let ?s = "(mdemo_env, mdemo_used, mem, 0 :: nat, 5 :: nat, rq_grant (demo_rq REQ_WRITE 3 2), wdemo_fs [7, 8])"
  have m: "mem (fs_world (wdemo_fs [7, 8])) = [7, 8]" "s_max_size (superblock (wdemo_fs [7, 8])) = 4600" "\<not> s_rd_only (superblock (wdemo_fs [7, 8]))"
    by (simp_all add: wdemo_fs_def mdemo_fs_def mdemo_sb_def)
  have rf: "0 < length (inodes (wdemo_fs [7, 8]))" "inodes (wdemo_fs [7, 8]) ! 0 = wdemo_inode"
    using wdemo_ok(4) [of REQ_WRITE 3 2 "[7, 8]"] by (simp_all add: refers_def mdemo_copies demo_rq_def)
  have g: "of_good ?s" using mdemo_rw_laws mdemo_find_laws wdemo_ok(1-3,5) rf m(3) by (simp add: mdemo_copies)
  have rq: "op_request 5 (rq_grant (demo_rq REQ_WRITE 3 2)) (Wr 3 2) = demo_rq REQ_WRITE 3 2" by (simp add: demo_rq_def)
  obtain out fs' where "fs_readwrite mdemo_env (demo_rq REQ_WRITE 3 2) (wdemo_fs [7, 8]) = Some (OK, out, fs')" using wdemo_write by auto
  then have r: "run_ops of_call ?s [Wr 3 2] = (True, mdemo_env, mdemo_used, mem, 0, 5, rq_grant (demo_rq REQ_WRITE 3 2), fs')"
    using rq by (simp del: op_request.simps)
  from fs_ops_refine [OF g _ r] m rf show ?thesis by (intro exI conjI) (auto simp del: of_good.simps of_bytes.simps simp: of_bytes.simps(1) [of mdemo_env mdemo_used mem 0 5 _ "wdemo_fs [7, 8]"])
qed

end
