(* ===== verification/VFS_Base.thy ===== *)
theory VFS_Base
  imports MFS_Base
begin

text \<open>
  The state of the virtual file system server, shared by the models of \<^verbatim>\<open>link.c\<close>, \<^verbatim>\<open>read.c\<close> and
  \<^verbatim>\<open>open.c\<close> of \<^verbatim>\<open>src/Lab-10/vfs\<close> and of \<^verbatim>\<open>src/Lab-09\<close>: vnodes, open file descriptions (filps),
  mount points, processes and file locks, and the interface to the parts of VFS that are not in the
  repository.

  A pointer to a vnode, filp or process is its index in the table; a pointer that may be \<^verbatim>\<open>NULL\<close> is
  an \<^typ>\<open>nat option\<close>, and using a \<^verbatim>\<open>NULL\<close> pointer makes the call \<^const>\<open>None\<close>, as does a panic or a
  failed assertion. Path lookup, locking, descriptor tables, permission checks and drivers are fields
  of the record \<open>vfs_env\<close>. They are functions of the whole state, because another worker thread may
  run while they wait. The messages to the file systems (the \<^verbatim>\<open>req_\<close> functions of VFS) are values
  of \<open>fs_request\<close> given to the field \<open>fs_req\<close>.
\<close>

section \<open>Modes and flags\<close>

definition I_SET_STCKY_BIT :: mode_t where "I_SET_STCKY_BIT = 0x200"
definition RWX_MODES :: mode_t where "RWX_MODES = 0x1FF"
definition R_BIT :: mode_t where "R_BIT = 4"
definition W_BIT :: mode_t where "W_BIT = 2"
definition X_BIT :: mode_t where "X_BIT = 1"

text \<open>
  The file types of \<^verbatim>\<open>sys/stat.h\<close> have the values of the macros of \<^verbatim>\<open>const.h\<close>; the \<^verbatim>\<open>S_IS...\<close> tests
  compare the type bits.
\<close>

definition S_ISREG :: "mode_t \<Rightarrow> bool" where "S_ISREG m \<longleftrightarrow> m AND I_TYPE = I_REGULAR"
definition S_ISDIR :: "mode_t \<Rightarrow> bool" where "S_ISDIR m \<longleftrightarrow> m AND I_TYPE = I_DIRECTORY"
definition S_ISLNK :: "mode_t \<Rightarrow> bool" where "S_ISLNK m \<longleftrightarrow> m AND I_TYPE = I_SYMBOLIC_LINK"
definition S_ISCHR :: "mode_t \<Rightarrow> bool" where "S_ISCHR m \<longleftrightarrow> m AND I_TYPE = I_CHAR_SPECIAL"
definition S_ISBLK :: "mode_t \<Rightarrow> bool" where "S_ISBLK m \<longleftrightarrow> m AND I_TYPE = I_BLOCK_SPECIAL"
definition S_ISFIFO :: "mode_t \<Rightarrow> bool" where "S_ISFIFO m \<longleftrightarrow> m AND I_TYPE = I_NAMED_PIPE"
definition S_ISSOCK :: "mode_t \<Rightarrow> bool" where "S_ISSOCK m \<longleftrightarrow> m AND I_TYPE = I_UNIX_SOCKET"

lemmas ftype_defs = S_ISREG_def S_ISDIR_def S_ISLNK_def S_ISCHR_def S_ISBLK_def S_ISFIFO_def S_ISSOCK_def

text \<open>
  The open flags of \<^verbatim>\<open>fcntl.h\<close>. The access mode is the two lowest bits; the values of the other
  flags are distinct bits.
\<close>

definition O_ACCMODE :: u32 where "O_ACCMODE = 3"
definition O_NONBLOCK :: u32 where "O_NONBLOCK = 0x4"
definition O_APPEND :: u32 where "O_APPEND = 0x8"
definition O_CREAT :: u32 where "O_CREAT = 0x200"
definition O_TRUNC :: u32 where "O_TRUNC = 0x400"
definition O_EXCL :: u32 where "O_EXCL = 0x800"
definition O_NOCTTY :: u32 where "O_NOCTTY = 0x8000"
definition O_CLOEXEC :: u32 where "O_CLOEXEC = 0x400000"
definition O_NOSIGPIPE :: u32 where "O_NOSIGPIPE = 0x1000000"

lemmas oflag_defs = O_ACCMODE_def O_NONBLOCK_def O_APPEND_def O_CREAT_def O_TRUNC_def O_EXCL_def O_NOCTTY_def
  O_CLOEXEC_def O_NOSIGPIPE_def

text \<open>\<^verbatim>\<open>x & flag\<close> used as a condition.\<close>

definition has :: "u32 \<Rightarrow> u32 \<Rightarrow> bool" where
  "has x flag \<longleftrightarrow> x AND flag \<noteq> 0"

section \<open>Tables\<close>

record vnode =
  v_mode :: mode_t
  v_fs_e :: endpoint_t
  v_inode_nr :: nat
  v_size :: int
  v_uid :: nat
  v_gid :: nat
  v_sdev :: dev_t
  v_dev :: dev_t
  v_vmnt :: nat
  v_bfs_e :: endpoint_t
  v_mapfs_e :: endpoint_t
  v_mapinode_nr :: nat
  v_fs_count :: int
  v_ref_count :: int

record filp =
  filp_mode :: mode_t
  filp_flags :: u32
  filp_count :: int
  filp_pos :: int
  filp_vno :: "nat option"

record vmnt =
  m_fs_e :: endpoint_t
  m_dev :: dev_t
  m_mount_path :: string
  m_forceroot :: bool

record fproc =
  fp_filp :: "nat \<Rightarrow> nat option"
  fp_cloexec_set :: "nat set"
  fp_umask :: mode_t
  fp_effuid :: nat
  fp_effgid :: nat
  fp_wd :: "nat option"
  fp_cum_io_partial :: nat
  fp_pid :: int
  fp_endpoint :: endpoint_t

record file_lock =
  lock_type :: int
  flock_vnode :: nat
  lock_pid :: int

text \<open>The scratchpad of a process: the descriptor and buffer of the call it is in.\<close>

record scratchpad =
  fd_nr :: int
  io_buffer :: nat
  io_nbytes :: nat

record 'w vfs =
  vnodes :: "nat \<Rightarrow> vnode"
  filps :: "nat \<Rightarrow> filp"
  fprocs :: "nat \<Rightarrow> fproc"
  vmnts :: "vmnt list"
  file_locks :: "file_lock list"
  nr_locks :: int
  susp_count :: int
  scratch :: "nat \<Rightarrow> scratchpad"
  verr :: ret
  lseek_out :: int
  vconsole :: console
  vworld :: 'w

definition upd_vnode :: "nat \<Rightarrow> (vnode \<Rightarrow> vnode) \<Rightarrow> 'w vfs \<Rightarrow> 'w vfs" where
  "upd_vnode vp g fs = fs\<lparr>vnodes := (vnodes fs)(vp := g (vnodes fs vp))\<rparr>"

definition upd_filp :: "nat \<Rightarrow> (filp \<Rightarrow> filp) \<Rightarrow> 'w vfs \<Rightarrow> 'w vfs" where
  "upd_filp f g fs = fs\<lparr>filps := (filps fs)(f := g (filps fs f))\<rparr>"

definition upd_fproc :: "nat \<Rightarrow> (fproc \<Rightarrow> fproc) \<Rightarrow> 'w vfs \<Rightarrow> 'w vfs" where
  "upd_fproc p g fs = fs\<lparr>fprocs := (fprocs fs)(p := g (fprocs fs p))\<rparr>"

definition upd_scratch :: "nat \<Rightarrow> (scratchpad \<Rightarrow> scratchpad) \<Rightarrow> 'w vfs \<Rightarrow> 'w vfs" where
  "upd_scratch p g fs = fs\<lparr>scratch := (scratch fs)(p := g (scratch fs p))\<rparr>"

definition set_err :: "ret \<Rightarrow> 'w vfs \<Rightarrow> 'w vfs" where
  "set_err r fs = fs\<lparr>verr := r\<rparr>"

definition vprint :: "string \<Rightarrow> parg list \<Rightarrow> 'w vfs \<Rightarrow> 'w vfs" where
  "vprint fmt args fs = fs\<lparr>vconsole := printf fmt args (vconsole fs)\<rparr>"

lemmas vfs_upd_defs = upd_vnode_def upd_filp_def upd_fproc_def upd_scratch_def set_err_def vprint_def

section \<open>Lookups, requests and the environment\<close>

datatype path_flag = PATH_RET_SYMLINK
datatype vmnt_lock = VMNT_READ | VMNT_WRITE
datatype vnode_lock = VNODE_READ | VNODE_OPCL | VNODE_WRITE

record lookup =
  l_path :: string
  l_flags :: "path_flag set"
  l_vmnt_lock :: vmnt_lock
  l_vnode_lock :: vnode_lock

text \<open>
  What a lookup leaves behind: the vnode it returns, the mount point and vnode pointers it stored
  through \<^verbatim>\<open>l_vmp\<close> and \<^verbatim>\<open>l_vnode\<close>, and the contents of the path buffer.
\<close>

record lookup_result =
  lk_found :: "nat option"
  lk_vmnt :: "nat option"
  lk_vnode :: "nat option"
  lk_path :: string

datatype fs_request =
    Req_link nat string nat
  | Req_unlink nat string
  | Req_rmdir nat string
  | Req_rename nat string nat string
  | Req_ftrunc nat int int
  | Req_slink nat string endpoint_t nat nat nat nat
  | Req_rdlink nat endpoint_t nat nat bool
  | Req_create nat mode_t nat nat string
  | Req_mknod nat string nat nat mode_t dev_t
  | Req_mkdir nat string nat nat mode_t
  | Req_inhibread nat
  | Req_readwrite nat int rw endpoint_t nat nat
  | Req_peek nat int nat
  | Req_breadwrite endpoint_t dev_t int nat nat rw
  | Req_bpeek dev_t int nat
  | Req_getdents nat int nat nat
  | Req_newdriver dev_t string

record node_details =
  nd_fs_e :: endpoint_t
  nd_inode_nr :: nat
  nd_fmode :: mode_t
  nd_fsize :: int
  nd_uid :: nat
  nd_gid :: nat
  nd_dev :: dev_t

text \<open>
  The reply of a file system: the result, and where the request has output parameters the new
  position, the number of bytes transferred, the details of a created node and the text of a link.
\<close>

record fs_reply =
  rp_ret :: ret
  rp_pos :: int
  rp_cum_io :: nat
  rp_node :: node_details
  rp_link :: string

datatype cdev_op = CDEV_READ | CDEV_WRITE

record 'w vfs_env =
  fp :: nat
  who_e :: endpoint_t
  super_user :: bool
  SU_UID :: nat
  PATH_MAX :: nat
  SSIZE_MAX :: nat
  POSIX_SYMLINK_MAX :: nat
  NONE_E :: endpoint_t
  VFS_PROC_NR :: endpoint_t
  PFS_PROC_NR :: endpoint_t
  ROOT_FS_E :: endpoint_t
  fetch_name :: "nat \<Rightarrow> nat \<Rightarrow> 'w vfs \<Rightarrow> ret \<times> string \<times> 'w vfs"
  copy_path :: "'w vfs \<Rightarrow> ret \<times> string \<times> 'w vfs"
  eat_path :: "lookup \<Rightarrow> nat \<Rightarrow> 'w vfs \<Rightarrow> lookup_result \<times> 'w vfs"
  last_dir :: "lookup \<Rightarrow> nat \<Rightarrow> 'w vfs \<Rightarrow> lookup_result \<times> 'w vfs"
  advance :: "nat \<Rightarrow> lookup \<Rightarrow> nat \<Rightarrow> 'w vfs \<Rightarrow> lookup_result \<times> 'w vfs"
  forbidden :: "nat \<Rightarrow> nat \<Rightarrow> mode_t \<Rightarrow> 'w vfs \<Rightarrow> ret \<times> 'w vfs"
  fs_req :: "endpoint_t \<Rightarrow> fs_request \<Rightarrow> 'w vfs \<Rightarrow> fs_reply \<times> 'w vfs"
  lock_vnode :: "nat \<Rightarrow> vnode_lock \<Rightarrow> 'w vfs \<Rightarrow> 'w vfs"
  unlock_vnode :: "nat \<Rightarrow> 'w vfs \<Rightarrow> 'w vfs"
  upgrade_vnode_lock :: "nat \<Rightarrow> 'w vfs \<Rightarrow> 'w vfs"
  put_vnode :: "nat \<Rightarrow> 'w vfs \<Rightarrow> 'w vfs"
  get_free_vnode :: "'w vfs \<Rightarrow> nat option \<times> 'w vfs"
  vnode_locked_by_me :: "nat \<Rightarrow> 'w vfs \<Rightarrow> bool"
  unlock_vmnt :: "nat \<Rightarrow> 'w vfs \<Rightarrow> 'w vfs"
  upgrade_vmnt_lock :: "nat \<Rightarrow> 'w vfs \<Rightarrow> 'w vfs"
  downgrade_vmnt_lock :: "nat \<Rightarrow> 'w vfs \<Rightarrow> 'w vfs"
  find_vmnt :: "endpoint_t \<Rightarrow> 'w vfs \<Rightarrow> nat option"
  get_filp :: "int \<Rightarrow> vnode_lock \<Rightarrow> 'w vfs \<Rightarrow> nat option \<times> 'w vfs"
  get_filp2 :: "nat \<Rightarrow> int \<Rightarrow> vnode_lock \<Rightarrow> 'w vfs \<Rightarrow> nat option \<times> 'w vfs"
  unlock_filp :: "nat \<Rightarrow> 'w vfs \<Rightarrow> 'w vfs"
  filp_locked_by_me :: "nat \<Rightarrow> 'w vfs \<Rightarrow> bool"
  close_filp :: "nat \<Rightarrow> 'w vfs \<Rightarrow> 'w vfs"
  get_fd :: "nat \<Rightarrow> nat \<Rightarrow> mode_t \<Rightarrow> 'w vfs \<Rightarrow> ret \<times> int \<times> nat \<times> 'w vfs"
  find_filp :: "nat \<Rightarrow> mode_t \<Rightarrow> 'w vfs \<Rightarrow> nat option"
  mutex_trylock_bsf :: "'w vfs \<Rightarrow> ret \<times> 'w vfs"
  mutex_lock_bsf :: "'w vfs \<Rightarrow> ret \<times> 'w vfs"
  mutex_unlock_bsf :: "'w vfs \<Rightarrow> ret \<times> 'w vfs"
  worker_suspend :: "'w vfs \<Rightarrow> nat \<times> 'w vfs"
  worker_resume :: "nat \<Rightarrow> 'w vfs \<Rightarrow> 'w vfs"
  cdev_io :: "cdev_op \<Rightarrow> dev_t \<Rightarrow> endpoint_t \<Rightarrow> nat \<Rightarrow> int \<Rightarrow> nat \<Rightarrow> u32 \<Rightarrow> 'w vfs \<Rightarrow> ret \<times> 'w vfs"
  cdev_open :: "dev_t \<Rightarrow> u32 \<Rightarrow> 'w vfs \<Rightarrow> ret \<times> 'w vfs"
  bdev_open :: "dev_t \<Rightarrow> mode_t \<Rightarrow> 'w vfs \<Rightarrow> ret \<times> 'w vfs"
  bdev_close :: "dev_t \<Rightarrow> 'w vfs \<Rightarrow> 'w vfs"
  dmap_driver :: "dev_t \<Rightarrow> 'w vfs \<Rightarrow> endpoint_t"
  dmap_label :: "dev_t \<Rightarrow> 'w vfs \<Rightarrow> string"
  map_vnode :: "nat \<Rightarrow> endpoint_t \<Rightarrow> 'w vfs \<Rightarrow> ret \<times> 'w vfs"
  pipe_check :: "nat \<Rightarrow> rw \<Rightarrow> u32 \<Rightarrow> nat \<Rightarrow> 'w vfs \<Rightarrow> ret \<times> 'w vfs"
  pipe_suspend :: "nat \<Rightarrow> nat \<Rightarrow> nat \<Rightarrow> 'w vfs \<Rightarrow> 'w vfs"
  suspend_popen :: "'w vfs \<Rightarrow> 'w vfs"
  release_open :: "nat \<Rightarrow> int \<Rightarrow> 'w vfs \<Rightarrow> 'w vfs"
  sys_kill_sigpipe :: "endpoint_t \<Rightarrow> 'w vfs \<Rightarrow> 'w vfs"
  lock_revive :: "'w vfs \<Rightarrow> 'w vfs"

text \<open>The vnode of an open file description; a claimed one has one.\<close>

abbreviation vno :: "nat \<Rightarrow> 'w vfs \<Rightarrow> nat option" where
  "vno f fs \<equiv> filp_vno (filps fs f)"

section \<open>What the environment promises\<close>

text \<open>
  The locks and references the calling thread holds, as a function of the world: \<open>bal w x\<close> is how many
  times the thread acquired \<open>x\<close> minus how many times it released it. A release of something that is
  not held makes it negative.
\<close>

datatype resource = VLock nat | VRef nat | MLock nat | FLock nat | BsfLock

definition unit_of :: "resource \<Rightarrow> resource \<Rightarrow> int" where
  "unit_of x y = (if x = y then 1 else 0)"

lemma unit_of_same [simp]: "unit_of x x = 1"
  by (simp add: unit_of_def)

lemma unit_of_other [simp]: "x \<noteq> y \<Longrightarrow> unit_of x y = 0"
  by (simp add: unit_of_def)

lemma unit_of_nonneg [simp]: "0 \<le> unit_of x y"
  by (simp add: unit_of_def)

text \<open>The parts of a vnode that do not change while the thread has it locked, unless the thread changes them.\<close>

definition vkey :: "vnode \<Rightarrow> mode_t \<times> endpoint_t \<times> nat \<times> int \<times> nat \<times> dev_t" where
  "vkey v = (v_mode v, v_fs_e v, v_inode_nr v, v_size v, v_uid v, v_sdev v)"

definition stable :: "('w \<Rightarrow> resource \<Rightarrow> int) \<Rightarrow> 'w vfs \<Rightarrow> 'w vfs \<Rightarrow> bool" where
  "stable bal fs fs' \<longleftrightarrow>
     (\<forall>v. 0 < bal (vworld fs) (VLock v) \<longrightarrow> vkey (vnodes fs' v) = vkey (vnodes fs v))
   \<and> (\<forall>f. 0 < bal (vworld fs) (FLock f) \<longrightarrow> filps fs' f = filps fs f)"

definition quiet :: "('w \<Rightarrow> resource \<Rightarrow> int) \<Rightarrow> 'w vfs \<Rightarrow> 'w vfs \<Rightarrow> bool" where
  "quiet bal fs fs' \<longleftrightarrow> stable bal fs fs' \<and> bal (vworld fs') = bal (vworld fs)"

text \<open>What a lookup acquired. A lookup that fails acquires nothing and sets \<^verbatim>\<open>err_code\<close>.\<close>

definition gained :: "lookup_result \<Rightarrow> resource \<Rightarrow> int" where
  "gained lr y = (case lk_found lr of None \<Rightarrow> 0 | Some v \<Rightarrow> unit_of (VRef v) y)
     + (case lk_vnode lr of None \<Rightarrow> 0 | Some v \<Rightarrow> unit_of (VLock v) y)
     + (case lk_vmnt lr of None \<Rightarrow> 0 | Some m \<Rightarrow> unit_of (MLock m) y)"

text \<open>
  A lookup locks the vnode it finds and that vnode's mount point, except what the thread has locked
  already: then it leaves the pointer \<^verbatim>\<open>NULL\<close>.
\<close>

definition lookup_law :: "('w \<Rightarrow> resource \<Rightarrow> int) \<Rightarrow> 'w vfs \<Rightarrow> lookup_result \<Rightarrow> 'w vfs \<Rightarrow> bool" where
  "lookup_law bal fs lr fs' \<longleftrightarrow>
     stable bal fs fs' \<and> (\<forall>y. bal (vworld fs') y = bal (vworld fs) y + gained lr y)
   \<and> (lk_found lr = None \<longrightarrow> lk_vnode lr = None \<and> lk_vmnt lr = None \<and> verr fs' \<noteq> OK)
   \<and> (\<forall>v. lk_found lr = Some v \<longrightarrow>
        lk_vnode lr = (if 0 < bal (vworld fs) (VLock v) then None else Some v)
      \<and> (\<exists>m. lk_vmnt lr = (if 0 < bal (vworld fs) (MLock m) then None else Some m)))"

definition path_laws :: "'w vfs_env \<Rightarrow> ('w \<Rightarrow> resource \<Rightarrow> int) \<Rightarrow> bool" where
  "path_laws e bal \<longleftrightarrow>
     (\<forall>lk p fs. lookup_law bal fs (fst (eat_path e lk p fs)) (snd (eat_path e lk p fs)))
   \<and> (\<forall>lk p fs. lookup_law bal fs (fst (last_dir e lk p fs)) (snd (last_dir e lk p fs)))
   \<and> (\<forall>d lk p fs. lookup_law bal fs (fst (advance e d lk p fs)) (snd (advance e d lk p fs))
        \<and> (\<forall>m. 0 < bal (vworld fs) (MLock m) \<longrightarrow> lk_vmnt (fst (advance e d lk p fs)) = None))
   \<and> (\<forall>a n fs. quiet bal fs (snd (snd (fetch_name e a n fs)))
        \<and> (fst (fetch_name e a n fs) \<noteq> OK \<longrightarrow> verr (snd (snd (fetch_name e a n fs))) \<noteq> OK))
   \<and> (\<forall>fs. quiet bal fs (snd (snd (copy_path e fs)))
        \<and> (fst (copy_path e fs) \<noteq> OK \<longrightarrow> verr (snd (snd (copy_path e fs))) \<noteq> OK))
   \<and> (\<forall>p v m fs. quiet bal fs (snd (forbidden e p v m fs)))
   \<and> (\<forall>ep rq fs. quiet bal fs (snd (fs_req e ep rq fs)))"

definition lock_laws :: "'w vfs_env \<Rightarrow> ('w \<Rightarrow> resource \<Rightarrow> int) \<Rightarrow> bool" where
  "lock_laws e bal \<longleftrightarrow>
     (\<forall>v fs. stable bal fs (unlock_vnode e v fs)
        \<and> (\<forall>y. bal (vworld (unlock_vnode e v fs)) y = bal (vworld fs) y - unit_of (VLock v) y))
   \<and> (\<forall>v fs. stable bal fs (put_vnode e v fs)
        \<and> (\<forall>y. bal (vworld (put_vnode e v fs)) y = bal (vworld fs) y - unit_of (VRef v) y))
   \<and> (\<forall>m fs. stable bal fs (unlock_vmnt e m fs)
        \<and> (\<forall>y. bal (vworld (unlock_vmnt e m fs)) y = bal (vworld fs) y - unit_of (MLock m) y))
   \<and> (\<forall>m fs. quiet bal fs (upgrade_vmnt_lock e m fs))
   \<and> (\<forall>v fs. vnode_locked_by_me e v fs \<longleftrightarrow> 0 < bal (vworld fs) (VLock v))"

text \<open>
  Descriptors. Getting an open file description locks it and its vnode; unlocking it unlocks the vnode
  as well while the description is in use.
\<close>

definition got_filp :: "('w \<Rightarrow> resource \<Rightarrow> int) \<Rightarrow> 'w vfs \<Rightarrow> nat option \<times> 'w vfs \<Rightarrow> bool" where
  "got_filp bal fs res \<longleftrightarrow> stable bal fs (snd res)
     \<and> (case fst res of
          None \<Rightarrow> bal (vworld (snd res)) = bal (vworld fs) \<and> verr (snd res) \<noteq> OK
        | Some f \<Rightarrow> 0 < filp_count (filps (snd res) f) \<and> (\<exists>v. vno f (snd res) = Some v
            \<and> (\<forall>y. bal (vworld (snd res)) y = bal (vworld fs) y + unit_of (FLock f) y + unit_of (VLock v) y)))"

definition filp_laws :: "'w vfs_env \<Rightarrow> ('w \<Rightarrow> resource \<Rightarrow> int) \<Rightarrow> bool" where
  "filp_laws e bal \<longleftrightarrow>
     (\<forall>fd l fs. got_filp bal fs (get_filp e fd l fs))
   \<and> (\<forall>p fd l fs. got_filp bal fs (get_filp2 e p fd l fs))
   \<and> (\<forall>f v fs y. vno f fs = Some v \<longrightarrow> 0 < filp_count (filps fs f) \<longrightarrow>
        bal (vworld (unlock_filp e f fs)) y = bal (vworld fs) y - unit_of (FLock f) y - unit_of (VLock v) y)
   \<and> (\<forall>f fs y. filp_count (filps fs f) \<le> 0 \<longrightarrow>
        bal (vworld (unlock_filp e f fs)) y = bal (vworld fs) y - unit_of (FLock f) y)"

text \<open>A state in which the thread holds no lock, as at the start of every call.\<close>

definition idle :: "('w \<Rightarrow> resource \<Rightarrow> int) \<Rightarrow> 'w vfs \<Rightarrow> bool" where
  "idle bal fs \<longleftrightarrow> (\<forall>v. bal (vworld fs) (VLock v) = 0) \<and> (\<forall>m. bal (vworld fs) (MLock m) = 0)
     \<and> (\<forall>f. bal (vworld fs) (FLock f) = 0) \<and> bal (vworld fs) BsfLock = 0"

definition balanced :: "('w \<Rightarrow> resource \<Rightarrow> int) \<Rightarrow> 'w vfs \<Rightarrow> 'w vfs \<Rightarrow> bool" where
  "balanced bal fs fs' \<longleftrightarrow> bal (vworld fs') = bal (vworld fs)"

lemma vworld_updates [simp]:
  "vworld (upd_vnode v g fs) = vworld fs" "vworld (upd_filp f h fs) = vworld fs" "vworld (upd_fproc p k fs) = vworld fs"
  "vworld (upd_scratch p s fs) = vworld fs" "vworld (set_err r fs) = vworld fs" "vworld (vprint t a fs) = vworld fs"
  by (simp_all add: vfs_upd_defs)

lemma quiet_bal: "quiet bal fs fs' \<Longrightarrow> bal (vworld fs') = bal (vworld fs)"
  by (simp add: quiet_def)

lemma path_lawsD:
  assumes "path_laws e bal"
  shows eat_path_law: "eat_path e lk p fs = (lr, fs') \<Longrightarrow> lookup_law bal fs lr fs'"
    and last_dir_law: "last_dir e lk p fs = (lr, fs') \<Longrightarrow> lookup_law bal fs lr fs'"
    and advance_law: "advance e d lk p fs = (lr, fs') \<Longrightarrow> lookup_law bal fs lr fs'"
    and advance_mount: "advance e d lk p fs = (lr, fs') \<Longrightarrow> 0 < bal (vworld fs) (MLock m) \<Longrightarrow> lk_vmnt lr = None"
    and fetch_name_quiet: "fetch_name e a n fs = (r, path, fs') \<Longrightarrow> quiet bal fs fs'"
    and fetch_name_err: "fetch_name e a n fs = (r, path, fs') \<Longrightarrow> r \<noteq> OK \<Longrightarrow> verr fs' \<noteq> OK"
    and copy_path_quiet: "copy_path e fs = (r, path, fs') \<Longrightarrow> quiet bal fs fs'"
    and copy_path_err: "copy_path e fs = (r, path, fs') \<Longrightarrow> r \<noteq> OK \<Longrightarrow> verr fs' \<noteq> OK"
    and forbidden_quiet: "forbidden e p v bits fs = (r, fs') \<Longrightarrow> quiet bal fs fs'"
    and fs_req_quiet: "fs_req e ep rq fs = (rep, fs') \<Longrightarrow> quiet bal fs fs'"
  using assms unfolding path_laws_def by (metis fst_conv snd_conv)+

lemma lock_lawsD:
  assumes "lock_laws e bal"
  shows unlock_vnode_bal: "bal (vworld (unlock_vnode e v fs)) y = bal (vworld fs) y - unit_of (VLock v) y"
    and put_vnode_bal: "bal (vworld (put_vnode e v fs)) y = bal (vworld fs) y - unit_of (VRef v) y"
    and unlock_vmnt_bal: "bal (vworld (unlock_vmnt e m fs)) y = bal (vworld fs) y - unit_of (MLock m) y"
    and upgrade_vmnt_quiet: "quiet bal fs (upgrade_vmnt_lock e m fs)"
    and locked_by_me: "vnode_locked_by_me e v fs \<longleftrightarrow> 0 < bal (vworld fs) (VLock v)"
  using assms unfolding lock_laws_def by blast+

end
