(* ===== verification/VFS_Link.thy ===== *)
theory VFS_Link
  imports VFS_Base
begin

text \<open>
  The calls of \<^verbatim>\<open>src/Lab-10/vfs/link.c\<close>: link, unlink and rmdir, rename, truncate, ftruncate, symlink
  and readlink, and the unlink of \<^verbatim>\<open>src/Lab-09/link.c\<close>. The parts of a call message that a handler
  reads are its argument.

  Main results: every call gives back the vnode locks, mount point locks and vnode references it took,
  on every return, with the exceptions named there; an entry is removed only from a directory the caller
  may write and, if that directory is sticky, only by the owner; a truncation keeps \<^verbatim>\<open>v_size\<close> in step with
  the file system.
\<close>

section \<open>Operations\<close>

record link_msg =
  name1 :: nat
  len1 :: nat
  name2 :: nat
  len2 :: nat

record trunc_msg =
  t_name :: nat
  t_len :: nat
  t_fd :: int
  t_offset :: int

record rdlink_msg =
  rl_name :: nat
  rl_namelen :: nat
  rl_buf :: nat
  rl_bufsize :: nat

text \<open>A request of which only the result matters.\<close>

definition req :: "'w vfs_env \<Rightarrow> endpoint_t \<Rightarrow> fs_request \<Rightarrow> 'w vfs \<Rightarrow> ret \<times> 'w vfs" where
  "req e ep rq fs = (case fs_req e ep rq fs of (rep, fs1) \<Rightarrow> (rp_ret rep, fs1))"

text \<open>
  The three statements with which most returns end: unlock the vnode, unlock the mount point (which
  must not be \<^verbatim>\<open>NULL\<close>), drop the reference.
\<close>

definition release_node :: "'w vfs_env \<Rightarrow> nat \<Rightarrow> nat option \<Rightarrow> 'w vfs \<Rightarrow> 'w vfs option" where
  "release_node e vp vmp fs =
     (case vmp of None \<Rightarrow> None | Some m \<Rightarrow> Some (put_vnode e vp (unlock_vmnt e m (unlock_vnode e vp fs))))"

definition return_node :: "'w vfs_env \<Rightarrow> nat \<Rightarrow> nat option \<Rightarrow> ret \<Rightarrow> 'w vfs \<Rightarrow> (ret \<times> 'w vfs) option" where
  "return_node e vp vmp r fs = (case release_node e vp vmp fs of None \<Rightarrow> None | Some fs1 \<Rightarrow> Some (r, fs1))"

text \<open>
  The second lookup of \<^verbatim>\<open>do_link\<close> and \<^verbatim>\<open>do_rename\<close> failed: return \<^verbatim>\<open>err_code\<close>. Were that OK, the call
  would go on with a \<^verbatim>\<open>NULL\<close> directory.
\<close>

definition second_failed :: "'w vfs_env \<Rightarrow> nat \<Rightarrow> nat option \<Rightarrow> 'w vfs \<Rightarrow> (ret \<times> 'w vfs) option" where
  "second_failed e vp vmp fs = (if verr fs \<noteq> OK then return_node e vp vmp (verr fs) fs else None)"

definition link_dirs :: "'w vfs_env \<Rightarrow> nat \<Rightarrow> nat option \<Rightarrow> nat \<Rightarrow> nat option \<Rightarrow> string \<Rightarrow> 'w vfs \<Rightarrow> (ret \<times> 'w vfs) option" where
  "link_dirs e vp vmp1 dirp vmp2 path fs =
     (let (r1, fs1) = (if v_fs_e (vnodes fs vp) \<noteq> v_fs_e (vnodes fs dirp) then (Err EXDEV, fs)
                       else forbidden e (fp e) dirp (W_BIT OR X_BIT) fs);
          (r2, fs2) = (if r1 = OK then req e (v_fs_e (vnodes fs1 vp))
                         (Req_link (v_inode_nr (vnodes fs1 dirp)) path (v_inode_nr (vnodes fs1 vp))) fs1
                       else (r1, fs1));
          fs3 = unlock_vnode e dirp (unlock_vnode e vp fs2);
          fs4 = (case vmp2 of None \<Rightarrow> fs3 | Some m \<Rightarrow> unlock_vmnt e m fs3)
      in case vmp1 of None \<Rightarrow> None
         | Some m1 \<Rightarrow> Some (r2, put_vnode e dirp (put_vnode e vp (unlock_vmnt e m1 fs4))))"

definition link_to :: "'w vfs_env \<Rightarrow> link_msg \<Rightarrow> nat \<Rightarrow> nat option \<Rightarrow> 'w vfs \<Rightarrow> (ret \<times> 'w vfs) option" where
  "link_to e m vp vmp1 fs =
     (case fetch_name e (name2 m) (len2 m) fs of (r0, path, fs1) \<Rightarrow>
      if r0 \<noteq> OK then second_failed e vp vmp1 fs1
      else case last_dir e \<lparr>l_path = path, l_flags = {}, l_vmnt_lock = VMNT_READ, l_vnode_lock = VNODE_WRITE\<rparr> (fp e) fs1
        of (lr, fs2) \<Rightarrow>
          (case lk_found lr of None \<Rightarrow> second_failed e vp vmp1 fs2
           | Some dirp \<Rightarrow> link_dirs e vp vmp1 dirp (lk_vmnt lr) (lk_path lr) fs2))"

definition do_link :: "'w vfs_env \<Rightarrow> link_msg \<Rightarrow> 'w vfs \<Rightarrow> (ret \<times> 'w vfs) option" where
  "do_link e m fs =
     (case fetch_name e (name1 m) (len1 m) fs of (r0, path, fs1) \<Rightarrow>
      if r0 \<noteq> OK then Some (verr fs1, fs1)
      else case eat_path e \<lparr>l_path = path, l_flags = {}, l_vmnt_lock = VMNT_WRITE, l_vnode_lock = VNODE_READ\<rparr> (fp e) fs1
        of (lr, fs2) \<Rightarrow>
          (case lk_found lr of None \<Rightarrow> Some (verr fs2, fs2)
           | Some vp \<Rightarrow> link_to e m vp (lk_vmnt lr) fs2))"

text \<open>
  The check of a sticky directory, in unlink and in rename: the result is OK, \<^const>\<open>EPERM\<close> or the
  error of the lookup; the lookup works in the path buffer.
\<close>

definition sticky_check :: "'w vfs_env \<Rightarrow> nat \<Rightarrow> string \<Rightarrow> 'w vfs \<Rightarrow> (ret \<times> string \<times> 'w vfs) option" where
  "sticky_check e dirp path fs =
     (if v_mode (vnodes fs dirp) AND I_SET_STCKY_BIT = I_SET_STCKY_BIT then
        case advance e dirp \<lparr>l_path = path, l_flags = {PATH_RET_SYMLINK}, l_vmnt_lock = VMNT_READ, l_vnode_lock = VNODE_READ\<rparr> (fp e) fs
        of (lr, fs1) \<Rightarrow>
          if lk_vmnt lr \<noteq> None then None
          else (case lk_found lr of
                  Some vp \<Rightarrow>
                    Some (if v_uid (vnodes fs1 vp) \<noteq> fp_effuid (fprocs fs1 (fp e)) \<and> fp_effuid (fprocs fs1 (fp e)) \<noteq> SU_UID e
                          then Err EPERM else OK, lk_path lr, put_vnode e vp (unlock_vnode e vp fs1))
                | None \<Rightarrow> Some (verr fs1, lk_path lr, fs1))
      else Some (OK, path, fs))"

definition unlink_request :: "'w vfs_env \<Rightarrow> bool \<Rightarrow> nat \<Rightarrow> string \<Rightarrow> 'w vfs \<Rightarrow> ret \<times> 'w vfs" where
  "unlink_request e is_unlink dirp path fs =
     (if is_unlink then req e (v_fs_e (vnodes fs dirp)) (Req_unlink (v_inode_nr (vnodes fs dirp)) path) fs
      else req e (v_fs_e (vnodes fs dirp)) (Req_rmdir (v_inode_nr (vnodes fs dirp)) path) fs)"

definition unlink_remove :: "'w vfs_env \<Rightarrow> bool \<Rightarrow> nat \<Rightarrow> nat option \<Rightarrow> string \<Rightarrow> 'w vfs \<Rightarrow> (ret \<times> 'w vfs) option" where
  "unlink_remove e is_unlink dirp vmp path fs =
     (case vmp of None \<Rightarrow> None
      | Some m \<Rightarrow>
          (case unlink_request e is_unlink dirp path (upgrade_vmnt_lock e m fs) of (r, fs1) \<Rightarrow> return_node e dirp vmp r fs1))"

definition unlink_checks :: "'w vfs_env \<Rightarrow> nat \<Rightarrow> nat option \<Rightarrow> string \<Rightarrow> (string \<Rightarrow> 'w vfs \<Rightarrow> (ret \<times> 'w vfs) option) \<Rightarrow>
    'w vfs \<Rightarrow> (ret \<times> 'w vfs) option" where
  "unlink_checks e dirp vmp path remove fs =
     (if \<not> S_ISDIR (v_mode (vnodes fs dirp)) then return_node e dirp vmp (Err ENOTDIR) fs
      else case forbidden e (fp e) dirp (X_BIT OR W_BIT) fs of (r, fs1) \<Rightarrow>
        if r \<noteq> OK then return_node e dirp vmp r fs1
        else (case sticky_check e dirp path fs1 of
                None \<Rightarrow> None
              | Some (r1, path1, fs2) \<Rightarrow> if r1 \<noteq> OK then return_node e dirp vmp r1 fs2 else remove path1 fs2))"

definition do_unlink :: "'w vfs_env \<Rightarrow> bool \<Rightarrow> 'w vfs \<Rightarrow> (ret \<times> 'w vfs) option" where
  "do_unlink e is_unlink fs =
     (case copy_path e fs of (r0, path, fs1) \<Rightarrow>
      if r0 \<noteq> OK then Some (verr fs1, fs1)
      else case last_dir e \<lparr>l_path = path, l_flags = {PATH_RET_SYMLINK}, l_vmnt_lock = VMNT_WRITE, l_vnode_lock = VNODE_WRITE\<rparr> (fp e) fs1
        of (lr, fs2) \<Rightarrow>
          (case lk_found lr of None \<Rightarrow> Some (verr fs2, fs2)
           | Some dirp \<Rightarrow>
               unlink_checks e dirp (lk_vmnt lr) (lk_path lr) (\<lambda>path1. unlink_remove e is_unlink dirp (lk_vmnt lr) path1) fs2))"

text \<open>
  In Lab 9 the entry is looked up once more, its inode number is printed when the mount point is
  \<^verbatim>\<open>/home\<close>, and only then the code asks whether the lookup found anything.
\<close>

definition unlink_report_lab9 :: "'w vfs_env \<Rightarrow> nat \<Rightarrow> nat \<Rightarrow> string \<Rightarrow> 'w vfs \<Rightarrow> (string \<times> 'w vfs) option" where
  "unlink_report_lab9 e dirp m path fs =
     (case advance e dirp \<lparr>l_path = path, l_flags = {PATH_RET_SYMLINK}, l_vmnt_lock = VMNT_READ, l_vnode_lock = VNODE_READ\<rparr> (fp e) fs
      of (lr, fs1) \<Rightarrow>
        (case lk_found lr of
           None \<Rightarrow> if m_mount_path (vmnts fs1 ! m) = ''/home'' then None else Some (lk_path lr, fs1)
         | Some vp \<Rightarrow>
             let fs2 = (if m_mount_path (vmnts fs1 ! m) = ''/home''
                        then vprint ''file deleted: %llu'' [AInt (int (v_inode_nr (vnodes fs1 vp)))] fs1 else fs1)
             in Some (lk_path lr, put_vnode e vp (unlock_vnode e vp fs2))))"

definition unlink_remove_lab9 :: "'w vfs_env \<Rightarrow> bool \<Rightarrow> nat \<Rightarrow> nat option \<Rightarrow> string \<Rightarrow> 'w vfs \<Rightarrow> (ret \<times> 'w vfs) option" where
  "unlink_remove_lab9 e is_unlink dirp vmp path fs =
     (case vmp of None \<Rightarrow> None
      | Some m \<Rightarrow>
          (case unlink_report_lab9 e dirp m path (upgrade_vmnt_lock e m fs) of None \<Rightarrow> None
           | Some (path1, fs1) \<Rightarrow>
               (case unlink_request e is_unlink dirp path1 fs1 of (r, fs2) \<Rightarrow> return_node e dirp vmp r fs2)))"

definition do_unlink_lab9 :: "'w vfs_env \<Rightarrow> bool \<Rightarrow> 'w vfs \<Rightarrow> (ret \<times> 'w vfs) option" where
  "do_unlink_lab9 e is_unlink fs =
     (case copy_path e fs of (r0, path, fs1) \<Rightarrow>
      if r0 \<noteq> OK then Some (verr fs1, fs1)
      else case last_dir e \<lparr>l_path = path, l_flags = {PATH_RET_SYMLINK}, l_vmnt_lock = VMNT_WRITE, l_vnode_lock = VNODE_WRITE\<rparr> (fp e) fs1
        of (lr, fs2) \<Rightarrow>
          (case lk_found lr of None \<Rightarrow> Some (verr fs2, fs2)
           | Some dirp \<Rightarrow>
               unlink_checks e dirp (lk_vmnt lr) (lk_path lr) (\<lambda>path1. unlink_remove_lab9 e is_unlink dirp (lk_vmnt lr) path1) fs2))"

text \<open>
  The last part of rename: both directories are there. \<open>new_l\<close> is \<^verbatim>\<open>new_dirp_l\<close>, the pointer that
  is \<^verbatim>\<open>NULL\<close> when the new directory was locked already.
\<close>

definition rename_dirs :: "'w vfs_env \<Rightarrow> nat \<Rightarrow> nat option \<Rightarrow> string \<Rightarrow> nat \<Rightarrow> nat option \<Rightarrow> nat option \<Rightarrow> string \<Rightarrow>
    'w vfs \<Rightarrow> (ret \<times> 'w vfs) option" where
  "rename_dirs e old oldvmp old_name new new_l newvmp path fs =
     (if new = old \<and> new_l \<noteq> None then None
      else case oldvmp of None \<Rightarrow> None
      | Some om \<Rightarrow>
          let r0 = (if v_fs_e (vnodes fs old) \<noteq> v_fs_e (vnodes fs new) then Err EXDEV else OK);
              (ra, fs1) = forbidden e (fp e) old (W_BIT OR X_BIT) fs;
              (rb, fs2) = (if ra \<noteq> OK then (ra, fs1) else forbidden e (fp e) new (W_BIT OR X_BIT) fs1);
              r1 = (if rb \<noteq> OK then rb else r0);
              (r2, fs3) = (if r1 = OK then
                             let fsu = upgrade_vmnt_lock e om fs2
                             in req e (v_fs_e (vnodes fsu old))
                                  (Req_rename (v_inode_nr (vnodes fsu old)) old_name (v_inode_nr (vnodes fsu new)) path) fsu
                           else (r1, fs2));
              fs4 = unlock_vmnt e om (unlock_vnode e old fs3);
              fs5 = (case new_l of None \<Rightarrow> fs4 | Some n \<Rightarrow> unlock_vnode e n fs4);
              fs6 = (case newvmp of None \<Rightarrow> fs5 | Some nm \<Rightarrow> unlock_vmnt e nm fs5)
          in Some (r2, put_vnode e new (put_vnode e old fs6)))"

definition rename_new :: "'w vfs_env \<Rightarrow> link_msg \<Rightarrow> nat \<Rightarrow> nat option \<Rightarrow> string \<Rightarrow> 'w vfs \<Rightarrow> (ret \<times> 'w vfs) option" where
  "rename_new e m old oldvmp old_name fs =
     (case fetch_name e (name2 m) (len2 m) fs of (r0, path, fs1) \<Rightarrow>
      if r0 \<noteq> OK then second_failed e old oldvmp fs1
      else case last_dir e \<lparr>l_path = path, l_flags = {PATH_RET_SYMLINK}, l_vmnt_lock = VMNT_READ, l_vnode_lock = VNODE_WRITE\<rparr> (fp e) fs1
        of (lr, fs2) \<Rightarrow>
          (case lk_found lr of None \<Rightarrow> second_failed e old oldvmp fs2
           | Some new \<Rightarrow> rename_dirs e old oldvmp old_name new (lk_vnode lr) (lk_vmnt lr) (lk_path lr) fs2))"

definition rename_old :: "'w vfs_env \<Rightarrow> link_msg \<Rightarrow> nat \<Rightarrow> nat option \<Rightarrow> string \<Rightarrow> 'w vfs \<Rightarrow> (ret \<times> 'w vfs) option" where
  "rename_old e m old oldvmp path fs =
     (case sticky_check e old path fs of None \<Rightarrow> None
      | Some (r, path1, fs1) \<Rightarrow>
          if r \<noteq> OK then return_node e old oldvmp r fs1
          else if PATH_MAX e \<le> length path1 then return_node e old oldvmp (Err ENAMETOOLONG) fs1
          else rename_new e m old oldvmp path1 fs1)"

definition do_rename :: "'w vfs_env \<Rightarrow> link_msg \<Rightarrow> 'w vfs \<Rightarrow> (ret \<times> 'w vfs) option" where
  "do_rename e m fs =
     (case fetch_name e (name1 m) (len1 m) fs of (r0, path, fs1) \<Rightarrow>
      if r0 \<noteq> OK then Some (verr fs1, fs1)
      else case last_dir e \<lparr>l_path = path, l_flags = {PATH_RET_SYMLINK}, l_vmnt_lock = VMNT_WRITE, l_vnode_lock = VNODE_WRITE\<rparr> (fp e) fs1
        of (lr, fs2) \<Rightarrow>
          (case lk_found lr of None \<Rightarrow> Some (verr fs2, fs2)
           | Some old \<Rightarrow> rename_old e m old (lk_vmnt lr) (lk_path lr) fs2))"

definition truncate_vnode :: "'w vfs_env \<Rightarrow> nat \<Rightarrow> int \<Rightarrow> 'w vfs \<Rightarrow> (ret \<times> 'w vfs) option" where
  "truncate_vnode e vp newsize fs =
     (if \<not> vnode_locked_by_me e vp fs then None
      else if \<not> S_ISFIFO (v_mode (vnodes fs vp))
              \<and> \<not> (S_ISREG (v_mode (vnodes fs vp)) \<or> v_mode (vnodes fs vp) AND I_TYPE = 0x9000) then Some (Err EINVAL, fs)
      else case req e (v_fs_e (vnodes fs vp)) (Req_ftrunc (v_inode_nr (vnodes fs vp)) newsize 0) fs of (r, fs1) \<Rightarrow>
        Some (r, if r = OK then upd_vnode vp (v_size_update (\<lambda>_. newsize)) fs1 else fs1))"

definition truncate_node :: "'w vfs_env \<Rightarrow> int \<Rightarrow> nat \<Rightarrow> nat option \<Rightarrow> 'w vfs \<Rightarrow> (ret \<times> 'w vfs) option" where
  "truncate_node e len vp vmp fs =
     (case forbidden e (fp e) vp W_BIT fs of (r, fs1) \<Rightarrow>
      case (if r = OK then
              if S_ISREG (v_mode (vnodes fs1 vp)) \<and> v_size (vnodes fs1 vp) = len then Some (OK, fs1)
              else truncate_vnode e vp len fs1
            else Some (r, fs1))
      of None \<Rightarrow> None | Some (r1, fs2) \<Rightarrow> return_node e vp vmp r1 fs2)"

definition do_truncate :: "'w vfs_env \<Rightarrow> trunc_msg \<Rightarrow> 'w vfs \<Rightarrow> (ret \<times> 'w vfs) option" where
  "do_truncate e m fs =
     (if t_offset m < 0 then Some (Err EINVAL, fs)
      else case fetch_name e (t_name m) (t_len m) fs of (r0, path, fs1) \<Rightarrow>
      if r0 \<noteq> OK then Some (verr fs1, fs1)
      else case eat_path e \<lparr>l_path = path, l_flags = {}, l_vmnt_lock = VMNT_READ, l_vnode_lock = VNODE_WRITE\<rparr> (fp e) fs1
        of (lr, fs2) \<Rightarrow>
          (case lk_found lr of None \<Rightarrow> Some (verr fs2, fs2)
           | Some vp \<Rightarrow> truncate_node e (t_offset m) vp (lk_vmnt lr) fs2))"

definition do_ftruncate :: "'w vfs_env \<Rightarrow> trunc_msg \<Rightarrow> 'w vfs \<Rightarrow> (ret \<times> 'w vfs) option" where
  "do_ftruncate e m fs =
     (let fs0 = upd_scratch (fp e) (fd_nr_update (\<lambda>_. t_fd m)) fs in
      if t_offset m < 0 then Some (Err EINVAL, fs0)
      else case get_filp e (fd_nr (scratch fs0 (fp e))) VNODE_WRITE fs0 of (fo, fs1) \<Rightarrow>
        (case fo of None \<Rightarrow> Some (verr fs1, fs1)
         | Some f \<Rightarrow>
             (case vno f fs1 of None \<Rightarrow> None
              | Some vp \<Rightarrow>
                  (case (if filp_mode (filps fs1 f) AND W_BIT = 0 then Some (Err EBADF, fs1)
                         else if S_ISREG (v_mode (vnodes fs1 vp)) \<and> v_size (vnodes fs1 vp) = t_offset m then Some (OK, fs1)
                         else truncate_vnode e vp (t_offset m) fs1)
                   of None \<Rightarrow> None | Some (r, fs2) \<Rightarrow> Some (r, unlock_filp e f fs2)))))"

definition slink_node :: "'w vfs_env \<Rightarrow> link_msg \<Rightarrow> nat \<Rightarrow> nat option \<Rightarrow> string \<Rightarrow> 'w vfs \<Rightarrow> (ret \<times> 'w vfs) option" where
  "slink_node e m vp vmp path fs =
     (case forbidden e (fp e) vp (W_BIT OR X_BIT) fs of (r, fs1) \<Rightarrow>
      case (if r = OK then req e (v_fs_e (vnodes fs1 vp))
              (Req_slink (v_inode_nr (vnodes fs1 vp)) path (who_e e) (name1 m) (len1 m - 1)
                 (fp_effuid (fprocs fs1 (fp e))) (fp_effgid (fprocs fs1 (fp e)))) fs1
            else (r, fs1))
      of (r1, fs2) \<Rightarrow> return_node e vp vmp r1 fs2)"

definition do_slink :: "'w vfs_env \<Rightarrow> link_msg \<Rightarrow> 'w vfs \<Rightarrow> (ret \<times> 'w vfs) option" where
  "do_slink e m fs =
     (if len1 m \<le> 1 then Some (Err ENOENT, fs)
      else if POSIX_SYMLINK_MAX e \<le> len1 m then Some (Err ENAMETOOLONG, fs)
      else case fetch_name e (name2 m) (len2 m) fs of (r0, path, fs1) \<Rightarrow>
      if r0 \<noteq> OK then Some (verr fs1, fs1)
      else case last_dir e \<lparr>l_path = path, l_flags = {}, l_vmnt_lock = VMNT_WRITE, l_vnode_lock = VNODE_WRITE\<rparr> (fp e) fs1
        of (lr, fs2) \<Rightarrow>
          (case lk_found lr of None \<Rightarrow> Some (verr fs2, fs2)
           | Some vp \<Rightarrow> slink_node e m vp (lk_vmnt lr) (lk_path lr) fs2))"

text \<open>The second component of the result is the contents of \<^verbatim>\<open>link_path\<close>.\<close>

definition rdlink_direct :: "'w vfs_env \<Rightarrow> string \<Rightarrow> nat \<Rightarrow> 'w vfs \<Rightarrow> (ret \<times> string \<times> 'w vfs) option" where
  "rdlink_direct e orig_path rfp fs =
     (case eat_path e \<lparr>l_path = take (PATH_MAX e - 1) orig_path, l_flags = {PATH_RET_SYMLINK}, l_vmnt_lock = VMNT_READ,
        l_vnode_lock = VNODE_READ\<rparr> rfp fs
      of (lr, fs1) \<Rightarrow>
        (case lk_found lr of None \<Rightarrow> Some (verr fs1, lk_path lr, fs1)
         | Some vp \<Rightarrow>
             let (r, path, fs2) =
               (if \<not> S_ISLNK (v_mode (vnodes fs1 vp)) then (Err EINVAL, lk_path lr, fs1)
                else case fs_req e (v_fs_e (vnodes fs1 vp))
                    (Req_rdlink (v_inode_nr (vnodes fs1 vp)) (NONE_E e) 0 (PATH_MAX e - 1) True) fs1
                  of (rep, fs2) \<Rightarrow>
                    (rp_ret rep, case rp_ret rep of Ret n \<Rightarrow> if 0 < n then take (nat n) (rp_link rep) else lk_path lr | Err _ \<Rightarrow> lk_path lr, fs2))
             in case release_node e vp (lk_vmnt lr) fs2 of None \<Rightarrow> None | Some fs3 \<Rightarrow> Some (r, path, fs3)))"

definition rdlink_node :: "'w vfs_env \<Rightarrow> rdlink_msg \<Rightarrow> nat \<Rightarrow> nat option \<Rightarrow> 'w vfs \<Rightarrow> (ret \<times> 'w vfs) option" where
  "rdlink_node e m vp vmp fs =
     (case (if \<not> S_ISLNK (v_mode (vnodes fs vp)) then (Err EINVAL, fs)
            else req e (v_fs_e (vnodes fs vp))
                   (Req_rdlink (v_inode_nr (vnodes fs vp)) (who_e e) (rl_buf m) (rl_bufsize m) False) fs)
      of (r, fs1) \<Rightarrow> return_node e vp vmp r fs1)"

definition do_rdlink :: "'w vfs_env \<Rightarrow> rdlink_msg \<Rightarrow> 'w vfs \<Rightarrow> (ret \<times> 'w vfs) option" where
  "do_rdlink e m fs =
     (if SSIZE_MAX e < rl_bufsize m then Some (Err EINVAL, fs)
      else case fetch_name e (rl_name m) (rl_namelen m) fs of (r0, path, fs1) \<Rightarrow>
      if r0 \<noteq> OK then Some (verr fs1, fs1)
      else case eat_path e \<lparr>l_path = path, l_flags = {PATH_RET_SYMLINK}, l_vmnt_lock = VMNT_READ, l_vnode_lock = VNODE_READ\<rparr> (fp e) fs1
        of (lr, fs2) \<Rightarrow>
          (case lk_found lr of None \<Rightarrow> Some (verr fs2, fs2)
           | Some vp \<Rightarrow> rdlink_node e m vp (lk_vmnt lr) fs2))"

section \<open>Locks and references\<close>

text \<open>
  Relative to \<open>fs0\<close> the thread holds the vnode \<open>v\<close>, locked, and the lock of mount point \<open>m\<close>; \<open>off\<close>
  is what it has released too often.
\<close>

definition node_held :: "('w \<Rightarrow> resource \<Rightarrow> int) \<Rightarrow> (resource \<Rightarrow> int) \<Rightarrow> 'w vfs \<Rightarrow> 'w vfs \<Rightarrow> nat \<Rightarrow> nat \<Rightarrow> bool" where
  "node_held bal off fs0 fs v m \<longleftrightarrow> (\<forall>y. bal (vworld fs) y
     = bal (vworld fs0) y - off y + unit_of (VRef v) y + unit_of (VLock v) y + unit_of (MLock m) y)"

definition releases :: "('w \<Rightarrow> resource \<Rightarrow> int) \<Rightarrow> (resource \<Rightarrow> int) \<Rightarrow> 'w vfs \<Rightarrow> (ret \<times> 'w vfs) option \<Rightarrow> bool" where
  "releases bal off fs0 res \<longleftrightarrow> (\<exists>r fs'. res = Some (r, fs') \<and> (\<forall>y. bal (vworld fs') y = bal (vworld fs0) y - off y))"

lemma releases_Some: "bal (vworld fs') = bal (vworld fs0) \<Longrightarrow> releases bal (\<lambda>_. 0) fs0 (Some (r, fs'))"
  by (simp add: releases_def)

lemma node_held_quiet: "node_held bal off fs0 fs v m \<Longrightarrow> quiet bal fs fs' \<Longrightarrow> node_held bal off fs0 fs' v m"
  by (simp add: node_held_def quiet_def)

lemma idle_quiet: "idle bal fs \<Longrightarrow> quiet bal fs fs' \<Longrightarrow> idle bal fs'"
  by (simp add: idle_def quiet_def)

lemma first_lookup:
  assumes "lookup_law bal fs lr fs'" and "idle bal fs" and "lk_found lr = Some v" and "bal (vworld fs) = bal (vworld fs0)"
  obtains m where "lk_vmnt lr = Some m" and "lk_vnode lr = Some v" and "node_held bal (\<lambda>_. 0) fs0 fs' v m"
  using assms by (auto simp: lookup_law_def idle_def node_held_def gained_def)

lemma node_held_locked: "node_held bal (\<lambda>_. 0) fs0 fs v m \<Longrightarrow> idle bal fs0 \<Longrightarrow> 0 < bal (vworld fs) (VLock v) \<and> 0 < bal (vworld fs) (MLock m)"
  by (simp add: node_held_def idle_def)

lemma return_node_releases:
  assumes "lock_laws e bal" and "node_held bal off fs0 fs v m"
  shows "releases bal off fs0 (return_node e v (Some m) r fs)"
  using assms(2) by (simp add: releases_def return_node_def release_node_def node_held_def lock_lawsD [OF assms(1)])

lemma req_quiet: "path_laws e bal \<Longrightarrow> req e ep rq fs = (r, fs') \<Longrightarrow> quiet bal fs fs'"
  by (auto simp: req_def dest: fs_req_quiet split: prod.splits)

lemma second_failed_releases:
  assumes "lock_laws e bal" and "node_held bal off fs0 fs v m" and "verr fs \<noteq> OK"
  shows "releases bal off fs0 (second_failed e v (Some m) fs)"
  using assms by (simp add: second_failed_def return_node_releases)

text \<open>A lookup from a directory can find that directory itself.\<close>

definition finds_itself :: "'w vfs_env \<Rightarrow> nat \<Rightarrow> bool" where
  "finds_itself e d \<longleftrightarrow> (\<exists>lk fs. lk_found (fst (advance e d lk (fp e) fs)) = Some d)"

lemma sticky_check_held:
  assumes laws: "path_laws e bal" "lock_laws e bal" and held: "node_held bal (\<lambda>_. 0) fs0 fs d m" and id0: "idle bal fs0"
  obtains r path1 fs1 off where "sticky_check e d path fs = Some (r, path1, fs1)" and "node_held bal off fs0 fs1 d m"
    and "off = (\<lambda>_. 0) \<or> off = unit_of (VLock d) \<and> finds_itself e d"
proof (cases "v_mode (vnodes fs d) AND I_SET_STCKY_BIT = I_SET_STCKY_BIT")
  case False
  then show ?thesis using that held by (simp add: sticky_check_def)
next
  case True
  let ?lk = "\<lparr>l_path = path, l_flags = {PATH_RET_SYMLINK}, l_vmnt_lock = VMNT_READ, l_vnode_lock = VNODE_READ\<rparr>"
  obtain lr fs1 where adv: "advance e d ?lk (fp e) fs = (lr, fs1)" by (metis surj_pair)
  note law = advance_law [OF laws(1) adv]
  have locked: "0 < bal (vworld fs) (VLock d)" "0 < bal (vworld fs) (MLock m)" using node_held_locked [OF held id0] by simp_all
  have vm: "lk_vmnt lr = None" using advance_mount [OF laws(1) adv locked(2)] .
  show ?thesis
  proof (cases "lk_found lr")
    case None
    then have "lk_vnode lr = None" using law by (simp add: lookup_law_def)
    then have "node_held bal (\<lambda>_. 0) fs0 fs1 d m" using law held None vm by (simp add: lookup_law_def node_held_def gained_def)
    then show ?thesis using that True adv vm None by (simp add: sticky_check_def)
  next
    case (Some v)
    let ?fs = "put_vnode e v (unlock_vnode e v fs1)"
    have res: "\<exists>r. sticky_check e d path fs = Some (r, lk_path lr, ?fs)"
      using True adv vm Some by (simp add: sticky_check_def)
    have vl: "lk_vnode lr = (if 0 < bal (vworld fs) (VLock v) then None else Some v)"
      using law Some by (simp add: lookup_law_def)
    show ?thesis
    proof (cases "v = d")
      case True
      have "lk_vnode lr = None" using vl locked(1) True by simp
      then have "node_held bal (unit_of (VLock d)) fs0 ?fs d m"
        using law held Some vm True by (simp add: lookup_law_def node_held_def gained_def lock_lawsD [OF laws(2)])
      moreover have "finds_itself e d" unfolding finds_itself_def using adv Some True by (metis fst_conv)
      ultimately show ?thesis using that res by blast
    next
      case False
      then have "lk_vnode lr = Some v" using vl held id0 by (simp add: node_held_def idle_def)
      then have "node_held bal (\<lambda>_. 0) fs0 ?fs d m"
        using law held Some vm by (simp add: lookup_law_def node_held_def gained_def lock_lawsD [OF laws(2)])
      then show ?thesis using that res by blast
    qed
  qed
qed

text \<open>The result of a call that looked up a directory \<open>d\<close> first and may have met a sticky one.\<close>

definition releases_but_self :: "'w vfs_env \<Rightarrow> ('w \<Rightarrow> resource \<Rightarrow> int) \<Rightarrow> 'w vfs \<Rightarrow> (ret \<times> 'w vfs) option \<Rightarrow> bool" where
  "releases_but_self e bal fs0 res \<longleftrightarrow>
     releases bal (\<lambda>_. 0) fs0 res \<or> (\<exists>d. releases bal (unit_of (VLock d)) fs0 res \<and> finds_itself e d)"

lemma releases_but_selfI: "releases bal off fs0 res \<Longrightarrow> off = (\<lambda>_. 0) \<or> off = unit_of (VLock d) \<and> finds_itself e d
    \<Longrightarrow> releases_but_self e bal fs0 res"
  by (auto simp: releases_but_self_def)

lemma unlink_remove_releases:
  assumes laws: "path_laws e bal" "lock_laws e bal" and held: "node_held bal off fs0 fs d m"
  shows "releases bal off fs0 (unlink_remove e u d (Some m) path fs)"
proof -
  obtain r fs1 where rq: "unlink_request e u d path (upgrade_vmnt_lock e m fs) = (r, fs1)" by (metis surj_pair)
  have "quiet bal (upgrade_vmnt_lock e m fs) fs1"
    using rq by (auto simp: unlink_request_def dest: req_quiet [OF laws(1)] split: if_splits)
  then have "node_held bal off fs0 fs1 d m"
    using held upgrade_vmnt_quiet [OF laws(2)] node_held_quiet by blast
  then show ?thesis using rq by (simp add: unlink_remove_def return_node_releases [OF laws(2)])
qed

lemma unlink_checks_releases:
  assumes laws: "path_laws e bal" "lock_laws e bal" and held: "node_held bal (\<lambda>_. 0) fs0 fs d m" and id0: "idle bal fs0"
    and remove: "\<And>path1 fs1 off. node_held bal off fs0 fs1 d m \<Longrightarrow> releases bal off fs0 (remove path1 fs1)"
  shows "releases_but_self e bal fs0 (unlink_checks e d (Some m) path remove fs)"
proof -
  note ret = return_node_releases [OF laws(2)]
  obtain r fs1 where fb: "forbidden e (fp e) d (X_BIT OR W_BIT) fs = (r, fs1)" by (metis surj_pair)
  have held1: "node_held bal (\<lambda>_. 0) fs0 fs1 d m" using node_held_quiet [OF held forbidden_quiet [OF laws(1) fb]] .
  obtain r1 path1 fs2 off where st: "sticky_check e d path fs1 = Some (r1, path1, fs2)" and h2: "node_held bal off fs0 fs2 d m"
    and off: "off = (\<lambda>_. 0) \<or> off = unit_of (VLock d) \<and> finds_itself e d"
    by (rule sticky_check_held [OF laws held1 id0])
  consider "\<not> S_ISDIR (v_mode (vnodes fs d))" | "S_ISDIR (v_mode (vnodes fs d))" "r \<noteq> OK"
    | "S_ISDIR (v_mode (vnodes fs d))" "r = OK" by blast
  then show ?thesis
  proof cases
    case 1
    then show ?thesis using ret [OF held] by (simp add: unlink_checks_def releases_but_self_def)
  next
    case 2
    then show ?thesis using ret [OF held1] fb by (simp add: unlink_checks_def releases_but_self_def)
  next
    case 3
    then have "releases bal off fs0 (unlink_checks e d (Some m) path remove fs)"
      using ret [OF h2] remove [OF h2] fb st by (simp add: unlink_checks_def)
    then show ?thesis using off by (rule releases_but_selfI)
  qed
qed

lemma do_unlink_releases:
  assumes laws: "path_laws e bal" "lock_laws e bal" and id0: "idle bal fs"
  shows "releases_but_self e bal fs (do_unlink e u fs)"
proof -
  obtain r0 path fs1 where cp: "copy_path e fs = (r0, path, fs1)" by (metis surj_pair)
  have q: "quiet bal fs fs1" using copy_path_quiet [OF laws(1) cp] .
  let ?lk = "\<lparr>l_path = path, l_flags = {PATH_RET_SYMLINK}, l_vmnt_lock = VMNT_WRITE, l_vnode_lock = VNODE_WRITE\<rparr>"
  obtain lr fs2 where ld: "last_dir e ?lk (fp e) fs1 = (lr, fs2)" by (metis surj_pair)
  note law = last_dir_law [OF laws(1) ld]
  show ?thesis
  proof (cases "r0 = OK \<and> lk_found lr \<noteq> None")
    case False
    then show ?thesis using cp ld q law
      by (auto simp: do_unlink_def releases_but_self_def quiet_def lookup_law_def gained_def fun_eq_iff intro!: releases_Some)
  next
    case True
    then obtain d where d: "lk_found lr = Some d" by auto
    obtain m where m: "lk_vmnt lr = Some m" "node_held bal (\<lambda>_. 0) fs fs2 d m"
      using first_lookup [OF law idle_quiet [OF id0 q] d quiet_bal [OF q]] by blast
    have "do_unlink e u fs = unlink_checks e d (Some m) (lk_path lr) (\<lambda>path1. unlink_remove e u d (Some m) path1) fs2"
      using True cp ld d m(1) by (simp add: do_unlink_def)
    then show ?thesis using unlink_checks_releases [OF laws m(2) id0] unlink_remove_releases [OF laws] by simp
  qed
qed

text \<open>The start of the other calls: a lookup that fails ends the call.\<close>

lemma lookup_call_releases:
  assumes "lookup_law bal fs1 lr fs2" and q: "bal (vworld fs1) = bal (vworld fs)" and id0: "idle bal fs"
    and "\<And>d m. lk_found lr = Some d \<Longrightarrow> lk_vmnt lr = Some m \<Longrightarrow> node_held bal (\<lambda>_. 0) fs fs2 d m \<Longrightarrow> releases bal (\<lambda>_. 0) fs (k d)"
  shows "releases bal (\<lambda>_. 0) fs (case lk_found lr of None \<Rightarrow> Some (verr fs2, fs2) | Some d \<Rightarrow> k d)"
proof (cases "lk_found lr")
  case None
  then have "bal (vworld fs2) = bal (vworld fs)" using assms(1) q by (auto simp: lookup_law_def gained_def fun_eq_iff)
  then show ?thesis using None by (simp add: releases_Some)
next
  case (Some d)
  have "idle bal fs1" using id0 q by (simp add: idle_def)
  then obtain m where "lk_vmnt lr = Some m" "node_held bal (\<lambda>_. 0) fs fs2 d m" by (rule first_lookup [OF assms(1) _ Some q])
  then show ?thesis using assms(4) Some by simp
qed

lemma slink_node_releases:
  assumes laws: "path_laws e bal" "lock_laws e bal" and held: "node_held bal (\<lambda>_. 0) fs0 fs vp m"
  shows "releases bal (\<lambda>_. 0) fs0 (slink_node e msg vp (Some m) path fs)"
proof -
  obtain r fs1 where fb: "forbidden e (fp e) vp (W_BIT OR X_BIT) fs = (r, fs1)" by (metis surj_pair)
  have h1: "node_held bal (\<lambda>_. 0) fs0 fs1 vp m" using node_held_quiet [OF held forbidden_quiet [OF laws(1) fb]] .
  show ?thesis using h1 fb
    by (auto simp: slink_node_def return_node_releases [OF laws(2)] split: prod.splits dest: req_quiet [OF laws(1)] node_held_quiet)
qed

lemma rdlink_node_releases:
  assumes laws: "path_laws e bal" "lock_laws e bal" and held: "node_held bal (\<lambda>_. 0) fs0 fs vp m"
  shows "releases bal (\<lambda>_. 0) fs0 (rdlink_node e msg vp (Some m) fs)"
  using held by (auto simp: rdlink_node_def return_node_releases [OF laws(2)] split: prod.splits if_splits
      dest: req_quiet [OF laws(1)] node_held_quiet)

lemma truncate_vnode_returns:
  assumes laws: "path_laws e bal" "lock_laws e bal" and "0 < bal (vworld fs) (VLock v)"
  obtains r fs' where "truncate_vnode e v n fs = Some (r, fs')" and "bal (vworld fs') = bal (vworld fs)"
    and "\<forall>f. 0 < bal (vworld fs) (FLock f) \<longrightarrow> filps fs' f = filps fs f"
proof -
  obtain r fs1 where rq: "req e (v_fs_e (vnodes fs v)) (Req_ftrunc (v_inode_nr (vnodes fs v)) n 0) fs = (r, fs1)" by (metis surj_pair)
  have q: "quiet bal fs fs1" by (rule req_quiet [OF laws(1) rq])
  show ?thesis
  proof (cases "\<not> S_ISFIFO (v_mode (vnodes fs v)) \<and> \<not> (S_ISREG (v_mode (vnodes fs v)) \<or> v_mode (vnodes fs v) AND I_TYPE = 0x9000)")
    case True
    then show ?thesis using that assms(3) by (simp add: truncate_vnode_def locked_by_me [OF laws(2)])
  next
    case False
    then have "truncate_vnode e v n fs = Some (r, if r = OK then upd_vnode v (v_size_update (\<lambda>_. n)) fs1 else fs1)"
      using rq assms(3) unfolding truncate_vnode_def if_not_P [OF False] by (simp add: locked_by_me [OF laws(2)])
    then show ?thesis using that q by (auto simp: quiet_def stable_def upd_vnode_def)
  qed
qed

lemma truncate_node_releases:
  assumes laws: "path_laws e bal" "lock_laws e bal" and held: "node_held bal (\<lambda>_. 0) fs0 fs vp m" and id0: "idle bal fs0"
  shows "releases bal (\<lambda>_. 0) fs0 (truncate_node e len vp (Some m) fs)"
proof -
  obtain r fs1 where fb: "forbidden e (fp e) vp W_BIT fs = (r, fs1)" by (metis surj_pair)
  have h1: "node_held bal (\<lambda>_. 0) fs0 fs1 vp m" using node_held_quiet [OF held forbidden_quiet [OF laws(1) fb]] .
  obtain rt fst where tr: "truncate_vnode e vp len fs1 = Some (rt, fst)" "bal (vworld fst) = bal (vworld fs1)"
    using truncate_vnode_returns [OF laws] node_held_locked [OF h1 id0] by blast
  have ht: "node_held bal (\<lambda>_. 0) fs0 fst vp m" using h1 tr(2) by (simp add: node_held_def)
  note ret = return_node_releases [OF laws(2) h1] return_node_releases [OF laws(2) ht]
  show ?thesis using ret fb tr by (cases "r = OK") (simp_all add: truncate_node_def)
qed

lemma do_slink_releases:
  assumes laws: "path_laws e bal" "lock_laws e bal" and id0: "idle bal fs"
  shows "releases bal (\<lambda>_. 0) fs (do_slink e m fs)"
  unfolding do_slink_def using slink_node_releases [OF laws] id0
  by (auto split: prod.splits intro!: lookup_call_releases releases_Some
      dest!: fetch_name_quiet [OF laws(1)] last_dir_law [OF laws(1)] quiet_bal)

lemma do_rdlink_releases:
  assumes laws: "path_laws e bal" "lock_laws e bal" and id0: "idle bal fs"
  shows "releases bal (\<lambda>_. 0) fs (do_rdlink e m fs)"
  unfolding do_rdlink_def using rdlink_node_releases [OF laws] id0
  by (auto split: prod.splits intro!: lookup_call_releases releases_Some
      dest!: fetch_name_quiet [OF laws(1)] eat_path_law [OF laws(1)] quiet_bal)

lemma do_truncate_releases:
  assumes laws: "path_laws e bal" "lock_laws e bal" and id0: "idle bal fs"
  shows "releases bal (\<lambda>_. 0) fs (do_truncate e m fs)"
  unfolding do_truncate_def using truncate_node_releases [OF laws] id0
  by (auto split: prod.splits intro!: lookup_call_releases releases_Some
      dest!: fetch_name_quiet [OF laws(1)] eat_path_law [OF laws(1)] quiet_bal)

lemma do_ftruncate_releases:
  assumes laws: "path_laws e bal" "lock_laws e bal" "filp_laws e bal" and id0: "idle bal fs"
  shows "releases bal (\<lambda>_. 0) fs (do_ftruncate e m fs)"
proof -
  define fs0 where "fs0 = upd_scratch (fp e) (fd_nr_update (\<lambda>_. t_fd m)) fs"
  have b0: "bal (vworld fs0) = bal (vworld fs)" by (simp add: fs0_def)
  obtain fo fs1 where gf: "get_filp e (fd_nr (scratch fs0 (fp e))) VNODE_WRITE fs0 = (fo, fs1)" by (metis surj_pair)
  have got: "got_filp bal fs0 (fo, fs1)" using laws(3) gf unfolding filp_laws_def by metis
  show ?thesis
  proof (cases "t_offset m < 0 \<or> fo = None")
    case True
    then show ?thesis using got b0 gf unfolding do_ftruncate_def fs0_def [symmetric] Let_def
      by (auto simp: got_filp_def intro!: releases_Some)
  next
    case False
    then obtain f where f: "fo = Some f" by auto
    obtain v where v: "vno f fs1 = Some v" "0 < filp_count (filps fs1 f)"
      and b1: "\<And>y. bal (vworld fs1) y = bal (vworld fs) y + unit_of (FLock f) y + unit_of (VLock v) y"
      using got f b0 by (auto simp: got_filp_def)
    have lk: "0 < bal (vworld fs1) (VLock v)" "0 < bal (vworld fs1) (FLock f)" using b1 id0 by (simp_all add: idle_def)
    obtain rt fst where tr: "truncate_vnode e v (t_offset m) fs1 = Some (rt, fst)" "bal (vworld fst) = bal (vworld fs1)"
      "filps fst f = filps fs1 f" using truncate_vnode_returns [OF laws(1,2) lk(1)] lk(2) by metis
    have un: "releases bal (\<lambda>_. 0) fs (Some (r, unlock_filp e f fs2))"
      if "bal (vworld fs2) = bal (vworld fs1)" "filps fs2 f = filps fs1 f" for r fs2
    proof -
      have "bal (vworld (unlock_filp e f fs2)) y = bal (vworld fs2) y - unit_of (FLock f) y - unit_of (VLock v) y" for y
        using laws(3) that(2) v unfolding filp_laws_def by metis
      then show ?thesis using that(1) b1 by (simp add: releases_def)
    qed
    show ?thesis using False gf f v(1) un [OF refl refl] un [OF tr(2,3)] tr(1)
      unfolding do_ftruncate_def fs0_def [symmetric] Let_def by simp
  qed
qed

text \<open>What is held after a second lookup that found \<open>d\<close> while \<open>v\<close> and the mount point \<open>m\<close> were locked.\<close>

lemma second_lookup:
  assumes "lookup_law bal fs lr fs'" and "node_held bal (\<lambda>_. 0) fs0 fs v m" and "idle bal fs0" and "lk_found lr = Some d"
  shows "lk_vnode lr = (if d = v then None else Some d)"
    and "bal (vworld fs') y = bal (vworld fs0) y + unit_of (VRef v) y + unit_of (VLock v) y + unit_of (MLock m) y
      + unit_of (VRef d) y + (if d = v then 0 else unit_of (VLock d) y)
      + (case lk_vmnt lr of None \<Rightarrow> 0 | Some m2 \<Rightarrow> unit_of (MLock m2) y)"
proof -
  have b: "bal (vworld fs) (VLock d) = unit_of (VLock v) (VLock d)" using assms(2,3) by (simp add: node_held_def idle_def)
  then have "0 < bal (vworld fs) (VLock d) \<longleftrightarrow> d = v" by (simp add: unit_of_def)
  then show l: "lk_vnode lr = (if d = v then None else Some d)" using assms(1,4) by (simp add: lookup_law_def)
  have "bal (vworld fs') y = bal (vworld fs) y + gained lr y" using assms(1) by (simp add: lookup_law_def)
  moreover have "bal (vworld fs) y = bal (vworld fs0) y + unit_of (VRef v) y + unit_of (VLock v) y + unit_of (MLock m) y"
    using assms(2) by (simp add: node_held_def)
  ultimately show "bal (vworld fs') y = bal (vworld fs0) y + unit_of (VRef v) y + unit_of (VLock v) y + unit_of (MLock m) y
      + unit_of (VRef d) y + (if d = v then 0 else unit_of (VLock d) y)
      + (case lk_vmnt lr of None \<Rightarrow> 0 | Some m2 \<Rightarrow> unit_of (MLock m2) y)"
    using assms(4) l by (simp add: gained_def)
qed

lemma link_dirs_releases:
  assumes laws: "path_laws e bal" "lock_laws e bal"
    and law: "lookup_law bal fs1 lr fs2" and held: "node_held bal (\<lambda>_. 0) fs0 fs1 v m" and id0: "idle bal fs0" and d: "lk_found lr = Some d"
  shows "releases bal (if v = d then unit_of (VLock d) else (\<lambda>_. 0)) fs0 (link_dirs e v (Some m) d (lk_vmnt lr) path fs2)"
proof -
  obtain r1 fs3 where s1: "(if v_fs_e (vnodes fs2 v) \<noteq> v_fs_e (vnodes fs2 d) then (Err EXDEV, fs2)
      else forbidden e (fp e) d (W_BIT OR X_BIT) fs2) = (r1, fs3)" by (metis surj_pair)
  have b3: "bal (vworld fs3) = bal (vworld fs2)"
    using s1 quiet_bal [OF forbidden_quiet [OF laws(1)]] by (auto split: if_splits)
  obtain r2 fs4 where s2: "(if r1 = OK then req e (v_fs_e (vnodes fs3 v)) (Req_link (v_inode_nr (vnodes fs3 d)) path (v_inode_nr (vnodes fs3 v))) fs3
      else (r1, fs3)) = (r2, fs4)" by (metis surj_pair)
  have b4: "bal (vworld fs4) = bal (vworld fs2)"
    using s2 b3 quiet_bal [OF req_quiet [OF laws(1)]] by (auto split: if_splits)
  show ?thesis unfolding releases_def link_dirs_def s1 Let_def prod.case s2
    using second_lookup(2) [OF law held id0 d] b4 by (auto simp: lock_lawsD [OF laws(2)] split: option.splits)
qed

lemma rename_dirs_releases:
  assumes laws: "path_laws e bal" "lock_laws e bal"
    and law: "lookup_law bal fs1 lr fs2" and held: "node_held bal (\<lambda>_. 0) fs0 fs1 v m" and id0: "idle bal fs0" and d: "lk_found lr = Some d"
  shows "releases bal (\<lambda>_. 0) fs0 (rename_dirs e v (Some m) old_name d (lk_vnode lr) (lk_vmnt lr) path fs2)"
proof -
  obtain ra fs3 where s1: "forbidden e (fp e) v (W_BIT OR X_BIT) fs2 = (ra, fs3)" by (metis surj_pair)
  obtain rb fs4 where s2: "(if ra \<noteq> OK then (ra, fs3) else forbidden e (fp e) d (W_BIT OR X_BIT) fs3) = (rb, fs4)" by (metis surj_pair)
  note q = quiet_bal [OF forbidden_quiet [OF laws(1)]]
  have b4: "bal (vworld fs4) = bal (vworld fs2)" using s2 q [OF s1] q by (auto split: if_splits)
  define r1 where "r1 = (if rb \<noteq> OK then rb else if v_fs_e (vnodes fs2 v) \<noteq> v_fs_e (vnodes fs2 d) then Err EXDEV else OK)"
  obtain r2 fs5 where s3: "(if r1 = OK then let fsu = upgrade_vmnt_lock e m fs4 in req e (v_fs_e (vnodes fsu v))
      (Req_rename (v_inode_nr (vnodes fsu v)) old_name (v_inode_nr (vnodes fsu d)) path) fsu else (r1, fs4)) = (r2, fs5)" by (metis surj_pair)
  have b5: "bal (vworld fs5) = bal (vworld fs2)"
    using s3 b4 quiet_bal [OF req_quiet [OF laws(1)]] quiet_bal [OF upgrade_vmnt_quiet [OF laws(2)]] by (auto simp: Let_def split: if_splits)
  have nl: "\<not> (d = v \<and> lk_vnode lr \<noteq> None)" using second_lookup(1) [OF law held id0 d] by simp
  show ?thesis
    unfolding releases_def rename_dirs_def if_not_P [OF nl] option.case s1 Let_def [of "(ra, fs3)"] prod.case s2 Let_def [of "(rb, fs4)"]
      Let_def [of "(if v_fs_e (vnodes fs2 v) \<noteq> v_fs_e (vnodes fs2 d) then Err EXDEV else OK)"] r1_def [symmetric] Let_def [of r1] s3
    using second_lookup [OF law held id0 d] b5 by (auto simp: lock_lawsD [OF laws(2)] Let_def split: option.splits)
qed

text \<open>The vnodes that the two lookups of \<^verbatim>\<open>do_link\<close> find.\<close>

definition link_ends :: "'w vfs_env \<Rightarrow> link_msg \<Rightarrow> 'w vfs \<Rightarrow> (nat \<times> nat) option" where
  "link_ends e m fs =
     (case fetch_name e (name1 m) (len1 m) fs of (r0, path, fs1) \<Rightarrow>
      case eat_path e \<lparr>l_path = path, l_flags = {}, l_vmnt_lock = VMNT_WRITE, l_vnode_lock = VNODE_READ\<rparr> (fp e) fs1 of (lr, fs2) \<Rightarrow>
      case fetch_name e (name2 m) (len2 m) fs2 of (r1, path1, fs3) \<Rightarrow>
      case last_dir e \<lparr>l_path = path1, l_flags = {}, l_vmnt_lock = VMNT_READ, l_vnode_lock = VNODE_WRITE\<rparr> (fp e) fs3 of (lr1, fs4) \<Rightarrow>
        if r0 = OK \<and> r1 = OK then (case lk_found lr of None \<Rightarrow> None | Some v \<Rightarrow> map_option (Pair v) (lk_found lr1)) else None)"

definition link_extra :: "'w vfs_env \<Rightarrow> link_msg \<Rightarrow> 'w vfs \<Rightarrow> resource \<Rightarrow> int" where
  "link_extra e m fs = (case link_ends e m fs of None \<Rightarrow> (\<lambda>_. 0) | Some (v, d) \<Rightarrow> if v = d then unit_of (VLock d) else (\<lambda>_. 0))"

lemma do_link_bal:
  assumes laws: "path_laws e bal" "lock_laws e bal" and id0: "idle bal fs"
  shows "releases bal (link_extra e m fs) fs (do_link e m fs)"
proof -
  obtain r0 path fs1 where f1: "fetch_name e (name1 m) (len1 m) fs = (r0, path, fs1)" by (metis surj_pair)
  note q1 = fetch_name_quiet [OF laws(1) f1]
  obtain lr fs2 where l1: "eat_path e \<lparr>l_path = path, l_flags = {}, l_vmnt_lock = VMNT_WRITE, l_vnode_lock = VNODE_READ\<rparr> (fp e) fs1 = (lr, fs2)"
    by (metis surj_pair)
  obtain r1 path1 fs3 where f2: "fetch_name e (name2 m) (len2 m) fs2 = (r1, path1, fs3)" by (metis surj_pair)
  obtain lr1 fs4 where l2: "last_dir e \<lparr>l_path = path1, l_flags = {}, l_vmnt_lock = VMNT_READ, l_vnode_lock = VNODE_WRITE\<rparr> (fp e) fs3 = (lr1, fs4)"
    by (metis surj_pair)
  note law1 = eat_path_law [OF laws(1) l1] and law2 = last_dir_law [OF laws(1) l2] and q2 = fetch_name_quiet [OF laws(1) f2]
  show ?thesis
  proof (cases "r0 = OK \<and> lk_found lr \<noteq> None")
    case False
    then show ?thesis using f1 l1 f2 l2 quiet_bal [OF q1] law1
      by (auto simp: do_link_def link_extra_def link_ends_def lookup_law_def gained_def fun_eq_iff intro!: releases_Some)
  next
    case True
    then obtain v where v: "lk_found lr = Some v" by auto
    obtain mm where mm: "lk_vmnt lr = Some mm" "node_held bal (\<lambda>_. 0) fs fs2 v mm"
      using first_lookup [OF law1 idle_quiet [OF id0 q1] v quiet_bal [OF q1]] by blast
    have eq: "do_link e m fs = link_to e m v (Some mm) fs2" using True f1 l1 v mm by (simp add: do_link_def)
    have h3: "node_held bal (\<lambda>_. 0) fs fs3 v mm" using node_held_quiet [OF mm(2) q2] .
    show ?thesis
    proof (cases "r1 = OK \<and> lk_found lr1 \<noteq> None")
      case False
      have "node_held bal (\<lambda>_. 0) fs fs4 v mm" "verr fs4 \<noteq> OK" if "lk_found lr1 = None"
        using that law2 h3 by (simp_all add: lookup_law_def node_held_def gained_def)
      then show ?thesis using False f1 l1 f2 l2 v True eq fetch_name_err [OF laws(1) f2] second_failed_releases [OF laws(2) h3]
          second_failed_releases [OF laws(2)] by (auto simp: link_to_def link_extra_def link_ends_def)
    next
      case True2: True
      then obtain d where d: "lk_found lr1 = Some d" by auto
      show ?thesis using link_dirs_releases [OF laws law2 h3 id0 d] True True2 f1 l1 f2 l2 v d eq
        by (simp add: link_to_def link_extra_def link_ends_def)
    qed
  qed
qed

lemma rename_new_releases:
  assumes laws: "path_laws e bal" "lock_laws e bal" and held: "node_held bal (\<lambda>_. 0) fs0 fs v m" and id0: "idle bal fs0"
  shows "releases bal (\<lambda>_. 0) fs0 (rename_new e msg v (Some m) old_name fs)"
proof -
  obtain r1 path1 fs3 where f2: "fetch_name e (name2 msg) (len2 msg) fs = (r1, path1, fs3)" by (metis surj_pair)
  obtain lr1 fs4 where l2: "last_dir e \<lparr>l_path = path1, l_flags = {PATH_RET_SYMLINK}, l_vmnt_lock = VMNT_READ, l_vnode_lock = VNODE_WRITE\<rparr> (fp e) fs3 = (lr1, fs4)"
    by (metis surj_pair)
  note law2 = last_dir_law [OF laws(1) l2]
  have h3: "node_held bal (\<lambda>_. 0) fs0 fs3 v m" using node_held_quiet [OF held fetch_name_quiet [OF laws(1) f2]] .
  have none: "node_held bal (\<lambda>_. 0) fs0 fs4 v m" "verr fs4 \<noteq> OK" if "lk_found lr1 = None"
    using that law2 h3 by (simp_all add: lookup_law_def node_held_def gained_def)
  show ?thesis
  proof (cases "lk_found lr1")
    case None
    then show ?thesis using f2 l2 fetch_name_err [OF laws(1) f2] second_failed_releases [OF laws(2) h3]
        second_failed_releases [OF laws(2) none] by (simp add: rename_new_def)
  next
    case (Some d)
    then show ?thesis using f2 l2 fetch_name_err [OF laws(1) f2] second_failed_releases [OF laws(2) h3]
        rename_dirs_releases [OF laws law2 h3 id0 Some] by (simp add: rename_new_def)
  qed
qed

lemma do_rename_releases:
  assumes laws: "path_laws e bal" "lock_laws e bal" and id0: "idle bal fs" and ns: "\<And>d. \<not> finds_itself e d"
  shows "releases bal (\<lambda>_. 0) fs (do_rename e m fs)"
proof -
  have "releases bal (\<lambda>_. 0) fs (rename_old e m d (Some mm) path fs2)"
    if h: "node_held bal (\<lambda>_. 0) fs fs2 d mm" for d mm path fs2
  proof -
    obtain r path1 fs3 off where st: "sticky_check e d path fs2 = Some (r, path1, fs3)" and h2: "node_held bal off fs fs3 d mm"
      and off: "off = (\<lambda>_. 0) \<or> off = unit_of (VLock d) \<and> finds_itself e d" by (rule sticky_check_held [OF laws h id0])
    have h3: "node_held bal (\<lambda>_. 0) fs fs3 d mm" using h2 off ns by auto
    show ?thesis using st return_node_releases [OF laws(2) h3] rename_new_releases [OF laws h3 id0] by (simp add: rename_old_def)
  qed
  then show ?thesis unfolding do_rename_def using id0
    by (auto split: prod.splits intro!: lookup_call_releases releases_Some
        dest!: fetch_name_quiet [OF laws(1)] last_dir_law [OF laws(1)] quiet_bal)
qed

section \<open>Who may remove an entry\<close>

text \<open>The facts under which unlink and rmdir ask the file system for the removal.\<close>

definition unlink_allowed :: "'w vfs_env \<Rightarrow> nat \<Rightarrow> string \<Rightarrow> 'w vfs \<Rightarrow> bool" where
  "unlink_allowed e d path fs \<longleftrightarrow>
     S_ISDIR (v_mode (vnodes fs d)) \<and> fst (forbidden e (fp e) d (X_BIT OR W_BIT) fs) = OK
   \<and> (let fs1 = snd (forbidden e (fp e) d (X_BIT OR W_BIT) fs);
          (lr, fs2) = advance e d \<lparr>l_path = path, l_flags = {PATH_RET_SYMLINK}, l_vmnt_lock = VMNT_READ, l_vnode_lock = VNODE_READ\<rparr> (fp e) fs1
      in v_mode (vnodes fs1 d) AND I_SET_STCKY_BIT = I_SET_STCKY_BIT \<longrightarrow>
         (case lk_found lr of None \<Rightarrow> False
          | Some v \<Rightarrow> v_uid (vnodes fs2 v) = fp_effuid (fprocs fs2 (fp e)) \<or> fp_effuid (fprocs fs2 (fp e)) = SU_UID e))"

definition removal :: "bool \<Rightarrow> nat \<Rightarrow> string \<Rightarrow> fs_request" where
  "removal is_unlink ino path = (if is_unlink then Req_unlink ino path else Req_rmdir ino path)"

lemma sticky_check_OK:
  assumes "sticky_check e d path fs = Some (OK, path1, fs1)" and "path_laws e bal"
    and "v_mode (vnodes fs d) AND I_SET_STCKY_BIT = I_SET_STCKY_BIT"
    and adv: "advance e d \<lparr>l_path = path, l_flags = {PATH_RET_SYMLINK}, l_vmnt_lock = VMNT_READ, l_vnode_lock = VNODE_READ\<rparr> (fp e) fs = (lr, fs2)"
  shows "\<exists>v. lk_found lr = Some v \<and> (v_uid (vnodes fs2 v) = fp_effuid (fprocs fs2 (fp e)) \<or> fp_effuid (fprocs fs2 (fp e)) = SU_UID e)"
proof -
  have "verr fs2 \<noteq> OK" if "lk_found lr = None" using advance_law [OF assms(2) adv] that by (simp add: lookup_law_def)
  then show ?thesis using assms(1,3) adv by (auto simp: sticky_check_def split: if_splits option.splits)
qed

lemma unlink_checks_OK:
  assumes "unlink_checks e d vmp path remove fs = Some (OK, fs')" and laws: "path_laws e bal"
  shows "unlink_allowed e d path fs \<and> (\<exists>path1 fs1. remove path1 fs1 = Some (OK, fs'))"
proof -
  obtain r fs1 where fb: "forbidden e (fp e) d (X_BIT OR W_BIT) fs = (r, fs1)" by (metis surj_pair)
  obtain lr fs2 where adv: "advance e d \<lparr>l_path = path, l_flags = {PATH_RET_SYMLINK}, l_vmnt_lock = VMNT_READ, l_vnode_lock = VNODE_READ\<rparr> (fp e) fs1 = (lr, fs2)"
    by (metis surj_pair)
  have ret: "return_node e d vmp r2 fs2 = Some (OK, fs3) \<Longrightarrow> r2 = OK" for r2 fs2 fs3
    by (auto simp: return_node_def split: option.splits)
  have dir: "S_ISDIR (v_mode (vnodes fs d))" using assms(1) ret by (auto simp: unlink_checks_def split: if_splits)
  have r: "r = OK" using assms(1) ret dir fb by (auto simp: unlink_checks_def split: if_splits)
  obtain path1 fs3 where st: "sticky_check e d path fs1 = Some (OK, path1, fs3)" and rem: "remove path1 fs3 = Some (OK, fs')"
    using assms(1) ret dir fb r by (auto simp: unlink_checks_def split: option.splits prod.splits if_splits)
  show ?thesis using dir fb r adv rem sticky_check_OK [OF st laws _ adv] by (auto simp: unlink_allowed_def)
qed

section \<open>An instance of the environment\<close>

text \<open>
  A small environment that keeps the laws: its world is the balance itself. A full path names vnode 2,
  its directory is vnode 1, an entry of a directory is the next vnode; all are on mount point 0. File
  systems accept every request.
\<close>

definition vgain :: "(resource \<Rightarrow> int) \<Rightarrow> (resource \<Rightarrow> int) vfs \<Rightarrow> (resource \<Rightarrow> int) vfs" where
  "vgain g fs = fs\<lparr>vworld := (\<lambda>y. vworld fs y + g y)\<rparr>"

definition vdrop :: "resource \<Rightarrow> (resource \<Rightarrow> int) vfs \<Rightarrow> (resource \<Rightarrow> int) vfs" where
  "vdrop x = vgain (\<lambda>y. - unit_of x y)"

definition vdemo_lookup :: "nat \<Rightarrow> (resource \<Rightarrow> int) vfs \<Rightarrow> lookup_result \<times> (resource \<Rightarrow> int) vfs" where
  "vdemo_lookup v fs =
     (let lr = \<lparr>lk_found = Some v, lk_vmnt = (if 0 < vworld fs (MLock 0) then None else Some 0),
                lk_vnode = (if 0 < vworld fs (VLock v) then None else Some v), lk_path = ''f''\<rparr>
      in (lr, vgain (gained lr) fs))"

definition vdemo_advance :: "nat \<Rightarrow> (resource \<Rightarrow> int) vfs \<Rightarrow> lookup_result \<times> (resource \<Rightarrow> int) vfs" where
  "vdemo_advance v fs =
     (let lr = \<lparr>lk_found = Some v, lk_vmnt = None, lk_vnode = (if 0 < vworld fs (VLock v) then None else Some v), lk_path = ''f''\<rparr>;
          none = \<lparr>lk_found = None, lk_vmnt = None, lk_vnode = None, lk_path = ''f''\<rparr>
      in if 0 < vworld fs (MLock 0) then (lr, vgain (gained lr) fs) else (none, set_err (Err ENOENT) fs))"

definition vdemo_get_filp :: "(resource \<Rightarrow> int) vfs \<Rightarrow> nat option \<times> (resource \<Rightarrow> int) vfs" where
  "vdemo_get_filp fs =
     (case vno 0 fs of
        Some v \<Rightarrow> if 0 < filp_count (filps fs 0) then (Some 0, vgain (\<lambda>y. unit_of (FLock 0) y + unit_of (VLock v) y) fs)
                  else (None, set_err (Err EBADF) fs)
      | None \<Rightarrow> (None, set_err (Err EBADF) fs))"

definition vdemo_unlock_filp :: "nat \<Rightarrow> (resource \<Rightarrow> int) vfs \<Rightarrow> (resource \<Rightarrow> int) vfs" where
  "vdemo_unlock_filp f fs =
     (case vno f fs of
        Some v \<Rightarrow> if 0 < filp_count (filps fs f) then vdrop (VLock v) (vdrop (FLock f) fs) else vdrop (FLock f) fs
      | None \<Rightarrow> vdrop (FLock f) fs)"

definition vdemo_node :: node_details where
  "vdemo_node = \<lparr>nd_fs_e = 5, nd_inode_nr = 77, nd_fmode = I_IMMEDIATE, nd_fsize = 0, nd_uid = 10, nd_gid = 10, nd_dev = 0\<rparr>"

fun vdemo_reply :: "fs_request \<Rightarrow> fs_reply" where
  "vdemo_reply (Req_readwrite ino pos d ep b n) = \<lparr>rp_ret = OK, rp_pos = pos + int n, rp_cum_io = n, rp_node = vdemo_node, rp_link = []\<rparr>"
| "vdemo_reply rq = \<lparr>rp_ret = OK, rp_pos = 0, rp_cum_io = 0, rp_node = vdemo_node, rp_link = []\<rparr>"

definition vdemo_env :: "(resource \<Rightarrow> int) vfs_env" where
  "vdemo_env = \<lparr>fp = 0, who_e = 100, super_user = False, SU_UID = 0, PATH_MAX = 1024, SSIZE_MAX = 2147483647,
     POSIX_SYMLINK_MAX = 255, NONE_E = 31743, VFS_PROC_NR = 1, PFS_PROC_NR = 9, ROOT_FS_E = 5,
     fetch_name = (\<lambda>a n fs. (OK, ''d/f'', fs)), copy_path = (\<lambda>fs. (OK, ''d/f'', fs)),
     eat_path = (\<lambda>lk p. vdemo_lookup 2), last_dir = (\<lambda>lk p. vdemo_lookup 1), advance = (\<lambda>d lk p. vdemo_advance (Suc d)),
     forbidden = (\<lambda>p v bits fs. (OK, fs)), fs_req = (\<lambda>ep rq fs. (vdemo_reply rq, fs)),
     lock_vnode = (\<lambda>v l. vgain (unit_of (VLock v))), unlock_vnode = (\<lambda>v. vdrop (VLock v)), upgrade_vnode_lock = (\<lambda>v fs. fs),
     put_vnode = (\<lambda>v. vdrop (VRef v)), get_free_vnode = (\<lambda>fs. (Some 9, fs)), vnode_locked_by_me = (\<lambda>v fs. 0 < vworld fs (VLock v)),
     unlock_vmnt = (\<lambda>m. vdrop (MLock m)), upgrade_vmnt_lock = (\<lambda>m fs. fs), downgrade_vmnt_lock = (\<lambda>m fs. fs),
     find_vmnt = (\<lambda>ep fs. Some 0), get_filp = (\<lambda>fd l. vdemo_get_filp), get_filp2 = (\<lambda>p fd l. vdemo_get_filp),
     unlock_filp = vdemo_unlock_filp, filp_locked_by_me = (\<lambda>f fs. 0 < vworld fs (FLock f)),
     close_filp = (\<lambda>f fs. vdemo_unlock_filp f fs), get_fd = (\<lambda>p s m fs. if filp_count (filps fs 4) = 0 then (OK, 3, 4, vgain (unit_of (FLock 4)) fs) else (Err (EOTHER 24), 0, 0, fs)), find_filp = (\<lambda>v b fs. None),
     mutex_trylock_bsf = (\<lambda>fs. (OK, vgain (unit_of BsfLock) fs)), mutex_lock_bsf = (\<lambda>fs. (OK, vgain (unit_of BsfLock) fs)),
     mutex_unlock_bsf = (\<lambda>fs. (OK, vdrop BsfLock fs)), worker_suspend = (\<lambda>fs. (0, fs)), worker_resume = (\<lambda>w fs. fs),
     cdev_io = (\<lambda>q dv ep b p n fl fs. (Err SUSPEND, fs)), cdev_open = (\<lambda>dv fl fs. (OK, fs)), bdev_open = (\<lambda>dv b fs. (OK, fs)),
     bdev_close = (\<lambda>dv fs. fs), dmap_driver = (\<lambda>dv fs. 20), dmap_label = (\<lambda>dv fs. ''disk''),
     map_vnode = (\<lambda>v ep fs. (OK, fs)), pipe_check = (\<lambda>f d fl n fs. (Ret (int (min n 512)), fs)),
     pipe_suspend = (\<lambda>f b n fs. vprint ''suspended'' [AInt (int f), AInt (int b), AInt (int n)] fs),
     suspend_popen = (\<lambda>fs. fs), release_open = (\<lambda>v n fs. fs), sys_kill_sigpipe = (\<lambda>ep fs. fs), lock_revive = (\<lambda>fs. fs)\<rparr>"

text \<open>Vnode 1 is a sticky directory, vnode 2 a regular file of the caller with 40 bytes, open on description 0.\<close>

definition vdemo_vnode :: "mode_t \<Rightarrow> vnode" where
  "vdemo_vnode md = \<lparr>v_mode = md, v_fs_e = 5, v_inode_nr = 70, v_size = 40, v_uid = 10, v_gid = 10, v_sdev = 0, v_dev = 1, v_vmnt = 0,
     v_bfs_e = 5, v_mapfs_e = 9, v_mapinode_nr = 3, v_fs_count = 1, v_ref_count = 1\<rparr>"

definition vdemo_fs :: "mode_t \<Rightarrow> (resource \<Rightarrow> int) vfs" where
  "vdemo_fs md = \<lparr>vnodes = (\<lambda>v. vdemo_vnode (if v = 1 then I_DIRECTORY OR I_SET_STCKY_BIT else md)),
     filps = (\<lambda>f. \<lparr>filp_mode = R_BIT OR W_BIT, filp_flags = 0, filp_count = (if f = 0 then 1 else 0), filp_pos = 10, filp_vno = (if f = 0 then Some 2 else None)\<rparr>),
     fprocs = (\<lambda>p. \<lparr>fp_filp = (\<lambda>fd. if fd = 0 then Some 0 else None), fp_cloexec_set = {}, fp_umask = RWX_MODES, fp_effuid = 10, fp_effgid = 10,
        fp_wd = None, fp_cum_io_partial = 0, fp_pid = 42, fp_endpoint = 100\<rparr>),
     vmnts = [\<lparr>m_fs_e = 5, m_dev = 1, m_mount_path = ''/home'', m_forceroot = False\<rparr>],
     file_locks = [\<lparr>lock_type = 1, flock_vnode = 2, lock_pid = 42\<rparr>, \<lparr>lock_type = 1, flock_vnode = 2, lock_pid = 43\<rparr>], nr_locks = 2, susp_count = 0,
     scratch = (\<lambda>p. \<lparr>fd_nr = 0, io_buffer = 0, io_nbytes = 0\<rparr>), verr = OK, lseek_out = 0, vconsole = [], vworld = (\<lambda>y. 0)\<rparr>"

lemma vgain_sel [simp]:
  "vworld (vgain g fs) = (\<lambda>y. vworld fs y + g y)" "vnodes (vgain g fs) = vnodes fs" "filps (vgain g fs) = filps fs" "verr (vgain g fs) = verr fs"
  by (simp_all add: vgain_def)

lemma vdrop_sel [simp]:
  "vworld (vdrop x fs) y = vworld fs y - unit_of x y" "vnodes (vdrop x fs) = vnodes fs" "filps (vdrop x fs) = filps fs"
  by (simp_all add: vdrop_def)

lemma stable_same [simp]: "vnodes fs' = vnodes fs \<Longrightarrow> filps fs' = filps fs \<Longrightarrow> stable bal fs fs'"
  by (simp add: stable_def)

lemma vdemo_lookup_law: "lookup_law (\<lambda>w. w) fs (fst (vdemo_lookup v fs)) (snd (vdemo_lookup v fs))"
  unfolding vdemo_lookup_def Let_def fst_conv snd_conv by (auto simp: lookup_law_def)

lemma vdemo_advance_law: "lookup_law (\<lambda>w. w) fs (fst (vdemo_advance v fs)) (snd (vdemo_advance v fs))"
proof (cases "0 < vworld fs (MLock 0)")
  case True
  then show ?thesis unfolding vdemo_advance_def Let_def if_P [OF True] fst_conv snd_conv by (auto simp: lookup_law_def)
next
  case False
  then show ?thesis unfolding vdemo_advance_def Let_def if_not_P [OF False] fst_conv snd_conv
    by (simp add: lookup_law_def gained_def set_err_def)
qed

lemma vdemo_advance_vmnt: "lk_vmnt (fst (vdemo_advance v fs)) = None"
  by (simp add: vdemo_advance_def Let_def)

lemma vdemo_got_filp: "got_filp (\<lambda>w. w) fs (vdemo_get_filp fs)"
  by (auto simp: got_filp_def vdemo_get_filp_def set_err_def split: option.splits)

lemma vdemo_unlock_filp_bal:
  "vno f fs = Some v \<Longrightarrow> 0 < filp_count (filps fs f) \<Longrightarrow>
     vworld (vdemo_unlock_filp f fs) y = vworld fs y - unit_of (FLock f) y - unit_of (VLock v) y"
  "filp_count (filps fs f) \<le> 0 \<Longrightarrow> vworld (vdemo_unlock_filp f fs) y = vworld fs y - unit_of (FLock f) y"
  by (auto simp: vdemo_unlock_filp_def split: option.splits)

lemma vdemo_laws: "path_laws vdemo_env (\<lambda>w. w)" "lock_laws vdemo_env (\<lambda>w. w)" "filp_laws vdemo_env (\<lambda>w. w)"
  unfolding path_laws_def lock_laws_def filp_laws_def
  by (simp_all add: vdemo_env_def vdemo_lookup_law vdemo_advance_law vdemo_advance_vmnt vdemo_got_filp vdemo_unlock_filp_bal quiet_def)

lemma vdemo_not_itself: "\<not> finds_itself vdemo_env d"
  by (simp add: finds_itself_def vdemo_env_def vdemo_advance_def Let_def)

lemma vdemo_idle: "idle (\<lambda>w. w) (vdemo_fs md)"
  by (simp add: idle_def vdemo_fs_def)

section \<open>Properties\<close>

lemma unlink_remove_OK:
  assumes "unlink_remove e u d vmp path fs = Some (OK, fs')"
  shows "\<exists>fs1 fs2. req e (v_fs_e (vnodes fs1 d)) (removal u (v_inode_nr (vnodes fs1 d)) path) fs1 = (OK, fs2)
    \<and> release_node e d vmp fs2 = Some fs'"
proof -
  obtain m where m: "vmp = Some m" using assms by (auto simp: unlink_remove_def split: option.splits)
  obtain r fs1 where rq: "unlink_request e u d path (upgrade_vmnt_lock e m fs) = (r, fs1)" by (metis surj_pair)
  have "r = OK" "release_node e d vmp fs1 = Some fs'"
    using assms m rq by (simp_all add: unlink_remove_def return_node_def release_node_def)
  then show ?thesis using rq unfolding unlink_request_def removal_def by (cases u) auto
qed

text \<open>
  C10. An unlink or rmdir that reports success removed an entry of a directory \<open>d\<close>, found by the lookup of
  the path, that is a directory the caller may write and search; if it is sticky, the entry exists and
  belongs to the caller or the caller is the super user; and the file system itself accepted the removal
  of an entry of the inode of \<open>d\<close>, after which the call only released what it held.\<close>

theorem do_unlink_authorised:
  assumes "path_laws e bal" and "do_unlink e u fs = Some (OK, fs')"
  shows "\<exists>path fs1 lr fs2 d. copy_path e fs = (OK, path, fs1)
    \<and> last_dir e \<lparr>l_path = path, l_flags = {PATH_RET_SYMLINK}, l_vmnt_lock = VMNT_WRITE, l_vnode_lock = VNODE_WRITE\<rparr> (fp e) fs1 = (lr, fs2)
    \<and> lk_found lr = Some d \<and> unlink_allowed e d (lk_path lr) fs2
    \<and> (\<exists>path1 fs3 fs4. req e (v_fs_e (vnodes fs3 d)) (removal u (v_inode_nr (vnodes fs3 d)) path1) fs3 = (OK, fs4)
        \<and> release_node e d (lk_vmnt lr) fs4 = Some fs')"
proof -
  obtain r0 path fs1 where cp: "copy_path e fs = (r0, path, fs1)" by (metis surj_pair)
  have r0: "r0 = OK" using assms(2) cp copy_path_err [OF assms(1) cp] by (auto simp: do_unlink_def split: if_splits)
  obtain lr fs2 where ld: "last_dir e \<lparr>l_path = path, l_flags = {PATH_RET_SYMLINK}, l_vmnt_lock = VMNT_WRITE, l_vnode_lock = VNODE_WRITE\<rparr>
      (fp e) fs1 = (lr, fs2)" by (metis surj_pair)
  obtain d where d: "lk_found lr = Some d"
    using assms(2) cp r0 ld last_dir_law [OF assms(1) ld] by (auto simp: do_unlink_def lookup_law_def split: option.splits)
  have "unlink_checks e d (lk_vmnt lr) (lk_path lr) (\<lambda>path1. unlink_remove e u d (lk_vmnt lr) path1) fs2 = Some (OK, fs')"
    using assms(2) cp r0 ld d by (simp add: do_unlink_def)
  from unlink_checks_OK [OF this assms(1)] show ?thesis using cp r0 ld d unlink_remove_OK by metis
qed

lemma vdemo_unlink: "\<exists>fs'. do_unlink vdemo_env True (vdemo_fs I_REGULAR) = Some (OK, fs')"
  by (simp add: do_unlink_def vdemo_env_def vdemo_lookup_def vdemo_advance_def unlink_checks_def sticky_check_def unlink_remove_def
      unlink_request_def return_node_def release_node_def req_def Let_def vdemo_fs_def vdemo_vnode_def ftype_defs mode_consts
      I_SET_STCKY_BIT_def gained_def vgain_def vdrop_def)

theorem do_unlink_authorised_witness:
  "\<exists>d fs2. unlink_allowed vdemo_env d ''f'' fs2 \<and> d = 1"
proof -
  obtain fs' where "do_unlink vdemo_env True (vdemo_fs I_REGULAR) = Some (OK, fs')" using vdemo_unlink by blast
  from do_unlink_authorised [OF vdemo_laws(1) this] show ?thesis
    by (auto simp: vdemo_env_def vdemo_lookup_def Let_def)
qed

text \<open>
  C37. A link call gives back every lock and reference it took, on every return, except when the existing
  file and the directory of the new name are the same vnode: then the second lookup did not lock it, and
  the call unlocks it twice.\<close>

theorem do_link_releases:
  assumes "path_laws e bal" "lock_laws e bal" and "idle bal fs"
  shows "\<exists>r fs'. do_link e m fs = Some (r, fs') \<and> (\<forall>y. bal (vworld fs') y = bal (vworld fs) y
    - (case link_ends e m fs of Some (v, d) \<Rightarrow> if v = d then unit_of (VLock d) y else 0 | None \<Rightarrow> 0))"
proof -
  have "link_extra e m fs y = (case link_ends e m fs of Some (v, d) \<Rightarrow> if v = d then unit_of (VLock d) y else 0 | None \<Rightarrow> 0)" for y
    by (simp add: link_extra_def split: option.splits prod.splits)
  then show ?thesis using do_link_bal [OF assms, of m] unfolding releases_def by simp
qed

theorem do_link_releases_witness:
  "\<exists>r fs'. do_link vdemo_env \<lparr>name1 = 0, len1 = 4, name2 = 8, len2 = 4\<rparr> (vdemo_fs I_REGULAR) = Some (r, fs')
    \<and> vworld fs' = (\<lambda>y. 0)"
proof -
  let ?m = "\<lparr>name1 = 0, len1 = 4, name2 = 8, len2 = 4\<rparr>"
  have "link_ends vdemo_env ?m (vdemo_fs I_REGULAR) = Some (2, 1)"
    by (simp add: link_ends_def vdemo_env_def vdemo_lookup_def Let_def)
  then show ?thesis using do_link_releases [OF vdemo_laws(1,2) vdemo_idle, of ?m I_REGULAR] by (auto simp: vdemo_fs_def)
qed

lemma unlink_checks_pass:
  assumes "S_ISDIR (v_mode (vnodes fs d))" and "forbidden e (fp e) d (X_BIT OR W_BIT) fs = (OK, fs1)"
    and "v_mode (vnodes fs1 d) AND I_SET_STCKY_BIT \<noteq> I_SET_STCKY_BIT"
  shows "unlink_checks e d vmp path remove fs = remove path fs1"
  using assms by (simp add: unlink_checks_def sticky_check_def)

text \<open>
  C38. The unlink of Lab 9 uses a null pointer when the name does not exist: in a directory on the mount
  point \<^verbatim>\<open>/home\<close> that the caller may write and that is not sticky, the added lookup finds nothing and its
  vnode is printed all the same. The unlink of Lab 10 answers in the same situation.\<close>

theorem do_unlink_lab9_null:
  assumes "path_laws e bal" "lock_laws e bal" "idle bal fs" and "copy_path e fs = (OK, path, fs1)"
    and "last_dir e \<lparr>l_path = path, l_flags = {PATH_RET_SYMLINK}, l_vmnt_lock = VMNT_WRITE, l_vnode_lock = VNODE_WRITE\<rparr> (fp e) fs1 = (lr, fs2)"
    and "lk_found lr = Some d" "lk_vmnt lr = Some m"
    and "S_ISDIR (v_mode (vnodes fs2 d))" "forbidden e (fp e) d (X_BIT OR W_BIT) fs2 = (OK, fs3)"
    and "v_mode (vnodes fs3 d) AND I_SET_STCKY_BIT \<noteq> I_SET_STCKY_BIT"
    and "advance e d \<lparr>l_path = lk_path lr, l_flags = {PATH_RET_SYMLINK}, l_vmnt_lock = VMNT_READ, l_vnode_lock = VNODE_READ\<rparr> (fp e)
           (upgrade_vmnt_lock e m fs3) = (lr1, fs4)"
    and "lk_found lr1 = None" "m_mount_path (vmnts fs4 ! m) = ''/home''"
  shows "do_unlink_lab9 e u fs = None \<and> (\<exists>r fs'. do_unlink e u fs = Some (r, fs'))"
proof
  have "do_unlink_lab9 e u fs = unlink_remove_lab9 e u d (Some m) (lk_path lr) fs3"
    using assms(4-10) by (simp add: do_unlink_lab9_def unlink_checks_pass)
  also have "\<dots> = None" using assms(11-13) by (simp add: unlink_remove_lab9_def unlink_report_lab9_def)
  finally show "do_unlink_lab9 e u fs = None" .
  show "\<exists>r fs'. do_unlink e u fs = Some (r, fs')"
    using do_unlink_releases [OF assms(1-3), of u] by (auto simp: releases_but_self_def releases_def)
qed

text \<open>The instance in which no entry exists, and whose directories are not sticky.\<close>

definition vdemo_absent :: "(resource \<Rightarrow> int) vfs_env" where
  "vdemo_absent = vdemo_env\<lparr>advance := (\<lambda>d lk p fs. (\<lparr>lk_found = None, lk_vmnt = None, lk_vnode = None, lk_path = ''f''\<rparr>, set_err (Err ENOENT) fs))\<rparr>"

definition vdemo_dir_fs :: "(resource \<Rightarrow> int) vfs" where
  "vdemo_dir_fs = (vdemo_fs I_REGULAR)\<lparr>vnodes := (\<lambda>v. vdemo_vnode (if v = 1 then I_DIRECTORY else I_REGULAR))\<rparr>"

lemma vdemo_absent_laws: "path_laws vdemo_absent (\<lambda>w. w)" "lock_laws vdemo_absent (\<lambda>w. w)"
proof -
  have "lookup_law (\<lambda>w. w) fs \<lparr>lk_found = None, lk_vmnt = None, lk_vnode = None, lk_path = ''f''\<rparr> (set_err (Err ENOENT) fs)" for fs
    by (simp add: lookup_law_def gained_def set_err_def)
  then show "path_laws vdemo_absent (\<lambda>w. w)" "lock_laws vdemo_absent (\<lambda>w. w)"
    using vdemo_laws(1,2) unfolding path_laws_def lock_laws_def by (simp_all add: vdemo_absent_def)
qed

theorem do_unlink_lab9_null_witness:
  "do_unlink_lab9 vdemo_absent True vdemo_dir_fs = None \<and> (\<exists>r fs'. do_unlink vdemo_absent True vdemo_dir_fs = Some (r, fs'))"
proof (rule do_unlink_lab9_null [OF vdemo_absent_laws, where d = 1 and m = 0])
  show "idle (\<lambda>w. w) vdemo_dir_fs" by (simp add: idle_def vdemo_dir_fs_def vdemo_fs_def)
qed (auto simp: vdemo_absent_def vdemo_env_def vdemo_lookup_def Let_def vdemo_dir_fs_def vdemo_fs_def vdemo_vnode_def ftype_defs mode_consts
    I_SET_STCKY_BIT_def vgain_def gained_def set_err_def)

text \<open>
  \<^verbatim>\<open>truncate_vnode\<close> accepts pipes, regular files and immediate files and nothing else; it answers what the
  file system answers, and the size recorded in the vnode becomes the new size exactly when that is OK.\<close>

theorem truncate_vnode_size:
  assumes "path_laws e bal" "lock_laws e bal" and "0 < bal (vworld fs) (VLock v)"
  shows "\<exists>r fs'. truncate_vnode e v n fs = Some (r, fs') \<and> v_size (vnodes fs' v) = (if r = OK then n else v_size (vnodes fs v))
    \<and> (if v_mode (vnodes fs v) AND I_TYPE \<in> {I_NAMED_PIPE, I_REGULAR, I_IMMEDIATE}
       then r = fst (req e (v_fs_e (vnodes fs v)) (Req_ftrunc (v_inode_nr (vnodes fs v)) n 0) fs)
       else r = Err EINVAL \<and> fs' = fs)"
proof -
  obtain r fs1 where rq: "req e (v_fs_e (vnodes fs v)) (Req_ftrunc (v_inode_nr (vnodes fs v)) n 0) fs = (r, fs1)" by (metis surj_pair)
  have "vkey (vnodes fs1 v) = vkey (vnodes fs v)" using req_quiet [OF assms(1) rq] assms(3) by (simp add: quiet_def stable_def)
  then have sz: "v_size (vnodes fs1 v) = v_size (vnodes fs v)" by (simp add: vkey_def)
  have ty: "v_mode (vnodes fs v) AND I_TYPE \<in> {I_NAMED_PIPE, I_REGULAR, I_IMMEDIATE}
    \<longleftrightarrow> \<not> (\<not> S_ISFIFO (v_mode (vnodes fs v)) \<and> \<not> (S_ISREG (v_mode (vnodes fs v)) \<or> v_mode (vnodes fs v) AND I_TYPE = 0x9000))"
    by (simp add: S_ISFIFO_def S_ISREG_def I_IMMEDIATE_def)
  show ?thesis
    using rq sz assms(3) unfolding truncate_vnode_def ty by (simp add: locked_by_me [OF assms(2)] upd_vnode_def)
qed

theorem truncate_vnode_size_witness:
  "\<exists>r fs'. truncate_vnode vdemo_env 2 7 (vgain (unit_of (VLock 2)) (vdemo_fs I_IMMEDIATE)) = Some (r, fs') \<and> v_size (vnodes fs' 2) = (if r = OK then 7 else 40)"
  using truncate_vnode_size [OF vdemo_laws(1,2), of "vgain (unit_of (VLock 2)) (vdemo_fs I_IMMEDIATE)" 2 7]
  by (auto simp: vdemo_fs_def vdemo_vnode_def)

end
