(* ===== verification/VFS_Read.thy ===== *)
theory VFS_Read
  imports VFS_Link
begin

text \<open>
  The calls of \<^verbatim>\<open>src/Lab-10/vfs/read.c\<close>: read, write and peek on pipes, devices and files, getdents,
  and the lock on block special files. \<^verbatim>\<open>SUSPEND\<close> is a result like any other.

  Main results: position, size and return value of a transfer on a file; a partial write to a pipe is
  accounted byte for byte; every call gives back its locks; and the size of an immediate file is not kept
  up to date, so that appends to it go to the same place again and again.
\<close>

section \<open>Operations\<close>

definition lock_bsf :: "'w vfs_env \<Rightarrow> 'w vfs \<Rightarrow> 'w vfs option" where
  "lock_bsf e fs =
     (case mutex_trylock_bsf e fs of (r, fs1) \<Rightarrow>
      if r = OK then Some fs1
      else case worker_suspend e fs1 of (w, fs2) \<Rightarrow>
        (case mutex_lock_bsf e fs2 of (r1, fs3) \<Rightarrow> if r1 \<noteq> OK then None else Some (worker_resume e w fs3)))"

definition unlock_bsf :: "'w vfs_env \<Rightarrow> 'w vfs \<Rightarrow> 'w vfs option" where
  "unlock_bsf e fs = (case mutex_unlock_bsf e fs of (r, fs1) \<Rightarrow> if r \<noteq> OK then None else Some fs1)"

definition check_bsf_lock :: "'w vfs_env \<Rightarrow> 'w vfs \<Rightarrow> 'w vfs option" where
  "check_bsf_lock e fs =
     (case mutex_trylock_bsf e fs of (r, fs1) \<Rightarrow>
      if r = Err EBUSY then None else if r \<noteq> OK then None else unlock_bsf e fs1)"

text \<open>
  \<^verbatim>\<open>req_size -= cum_io_incr\<close> is a subtraction on natural numbers: a file system does not transfer more
  than it was asked to.
\<close>

definition pipe_transferred :: "'w vfs_env \<Rightarrow> nat \<Rightarrow> nat \<Rightarrow> u32 \<Rightarrow> nat \<Rightarrow> nat \<Rightarrow> nat \<Rightarrow> bool \<Rightarrow> fs_reply \<Rightarrow> 'w vfs \<Rightarrow> ret \<times> 'w vfs" where
  "pipe_transferred e f vp oflags cum0 buf req_size partial_pipe rep fs =
     (let cum_io = cum0 + rp_cum_io rep;
          fs1 = upd_vnode vp (v_size_update (\<lambda>_. rp_pos rep)) fs
      in if partial_pipe \<and> \<not> has oflags O_NONBLOCK then
           (Err SUSPEND, pipe_suspend e f (buf + rp_cum_io rep) (req_size - rp_cum_io rep)
              (upd_fproc (fp e) (fp_cum_io_partial_update (\<lambda>_. cum_io)) fs1))
         else (Ret (int cum_io), upd_fproc (fp e) (fp_cum_io_partial_update (\<lambda>_. 0)) fs1))"

definition rw_pipe :: "'w vfs_env \<Rightarrow> rw \<Rightarrow> endpoint_t \<Rightarrow> nat \<Rightarrow> nat \<Rightarrow> nat \<Rightarrow> 'w vfs \<Rightarrow> (ret \<times> 'w vfs) option" where
  "rw_pipe e d usr_e f buf req_size fs =
     (case vno f fs of None \<Rightarrow> None
      | Some vp \<Rightarrow>
          if \<not> vnode_locked_by_me e vp fs \<or> \<not> filp_locked_by_me e f fs \<or> d = PEEKING then None
          else case pipe_check e f d (filp_flags (filps fs f)) req_size fs of (r, fs1) \<Rightarrow>
            (case r of
               Err c \<Rightarrow> Some (r, if c = SUSPEND then pipe_suspend e f buf req_size fs1 else fs1)
             | Ret n \<Rightarrow>
                 if n \<le> 0 then Some (r, fs1)
                 else let size0 = nat n;
                          sz = (if d = READING \<and> v_size (vnodes fs1 vp) < int size0 then nat (v_size (vnodes fs1 vp)) else size0)
                      in if v_mapfs_e (vnodes fs1 vp) = 0 then None
                         else case fs_req e (v_mapfs_e (vnodes fs1 vp)) (Req_readwrite (v_mapinode_nr (vnodes fs1 vp)) 0 d usr_e buf sz) fs1
                           of (rep, fs2) \<Rightarrow>
                             if rp_ret rep \<noteq> OK then Some (rp_ret rep, fs2)
                             else Some (pipe_transferred e f vp (filp_flags (filps fs f)) (fp_cum_io_partial (fprocs fs (fp e))) buf req_size
                                     (size0 < req_size) rep fs2)))"

text \<open>
  The first half of \<^verbatim>\<open>read_write\<close>: the transfer itself, which yields \<^verbatim>\<open>r\<close>, \<^verbatim>\<open>position\<close> and \<^verbatim>\<open>cum_io\<close>.
\<close>

type_synonym 'w transfer = "ret \<times> int \<times> nat \<times> 'w vfs"

definition rw_char :: "'w vfs_env \<Rightarrow> rw \<Rightarrow> nat \<Rightarrow> nat \<Rightarrow> nat \<Rightarrow> nat \<Rightarrow> endpoint_t \<Rightarrow> 'w vfs \<Rightarrow> 'w transfer option" where
  "rw_char e d f vp buf sz for_e fs =
     (if v_sdev (vnodes fs vp) = NO_DEV then None
      else let position = filp_pos (filps fs f); dev = v_sdev (vnodes fs vp) in
        case cdev_io e (if d = READING then CDEV_READ else CDEV_WRITE) dev for_e buf position sz (filp_flags (filps fs f)) fs
        of (r, fs1) \<Rightarrow>
          (case r of
             Ret n \<Rightarrow> if 0 \<le> n then
                 Some (OK, position + n, nat n, vprint ''VFS: I/O to device %llx succeeded immediately!?'' [AInt (uint dev)] fs1)
               else Some (r, position, 0, fs1)
           | Err c \<Rightarrow> Some (r, if c = SUSPEND then position + int sz else position, 0, fs1)))"

definition rw_block :: "'w vfs_env \<Rightarrow> rw \<Rightarrow> nat \<Rightarrow> nat \<Rightarrow> nat \<Rightarrow> nat \<Rightarrow> endpoint_t \<Rightarrow> 'w vfs \<Rightarrow> 'w transfer option" where
  "rw_block e d f vp buf sz for_e fs =
     (if v_sdev (vnodes fs vp) = NO_DEV then None
      else let position = filp_pos (filps fs f) in
        case lock_bsf e fs of None \<Rightarrow> None
        | Some fs1 \<Rightarrow>
            let ep = v_bfs_e (vnodes fs1 vp); dev = v_sdev (vnodes fs1 vp);
                (r, position1, cum_io, fs2) =
                  (if d = PEEKING then (case fs_req e ep (Req_bpeek dev position sz) fs1 of (rep, fs2) \<Rightarrow> (rp_ret rep, position, 0, fs2))
                   else case fs_req e ep (Req_breadwrite for_e dev position sz buf d) fs1 of (rep, fs2) \<Rightarrow>
                     if rp_ret rep = OK then (OK, rp_pos rep, rp_cum_io rep, fs2) else (rp_ret rep, position, 0, fs2))
            in (case unlock_bsf e fs2 of None \<Rightarrow> None | Some fs3 \<Rightarrow> Some (r, position1, cum_io, fs3)))"

text \<open>Where a transfer on a file starts: a write with \<^verbatim>\<open>O_APPEND\<close> at the recorded size.\<close>

definition rw_start :: "rw \<Rightarrow> nat \<Rightarrow> nat \<Rightarrow> 'w vfs \<Rightarrow> int" where
  "rw_start d f vp fs = (if d = WRITING \<and> has (filp_flags (filps fs f)) O_APPEND then v_size (vnodes fs vp) else filp_pos (filps fs f))"

definition rw_regular :: "'w vfs_env \<Rightarrow> rw \<Rightarrow> nat \<Rightarrow> nat \<Rightarrow> nat \<Rightarrow> nat \<Rightarrow> endpoint_t \<Rightarrow> 'w vfs \<Rightarrow> 'w transfer" where
  "rw_regular e d f vp buf sz for_e fs =
     (let position = rw_start d f vp fs; ep = v_fs_e (vnodes fs vp); ino = v_inode_nr (vnodes fs vp)
      in if d = PEEKING then (case fs_req e ep (Req_peek ino position sz) fs of (rep, fs1) \<Rightarrow> (rp_ret rep, position, 0, fs1))
         else case fs_req e ep (Req_readwrite ino position d for_e buf sz) fs of (rep, fs1) \<Rightarrow>
           if ret_nonneg (rp_ret rep) then (rp_ret rep, rp_pos rep, rp_cum_io rep, fs1) else (rp_ret rep, position, 0, fs1))"

definition rw_transfer :: "'w vfs_env \<Rightarrow> nat \<Rightarrow> rw \<Rightarrow> nat \<Rightarrow> nat \<Rightarrow> nat \<Rightarrow> nat \<Rightarrow> endpoint_t \<Rightarrow> 'w vfs \<Rightarrow> 'w transfer option" where
  "rw_transfer e rfp d f vp buf sz for_e fs =
     (if S_ISFIFO (v_mode (vnodes fs vp)) then
        map_option (\<lambda>(r, fs1). (r, filp_pos (filps fs f), 0, fs1)) (rw_pipe e d for_e f buf sz fs)
      else if S_ISCHR (v_mode (vnodes fs vp)) then rw_char e d f vp buf sz for_e fs
      else if S_ISBLK (v_mode (vnodes fs vp)) then rw_block e d f vp buf sz for_e fs
      else Some (rw_regular e d f vp buf sz for_e fs))"

text \<open>
  The lines of Lab 10 that report a transfer. \<^verbatim>\<open>find_vmnt\<close> may find nothing, and its result is used
  without a test.
\<close>

definition rw_report :: "'w vfs_env \<Rightarrow> rw \<Rightarrow> nat \<Rightarrow> nat \<Rightarrow> int \<Rightarrow> 'w vfs \<Rightarrow> 'w vfs option" where
  "rw_report e d vp sz position fs =
     (if d = PEEKING then Some fs
      else case find_vmnt e (v_fs_e (vnodes fs vp)) fs of None \<Rightarrow> None
      | Some m \<Rightarrow>
          let args = [AInt (int (v_inode_nr (vnodes fs vp))), AInt (int sz), AInt position] in
          Some (if m_mount_path (vmnts fs ! m) = ''/home'' then
                  vprint (if d = WRITING then ''File Write: %llu; nbytes = %zu; offset = %llu''
                          else ''File Read: %llu; nbytes = %zu; offset = %llu'') args fs
                else fs))"

definition rw_update :: "rw \<Rightarrow> nat \<Rightarrow> nat \<Rightarrow> int \<Rightarrow> 'w vfs \<Rightarrow> 'w vfs" where
  "rw_update d f vp position fs =
     (let fs1 = (if d = WRITING \<and> (S_ISREG (v_mode (vnodes fs vp)) \<or> S_ISDIR (v_mode (vnodes fs vp)))
                    \<and> v_size (vnodes fs vp) < position
                 then upd_vnode vp (v_size_update (\<lambda>_. position)) fs else fs)
      in upd_filp f (filp_pos_update (\<lambda>_. position)) fs1)"

definition rw_sigpipe :: "'w vfs_env \<Rightarrow> nat \<Rightarrow> rw \<Rightarrow> nat \<Rightarrow> ret \<Rightarrow> 'w vfs \<Rightarrow> 'w vfs" where
  "rw_sigpipe e rfp d f r fs =
     (if r = Err EPIPE \<and> d = WRITING \<and> \<not> has (filp_flags (filps fs f)) O_NOSIGPIPE
      then sys_kill_sigpipe e (fp_endpoint (fprocs fs rfp)) fs else fs)"

text \<open>
  The checks of \<^verbatim>\<open>read_write\<close> that end the call before the transfer: \<open>Some (Inl r)\<close> returns \<open>r\<close>,
  \<open>Some (Inr ())\<close> goes on.
\<close>

definition rw_refuse :: "'w vfs_env \<Rightarrow> nat \<Rightarrow> rw \<Rightarrow> nat \<Rightarrow> nat \<Rightarrow> 'w vfs \<Rightarrow> ((ret \<times> 'w vfs) + unit) option" where
  "rw_refuse e rfp d vp sz fs =
     (if SSIZE_MAX e < sz then Some (Inl (Err EINVAL, fs))
      else if S_ISFIFO (v_mode (vnodes fs vp)) then
        if fp_cum_io_partial (fprocs fs rfp) \<noteq> 0 then None
        else if d = PEEKING then Some (Inl (Err EINVAL, vprint ''read_write: peek on pipe makes no sense'' [] fs))
        else Some (Inr ())
      else if S_ISCHR (v_mode (vnodes fs vp)) \<and> d = PEEKING then
        Some (Inl (Err EINVAL, vprint ''read_write: peek on char device makes no sense'' [] fs))
      else Some (Inr ()))"

definition read_write :: "'w vfs_env \<Rightarrow> nat \<Rightarrow> rw \<Rightarrow> nat \<Rightarrow> nat \<Rightarrow> nat \<Rightarrow> endpoint_t \<Rightarrow> 'w vfs \<Rightarrow> (ret \<times> 'w vfs) option" where
  "read_write e rfp d f buf sz for_e fs =
     do { vp \<leftarrow> vno f fs;
          chk \<leftarrow> rw_refuse e rfp d vp sz fs;
          case chk of Inl res \<Rightarrow> Some res
          | Inr _ \<Rightarrow>
              do { (r, position, cum_io, fs1) \<leftarrow> rw_transfer e rfp d f vp buf sz for_e fs;
                   fs2 \<leftarrow> rw_report e d vp sz position (rw_update d f vp position fs1);
                   Some (if r = OK then Ret (int cum_io) else r, rw_sigpipe e rfp d f r fs2) } }"

definition actual_read_write_peek :: "'w vfs_env \<Rightarrow> nat \<Rightarrow> rw \<Rightarrow> int \<Rightarrow> nat \<Rightarrow> nat \<Rightarrow> 'w vfs \<Rightarrow> (ret \<times> 'w vfs) option" where
  "actual_read_write_peek e rfp d io_fd io_buf nbytes fs =
     (let fs0 = upd_scratch rfp (\<lambda>s. s\<lparr>fd_nr := io_fd, io_buffer := io_buf, io_nbytes := nbytes\<rparr>) fs in
      case get_filp2 e rfp (fd_nr (scratch fs0 rfp)) (if d = WRITING then VNODE_WRITE else VNODE_READ) fs0 of (fo, fs1) \<Rightarrow>
      (case fo of None \<Rightarrow> Some (verr fs1, fs1)
       | Some f \<Rightarrow>
           if \<not> 0 < filp_count (filps fs1 f) then None
           else if filp_mode (filps fs1 f) AND (if d = WRITING then W_BIT else R_BIT) = 0 then Some (Err EBADF, unlock_filp e f fs1)
           else if io_nbytes (scratch fs1 rfp) = 0 then Some (OK, unlock_filp e f fs1)
           else (case read_write e rfp d f (io_buffer (scratch fs1 rfp)) (io_nbytes (scratch fs1 rfp)) (who_e e) fs1 of
                   None \<Rightarrow> None | Some (r, fs2) \<Rightarrow> Some (r, unlock_filp e f fs2))))"

definition do_read_write_peek :: "'w vfs_env \<Rightarrow> rw \<Rightarrow> int \<Rightarrow> nat \<Rightarrow> nat \<Rightarrow> 'w vfs \<Rightarrow> (ret \<times> 'w vfs) option" where
  "do_read_write_peek e d io_fd io_buf nbytes = actual_read_write_peek e (fp e) d io_fd io_buf nbytes"

record rw_msg =
  rw_fd :: int
  rw_buf :: nat
  rw_length :: nat

definition do_read :: "'w vfs_env \<Rightarrow> rw_msg \<Rightarrow> 'w vfs \<Rightarrow> (ret \<times> 'w vfs) option" where
  "do_read e m = do_read_write_peek e READING (rw_fd m) (rw_buf m) (rw_length m)"

definition do_getdents :: "'w vfs_env \<Rightarrow> rw_msg \<Rightarrow> 'w vfs \<Rightarrow> (ret \<times> 'w vfs) option" where
  "do_getdents e m fs =
     (let fs0 = upd_scratch (fp e) (\<lambda>s. s\<lparr>fd_nr := rw_fd m, io_buffer := rw_buf m, io_nbytes := rw_length m\<rparr>) fs in
      case get_filp e (fd_nr (scratch fs0 (fp e))) VNODE_READ fs0 of (fo, fs1) \<Rightarrow>
      (case fo of None \<Rightarrow> Some (verr fs1, fs1)
       | Some f \<Rightarrow>
           (case vno f fs1 of None \<Rightarrow> None
            | Some vp \<Rightarrow>
                let (r, fs2) =
                  (if filp_mode (filps fs1 f) AND R_BIT = 0 then (Err EBADF, fs1)
                   else if \<not> S_ISDIR (v_mode (vnodes fs1 vp)) then (Err EBADF, fs1)
                   else case fs_req e (v_fs_e (vnodes fs1 vp)) (Req_getdents (v_inode_nr (vnodes fs1 vp)) (filp_pos (filps fs1 f))
                       (io_buffer (scratch fs1 (fp e))) (io_nbytes (scratch fs1 (fp e)))) fs1
                     of (rep, fs2) \<Rightarrow>
                       (rp_ret rep, if ret_pos (rp_ret rep) then upd_filp f (filp_pos_update (\<lambda>_. rp_pos rep)) fs2 else fs2))
                in Some (r, unlock_filp e f fs2))))"

section \<open>Locks\<close>

definition dev_laws :: "'w vfs_env \<Rightarrow> ('w \<Rightarrow> resource \<Rightarrow> int) \<Rightarrow> bool" where
  "dev_laws e bal \<longleftrightarrow>
     (\<forall>fs. stable bal fs (snd (mutex_trylock_bsf e fs)) \<and> (\<forall>y. bal (vworld (snd (mutex_trylock_bsf e fs))) y
        = bal (vworld fs) y + (if fst (mutex_trylock_bsf e fs) = OK then unit_of BsfLock y else 0)))
   \<and> (\<forall>fs. stable bal fs (snd (mutex_lock_bsf e fs)) \<and> fst (mutex_lock_bsf e fs) = OK
        \<and> (\<forall>y. bal (vworld (snd (mutex_lock_bsf e fs))) y = bal (vworld fs) y + unit_of BsfLock y))
   \<and> (\<forall>fs. 0 < bal (vworld fs) BsfLock \<longrightarrow> stable bal fs (snd (mutex_unlock_bsf e fs)) \<and> fst (mutex_unlock_bsf e fs) = OK
        \<and> (\<forall>y. bal (vworld (snd (mutex_unlock_bsf e fs))) y = bal (vworld fs) y - unit_of BsfLock y))
   \<and> (\<forall>fs. quiet bal fs (snd (worker_suspend e fs))) \<and> (\<forall>w fs. quiet bal fs (worker_resume e w fs))
   \<and> (\<forall>f d fl n fs. quiet bal fs (snd (pipe_check e f d fl n fs))) \<and> (\<forall>f b n fs. quiet bal fs (pipe_suspend e f b n fs))
   \<and> (\<forall>q dv ep b p n fl fs. quiet bal fs (snd (cdev_io e q dv ep b p n fl fs)))
   \<and> (\<forall>ep fs. quiet bal fs (sys_kill_sigpipe e ep fs))
   \<and> (\<forall>f fs. filp_locked_by_me e f fs \<longleftrightarrow> 0 < bal (vworld fs) (FLock f))"

lemma dev_lawsD:
  assumes "dev_laws e bal"
  shows trylock_bsf: "mutex_trylock_bsf e fs = (r, fs') \<Longrightarrow> stable bal fs fs' \<and> (\<forall>y. bal (vworld fs') y = bal (vworld fs) y + (if r = OK then unit_of BsfLock y else 0))"
    and mutex_lock: "mutex_lock_bsf e fs = (r, fs') \<Longrightarrow> r = OK \<and> stable bal fs fs' \<and> (\<forall>y. bal (vworld fs') y = bal (vworld fs) y + unit_of BsfLock y)"
    and mutex_unlock: "mutex_unlock_bsf e fs = (r, fs') \<Longrightarrow> 0 < bal (vworld fs) BsfLock \<Longrightarrow> r = OK \<and> stable bal fs fs' \<and> (\<forall>y. bal (vworld fs') y = bal (vworld fs) y - unit_of BsfLock y)"
    and suspend_quiet: "worker_suspend e fs = (w, fs') \<Longrightarrow> quiet bal fs fs'"
    and resume_quiet: "quiet bal fs (worker_resume e w fs)"
    and pipe_check_quiet: "pipe_check e f d fl n fs = (r, fs') \<Longrightarrow> quiet bal fs fs'"
    and pipe_suspend_quiet: "quiet bal fs (pipe_suspend e f b n fs)"
    and cdev_io_quiet: "cdev_io e q dv ep b p n fl fs = (r, fs') \<Longrightarrow> quiet bal fs fs'"
    and sys_kill_quiet: "quiet bal fs (sys_kill_sigpipe e ep fs)"
    and filp_locked: "filp_locked_by_me e f fs \<longleftrightarrow> 0 < bal (vworld fs) (FLock f)"
  using assms unfolding dev_laws_def by (metis fst_conv snd_conv)+

text \<open>
  What the parts of a transfer keep, while the description \<open>f\<close> is locked: the balance and the description.
\<close>

definition kept :: "('w \<Rightarrow> resource \<Rightarrow> int) \<Rightarrow> nat \<Rightarrow> 'w vfs \<Rightarrow> 'w vfs \<Rightarrow> bool" where
  "kept bal f fs fs' \<longleftrightarrow> bal (vworld fs') = bal (vworld fs) \<and> (0 < bal (vworld fs) (FLock f) \<longrightarrow> filps fs' f = filps fs f)"

lemma kept_quiet: "quiet bal fs fs' \<Longrightarrow> kept bal f fs fs'"
  by (simp add: kept_def quiet_def stable_def)

lemma kept_refl [simp]: "kept bal f fs fs"
  by (simp add: kept_def)

lemma kept_trans [trans]: "kept bal f fs fs1 \<Longrightarrow> kept bal f fs1 fs2 \<Longrightarrow> kept bal f fs fs2"
  by (simp add: kept_def)

lemma kept_upd_fproc: "kept bal f fs fs' \<Longrightarrow> kept bal f fs (upd_fproc p h fs')"
  by (simp add: kept_def vfs_upd_defs)

lemma kept_upd_vnode: "kept bal f fs fs' \<Longrightarrow> kept bal f fs (upd_vnode v g fs')"
  by (simp add: kept_def vfs_upd_defs)

lemma kept_vprint: "kept bal f fs fs' \<Longrightarrow> kept bal f fs (vprint t a fs')"
  by (simp add: kept_def vfs_upd_defs)

lemma lock_bsf_locks:
  assumes "dev_laws e bal"
  obtains fs' where "lock_bsf e fs = Some fs'" and "stable bal fs fs'" and "\<And>y. bal (vworld fs') y = bal (vworld fs) y + unit_of BsfLock y"
proof -
  obtain r fs1 where t: "mutex_trylock_bsf e fs = (r, fs1)" by (metis surj_pair)
  obtain w fs2 where w: "worker_suspend e fs1 = (w, fs2)" by (metis surj_pair)
  obtain r1 fs3 where l: "mutex_lock_bsf e fs2 = (r1, fs3)" by (metis surj_pair)
  note T = trylock_bsf [OF assms t] and W = suspend_quiet [OF assms w] and L = mutex_lock [OF assms l]
  have R: "quiet bal fs3 (worker_resume e w fs3)" using resume_quiet [OF assms] .
  show ?thesis
  proof (cases "r = OK")
    case True
    then show ?thesis using that [of fs1] t T by (simp add: lock_bsf_def)
  next
    case False
    let ?fs = "worker_resume e w fs3"
    have "bal (vworld ?fs) y = bal (vworld fs) y + unit_of BsfLock y" for y using T False W L R by (simp add: quiet_def)
    moreover have "stable bal fs ?fs" using T False W L R by (simp add: quiet_def stable_def)
    ultimately show ?thesis using that [of ?fs] False t w l L by (simp add: lock_bsf_def)
  qed
qed

lemma unlock_bsf_unlocks:
  assumes "dev_laws e bal" and "0 < bal (vworld fs) BsfLock"
  obtains fs' where "unlock_bsf e fs = Some fs'" and "stable bal fs fs'" and "\<And>y. bal (vworld fs') y = bal (vworld fs) y - unit_of BsfLock y"
proof -
  obtain r fs1 where t: "mutex_unlock_bsf e fs = (r, fs1)" by (metis surj_pair)
  show ?thesis using that [of fs1] mutex_unlock [OF assms(1) t assms(2)] t by (simp add: unlock_bsf_def)
qed

lemmas kept_intros = kept_refl kept_upd_fproc kept_upd_vnode kept_vprint

lemma pipe_transferred_kept:
  assumes "dev_laws e bal"
  shows "kept bal f fs (snd (pipe_transferred e f vp fl c b n pp rep fs))"
  unfolding pipe_transferred_def Let_def
  by (auto intro!: kept_trans [OF _ kept_quiet [OF pipe_suspend_quiet [OF assms]]] kept_intros)

lemma rw_pipe_kept:
  assumes laws: "path_laws e bal" "dev_laws e bal" and run: "rw_pipe e d ep f b n fs = Some (r, fs')"
  shows "kept bal f fs fs'"
proof -
  obtain vp where vp: "vno f fs = Some vp" using run by (auto simp: rw_pipe_def split: option.splits)
  obtain c fs1 where pc: "pipe_check e f d (filp_flags (filps fs f)) n fs = (c, fs1)" by (metis surj_pair)
  have k1: "kept bal f fs fs1" by (rule kept_quiet [OF pipe_check_quiet [OF laws(2) pc]])
  have req: "kept bal f fs fs2" if "fs_req e ep1 rq fs1 = (rep, fs2)" for ep1 rq rep fs2
    using kept_trans [OF k1 kept_quiet [OF fs_req_quiet [OF laws(1) that]]] .
  have tr: "kept bal f fs fs3" if "fs_req e ep1 rq fs1 = (rep, fs2)" "pipe_transferred e f vp fl c0 b n pp rep fs2 = (r, fs3)"
    for ep1 rq rep fs2 fl c0 pp fs3
    using kept_trans [OF req [OF that(1)] pipe_transferred_kept [OF laws(2)]] that(2) by (metis snd_conv)
  have su: "kept bal f fs (pipe_suspend e f b n fs1)"
    using kept_trans [OF k1 kept_quiet [OF pipe_suspend_quiet [OF laws(2)]]] .
  show ?thesis using run vp pc k1 su by (auto simp: rw_pipe_def Let_def split: ret.splits if_splits prod.splits dest: req tr)
qed

lemma rw_block_kept:
  assumes laws: "path_laws e bal" "dev_laws e bal" and run: "rw_block e d f vp b n ep fs = Some (r, p, c, fs')"
    and idle: "0 \<le> bal (vworld fs) BsfLock"
  shows "kept bal f fs fs'"
proof -
  obtain fs1 where l: "lock_bsf e fs = Some fs1" "stable bal fs fs1" "\<And>y. bal (vworld fs1) y = bal (vworld fs) y + unit_of BsfLock y"
    by (rule lock_bsf_locks [OF laws(2)]) blast
  obtain fs2 where q: "quiet bal fs1 fs2" and u: "unlock_bsf e fs2 = Some fs'"
    using run l(1) unfolding rw_block_def
    by (auto simp: Let_def split: if_splits prod.splits option.splits dest: fs_req_quiet [OF laws(1)])
  have "0 < bal (vworld fs2) BsfLock" using q l(3) idle by (simp add: quiet_def)
  then have "stable bal fs2 fs'" "bal (vworld fs') y = bal (vworld fs2) y - unit_of BsfLock y" for y
    using u by (auto elim!: unlock_bsf_unlocks [OF laws(2)])
  then show ?thesis using q l(2,3) by (auto simp: kept_def quiet_def stable_def)
qed

lemma rw_char_kept:
  assumes "dev_laws e bal" and "rw_char e d f vp b n ep fs = Some (r, p, c, fs')"
  shows "kept bal f fs fs'"
  using assms(2) by (auto simp: rw_char_def Let_def split: if_splits prod.splits ret.splits
      intro!: kept_vprint dest!: kept_quiet [OF cdev_io_quiet [OF assms(1)]])

lemma rw_regular_kept:
  assumes "path_laws e bal" and "rw_regular e d f vp b n ep fs = (r, p, c, fs')"
  shows "kept bal f fs fs'"
  using assms(2) by (auto simp: rw_regular_def Let_def split: if_splits prod.splits dest!: kept_quiet [OF fs_req_quiet [OF assms(1)]])

lemma rw_transfer_kept:
  assumes "path_laws e bal" "dev_laws e bal" and "rw_transfer e rfp d f vp b n ep fs = Some (r, p, c, fs')" and "0 \<le> bal (vworld fs) BsfLock"
  shows "kept bal f fs fs'"
  using assms(3) rw_pipe_kept [OF assms(1,2)] rw_block_kept [OF assms(1,2) _ assms(4)] rw_char_kept [OF assms(2)]
    rw_regular_kept [OF assms(1)]
  by (auto simp: rw_transfer_def split: if_splits)

text \<open>A call on an open description keeps the balance and which vnode the description has.\<close>

definition still_open :: "('w \<Rightarrow> resource \<Rightarrow> int) \<Rightarrow> nat \<Rightarrow> 'w vfs \<Rightarrow> 'w vfs \<Rightarrow> bool" where
  "still_open bal f fs fs' \<longleftrightarrow> bal (vworld fs') = bal (vworld fs)
     \<and> filp_vno (filps fs' f) = filp_vno (filps fs f) \<and> filp_count (filps fs' f) = filp_count (filps fs f)"

lemma still_open_kept: "kept bal f fs fs' \<Longrightarrow> 0 < bal (vworld fs) (FLock f) \<Longrightarrow> still_open bal f fs fs'"
  by (simp add: still_open_def kept_def)

lemma still_open_trans: "still_open bal f fs fs1 \<Longrightarrow> still_open bal f fs1 fs2 \<Longrightarrow> still_open bal f fs fs2"
  by (simp add: still_open_def)

lemma rw_update_open: "still_open bal f fs (rw_update d f vp p fs)"
  by (simp add: still_open_def rw_update_def Let_def vfs_upd_defs)

lemma rw_report_open: "rw_report e d vp n p fs = Some fs' \<Longrightarrow> still_open bal f fs fs'"
  by (auto simp: still_open_def rw_report_def Let_def vfs_upd_defs split: if_splits option.splits)

lemma rw_sigpipe_open:
  assumes "dev_laws e bal" and "0 < bal (vworld fs) (FLock f)"
  shows "still_open bal f fs (rw_sigpipe e rfp d f r fs)"
  using still_open_kept [OF kept_quiet [OF sys_kill_quiet [OF assms(1)]] assms(2)] by (simp add: rw_sigpipe_def still_open_def)

lemma read_write_open:
  assumes laws: "path_laws e bal" "dev_laws e bal" and run: "read_write e rfp d f b n ep fs = Some (r, fs')"
    and lk: "0 < bal (vworld fs) (FLock f)" "0 \<le> bal (vworld fs) BsfLock"
  shows "still_open bal f fs fs'"
proof -
  obtain vp chk where vp: "vno f fs = Some vp" and c: "rw_refuse e rfp d vp n fs = Some chk"
    using run by (auto simp: read_write_def bind_eq_Some_conv)
  show ?thesis
  proof (cases chk)
    case (Inl res)
    then have "res = (r, fs')" using run vp c by (simp add: read_write_def)
    then show ?thesis using c Inl by (auto simp: rw_refuse_def still_open_def vfs_upd_defs split: if_splits)
  next
    case (Inr u)
    then obtain r1 p k fs1 fs2 where tr: "rw_transfer e rfp d f vp b n ep fs = Some (r1, p, k, fs1)"
      and rp: "rw_report e d vp n p (rw_update d f vp p fs1) = Some fs2" and fs': "fs' = rw_sigpipe e rfp d f r1 fs2"
      using run vp c by (auto simp: read_write_def bind_eq_Some_conv split: prod.splits)
    have "still_open bal f fs fs2"
      using still_open_kept [OF rw_transfer_kept [OF laws tr lk(2)] lk(1)] rw_update_open rw_report_open [OF rp] still_open_trans by metis
    moreover from this have "0 < bal (vworld fs2) (FLock f)" using lk(1) by (simp add: still_open_def)
    ultimately show ?thesis unfolding fs' using rw_sigpipe_open [OF laws(2)] still_open_trans by metis
  qed
qed

lemma unlock_open_releases:
  assumes "filp_laws e bal" and "still_open bal f fs1 fs2" and "vno f fs1 = Some v" "0 < filp_count (filps fs1 f)"
    and "\<And>y. bal (vworld fs1) y = bal (vworld fs) y + unit_of (FLock f) y + unit_of (VLock v) y"
  shows "bal (vworld (unlock_filp e f fs2)) = bal (vworld fs)"
proof
  fix y
  have "bal (vworld (unlock_filp e f fs2)) y = bal (vworld fs2) y - unit_of (FLock f) y - unit_of (VLock v) y"
    using assms(1,2,3,4) unfolding filp_laws_def still_open_def by metis
  then show "bal (vworld (unlock_filp e f fs2)) y = bal (vworld fs) y" using assms(2,5) by (simp add: still_open_def)
qed

lemma still_open_refl [simp]: "still_open bal f fs fs"
  by (simp add: still_open_def)

text \<open>What \<^verbatim>\<open>get_filp\<close> and \<^verbatim>\<open>get_filp2\<close> give to the calls below.\<close>

lemma got_filpE:
  assumes "got_filp bal fs0 (Some f, fs1)" and "bal (vworld fs0) = bal (vworld fs)" and "idle bal fs"
  obtains v where "vno f fs1 = Some v" and "0 < filp_count (filps fs1 f)"
    and "\<And>y. bal (vworld fs1) y = bal (vworld fs) y + unit_of (FLock f) y + unit_of (VLock v) y"
    and "0 < bal (vworld fs1) (FLock f)" and "0 < bal (vworld fs1) (VLock v)" and "bal (vworld fs1) BsfLock = 0"
  using assms by (auto simp: got_filp_def idle_def)

lemma actual_read_write_peek_releases:
  assumes laws: "path_laws e bal" "dev_laws e bal" "filp_laws e bal" and id0: "idle bal fs"
    and run: "actual_read_write_peek e rfp d fd b n fs = Some (r, fs')"
  shows "bal (vworld fs') = bal (vworld fs)"
proof -
  define fs0 where "fs0 = upd_scratch rfp (\<lambda>s. s\<lparr>fd_nr := fd, io_buffer := b, io_nbytes := n\<rparr>) fs"
  have b0: "bal (vworld fs0) = bal (vworld fs)" by (simp add: fs0_def)
  obtain fo fs1 where gf: "get_filp2 e rfp (fd_nr (scratch fs0 rfp)) (if d = WRITING then VNODE_WRITE else VNODE_READ) fs0 = (fo, fs1)"
    by (metis surj_pair)
  have got: "got_filp bal fs0 (fo, fs1)" using laws(3) gf unfolding filp_laws_def by metis
  note run' = run [unfolded actual_read_write_peek_def, folded fs0_def, unfolded Let_def gf prod.case]
  show ?thesis
  proof (cases fo)
    case None
    then show ?thesis using run' got b0 by (simp add: got_filp_def)
  next
    case (Some f)
    obtain v where v: "vno f fs1 = Some v" "0 < filp_count (filps fs1 f)"
      and b1: "\<And>y. bal (vworld fs1) y = bal (vworld fs) y + unit_of (FLock f) y + unit_of (VLock v) y"
      and lk: "0 < bal (vworld fs1) (FLock f)" "bal (vworld fs1) BsfLock = 0"
      using got_filpE [OF got [unfolded Some] b0 id0] by metis
    note un = unlock_open_releases [OF laws(3) _ v b1]
    show ?thesis using run' Some v(2) lk un [OF still_open_refl] un [OF read_write_open [OF laws(1,2)]]
      by (auto split: if_splits option.splits)
  qed
qed

lemma do_getdents_releases:
  assumes laws: "path_laws e bal" "filp_laws e bal" and id0: "idle bal fs"
  shows "releases bal (\<lambda>_. 0) fs (do_getdents e m fs)"
proof -
  define fs0 where "fs0 = upd_scratch (fp e) (\<lambda>s. s\<lparr>fd_nr := rw_fd m, io_buffer := rw_buf m, io_nbytes := rw_length m\<rparr>) fs"
  have b0: "bal (vworld fs0) = bal (vworld fs)" by (simp add: fs0_def)
  obtain fo fs1 where gf: "get_filp e (fd_nr (scratch fs0 (fp e))) VNODE_READ fs0 = (fo, fs1)" by (metis surj_pair)
  have got: "got_filp bal fs0 (fo, fs1)" using laws(2) gf unfolding filp_laws_def by metis
  show ?thesis
  proof (cases fo)
    case None
    then show ?thesis using gf got b0 unfolding do_getdents_def fs0_def [symmetric] by (simp add: got_filp_def releases_Some)
  next
    case (Some f)
    obtain v where v: "vno f fs1 = Some v" "0 < filp_count (filps fs1 f)"
      and b1: "\<And>y. bal (vworld fs1) y = bal (vworld fs) y + unit_of (FLock f) y + unit_of (VLock v) y"
      and lk: "0 < bal (vworld fs1) (FLock f)"
      using got_filpE [OF got [unfolded Some] b0 id0] by metis
    note un = unlock_open_releases [OF laws(2) _ v b1]
    have rq: "still_open bal f fs1 fs2" "still_open bal f fs1 (upd_filp f (filp_pos_update g) fs2)" if "fs_req e ep rq fs1 = (rep, fs2)" for ep rq rep fs2 g
      using still_open_kept [OF kept_quiet [OF fs_req_quiet [OF laws(1) that]] lk] by (simp_all add: still_open_def upd_filp_def)
    show ?thesis using gf Some v(1) un [OF still_open_refl] un [OF rq(1)] un [OF rq(2)]
      unfolding do_getdents_def fs0_def [symmetric] by (auto simp: Let_def split: prod.splits intro!: releases_Some)
  qed
qed

section \<open>Transfers on files\<close>

definition plain_file :: "mode_t \<Rightarrow> bool" where
  "plain_file md \<longleftrightarrow> \<not> S_ISFIFO md \<and> \<not> S_ISCHR md \<and> \<not> S_ISBLK md"

text \<open>The description \<open>f\<close> is locked and open on the locked vnode \<open>vp\<close>, a file on some mount point.\<close>

definition file_open :: "'w vfs_env \<Rightarrow> ('w \<Rightarrow> resource \<Rightarrow> int) \<Rightarrow> nat \<Rightarrow> nat \<Rightarrow> 'w vfs \<Rightarrow> bool" where
  "file_open e bal f vp fs \<longleftrightarrow> vno f fs = Some vp \<and> plain_file (v_mode (vnodes fs vp))
     \<and> 0 < bal (vworld fs) (FLock f) \<and> 0 < bal (vworld fs) (VLock vp) \<and> (\<forall>ep fs1. find_vmnt e ep fs1 \<noteq> None)"

definition rw_reached :: "rw \<Rightarrow> nat \<Rightarrow> nat \<Rightarrow> fs_reply \<Rightarrow> 'w vfs \<Rightarrow> int" where
  "rw_reached d f vp rep fs = (if ret_nonneg (rp_ret rep) then rp_pos rep else rw_start d f vp fs)"

definition rw_size :: "rw \<Rightarrow> nat \<Rightarrow> int \<Rightarrow> 'w vfs \<Rightarrow> int" where
  "rw_size d vp position fs =
     (if d = WRITING \<and> (S_ISREG (v_mode (vnodes fs vp)) \<or> S_ISDIR (v_mode (vnodes fs vp))) then max (v_size (vnodes fs vp)) position
      else v_size (vnodes fs vp))"

lemma rw_update_effect:
  assumes "vkey (vnodes fs1 vp) = vkey (vnodes fs vp)"
  shows "vkey (vnodes (rw_update d f vp p fs1) vp) = vkey (vnodes fs vp\<lparr>v_size := rw_size d vp p fs\<rparr>)"
    and "filps (rw_update d f vp p fs1) f = (filps fs1 f)\<lparr>filp_pos := p\<rparr>"
  using assms by (auto simp: rw_update_def rw_size_def Let_def vfs_upd_defs vkey_def max_def)

lemma rw_report_effect:
  assumes "\<forall>ep fs1. find_vmnt e ep fs1 \<noteq> None"
  shows "\<exists>fs'. rw_report e d vp n p fs = Some fs' \<and> vnodes fs' = vnodes fs \<and> filps fs' = filps fs \<and> vworld fs' = vworld fs"
proof -
  obtain m where "find_vmnt e (v_fs_e (vnodes fs vp)) fs = Some m" using assms by (metis option.exhaust)
  then show ?thesis by (simp add: rw_report_def Let_def vprint_def)
qed

lemma rw_sigpipe_effect:
  assumes "dev_laws e bal" and "0 < bal (vworld fs) (FLock f)" "0 < bal (vworld fs) (VLock v)"
  shows "vkey (vnodes (rw_sigpipe e rfp d f r fs) v) = vkey (vnodes fs v)" and "filps (rw_sigpipe e rfp d f r fs) f = filps fs f"
  using sys_kill_quiet [OF assms(1)] assms(2,3) by (simp_all add: rw_sigpipe_def quiet_def stable_def)

lemma read_write_file:
  assumes laws: "path_laws e bal" "dev_laws e bal" and op: "file_open e bal f vp fs" and n: "n \<le> SSIZE_MAX e" and d: "d \<noteq> PEEKING"
    and rq: "fs_req e (v_fs_e (vnodes fs vp)) (Req_readwrite (v_inode_nr (vnodes fs vp)) (rw_start d f vp fs) d ep b n) fs = (rep, fs1)"
  shows "\<exists>fs'. read_write e rfp d f b n ep fs = Some (if rp_ret rep = OK then Ret (int (rp_cum_io rep)) else rp_ret rep, fs')
    \<and> filps fs' f = (filps fs f)\<lparr>filp_pos := rw_reached d f vp rep fs\<rparr>
    \<and> vkey (vnodes fs' vp) = vkey (vnodes fs vp\<lparr>v_size := rw_size d vp (rw_reached d f vp rep fs) fs\<rparr>)
    \<and> bal (vworld fs') = bal (vworld fs)"
proof -
  let ?p = "rw_reached d f vp rep fs"
  have vp: "vno f fs = Some vp" and ty: "\<not> S_ISFIFO (v_mode (vnodes fs vp))" "\<not> S_ISCHR (v_mode (vnodes fs vp))" "\<not> S_ISBLK (v_mode (vnodes fs vp))"
    and lk: "0 < bal (vworld fs) (FLock f)" "0 < bal (vworld fs) (VLock vp)" and fv: "\<forall>ep fs1. find_vmnt e ep fs1 \<noteq> None"
    using op by (auto simp: file_open_def plain_file_def)
  have q: "quiet bal fs fs1" by (rule fs_req_quiet [OF laws(1) rq])
  have k1: "vkey (vnodes fs1 vp) = vkey (vnodes fs vp)" "filps fs1 f = filps fs f" "bal (vworld fs1) = bal (vworld fs)"
    using q lk by (simp_all add: quiet_def stable_def)
  have chk: "rw_refuse e rfp d vp n fs = Some (Inr ())" using n ty d by (simp add: rw_refuse_def)
  define c where "c = (if ret_nonneg (rp_ret rep) then rp_cum_io rep else 0)"
  have tr: "rw_transfer e rfp d f vp b n ep fs = Some (rp_ret rep, ?p, c, fs1)" and c: "rp_ret rep = OK \<longrightarrow> c = rp_cum_io rep"
    using ty d rq by (simp_all add: rw_transfer_def rw_regular_def Let_def rw_reached_def c_def)
  let ?fs2 = "rw_update d f vp ?p fs1"
  obtain fs3 where rp: "rw_report e d vp n ?p ?fs2 = Some fs3" and k3: "vnodes fs3 = vnodes ?fs2" "filps fs3 = filps ?fs2" "vworld fs3 = vworld ?fs2"
    using rw_report_effect [OF fv] by metis
  have b2: "vworld ?fs2 = vworld fs1" by (simp add: rw_update_def Let_def)
  have lk3: "0 < bal (vworld fs3) (FLock f)" "0 < bal (vworld fs3) (VLock vp)" using lk k3(3) b2 k1(3) by simp_all
  have b3: "bal (vworld (rw_sigpipe e rfp d f (rp_ret rep) fs3)) = bal (vworld fs)"
    using rw_sigpipe_open [OF laws(2) lk3(1)] k3(3) b2 k1(3) by (simp add: still_open_def)
  have "read_write e rfp d f b n ep fs
      = Some (if rp_ret rep = OK then Ret (int (rp_cum_io rep)) else rp_ret rep, rw_sigpipe e rfp d f (rp_ret rep) fs3)"
    using vp chk tr rp c by (simp add: read_write_def)
  then show ?thesis
    using b3 rw_sigpipe_effect [OF laws(2) lk3] k3 rw_update_effect [OF k1(1), of d f ?p] k1(2) by simp
qed

lemma vkey_sel: "vkey v = vkey w \<Longrightarrow> v_mode v = v_mode w \<and> v_fs_e v = v_fs_e w \<and> v_inode_nr v = v_inode_nr w \<and> v_size v = v_size w"
  by (simp add: vkey_def)

section \<open>Pipes\<close>

text \<open>The request that \<^verbatim>\<open>pipe_suspend\<close> records for later, as a function of the state.\<close>

definition suspend_law :: "'w vfs_env \<Rightarrow> ('w vfs \<Rightarrow> (nat \<times> nat \<times> nat) option) \<Rightarrow> bool" where
  "suspend_law e susp \<longleftrightarrow> (\<forall>f b n fs. susp (pipe_suspend e f b n fs) = Some (f, b, n)
     \<and> fp_cum_io_partial (fprocs (pipe_suspend e f b n fs) (fp e)) = fp_cum_io_partial (fprocs fs (fp e)))"

definition pipe_ready :: "'w vfs_env \<Rightarrow> ('w \<Rightarrow> resource \<Rightarrow> int) \<Rightarrow> nat \<Rightarrow> nat \<Rightarrow> 'w vfs \<Rightarrow> bool" where
  "pipe_ready e bal f vp fs \<longleftrightarrow> vno f fs = Some vp \<and> 0 < bal (vworld fs) (FLock f) \<and> 0 < bal (vworld fs) (VLock vp)"

lemma rw_pipe_write:
  assumes laws: "lock_laws e bal" "dev_laws e bal" and rd: "pipe_ready e bal f vp fs"
    and pc: "pipe_check e f WRITING (filp_flags (filps fs f)) n fs = (Ret (int k), fs1)" "0 < k"
    and mp: "v_mapfs_e (vnodes fs1 vp) \<noteq> 0"
    and rq: "fs_req e (v_mapfs_e (vnodes fs1 vp)) (Req_readwrite (v_mapinode_nr (vnodes fs1 vp)) 0 WRITING ep b k) fs1 = (rep, fs2)" "rp_ret rep = OK"
  shows "rw_pipe e WRITING ep f b n fs
    = Some (pipe_transferred e f vp (filp_flags (filps fs f)) (fp_cum_io_partial (fprocs fs (fp e))) b n (k < n) rep fs2)"
  using rd pc mp rq by (simp add: rw_pipe_def pipe_ready_def locked_by_me [OF laws(1)] filp_locked [OF laws(2)])

section \<open>Properties\<close>

text \<open>The demonstration environment with the description 0 and its vnode locked.\<close>

definition vdemo_open :: "mode_t \<Rightarrow> u32 \<Rightarrow> (resource \<Rightarrow> int) vfs" where
  "vdemo_open md fl = upd_filp 0 (filp_flags_update (\<lambda>_. fl)) (vgain (\<lambda>y. unit_of (FLock 0) y + unit_of (VLock 2) y) (vdemo_fs md))"

lemma vdemo_dev_laws: "dev_laws vdemo_env (\<lambda>w. w)"
  by (simp add: dev_laws_def vdemo_env_def quiet_def vprint_def)

lemma vdemo_open_sel [simp]:
  "vno 0 (vdemo_open md fl) = Some 2" "vnodes (vdemo_open md fl) 2 = vdemo_vnode md" "filp_flags (filps (vdemo_open md fl) 0) = fl"
  "filp_pos (filps (vdemo_open md fl) 0) = 10" "vworld (vdemo_open md fl) = (\<lambda>y. unit_of (FLock 0) y + unit_of (VLock 2) y)"
  by (simp_all add: vdemo_open_def vdemo_fs_def upd_filp_def)

lemma vdemo_vnode_sel [simp]: "v_mode (vdemo_vnode md) = md" "v_size (vdemo_vnode md) = 40" "v_fs_e (vdemo_vnode md) = 5" "v_inode_nr (vdemo_vnode md) = 70"
  by (simp_all add: vdemo_vnode_def)

lemma vdemo_file_open: "plain_file md \<Longrightarrow> file_open vdemo_env (\<lambda>w. w) 0 2 (vdemo_open md fl)"
  by (simp add: file_open_def, simp add: vdemo_env_def)

lemma vdemo_req: "fs_req vdemo_env ep rq fs = (vdemo_reply rq, fs)"
  by (simp add: vdemo_env_def)

lemma vdemo_max: "SSIZE_MAX vdemo_env = 2147483647"
  by (simp add: vdemo_env_def)

lemma plain_reg: "plain_file I_REGULAR" "plain_file I_IMMEDIATE"
  by (simp_all add: plain_file_def ftype_defs mode_consts)

text \<open>
  C20. A read or write on a file is one request to its file system, at the file position, or for an
  appending write at the recorded size. It returns the number of bytes on success and the error
  otherwise; a transfer that did not fail leaves the position where the file system says it ended. The
  recorded size only grows, to that position, and only for writes to regular files and directories.\<close>

theorem read_write_moves:
  assumes "path_laws e bal" "dev_laws e bal" and "file_open e bal f vp fs" and "n \<le> SSIZE_MAX e" and "d \<noteq> PEEKING"
    and "fs_req e (v_fs_e (vnodes fs vp)) (Req_readwrite (v_inode_nr (vnodes fs vp)) (rw_start d f vp fs) d ep b n) fs = (rep, fs1)"
  shows "\<exists>fs'. read_write e rfp d f b n ep fs = Some (if rp_ret rep = OK then Ret (int (rp_cum_io rep)) else rp_ret rep, fs')
    \<and> filp_pos (filps fs' f) = (if ret_nonneg (rp_ret rep) then rp_pos rep else rw_start d f vp fs)
    \<and> v_size (vnodes fs' vp) = (if d = WRITING \<and> (S_ISREG (v_mode (vnodes fs vp)) \<or> S_ISDIR (v_mode (vnodes fs vp)))
        then max (v_size (vnodes fs vp)) (filp_pos (filps fs' f)) else v_size (vnodes fs vp))
    \<and> bal (vworld fs') = bal (vworld fs)"
  using read_write_file [OF assms, of rfp] by (auto simp: rw_reached_def rw_size_def dest!: vkey_sel)

theorem read_write_moves_witness:
  "\<exists>fs'. read_write vdemo_env 0 WRITING 0 100 50 100 (vdemo_open I_REGULAR 0) = Some (Ret 50, fs')
    \<and> filp_pos (filps fs' 0) = 60 \<and> v_size (vnodes fs' 2) = 60"
proof -
  note rw_start_def [simp] has_def [simp]
  have "fs_req vdemo_env 5 (Req_readwrite 70 10 WRITING 100 100 50) (vdemo_open I_REGULAR 0)
      = (\<lparr>rp_ret = OK, rp_pos = 60, rp_cum_io = 50, rp_node = vdemo_node, rp_link = []\<rparr>, vdemo_open I_REGULAR 0)"
    by (simp add: vdemo_req)
  then show ?thesis
    using read_write_moves [OF vdemo_laws(1) vdemo_dev_laws vdemo_file_open [OF plain_reg(1)], of 50 WRITING 0 100 100 _ _ 0]
    by (auto simp: vdemo_max S_ISREG_def mode_consts)
qed

text \<open>
  Where the next appending write goes after an appending write: for a regular file to the end reached
  so far. For an immediate file it goes to the place of the previous one again, since only regular files
  and directories have their recorded size updated: the second append overwrites the first.\<close>

theorem append_position:
  assumes "path_laws e bal" "dev_laws e bal" and "file_open e bal f vp fs" and "n \<le> SSIZE_MAX e"
    and "has (filp_flags (filps fs f)) O_APPEND"
    and "fs_req e (v_fs_e (vnodes fs vp)) (Req_readwrite (v_inode_nr (vnodes fs vp)) (v_size (vnodes fs vp)) WRITING ep b n) fs = (rep, fs1)"
  shows "\<exists>r fs'. read_write e rfp WRITING f b n ep fs = Some (r, fs')
    \<and> (v_mode (vnodes fs vp) AND I_TYPE = I_REGULAR \<longrightarrow> rw_start WRITING f vp fs' = max (v_size (vnodes fs vp)) (filp_pos (filps fs' f)))
    \<and> (v_mode (vnodes fs vp) AND I_TYPE = I_IMMEDIATE \<longrightarrow> rw_start WRITING f vp fs' = rw_start WRITING f vp fs)"
proof -
  have st: "rw_start WRITING f vp fs = v_size (vnodes fs vp)" using assms(5) by (simp add: rw_start_def)
  obtain r fs' where run: "read_write e rfp WRITING f b n ep fs = Some (r, fs')"
    and k: "filps fs' f = (filps fs f)\<lparr>filp_pos := rw_reached WRITING f vp rep fs\<rparr>"
      "vkey (vnodes fs' vp) = vkey (vnodes fs vp\<lparr>v_size := rw_size WRITING vp (rw_reached WRITING f vp rep fs) fs\<rparr>)"
    using read_write_file [OF assms(1-4) _ assms(6) [folded st], of rfp] by auto
  have "rw_start WRITING f vp fs' = rw_size WRITING vp (rw_reached WRITING f vp rep fs) fs"
    using k(1) assms(5) vkey_sel [OF k(2)] by (simp add: rw_start_def)
  then show ?thesis using run k(1) st by (auto simp: rw_size_def ftype_defs mode_consts)
qed

theorem append_position_witness:
  "\<exists>r fs'. read_write vdemo_env 0 WRITING 0 100 50 100 (vdemo_open I_IMMEDIATE O_APPEND) = Some (r, fs')
    \<and> rw_start WRITING 0 2 fs' = 40"
  using append_position [OF vdemo_laws(1) vdemo_dev_laws vdemo_file_open [OF plain_reg(2)], of 50 O_APPEND 100 100 _ _ 0]
  by (auto simp: vdemo_req vdemo_max has_def oflag_defs rw_start_def mode_consts)

text \<open>
  C19. A write to a pipe accounts for every byte: when the pipe takes fewer bytes than asked and the writer
  does not refuse to block, the bytes written so far and the bytes still to be written are together what
  they were, the request put aside ends where the original one ended, and otherwise the call returns the
  total over all its parts and clears the counter.\<close>

theorem pipe_write_conserves:
  assumes "lock_laws e bal" "dev_laws e bal" and "suspend_law e susp" and "pipe_ready e bal f vp fs"
    and "pipe_check e f WRITING (filp_flags (filps fs f)) n fs = (Ret (int k), fs1)" "0 < k" "k \<le> n" and "v_mapfs_e (vnodes fs1 vp) \<noteq> 0"
    and "fs_req e (v_mapfs_e (vnodes fs1 vp)) (Req_readwrite (v_mapinode_nr (vnodes fs1 vp)) 0 WRITING ep b k) fs1 = (rep, fs2)"
    and "rp_ret rep = OK" "rp_cum_io rep = k"
  shows "\<exists>r fs'. rw_pipe e WRITING ep f b n fs = Some (r, fs')
    \<and> (if k < n \<and> \<not> has (filp_flags (filps fs f)) O_NONBLOCK
       then r = Err SUSPEND \<and> (\<exists>b' n'. susp fs' = Some (f, b', n') \<and> b' + n' = b + n \<and> n' < n
         \<and> fp_cum_io_partial (fprocs fs' (fp e)) + n' = fp_cum_io_partial (fprocs fs (fp e)) + n)
       else r = Ret (int (fp_cum_io_partial (fprocs fs (fp e)) + k)) \<and> fp_cum_io_partial (fprocs fs' (fp e)) = 0)"
proof -
  note run = rw_pipe_write [OF assms(1,2,4,5,6,8,9,10)]
  show ?thesis
  proof (cases "k < n \<and> \<not> has (filp_flags (filps fs f)) O_NONBLOCK")
    case True
    then show ?thesis using assms(3,6,11) unfolding run pipe_transferred_def suspend_law_def Let_def if_P [OF True] by (simp add: upd_fproc_def)
  next
    case False
    then show ?thesis using assms(11) unfolding run pipe_transferred_def Let_def if_not_P [OF False] by (simp add: upd_fproc_def)
  qed
qed

definition vdemo_susp :: "(resource \<Rightarrow> int) vfs \<Rightarrow> (nat \<times> nat \<times> nat) option" where
  "vdemo_susp fs = (case last (vconsole fs) of (t, [AInt f, AInt b, AInt n]) \<Rightarrow> Some (nat f, nat b, nat n) | _ \<Rightarrow> None)"

theorem pipe_write_conserves_witness:
  "\<exists>fs' b' n'. rw_pipe vdemo_env WRITING 100 0 1000 600 (vdemo_open I_NAMED_PIPE 0) = Some (Err SUSPEND, fs')
    \<and> vdemo_susp fs' = Some (0, b', n') \<and> b' + n' = 1600 \<and> fp_cum_io_partial (fprocs fs' 0) + n' = 600"
proof -
  let ?fs = "vdemo_open I_NAMED_PIPE 0"
  have law: "suspend_law vdemo_env vdemo_susp"
    by (simp add: suspend_law_def vdemo_env_def vdemo_susp_def vprint_def printf_def)
  have rd: "pipe_ready vdemo_env (\<lambda>w. w) 0 2 ?fs" by (simp add: pipe_ready_def)
  have pc: "pipe_check vdemo_env 0 WRITING (filp_flags (filps ?fs 0)) 600 ?fs = (Ret (int 512), ?fs)" by (simp add: vdemo_env_def)
  have mp: "v_mapfs_e (vnodes ?fs 2) \<noteq> 0" by (simp add: vdemo_vnode_def)
  have z: "fp vdemo_env = 0" "fp_cum_io_partial (fprocs ?fs 0) = 0" by (simp_all add: vdemo_env_def vdemo_open_def vdemo_fs_def upd_filp_def vgain_def)
  note rule = pipe_write_conserves [OF vdemo_laws(2) vdemo_dev_laws law rd pc _ _ mp vdemo_req, of 100 1000]
  have "\<exists>r fs'. rw_pipe vdemo_env WRITING 100 0 1000 600 ?fs = Some (r, fs')
    \<and> r = Err SUSPEND \<and> (\<exists>b' n'. vdemo_susp fs' = Some (0, b', n') \<and> b' + n' = 1600 \<and> fp_cum_io_partial (fprocs fs' 0) + n' = 600)"
    using rule z by (auto simp: has_def)
  then show ?thesis by auto
qed

end
