(* ===== verification/VFS_Open.thy ===== *)
theory VFS_Open
  imports VFS_Read
begin

text \<open>
  The calls of \<^verbatim>\<open>src/Lab-10/vfs/open.c\<close>: open and creat, mknod, mkdir, lseek and close. \<^verbatim>\<open>new_node\<close> calls
  itself along symbolic links and need not end, so it is a partial function: \<^const>\<open>None\<close> stands for a call
  that does not return, a panic, or the use of a null pointer.

  Main results: opening a file takes exactly one reference when it succeeds and nothing when it fails;
  a created file is immediate; seeking detects exactly the overflow of a 64-bit offset; closing a file
  drops exactly the caller's locks on it and keeps the lock count exact; and \<^verbatim>\<open>new_node\<close> uses a null pointer
  when the target of a dangling link cannot be created.
\<close>

section \<open>Operations\<close>

definition mode_map :: "mode_t list" where
  "mode_map = [R_BIT, W_BIT, R_BIT OR W_BIT, 0]"

definition ALLPERMS :: mode_t where "ALLPERMS = 0xFFF"
definition ACCESSPERMS :: mode_t where "ACCESSPERMS = 0x1FF"

text \<open>
  One round of \<^verbatim>\<open>new_node\<close> ends with a result, or asks for another round: with the path that the lookups
  left when it is absolute again, or with the text of a dangling symbolic link, starting from the
  directory the link is in.
\<close>

datatype 'w node_step = Done "nat option" string "'w vfs" | Again string "'w vfs" | Dangling nat nat string "'w vfs"

definition node_created :: "nat \<Rightarrow> nat \<Rightarrow> node_details \<Rightarrow> 'w vfs \<Rightarrow> 'w vfs" where
  "node_created vp dirp res fs =
     upd_vnode vp (\<lambda>v. v\<lparr>v_fs_e := nd_fs_e res, v_inode_nr := nd_inode_nr res, v_mode := nd_fmode res, v_size := nd_fsize res,
       v_uid := nd_uid res, v_gid := nd_gid res, v_sdev := nd_dev res, v_vmnt := v_vmnt (vnodes fs dirp),
       v_dev := m_dev (vmnts fs ! v_vmnt (vnodes fs dirp)), v_fs_count := 1, v_ref_count := 1\<rparr>) fs"

text \<open>The end of a round: store the result in \<^verbatim>\<open>err_code\<close> and let go of the directory.\<close>

definition node_finish :: "'w vfs_env \<Rightarrow> nat \<Rightarrow> nat \<Rightarrow> nat option \<Rightarrow> ret \<Rightarrow> string \<Rightarrow> 'w vfs \<Rightarrow> 'w node_step" where
  "node_finish e dirp m vp r path fs =
     (let fs1 = set_err r fs;
          fs2 = (if Some dirp \<noteq> vp then unlock_vnode e dirp fs1 else fs1)
      in Done vp path (put_vnode e dirp (unlock_vmnt e m fs2)))"

text \<open>The name exists although the lookup did not find it: follow the symbolic link it is.\<close>

definition node_dangling :: "'w vfs_env \<Rightarrow> nat \<Rightarrow> nat \<Rightarrow> nat \<Rightarrow> string \<Rightarrow> 'w vfs \<Rightarrow> 'w node_step" where
  "node_dangling e dirp m vp path fs =
     (case advance e dirp \<lparr>l_path = path, l_flags = {PATH_RET_SYMLINK}, l_vmnt_lock = VMNT_WRITE, l_vnode_lock = VNODE_READ\<rparr> (fp e) fs
      of (lr, fs1) \<Rightarrow>
        let retry = (\<lambda>path1 fs2. Dangling dirp m path1 (unlock_vmnt e m (unlock_vnode e vp (unlock_vnode e dirp fs2)))) in
        (case lk_found lr of None \<Rightarrow> retry (lk_path lr) fs1
         | Some slp \<Rightarrow>
             if S_ISLNK (v_mode (vnodes fs1 slp)) then
               case fs_req e (v_fs_e (vnodes fs1 slp)) (Req_rdlink (v_inode_nr (vnodes fs1 slp)) (VFS_PROC_NR e) 0 (PATH_MAX e - 1) False) fs1
               of (rep, fs2) \<Rightarrow>
                 if ret_nonneg (rp_ret rep)
                 then retry (case rp_ret rep of Ret n \<Rightarrow> take (nat n) (rp_link rep) | Err _ \<Rightarrow> []) (put_vnode e slp (unlock_vnode e slp fs2))
                 else Done None (lk_path lr) (set_err (rp_ret rep)
                        (put_vnode e dirp (put_vnode e slp (unlock_vmnt e m (unlock_vnode e dirp (unlock_vnode e slp fs2))))))
             else retry (lk_path lr) (put_vnode e slp (unlock_vnode e slp fs1))))"

definition node_create :: "'w vfs_env \<Rightarrow> nat \<Rightarrow> nat \<Rightarrow> mode_t \<Rightarrow> string \<Rightarrow> 'w vfs \<Rightarrow> 'w node_step" where
  "node_create e dirp m bits path fs =
     (case get_free_vnode e fs of (vo, fs1) \<Rightarrow>
      (case vo of None \<Rightarrow> Done None path (put_vnode e dirp (unlock_vmnt e m (unlock_vnode e dirp fs1)))
       | Some vp \<Rightarrow>
           let fs2 = upgrade_vmnt_lock e m (lock_vnode e vp VNODE_OPCL fs1);
               (r, rep, fs3) =
                 (case forbidden e (fp e) dirp (W_BIT OR X_BIT) fs2 of (r, fs3) \<Rightarrow>
                  if r \<noteq> OK then (r, None, fs3)
                  else case fs_req e (v_fs_e (vnodes fs3 dirp)) (Req_create (v_inode_nr (vnodes fs3 dirp)) bits
                      (fp_effuid (fprocs fs3 (fp e))) (fp_effgid (fprocs fs3 (fp e))) path) fs3
                    of (rep, fs4) \<Rightarrow> (rp_ret rep, Some rep, fs4))
           in (case rep of
                 Some rp \<Rightarrow>
                   if r = OK then node_finish e dirp m (Some vp) OK path (node_created vp dirp (rp_node rp) fs3)
                   else if r = Err EEXIST then node_dangling e dirp m vp path (downgrade_vmnt_lock e m fs3)
                   else Done None path (put_vnode e dirp (unlock_vnode e vp (unlock_vnode e dirp (unlock_vmnt e m
                          (set_err r (downgrade_vmnt_lock e m fs3))))))
               | None \<Rightarrow>
                   if r = Err EEXIST then node_dangling e dirp m vp path (downgrade_vmnt_lock e m fs3)
                   else Done None path (put_vnode e dirp (unlock_vnode e vp (unlock_vnode e dirp (unlock_vmnt e m
                          (set_err r (downgrade_vmnt_lock e m fs3)))))))))"

definition new_node_step :: "'w vfs_env \<Rightarrow> string \<Rightarrow> path_flag set \<Rightarrow> u32 \<Rightarrow> mode_t \<Rightarrow> 'w vfs \<Rightarrow> 'w node_step option" where
  "new_node_step e path flags oflags bits fs =
     (let fl = (if has oflags O_EXCL then flags \<union> {PATH_RET_SYMLINK} else flags) in
      case last_dir e \<lparr>l_path = path, l_flags = fl, l_vmnt_lock = VMNT_WRITE, l_vnode_lock = VNODE_WRITE\<rparr> (fp e) fs of (lr, fs1) \<Rightarrow>
      (case lk_found lr of None \<Rightarrow> Some (Done None (lk_path lr) fs1)
       | Some dirp \<Rightarrow>
           case advance e dirp \<lparr>l_path = lk_path lr, l_flags = fl, l_vmnt_lock = VMNT_WRITE,
               l_vnode_lock = (if has oflags O_TRUNC then VNODE_WRITE else VNODE_OPCL)\<rparr> (fp e) fs1
           of (lr2, fs2) \<Rightarrow>
             if lk_vmnt lr2 \<noteq> None then None
             else case lk_vmnt lr of None \<Rightarrow> None
             | Some m \<Rightarrow>
                 if take 1 (lk_path lr2) = ''/'' then
                   let fs3 = put_vnode e dirp (unlock_vmnt e m (unlock_vnode e dirp fs2))
                   in Some (Again (lk_path lr2) (case lk_found lr2 of None \<Rightarrow> fs3 | Some vp \<Rightarrow> put_vnode e vp (unlock_vnode e vp fs3)))
                 else if lk_found lr2 = None \<and> verr fs2 = Err ENOENT then Some (node_create e dirp m bits (lk_path lr2) fs2)
                 else Some (node_finish e dirp m (lk_found lr2) (if lk_found lr2 \<noteq> None then Err EEXIST else verr fs2) (lk_path lr2) fs2)))"

text \<open>
  The whole of \<^verbatim>\<open>new_node\<close>. After a recursive call that fails, \<^verbatim>\<open>vp\<close> is \<^verbatim>\<open>NULL\<close> and the clean-up uses it.
\<close>

partial_function (option) new_node :: "'w vfs_env \<Rightarrow> string \<Rightarrow> path_flag set \<Rightarrow> u32 \<Rightarrow> mode_t \<Rightarrow> 'w vfs \<Rightarrow> (nat option \<times> 'w vfs) option" where
  "new_node e path flags oflags bits fs =
     (case new_node_step e path flags oflags bits fs of
        None \<Rightarrow> None
      | Some (Done vp path1 fs1) \<Rightarrow> Some (vp, fs1)
      | Some (Again path1 fs1) \<Rightarrow> new_node e path1 flags oflags bits fs1
      | Some (Dangling dirp m path1 fs1) \<Rightarrow>
          Option.bind (new_node e path1 flags oflags bits (upd_fproc (fp e) (fp_wd_update (\<lambda>_. Some dirp)) fs1))
            (\<lambda>(vo, fs2).
               (case vo of None \<Rightarrow> None
                | Some vp \<Rightarrow> Some (Some vp, put_vnode e dirp (upd_fproc (fp e) (fp_wd_update (\<lambda>_. fp_wd (fprocs fs1 (fp e)))) fs2)))))"

definition pipe_open :: "'w vfs_env \<Rightarrow> nat \<Rightarrow> mode_t \<Rightarrow> u32 \<Rightarrow> 'w vfs \<Rightarrow> ret \<times> 'w vfs" where
  "pipe_open e vp bits oflags fs =
     (if bits AND (R_BIT OR W_BIT) = R_BIT OR W_BIT then (Err ENXIO, fs)
      else if find_filp e vp (if has bits W_BIT then R_BIT else W_BIT) fs = None then
        if has oflags O_NONBLOCK then if has bits W_BIT then (Err ENXIO, fs) else (OK, fs)
        else (Err SUSPEND, suspend_popen e fs)
      else if 0 < susp_count fs then (OK, release_open e vp (susp_count fs) fs)
      else (OK, fs))"

text \<open>The file system responsible for a block device: the last mount point with that device, or the root.\<close>

definition bsf_owner :: "'w vfs_env \<Rightarrow> dev_t \<Rightarrow> vmnt list \<Rightarrow> endpoint_t" where
  "bsf_owner e dev ms = foldl (\<lambda>ep m. if m_dev m = dev \<and> \<not> m_forceroot m then m_fs_e m else ep) (ROOT_FS_E e) ms"

definition open_block :: "'w vfs_env \<Rightarrow> nat \<Rightarrow> mode_t \<Rightarrow> 'w vfs \<Rightarrow> (ret \<times> 'w vfs) option" where
  "open_block e vp bits fs =
     do { fs1 \<leftarrow> lock_bsf e fs;
          let dev = v_sdev (vnodes fs1 vp);
          let (r, fs2) = bdev_open e dev bits fs1;
          if r \<noteq> OK then map_option (Pair r) (unlock_bsf e fs2)
          else if dmap_driver e (v_sdev (vnodes fs2 vp)) fs2 = NONE_E e then
            map_option (Pair (Err ENXIO)) (unlock_bsf e (vprint ''VFS: block driver disappeared!'' [] fs2))
          else do {
            let owner = bsf_owner e (v_sdev (vnodes fs2 vp)) (vmnts fs2);
            let fs3 = upd_vnode vp (v_bfs_e_update (\<lambda>_. owner)) fs2;
            if owner \<noteq> ROOT_FS_E e then map_option (Pair OK) (unlock_bsf e fs3)
            else do {
              let (r1, fs4) = req e owner (Req_newdriver (v_sdev (vnodes fs3 vp)) (dmap_label e (v_sdev (vnodes fs3 vp)) fs3)) fs3;
              if r1 \<noteq> OK then map_option (Pair (Err ENXIO)) (unlock_bsf e (bdev_close e dev (vprint ''VFS: error sending driver label'' [] fs4)))
              else map_option (Pair OK) (unlock_bsf e fs4) } } }"

definition open_fifo_share :: "'w vfs_env \<Rightarrow> nat \<Rightarrow> nat \<Rightarrow> mode_t \<Rightarrow> u32 \<Rightarrow> 'w vfs \<Rightarrow> 'w vfs" where
  "open_fifo_share e f vp bits oflags fs =
     (let fs1 = upd_filp f (filp_count_update (\<lambda>_. 0)) fs in
      case find_filp e vp (if has bits R_BIT then R_BIT else W_BIT) fs1 of
        Some f2 \<Rightarrow>
          put_vnode e vp (unlock_vnode e vp
            (upd_filp f2 (\<lambda>x. x\<lparr>filp_count := filp_count x + 1, filp_vno := Some vp, filp_flags := oflags\<rparr>)
              (upd_fproc (fp e) (\<lambda>p. p\<lparr>fp_filp := (fp_filp p)(nat (fd_nr (scratch fs1 (fp e))) := Some f2)\<rparr>) fs1)))
      | None \<Rightarrow> upd_filp f (filp_count_update (\<lambda>_. 1)) fs1)"

definition open_fifo :: "'w vfs_env \<Rightarrow> nat \<Rightarrow> nat \<Rightarrow> mode_t \<Rightarrow> u32 \<Rightarrow> 'w vfs \<Rightarrow> (ret \<times> 'w vfs) option" where
  "open_fifo e f vp bits oflags fs =
     (case map_vnode e vp (PFS_PROC_NR e) (upgrade_vnode_lock e vp fs) of (r, fs1) \<Rightarrow>
      let fl = (if r = OK then oflags OR O_APPEND else oflags) in
      do { (r1, fs2) \<leftarrow>
             (if r = OK then
                do { (r1, fs2) \<leftarrow> (if v_ref_count (vnodes fs1 vp) = 1 \<and> v_size (vnodes fs1 vp) \<noteq> 0 then truncate_vnode e vp 0 fs1 else Some (OK, fs1));
                     Some (r1, upd_filp f (filp_flags_update (\<lambda>_. fl)) fs2) }
              else Some (r, fs1));
           let (r2, fs3) = (if r1 = OK then pipe_open e vp bits fl fs2 else (r1, fs2));
           Some (r2, if r2 \<noteq> Err ENXIO then open_fifo_share e f vp bits fl fs3 else fs3) })"

text \<open>
  Opening something that exists. The second component is \<^verbatim>\<open>vp\<close>, which a cloning device may have changed.
\<close>

definition open_existing :: "'w vfs_env \<Rightarrow> nat \<Rightarrow> nat \<Rightarrow> mode_t \<Rightarrow> u32 \<Rightarrow> 'w vfs \<Rightarrow> (ret \<times> nat option \<times> 'w vfs) option" where
  "open_existing e f vp bits oflags fs =
     (case forbidden e (fp e) vp bits fs of (r, fs1) \<Rightarrow>
      let ty = v_mode (vnodes fs1 vp) AND I_TYPE; here = map_option (\<lambda>(r1, fs2). (r1, Some vp, fs2)) in
      if r \<noteq> OK then Some (r, Some vp, fs1)
      else if ty = I_REGULAR \<or> ty = I_IMMEDIATE then
        if has oflags O_TRUNC then
          case forbidden e (fp e) vp W_BIT fs1 of (r1, fs2) \<Rightarrow>
            if r1 \<noteq> OK then Some (r1, Some vp, fs2)
            else (case truncate_vnode e vp 0 (upgrade_vnode_lock e vp fs2) of None \<Rightarrow> None | Some (r2, fs3) \<Rightarrow> Some (OK, Some vp, fs3))
        else Some (OK, Some vp, fs1)
      else if ty = I_DIRECTORY then Some (if has bits W_BIT then Err EISDIR else OK, Some vp, fs1)
      else if ty = I_CHAR_SPECIAL then
        (case cdev_open e (v_sdev (vnodes fs1 vp)) (bits OR (oflags AND O_NOCTTY)) fs1 of (r1, fs2) \<Rightarrow> Some (r1, vno f fs2, fs2))
      else if ty = I_BLOCK_SPECIAL then here (open_block e vp bits fs1)
      else if ty = I_NAMED_PIPE then here (open_fifo e f vp bits oflags fs1)
      else Some (OK, Some vp, fs1))"

definition open_claim :: "'w vfs_env \<Rightarrow> nat \<Rightarrow> nat \<Rightarrow> u32 \<Rightarrow> 'w vfs \<Rightarrow> 'w vfs" where
  "open_claim e f vp oflags fs =
     (let fd = nat (fd_nr (scratch fs (fp e)));
          fs1 = upd_fproc (fp e) (\<lambda>p. p\<lparr>fp_filp := (fp_filp p)(fd := Some f)\<rparr>) fs;
          fs2 = upd_filp f (\<lambda>x. x\<lparr>filp_count := 1, filp_vno := Some vp, filp_flags := oflags\<rparr>) fs1
      in if has oflags O_CLOEXEC then upd_fproc (fp e) (\<lambda>p. p\<lparr>fp_cloexec_set := insert fd (fp_cloexec_set p)\<rparr>) fs2 else fs2)"

definition open_end :: "'w vfs_env \<Rightarrow> nat \<Rightarrow> nat option \<Rightarrow> ret \<Rightarrow> 'w vfs \<Rightarrow> (ret \<times> 'w vfs) option" where
  "open_end e f vo r fs =
     (let fs1 = unlock_filp e f fs; fd = fd_nr (scratch fs1 (fp e)) in
      if r = OK then Some (Ret fd, fs1)
      else if r = Err SUSPEND then Some (r, fs1)
      else case vo of None \<Rightarrow> None
      | Some vp \<Rightarrow>
          Some (r, put_vnode e vp (upd_filp f (\<lambda>x. x\<lparr>filp_count := 0, filp_vno := None\<rparr>)
            (upd_fproc (fp e) (\<lambda>p. p\<lparr>fp_filp := (fp_filp p)(nat fd := None)\<rparr>) fs1))))"

definition open_vnode :: "'w vfs_env \<Rightarrow> nat \<Rightarrow> nat \<Rightarrow> bool \<Rightarrow> mode_t \<Rightarrow> u32 \<Rightarrow> ret \<Rightarrow> 'w vfs \<Rightarrow> (ret \<times> 'w vfs) option" where
  "open_vnode e f vp exist bits oflags r fs =
     (let fs1 = open_claim e f vp oflags fs in
      if exist then case open_existing e f vp bits oflags fs1 of None \<Rightarrow> None | Some (r1, vo, fs2) \<Rightarrow> open_end e f vo r1 fs2
      else open_end e f (Some vp) r fs1)"

definition open_create :: "'w vfs_env \<Rightarrow> string \<Rightarrow> nat \<Rightarrow> mode_t \<Rightarrow> u32 \<Rightarrow> mode_t \<Rightarrow> 'w vfs \<Rightarrow> (ret \<times> 'w vfs) option" where
  "open_create e path f bits oflags omode fs =
     (case new_node e path {} oflags (I_IMMEDIATE OR (omode AND ALLPERMS AND fp_umask (fprocs fs (fp e)))) fs of
        None \<Rightarrow> None
      | Some (vo, fs1) \<Rightarrow>
          let r = verr fs1 in
          if r = OK then
            (case vo of None \<Rightarrow> None
             | Some vp \<Rightarrow>
                 (case find_vmnt e (v_fs_e (vnodes fs1 vp)) fs1 of None \<Rightarrow> None
                  | Some m \<Rightarrow>
                      let fs2 = (if m_mount_path (vmnts fs1 ! m) = ''/home''
                                 then vprint ''File Created: %llu'' [AInt (int (v_inode_nr (vnodes fs1 vp)))] fs1 else fs1)
                      in open_vnode e f vp False bits oflags r fs2))
          else if r \<noteq> Err EEXIST then
            Some (r, unlock_filp e f (case vo of None \<Rightarrow> fs1 | Some vp \<Rightarrow> unlock_vnode e vp fs1))
          else (case vo of None \<Rightarrow> None | Some vp \<Rightarrow> open_vnode e f vp (\<not> has oflags O_EXCL) bits oflags r fs1))"

definition open_lookup :: "'w vfs_env \<Rightarrow> string \<Rightarrow> nat \<Rightarrow> mode_t \<Rightarrow> u32 \<Rightarrow> 'w vfs \<Rightarrow> (ret \<times> 'w vfs) option" where
  "open_lookup e path f bits oflags fs =
     (case eat_path e \<lparr>l_path = path, l_flags = {}, l_vmnt_lock = VMNT_READ, l_vnode_lock = VNODE_OPCL\<rparr> (fp e) fs of (lr, fs1) \<Rightarrow>
      (case lk_found lr of
         None \<Rightarrow> let fs2 = unlock_filp e f fs1 in Some (verr fs2, fs2)
       | Some vp \<Rightarrow> open_vnode e f vp True bits oflags OK (case lk_vmnt lr of None \<Rightarrow> fs1 | Some m \<Rightarrow> unlock_vmnt e m fs1)))"

definition common_open :: "'w vfs_env \<Rightarrow> string \<Rightarrow> u32 \<Rightarrow> mode_t \<Rightarrow> 'w vfs \<Rightarrow> (ret \<times> 'w vfs) option" where
  "common_open e path oflags omode fs =
     (let bits = mode_map ! unat (oflags AND O_ACCMODE) in
      if bits = 0 then Some (Err EINVAL, fs)
      else case get_fd e (fp e) 0 bits fs of (r, fd, f, fs1) \<Rightarrow>
        if r \<noteq> OK then Some (r, fs1)
        else let fs2 = upd_scratch (fp e) (fd_nr_update (\<lambda>_. fd)) fs1 in
          if has oflags O_CREAT then open_create e path f bits oflags omode fs2 else open_lookup e path f bits oflags fs2)"

definition do_open :: "'w vfs_env \<Rightarrow> u32 \<Rightarrow> 'w vfs \<Rightarrow> (ret \<times> 'w vfs) option" where
  "do_open e open_flags fs =
     (if has open_flags O_CREAT then Some (Err EINVAL, fs)
      else case copy_path e fs of (r, path, fs1) \<Rightarrow> if r \<noteq> OK then Some (verr fs1, fs1) else common_open e path open_flags 0 fs1)"

record creat_msg =
  c_name :: nat
  c_len :: nat
  c_flags :: u32
  c_mode :: mode_t

definition do_creat :: "'w vfs_env \<Rightarrow> creat_msg \<Rightarrow> 'w vfs \<Rightarrow> (ret \<times> 'w vfs) option" where
  "do_creat e m fs =
     (if \<not> has (c_flags m) O_CREAT then Some (Err EINVAL, fs)
      else case fetch_name e (c_name m) (c_len m) fs of (r, path, fs1) \<Rightarrow>
        if r \<noteq> OK then Some (verr fs1, fs1) else common_open e path (c_flags m) (c_mode m) fs1)"

record mknod_msg =
  mk_name :: nat
  mk_len :: nat
  mk_mode :: mode_t
  mk_dev :: dev_t

text \<open>The common part of mknod and mkdir: the directory of the new node was found.\<close>

definition make_in :: "'w vfs_env \<Rightarrow> nat \<Rightarrow> nat option \<Rightarrow> ('w vfs \<Rightarrow> fs_request) \<Rightarrow> 'w vfs \<Rightarrow> (ret \<times> 'w vfs) option" where
  "make_in e vp vmp rq fs =
     (if \<not> S_ISDIR (v_mode (vnodes fs vp)) then return_node e vp vmp (Err ENOTDIR) fs
      else case forbidden e (fp e) vp (W_BIT OR X_BIT) fs of (r, fs1) \<Rightarrow>
        if r \<noteq> OK then return_node e vp vmp r fs1
        else case req e (v_fs_e (vnodes fs1 vp)) (rq fs1) fs1 of (r1, fs2) \<Rightarrow> return_node e vp vmp r1 fs2)"

definition do_mknod :: "'w vfs_env \<Rightarrow> mknod_msg \<Rightarrow> 'w vfs \<Rightarrow> (ret \<times> 'w vfs) option" where
  "do_mknod e m fs =
     (if \<not> super_user e \<and> \<not> S_ISFIFO (mk_mode m) \<and> \<not> S_ISSOCK (mk_mode m) then Some (Err EPERM, fs)
      else let bits = (mk_mode m AND I_TYPE) OR (mk_mode m AND ACCESSPERMS AND fp_umask (fprocs fs (fp e))) in
      case fetch_name e (mk_name m) (mk_len m) fs of (r0, path, fs1) \<Rightarrow>
      if r0 \<noteq> OK then Some (verr fs1, fs1)
      else case last_dir e \<lparr>l_path = path, l_flags = {}, l_vmnt_lock = VMNT_WRITE, l_vnode_lock = VNODE_WRITE\<rparr> (fp e) fs1 of (lr, fs2) \<Rightarrow>
        (case lk_found lr of None \<Rightarrow> Some (verr fs2, fs2)
         | Some vp \<Rightarrow> make_in e vp (lk_vmnt lr) (\<lambda>fs3. Req_mknod (v_inode_nr (vnodes fs3 vp)) (lk_path lr)
             (fp_effuid (fprocs fs3 (fp e))) (fp_effgid (fprocs fs3 (fp e))) bits (mk_dev m)) fs2))"

definition do_mkdir :: "'w vfs_env \<Rightarrow> mode_t \<Rightarrow> 'w vfs \<Rightarrow> (ret \<times> 'w vfs) option" where
  "do_mkdir e dirmode fs =
     (case copy_path e fs of (r0, path, fs1) \<Rightarrow>
      if r0 \<noteq> OK then Some (verr fs1, fs1)
      else let bits = I_DIRECTORY OR (dirmode AND RWX_MODES AND fp_umask (fprocs fs1 (fp e))) in
      case last_dir e \<lparr>l_path = path, l_flags = {}, l_vmnt_lock = VMNT_WRITE, l_vnode_lock = VNODE_WRITE\<rparr> (fp e) fs1 of (lr, fs2) \<Rightarrow>
        (case lk_found lr of None \<Rightarrow> Some (verr fs2, fs2)
         | Some vp \<Rightarrow> make_in e vp (lk_vmnt lr) (\<lambda>fs3. Req_mkdir (v_inode_nr (vnodes fs3 vp)) (lk_path lr)
             (fp_effuid (fprocs fs3 (fp e))) (fp_effgid (fprocs fs3 (fp e))) bits) fs2))"

text \<open>\<^verbatim>\<open>off_t\<close> has 64 bits; the addition wraps around.\<close>

definition off_add :: "int \<Rightarrow> int \<Rightarrow> int" where
  "off_add a b = sint (word_of_int (a + b) :: 64 word)"

datatype whence = SEEK_SET | SEEK_CUR | SEEK_END | SEEK_OTHER int

fun seek_base :: "whence \<Rightarrow> nat \<Rightarrow> nat \<Rightarrow> 'w vfs \<Rightarrow> int option" where
  "seek_base SEEK_SET f vp fs = Some 0"
| "seek_base SEEK_CUR f vp fs = Some (filp_pos (filps fs f))"
| "seek_base SEEK_END f vp fs = Some (v_size (vnodes fs vp))"
| "seek_base (SEEK_OTHER n) f vp fs = None"

text \<open>The second component of the result is what was stored through \<^verbatim>\<open>newposp\<close>, if anything.\<close>

definition seek_to :: "'w vfs_env \<Rightarrow> nat \<Rightarrow> nat \<Rightarrow> int \<Rightarrow> int \<Rightarrow> 'w vfs \<Rightarrow> ret \<times> int option \<times> 'w vfs" where
  "seek_to e f vp pos offset fs =
     (let newpos = off_add pos offset in
      if 0 < offset \<and> newpos \<le> pos then (Err EOVERFLOW, None, fs)
      else if offset < 0 \<and> pos \<le> newpos then (Err EOVERFLOW, None, fs)
      else if newpos \<noteq> filp_pos (filps fs f) then
        let fs1 = upd_filp f (filp_pos_update (\<lambda>_. newpos)) fs;
            (r, fs2) = req e (v_fs_e (vnodes fs1 vp)) (Req_inhibread (v_inode_nr (vnodes fs1 vp))) fs1
        in (r, Some newpos, fs2)
      else (OK, Some newpos, fs))"

definition actual_lseek :: "'w vfs_env \<Rightarrow> nat \<Rightarrow> int \<Rightarrow> whence \<Rightarrow> int \<Rightarrow> 'w vfs \<Rightarrow> (ret \<times> int option \<times> 'w vfs) option" where
  "actual_lseek e rfp seekfd wh offset fs =
     (case get_filp2 e rfp seekfd VNODE_READ fs of (fo, fs1) \<Rightarrow>
      (case fo of None \<Rightarrow> Some (verr fs1, None, fs1)
       | Some f \<Rightarrow>
           (case vno f fs1 of None \<Rightarrow> None
            | Some vp \<Rightarrow>
                if S_ISFIFO (v_mode (vnodes fs1 vp)) then Some (Err ESPIPE, None, unlock_filp e f fs1)
                else (case seek_base wh f vp fs1 of
                        None \<Rightarrow> Some (Err EINVAL, None, unlock_filp e f fs1)
                      | Some pos \<Rightarrow> (case seek_to e f vp pos offset fs1 of (r, np, fs2) \<Rightarrow> Some (r, np, unlock_filp e f fs2))))))"

definition do_lseek :: "'w vfs_env \<Rightarrow> int \<Rightarrow> whence \<Rightarrow> int \<Rightarrow> 'w vfs \<Rightarrow> (ret \<times> 'w vfs) option" where
  "do_lseek e fd wh offset fs =
     (case actual_lseek e (fp e) fd wh offset fs of None \<Rightarrow> None
      | Some (r, np, fs1) \<Rightarrow>
          if r \<noteq> OK then Some (r, fs1)
          else (case np of None \<Rightarrow> None | Some p \<Rightarrow> Some (OK, fs1\<lparr>lseek_out := p\<rparr>)))"

fun drop_locks :: "nat option \<Rightarrow> int \<Rightarrow> file_lock list \<Rightarrow> int \<Rightarrow> file_lock list \<times> int" where
  "drop_locks vp pid [] n = ([], n)"
| "drop_locks vp pid (l # ls) n =
     (if lock_type l = 0 then (case drop_locks vp pid ls n of (ls', n') \<Rightarrow> (l # ls', n'))
      else if Some (flock_vnode l) = vp \<and> lock_pid l = pid
        then (case drop_locks vp pid ls (n - 1) of (ls', n') \<Rightarrow> (l\<lparr>lock_type := 0\<rparr> # ls', n'))
      else (case drop_locks vp pid ls n of (ls', n') \<Rightarrow> (l # ls', n')))"

definition close_locks :: "'w vfs_env \<Rightarrow> nat option \<Rightarrow> int \<Rightarrow> 'w vfs \<Rightarrow> 'w vfs" where
  "close_locks e vp pid fs =
     (if 0 < nr_locks fs then
        case drop_locks vp pid (file_locks fs) (nr_locks fs) of (ls, n) \<Rightarrow>
          let fs1 = fs\<lparr>file_locks := ls, nr_locks := n\<rparr> in if n < nr_locks fs then lock_revive e fs1 else fs1
      else fs)"

definition close_fd :: "'w vfs_env \<Rightarrow> nat \<Rightarrow> int \<Rightarrow> 'w vfs \<Rightarrow> ret \<times> 'w vfs" where
  "close_fd e rfp fd fs =
     (case get_filp2 e rfp fd VNODE_OPCL fs of (fo, fs1) \<Rightarrow>
      (case fo of None \<Rightarrow> (verr fs1, fs1)
       | Some f \<Rightarrow>
           let vp = vno f fs1;
               fs2 = upd_fproc rfp (\<lambda>p. p\<lparr>fp_filp := (fp_filp p)(nat fd := None)\<rparr>) fs1;
               fs3 = close_filp e f fs2;
               fs4 = upd_fproc rfp (\<lambda>p. p\<lparr>fp_cloexec_set := fp_cloexec_set p - {nat fd}\<rparr>) fs3
           in (OK, close_locks e vp (fp_pid (fprocs fs4 rfp)) fs4)))"

definition do_close :: "'w vfs_env \<Rightarrow> int \<Rightarrow> 'w vfs \<Rightarrow> ret \<times> 'w vfs" where
  "do_close e thefd = close_fd e (fp e) thefd"

section \<open>Seeking\<close>

definition off_range :: "int \<Rightarrow> bool" where
  "off_range x \<longleftrightarrow> - (2 ^ 63) \<le> x \<and> x < 2 ^ 63"

lemma off_add_eq: "off_add a b = (a + b + 2 ^ 63) mod 2 ^ 64 - 2 ^ 63"
  unfolding off_add_def by (simp only: int_word_sint) simp

lemma off_add_in: "off_range (a + b) \<Longrightarrow> off_add a b = a + b"
  unfolding off_add_eq off_range_def by (subst mod_pos_pos_trivial) auto

lemma off_add_over:
  assumes "off_range a" "off_range b" and "2 ^ 63 \<le> a + b"
  shows "off_add a b = a + b - 2 ^ 64"
proof -
  have "(a + b + 2 ^ 63) mod 2 ^ 64 = (a + b + 2 ^ 63 + - 1 * 2 ^ 64) mod 2 ^ 64" by (rule mod_mult_self1 [symmetric])
  also have "\<dots> = a + b + 2 ^ 63 + - 1 * 2 ^ 64" using assms by (intro mod_pos_pos_trivial) (auto simp: off_range_def)
  finally show ?thesis unfolding off_add_eq by simp
qed

lemma off_add_under:
  assumes "off_range a" "off_range b" and "a + b < - (2 ^ 63)"
  shows "off_add a b = a + b + 2 ^ 64"
proof -
  have "(a + b + 2 ^ 63) mod 2 ^ 64 = (a + b + 2 ^ 63 + 1 * 2 ^ 64) mod 2 ^ 64" by (rule mod_mult_self1 [symmetric])
  also have "\<dots> = a + b + 2 ^ 63 + 1 * 2 ^ 64" using assms by (intro mod_pos_pos_trivial) (auto simp: off_range_def)
  finally show ?thesis unfolding off_add_eq by simp
qed

lemma seek_to_overflow:
  assumes "off_range pos" "off_range offset" and "\<not> off_range (pos + offset)"
  shows "seek_to e f vp pos offset fs = (Err EOVERFLOW, None, fs)"
proof (cases "2 ^ 63 \<le> pos + offset")
  case True
  then have "0 < offset" "off_add pos offset \<le> pos" using off_add_over [OF assms(1,2)] assms(1,2) by (auto simp: off_range_def)
  then show ?thesis by (simp add: seek_to_def)
next
  case False
  then have *: "pos + offset < - (2 ^ 63)" using assms(3) by (simp add: off_range_def)
  then have "offset < 0" "pos \<le> off_add pos offset" using off_add_under [OF assms(1,2) *] assms(1,2) by (auto simp: off_range_def)
  then show ?thesis by (simp add: seek_to_def)
qed

lemma seek_to_moves:
  assumes "off_range (pos + offset)"
  shows "\<exists>r fs'. seek_to e f vp pos offset fs = (r, Some (pos + offset), fs')
    \<and> (r, fs') = (if pos + offset = filp_pos (filps fs f) then (OK, fs)
        else req e (v_fs_e (vnodes fs vp)) (Req_inhibread (v_inode_nr (vnodes fs vp))) (upd_filp f (filp_pos_update (\<lambda>_. pos + offset)) fs))"
  unfolding seek_to_def off_add_in [OF assms] by (auto simp: Let_def upd_filp_def split: prod.splits)

section \<open>Locks of a closed file\<close>

definition lock_used :: "file_lock \<Rightarrow> bool" where
  "lock_used l \<longleftrightarrow> lock_type l \<noteq> 0"

definition lock_mine :: "nat option \<Rightarrow> int \<Rightarrow> file_lock \<Rightarrow> bool" where
  "lock_mine vp pid l \<longleftrightarrow> lock_used l \<and> Some (flock_vnode l) = vp \<and> lock_pid l = pid"

definition unlocked :: "nat option \<Rightarrow> int \<Rightarrow> file_lock \<Rightarrow> file_lock" where
  "unlocked vp pid l = (if lock_mine vp pid l then l\<lparr>lock_type := 0\<rparr> else l)"

lemma drop_locks_eq: "drop_locks vp pid ls n = (map (unlocked vp pid) ls, n - int (count_slots (lock_mine vp pid) ls))"
  by (induction ls arbitrary: n) (auto simp: unlocked_def lock_mine_def lock_used_def count_slots_def)

lemma count_unlocked: "count_slots lock_used (map (unlocked vp pid) ls) + count_slots (lock_mine vp pid) ls = count_slots lock_used ls"
  by (induction ls) (auto simp: unlocked_def lock_mine_def lock_used_def count_slots_def)

definition locks_exact :: "'w vfs \<Rightarrow> bool" where
  "locks_exact fs \<longleftrightarrow> nr_locks fs = int (count_slots lock_used (file_locks fs))"

text \<open>The other parts of VFS that a close runs do not touch the lock table.\<close>

definition same_locks :: "'w vfs \<Rightarrow> 'w vfs \<Rightarrow> bool" where
  "same_locks fs fs' \<longleftrightarrow> file_locks fs' = file_locks fs \<and> nr_locks fs' = nr_locks fs \<and> (\<forall>p. fp_pid (fprocs fs' p) = fp_pid (fprocs fs p))"

definition locktab_laws :: "'w vfs_env \<Rightarrow> bool" where
  "locktab_laws e \<longleftrightarrow> (\<forall>p fd l fs. same_locks fs (snd (get_filp2 e p fd l fs))) \<and> (\<forall>f fs. same_locks fs (close_filp e f fs))
     \<and> (\<forall>fs. same_locks fs (lock_revive e fs))"

lemma close_locks_exact:
  assumes "locktab_laws e" and "locks_exact fs"
  shows "file_locks (close_locks e vp pid fs) = map (unlocked vp pid) (file_locks fs)" and "locks_exact (close_locks e vp pid fs)"
proof -
  define fs1 where "fs1 = fs\<lparr>file_locks := map (unlocked vp pid) (file_locks fs), nr_locks := nr_locks fs - int (count_slots (lock_mine vp pid) (file_locks fs))\<rparr>"
  have ex: "locks_exact fs1" using assms(2) count_unlocked [of vp pid "file_locks fs"] by (simp add: locks_exact_def fs1_def)
  have rv: "file_locks (lock_revive e fs1) = file_locks fs1" "locks_exact (lock_revive e fs1)"
    using assms(1) ex by (simp_all add: locktab_laws_def same_locks_def locks_exact_def)
  have "file_locks (close_locks e vp pid fs) = map (unlocked vp pid) (file_locks fs) \<and> locks_exact (close_locks e vp pid fs)"
  proof (cases "0 < nr_locks fs")
    case True
    have "file_locks fs1 = map (unlocked vp pid) (file_locks fs)" by (simp add: fs1_def)
    then show ?thesis using True rv ex unfolding close_locks_def drop_locks_eq prod.case fs1_def [symmetric] Let_def by simp
  next
    case False
    then have "count_slots lock_used (file_locks fs) = 0" using assms(2) by (simp add: locks_exact_def)
    then have "\<forall>l\<in>set (file_locks fs). \<not> lock_used l" by (auto simp: count_slots_def filter_empty_conv)
    then have "map (unlocked vp pid) (file_locks fs) = file_locks fs" by (intro map_idI) (auto simp: unlocked_def lock_mine_def)
    then show ?thesis using False assms(2) by (simp add: close_locks_def)
  qed
  then show "file_locks (close_locks e vp pid fs) = map (unlocked vp pid) (file_locks fs)" "locks_exact (close_locks e vp pid fs)" by simp_all
qed

section \<open>Locks and references\<close>

lemma make_in_releases:
  assumes laws: "path_laws e bal" "lock_laws e bal" and held: "node_held bal (\<lambda>_. 0) fs0 fs vp m"
  shows "releases bal (\<lambda>_. 0) fs0 (make_in e vp (Some m) rq fs)"
  using held by (auto simp: make_in_def split: prod.splits intro!: return_node_releases [OF laws(2)]
      dest!: forbidden_quiet [OF laws(1)] req_quiet [OF laws(1)] intro: node_held_quiet)

lemma do_mknod_releases:
  assumes laws: "path_laws e bal" "lock_laws e bal" and id0: "idle bal fs"
  shows "releases bal (\<lambda>_. 0) fs (do_mknod e m fs)"
  unfolding do_mknod_def Let_def using make_in_releases [OF laws] id0
  by (auto split: prod.splits intro!: lookup_call_releases releases_Some
      dest!: fetch_name_quiet [OF laws(1)] last_dir_law [OF laws(1)] quiet_bal)

lemma do_mkdir_releases:
  assumes laws: "path_laws e bal" "lock_laws e bal" and id0: "idle bal fs"
  shows "releases bal (\<lambda>_. 0) fs (do_mkdir e dm fs)"
  unfolding do_mkdir_def Let_def using make_in_releases [OF laws] id0
  by (auto split: prod.splits intro!: lookup_call_releases releases_Some
      dest!: copy_path_quiet [OF laws(1)] last_dir_law [OF laws(1)] quiet_bal)

lemma seek_to_open:
  assumes "path_laws e bal" and "seek_to e f vp pos offset fs = (r, np, fs')" and "0 < bal (vworld fs) (FLock f)"
  shows "still_open bal f fs fs'"
proof -
  have "still_open bal f fs fs2" if "req e ep rq (upd_filp f (filp_pos_update g) fs) = (r1, fs2)" for ep rq g r1 fs2
    using still_open_kept [OF kept_quiet [OF req_quiet [OF assms(1) that]]] assms(3) by (simp add: still_open_def upd_filp_def)
  then show ?thesis using assms(2) by (auto simp: seek_to_def Let_def split: if_splits prod.splits)
qed

lemma actual_lseek_releases:
  assumes laws: "path_laws e bal" "filp_laws e bal" and id0: "idle bal fs"
  shows "\<exists>r np fs'. actual_lseek e p fd wh offset fs = Some (r, np, fs') \<and> bal (vworld fs') = bal (vworld fs)"
proof -
  obtain fo fs1 where gf: "get_filp2 e p fd VNODE_READ fs = (fo, fs1)" by (metis surj_pair)
  have got: "got_filp bal fs (fo, fs1)" using laws(2) gf unfolding filp_laws_def by metis
  show ?thesis
  proof (cases fo)
    case None
    then show ?thesis using gf got by (simp add: actual_lseek_def got_filp_def)
  next
    case (Some f)
    obtain v where v: "vno f fs1 = Some v" "0 < filp_count (filps fs1 f)"
      and b1: "\<And>y. bal (vworld fs1) y = bal (vworld fs) y + unit_of (FLock f) y + unit_of (VLock v) y"
      and lk: "0 < bal (vworld fs1) (FLock f)"
      using got_filpE [OF got [unfolded Some] refl id0] by metis
    note un = unlock_open_releases [OF laws(2) _ v b1]
    show ?thesis using gf Some v(1) un [OF still_open_refl] un [OF seek_to_open [OF laws(1) _ lk]]
      by (auto simp: actual_lseek_def split: option.splits prod.splits)
  qed
qed

lemma do_lseek_bal:
  assumes "path_laws e bal" "filp_laws e bal" and "idle bal fs" and "do_lseek e fd wh offset fs = Some (r, fs')"
  shows "bal (vworld fs') = bal (vworld fs)"
proof -
  obtain r1 np fs1 where "actual_lseek e (fp e) fd wh offset fs = Some (r1, np, fs1)" "bal (vworld fs1) = bal (vworld fs)"
    using actual_lseek_releases [OF assms(1-3)] by blast
  then show ?thesis using assms(4) by (auto simp: do_lseek_def split: if_splits option.splits)
qed

text \<open>The laws of the remaining parts of open and close.\<close>

definition open_laws :: "'w vfs_env \<Rightarrow> ('w \<Rightarrow> resource \<Rightarrow> int) \<Rightarrow> bool" where
  "open_laws e bal \<longleftrightarrow>
     (\<forall>p st bits fs. case get_fd e p st bits fs of (r, fd, f, fs') \<Rightarrow> stable bal fs fs'
        \<and> (if r = OK then filp_count (filps fs' f) = 0 \<and> (\<forall>y. bal (vworld fs') y = bal (vworld fs) y + unit_of (FLock f) y)
           else bal (vworld fs') = bal (vworld fs)))
   \<and> (\<forall>v fs. quiet bal fs (upgrade_vnode_lock e v fs))
   \<and> (\<forall>f v fs. vno f fs = Some v \<longrightarrow> 0 < filp_count (filps fs f) \<longrightarrow>
        (\<forall>y. (\<forall>v'. y \<noteq> VRef v') \<longrightarrow> bal (vworld (close_filp e f fs)) y = bal (vworld fs) y - unit_of (FLock f) y - unit_of (VLock v) y))
   \<and> (\<forall>fs. quiet bal fs (lock_revive e fs))"

lemma close_locks_bal: "open_laws e bal \<Longrightarrow> bal (vworld (close_locks e vp pid fs)) = bal (vworld fs)"
  by (auto simp: close_locks_def open_laws_def quiet_def Let_def split: prod.splits)

lemma close_fd_idle:
  assumes laws: "filp_laws e bal" "open_laws e bal" and id0: "idle bal fs"
  shows "idle bal (snd (close_fd e p fd fs))"
proof -
  obtain fo fs1 where gf: "get_filp2 e p fd VNODE_OPCL fs = (fo, fs1)" by (metis surj_pair)
  have got: "got_filp bal fs (fo, fs1)" using laws(1) gf unfolding filp_laws_def by metis
  show ?thesis
  proof (cases fo)
    case None
    then show ?thesis using gf got id0 by (simp add: close_fd_def got_filp_def idle_def)
  next
    case (Some f)
    obtain v where v: "vno f fs1 = Some v" "0 < filp_count (filps fs1 f)"
      and b1: "\<And>y. bal (vworld fs1) y = bal (vworld fs) y + unit_of (FLock f) y + unit_of (VLock v) y"
      using got_filpE [OF got [unfolded Some] refl id0] by metis
    let ?fs2 = "upd_fproc p (\<lambda>q. q\<lparr>fp_filp := (fp_filp q)(nat fd := None)\<rparr>) fs1"
    have "vno f ?fs2 = Some v" "0 < filp_count (filps ?fs2 f)" using v by (simp_all add: upd_fproc_def)
    then have b2: "bal (vworld (close_filp e f ?fs2)) y = bal (vworld ?fs2) y - unit_of (FLock f) y - unit_of (VLock v) y"
      if "\<forall>v'. y \<noteq> VRef v'" for y using laws(2) that unfolding open_laws_def by blast
    have b3: "bal (vworld (snd (close_fd e p fd fs))) = bal (vworld (close_filp e f ?fs2))"
      using gf Some by (simp add: close_fd_def Let_def close_locks_bal [OF laws(2)])
    show ?thesis using id0 b1 b2 unfolding idle_def b3 by simp
  qed
qed

text \<open>
  While a file is being opened: the description \<open>f\<close> is claimed for the vnode \<open>v\<close>, both are locked, and one
  reference to \<open>v\<close> is held.
\<close>

definition claimed :: "('w \<Rightarrow> resource \<Rightarrow> int) \<Rightarrow> 'w vfs \<Rightarrow> 'w vfs \<Rightarrow> nat \<Rightarrow> nat \<Rightarrow> bool" where
  "claimed bal fs0 fs f v \<longleftrightarrow> vno f fs = Some v \<and> 0 < filp_count (filps fs f)
     \<and> (\<forall>y. bal (vworld fs) y = bal (vworld fs0) y + unit_of (VRef v) y + unit_of (VLock v) y + unit_of (FLock f) y)"

lemma claimed_quiet: "claimed bal fs0 fs f v \<Longrightarrow> idle bal fs0 \<Longrightarrow> quiet bal fs fs' \<Longrightarrow> claimed bal fs0 fs' f v"
  by (auto simp: claimed_def idle_def quiet_def stable_def)

lemma claimed_truncate:
  assumes "path_laws e bal" "lock_laws e bal" and "claimed bal fs0 fs f v" and "idle bal fs0"
  obtains r fs' where "truncate_vnode e v n fs = Some (r, fs')" and "claimed bal fs0 fs' f v"
proof -
  have "0 < bal (vworld fs) (VLock v)" "0 < bal (vworld fs) (FLock f)" using assms(3,4) by (simp_all add: claimed_def idle_def)
  then obtain r fs' where "truncate_vnode e v n fs = Some (r, fs')" "bal (vworld fs') = bal (vworld fs)" "filps fs' f = filps fs f"
    using truncate_vnode_returns [OF assms(1,2)] by metis
  then show ?thesis using that assms(3) by (simp add: claimed_def)
qed

lemma open_existing_plain:
  assumes laws: "path_laws e bal" "lock_laws e bal" "open_laws e bal" and op: "claimed bal fs0 fs f v" and id0: "idle bal fs0"
    and pl: "plain_file (v_mode (vnodes fs v))"
  obtains r fs' where "open_existing e f v bits oflags fs = Some (r, Some v, fs')" and "claimed bal fs0 fs' f v"
proof -
  obtain r fs1 where fb: "forbidden e (fp e) v bits fs = (r, fs1)" by (metis surj_pair)
  obtain r2 fs2 where fb2: "forbidden e (fp e) v W_BIT fs1 = (r2, fs2)" by (metis surj_pair)
  note q = forbidden_quiet [OF laws(1) fb] and q2 = forbidden_quiet [OF laws(1) fb2]
  have o1: "claimed bal fs0 fs1 f v" using claimed_quiet [OF op id0 q] .
  have o2: "claimed bal fs0 fs2 f v" using claimed_quiet [OF o1 id0 q2] .
  have "quiet bal fs2 (upgrade_vnode_lock e v fs2)" using laws(3) by (simp add: open_laws_def)
  from claimed_quiet [OF o2 id0 this] obtain r3 fs3 where tr: "truncate_vnode e v 0 (upgrade_vnode_lock e v fs2) = Some (r3, fs3)"
    and o3: "claimed bal fs0 fs3 f v" by (rule claimed_truncate [OF laws(1,2) _ id0])
  have "0 < bal (vworld fs) (VLock v)" using op id0 by (simp add: claimed_def idle_def)
  then have "v_mode (vnodes fs1 v) = v_mode (vnodes fs v)" using q by (simp add: quiet_def stable_def vkey_def)
  then have "plain_file (v_mode (vnodes fs1 v))" using pl by simp
  then have ty: "v_mode (vnodes fs1 v) AND I_TYPE \<noteq> I_CHAR_SPECIAL" "v_mode (vnodes fs1 v) AND I_TYPE \<noteq> I_BLOCK_SPECIAL"
    "v_mode (vnodes fs1 v) AND I_TYPE \<noteq> I_NAMED_PIPE" by (simp_all add: plain_file_def ftype_defs)
  have "\<exists>r' fs'. open_existing e f v bits oflags fs = Some (r', Some v, fs') \<and> claimed bal fs0 fs' f v"
    using fb fb2 tr o1 o2 o3 ty unfolding open_existing_def Let_def by (auto split: if_splits)
  then show ?thesis using that by blast
qed

lemma open_end_bal:
  assumes laws: "lock_laws e bal" "filp_laws e bal" and op: "claimed bal fs0 fs f v"
  obtains r' fs' where "open_end e f (Some v) r fs = Some (r', fs')"
    and "if r = OK \<or> r = Err SUSPEND then \<forall>y. bal (vworld fs') y = bal (vworld fs0) y + unit_of (VRef v) y
         else r' = r \<and> bal (vworld fs') = bal (vworld fs0)"
    and "r = OK \<longrightarrow> r' = Ret (fd_nr (scratch (unlock_filp e f fs) (fp e)))"
proof -
  have u: "bal (vworld (unlock_filp e f fs)) y = bal (vworld fs0) y + unit_of (VRef v) y" for y
  proof -
    have "bal (vworld (unlock_filp e f fs)) y = bal (vworld fs) y - unit_of (FLock f) y - unit_of (VLock v) y"
      using laws(2) op unfolding filp_laws_def claimed_def by metis
    then show ?thesis using op by (simp add: claimed_def)
  qed
  consider "r = OK" | "r = Err SUSPEND" | "r \<noteq> OK" "r \<noteq> Err SUSPEND" by blast
  then show ?thesis
  proof cases
    case 3
    define fs1 where "fs1 = upd_filp f (\<lambda>x. x\<lparr>filp_count := 0, filp_vno := None\<rparr>) (upd_fproc (fp e)
      (\<lambda>p. p\<lparr>fp_filp := (fp_filp p)(nat (fd_nr (scratch (unlock_filp e f fs) (fp e))) := None)\<rparr>) (unlock_filp e f fs))"
    have "open_end e f (Some v) r fs = Some (r, put_vnode e v fs1)" using 3 by (simp add: open_end_def Let_def fs1_def)
    moreover have "bal (vworld (put_vnode e v fs1)) y = bal (vworld fs0) y" for y
      unfolding put_vnode_bal [OF laws(1)] by (simp add: fs1_def u)
    ultimately show ?thesis using that 3 by (simp add: fun_eq_iff)
  next
    case 1
    then show ?thesis using that u by (simp add: open_end_def Let_def)
  next
    case 2
    then show ?thesis using that u by (simp add: open_end_def Let_def)
  qed
qed

lemma get_fd_law:
  assumes "open_laws e bal" and "get_fd e p st bits fs = (OK, fd, f, fs')"
  shows "bal (vworld fs') y = bal (vworld fs) y + unit_of (FLock f) y"
proof -
  note L = conjunct1 [OF assms(1) [unfolded open_laws_def]]
  have "case get_fd e p st bits fs of (r, fd, f, fs') \<Rightarrow> stable bal fs fs'
      \<and> (if r = OK then filp_count (filps fs' f) = 0 \<and> (\<forall>y. bal (vworld fs') y = bal (vworld fs) y + unit_of (FLock f) y)
         else bal (vworld fs') = bal (vworld fs))" using L by (elim allE)
  then show ?thesis using assms(2) by simp
qed

text \<open>The first steps of an open without \<^verbatim>\<open>O_CREAT\<close>: a descriptor, a free description, the vnode.\<close>

definition open_found :: "'w vfs_env \<Rightarrow> string \<Rightarrow> u32 \<Rightarrow> 'w vfs \<Rightarrow> int \<Rightarrow> nat \<Rightarrow> nat \<Rightarrow> bool" where
  "open_found e path oflags fs fd f v \<longleftrightarrow>
     (\<exists>fs1 lr fs2. get_fd e (fp e) 0 (mode_map ! unat (oflags AND O_ACCMODE)) fs = (OK, fd, f, fs1)
       \<and> eat_path e \<lparr>l_path = path, l_flags = {}, l_vmnt_lock = VMNT_READ, l_vnode_lock = VNODE_OPCL\<rparr> (fp e)
           (upd_scratch (fp e) (fd_nr_update (\<lambda>_. fd)) fs1) = (lr, fs2)
       \<and> lk_found lr = Some v \<and> plain_file (v_mode (vnodes fs2 v)))"

text \<open>The two ways an open ends: with the descriptor (or suspended) and one reference, or with an error and none.\<close>

definition open_balance :: "'w vfs_env \<Rightarrow> ('w \<Rightarrow> resource \<Rightarrow> int) \<Rightarrow> nat \<Rightarrow> 'w vfs \<Rightarrow> ret \<Rightarrow> 'w vfs \<Rightarrow> bool" where
  "open_balance e bal v fs r fs' \<longleftrightarrow>
     (r = Ret (fd_nr (scratch fs' (fp e))) \<or> r = Err SUSPEND) \<and> (\<forall>y. bal (vworld fs') y = bal (vworld fs) y + unit_of (VRef v) y)
   \<or> r \<noteq> OK \<and> r \<noteq> Err SUSPEND \<and> bal (vworld fs') = bal (vworld fs)"

lemma open_vnode_bal:
  assumes laws: "path_laws e bal" "lock_laws e bal" "filp_laws e bal" "open_laws e bal" and id0: "idle bal fs0"
    and b: "\<And>y. bal (vworld fs) y = bal (vworld fs0) y + unit_of (VRef v) y + unit_of (VLock v) y + unit_of (FLock f) y"
    and pl: "plain_file (v_mode (vnodes fs v))"
  shows "\<exists>r fs'. open_vnode e f v True bits oflags OK fs = Some (r, fs')
    \<and> open_balance e bal v fs0 r fs'"
proof -
  have "claimed bal fs0 (open_claim e f v oflags fs) f v" "v_mode (vnodes (open_claim e f v oflags fs) v) = v_mode (vnodes fs v)"
    using b by (simp_all add: claimed_def open_claim_def Let_def vfs_upd_defs)
  then obtain r1 fs1 where ex: "open_existing e f v bits oflags (open_claim e f v oflags fs) = Some (r1, Some v, fs1)" and o1: "claimed bal fs0 fs1 f v"
    using open_existing_plain [OF laws(1,2,4) _ id0] pl by metis
  obtain r2 fs2 where en: "open_end e f (Some v) r1 fs1 = Some (r2, fs2)"
    and b2: "if r1 = OK \<or> r1 = Err SUSPEND then \<forall>y. bal (vworld fs2) y = bal (vworld fs0) y + unit_of (VRef v) y
      else r2 = r1 \<and> bal (vworld fs2) = bal (vworld fs0)" using open_end_bal [OF laws(2,3) o1] by metis
  have "r1 = OK \<or> r1 = Err SUSPEND \<longrightarrow> r2 = Ret (fd_nr (scratch fs2 (fp e))) \<or> r2 = Err SUSPEND"
    using en by (auto simp: open_end_def Let_def)
  then have "open_balance e bal v fs0 r2 fs2" using b2 by (auto simp: open_balance_def split: if_splits)
  then show ?thesis using ex en by (simp add: open_vnode_def Let_def)
qed

lemma common_open_bal:
  assumes laws: "path_laws e bal" "lock_laws e bal" "filp_laws e bal" "open_laws e bal" and id0: "idle bal fs"
    and fnd: "open_found e path oflags fs fd f v" and nc: "\<not> has oflags O_CREAT" and bits: "mode_map ! unat (oflags AND O_ACCMODE) \<noteq> 0"
  shows "\<exists>r fs'. common_open e path oflags omode fs = Some (r, fs')
    \<and> open_balance e bal v fs r fs'"
proof -
  obtain fs1 lr fs2 where gf: "get_fd e (fp e) 0 (mode_map ! unat (oflags AND O_ACCMODE)) fs = (OK, fd, f, fs1)"
    and ep: "eat_path e \<lparr>l_path = path, l_flags = {}, l_vmnt_lock = VMNT_READ, l_vnode_lock = VNODE_OPCL\<rparr> (fp e)
        (upd_scratch (fp e) (fd_nr_update (\<lambda>_. fd)) fs1) = (lr, fs2)"
    and v: "lk_found lr = Some v" "plain_file (v_mode (vnodes fs2 v))" using fnd by (auto simp: open_found_def)
  let ?fs1 = "upd_scratch (fp e) (fd_nr_update (\<lambda>_. fd)) fs1"
  have b1: "bal (vworld fs1) y = bal (vworld fs) y + unit_of (FLock f) y" for y
    by (rule get_fd_law [OF laws(4) gf])
  note law = eat_path_law [OF laws(1) ep]
  have "bal (vworld ?fs1) (VLock v) = 0" "bal (vworld ?fs1) (MLock mm) = 0" for mm using b1 id0 by (simp_all add: idle_def)
  then obtain m where m: "lk_vmnt lr = Some m" "lk_vnode lr = Some v" using law v(1) by (auto simp: lookup_law_def)
  have b2: "bal (vworld fs2) y = bal (vworld fs) y + unit_of (FLock f) y + unit_of (VRef v) y + unit_of (VLock v) y + unit_of (MLock m) y" for y
    using law v(1) m b1 by (simp add: lookup_law_def gained_def)
  have st: "stable bal fs2 (unlock_vmnt e m fs2)" using laws(2) by (simp add: lock_laws_def)
  have "0 < bal (vworld fs2) (VLock v)" using b2 id0 by (simp add: idle_def)
  then have pl: "plain_file (v_mode (vnodes (unlock_vmnt e m fs2) v))" using st v(2) by (simp add: stable_def vkey_def)
  have b3: "bal (vworld (unlock_vmnt e m fs2)) y = bal (vworld fs) y + unit_of (VRef v) y + unit_of (VLock v) y + unit_of (FLock f) y" for y
    by (simp add: lock_lawsD [OF laws(2)] b2)
  have "common_open e path oflags omode fs
      = open_vnode e f v True (mode_map ! unat (oflags AND O_ACCMODE)) oflags OK (unlock_vmnt e m fs2)"
    using bits gf nc ep v(1) m by (simp add: common_open_def open_lookup_def Let_def)
  then show ?thesis using open_vnode_bal [OF laws id0 b3 pl] by simp
qed

section \<open>Properties\<close>

lemma vdemo_open_laws: "open_laws vdemo_env (\<lambda>w. w)"
  by (simp add: open_laws_def vdemo_env_def quiet_def vdemo_unlock_filp_bal)

lemma vdemo_locktab_laws: "locktab_laws vdemo_env"
  by (auto simp: locktab_laws_def vdemo_env_def same_locks_def vdemo_get_filp_def vdemo_unlock_filp_def vgain_def vdrop_def set_err_def split: option.splits)



text \<open>
  C39. Seeking: with the base and the offset in the range of a 64-bit \<^verbatim>\<open>off_t\<close>, the overflow test finds
  exactly the sums that are out of range, and then nothing changes; otherwise the new position is the
  sum, and the file system is told only if the position is a different one. A negative position is not
  refused.\<close>

theorem actual_lseek_overflow:
  assumes "get_filp2 e p fd VNODE_READ fs = (Some f, fs1)" and "vno f fs1 = Some vp" and "\<not> S_ISFIFO (v_mode (vnodes fs1 vp))"
    and "seek_base wh f vp fs1 = Some pos" and "off_range pos" "off_range offset"
  shows "actual_lseek e p fd wh offset fs =
    (if off_range (pos + offset) then
       (case (if pos + offset = filp_pos (filps fs1 f) then (OK, fs1)
              else req e (v_fs_e (vnodes fs1 vp)) (Req_inhibread (v_inode_nr (vnodes fs1 vp))) (upd_filp f (filp_pos_update (\<lambda>_. pos + offset)) fs1))
        of (r, fs2) \<Rightarrow> Some (r, Some (pos + offset), unlock_filp e f fs2))
     else Some (Err EOVERFLOW, None, unlock_filp e f fs1))"
proof (cases "off_range (pos + offset)")
  case True
  obtain r fs2 where "seek_to e f vp pos offset fs1 = (r, Some (pos + offset), fs2)"
    "(if pos + offset = filp_pos (filps fs1 f) then (OK, fs1) else req e (v_fs_e (vnodes fs1 vp)) (Req_inhibread (v_inode_nr (vnodes fs1 vp)))
      (upd_filp f (filp_pos_update (\<lambda>_. pos + offset)) fs1)) = (r, fs2)"
    using seek_to_moves [OF True, of e f vp fs1] by metis
  then show ?thesis using assms(1-4) True by (simp add: actual_lseek_def)
next
  case False
  then show ?thesis using assms(1-4) by (simp add: actual_lseek_def seek_to_overflow [OF assms(5,6) False])
qed

theorem actual_lseek_overflow_witness:
  "\<exists>fs'. actual_lseek vdemo_env 0 0 SEEK_END (2 ^ 63 - 1) (vdemo_fs I_REGULAR) = Some (Err EOVERFLOW, None, fs')"
proof -
  let ?fs1 = "vgain (\<lambda>y. unit_of (FLock 0) y + unit_of (VLock 2) y) (vdemo_fs I_REGULAR)"
  have "get_filp2 vdemo_env 0 0 VNODE_READ (vdemo_fs I_REGULAR) = (Some 0, ?fs1)"
    by (simp add: vdemo_env_def vdemo_get_filp_def vdemo_fs_def)
  moreover have "vno 0 ?fs1 = Some 2" "\<not> S_ISFIFO (v_mode (vnodes ?fs1 2))" "seek_base SEEK_END 0 2 ?fs1 = Some 40"
    by (simp_all add: vdemo_fs_def vdemo_vnode_def ftype_defs mode_consts)
  ultimately show ?thesis
    using actual_lseek_overflow [of vdemo_env 0 0 "vdemo_fs I_REGULAR" 0 ?fs1 2 SEEK_END 40 "2 ^ 63 - 1"] by (simp add: off_range_def)
qed

text \<open>
  C22. Closing a descriptor removes from the lock table exactly the locks that the process has on the
  file, leaves all others as they are, and keeps the number of locks in use exact, so that the test
  whether there are locks at all stays right.\<close>

theorem close_fd_drops_locks:
  assumes "locktab_laws e" and "locks_exact fs" and "get_filp2 e p fd VNODE_OPCL fs = (Some f, fs1)"
  shows "fst (close_fd e p fd fs) = OK \<and> locks_exact (snd (close_fd e p fd fs))
    \<and> file_locks (snd (close_fd e p fd fs)) = map (\<lambda>l. if lock_type l \<noteq> 0 \<and> Some (flock_vnode l) = filp_vno (filps fs1 f)
        \<and> lock_pid l = fp_pid (fprocs fs p) then l\<lparr>lock_type := 0\<rparr> else l) (file_locks fs)"
proof -
  let ?fs4 = "upd_fproc p (\<lambda>q. q\<lparr>fp_cloexec_set := fp_cloexec_set q - {nat fd}\<rparr>)
      (close_filp e f (upd_fproc p (\<lambda>q. q\<lparr>fp_filp := (fp_filp q)(nat fd := None)\<rparr>) fs1))"
  have s1: "same_locks fs fs1" using assms(1,3) unfolding locktab_laws_def by (metis snd_conv)
  have up: "same_locks x (upd_fproc p g x)" if "\<And>q. fp_pid (g q) = fp_pid q" for x g using that by (simp add: same_locks_def upd_fproc_def)
  have "same_locks fs ?fs4"
  proof -
    let ?fs2 = "upd_fproc p (\<lambda>q. q\<lparr>fp_filp := (fp_filp q)(nat fd := None)\<rparr>) fs1"
    have "same_locks fs1 ?fs2" by (rule up) simp
    moreover have "same_locks ?fs2 (close_filp e f ?fs2)" using assms(1) by (simp add: locktab_laws_def)
    moreover have "same_locks (close_filp e f ?fs2) ?fs4" by (rule up) simp
    ultimately show ?thesis using s1 by (simp add: same_locks_def)
  qed
  then have k: "file_locks ?fs4 = file_locks fs" "locks_exact ?fs4" "fp_pid (fprocs ?fs4 p) = fp_pid (fprocs fs p)"
    using assms(2) by (simp_all add: same_locks_def locks_exact_def)
  have run: "close_fd e p fd fs = (OK, close_locks e (vno f fs1) (fp_pid (fprocs ?fs4 p)) ?fs4)"
    using assms(3) by (simp add: close_fd_def Let_def)
  have un: "unlocked v pid = (\<lambda>l. if lock_type l \<noteq> 0 \<and> Some (flock_vnode l) = v \<and> lock_pid l = pid then l\<lparr>lock_type := 0\<rparr> else l)" for v pid
    by (simp add: unlocked_def lock_mine_def lock_used_def fun_eq_iff)
  show ?thesis unfolding run using close_locks_exact [OF assms(1) k(2)] k(1,3) by (simp only: un fst_conv snd_conv)
qed

theorem close_fd_drops_locks_witness:
  "fst (close_fd vdemo_env 0 0 (vdemo_fs I_REGULAR)) = OK \<and> nr_locks (snd (close_fd vdemo_env 0 0 (vdemo_fs I_REGULAR))) = 1"
proof -
  have "locks_exact (vdemo_fs I_REGULAR)" by (simp add: locks_exact_def vdemo_fs_def count_slots_def lock_used_def)
  moreover have "get_filp2 vdemo_env 0 0 VNODE_OPCL (vdemo_fs I_REGULAR) = (Some 0, vgain (\<lambda>y. unit_of (FLock 0) y + unit_of (VLock 2) y) (vdemo_fs I_REGULAR))"
    by (simp add: vdemo_env_def vdemo_get_filp_def vdemo_fs_def)
  ultimately have "fst (close_fd vdemo_env 0 0 (vdemo_fs I_REGULAR)) = OK \<and> locks_exact (snd (close_fd vdemo_env 0 0 (vdemo_fs I_REGULAR)))
    \<and> file_locks (snd (close_fd vdemo_env 0 0 (vdemo_fs I_REGULAR))) = [\<lparr>lock_type = 0, flock_vnode = 2, lock_pid = 42\<rparr>, \<lparr>lock_type = 1, flock_vnode = 2, lock_pid = 43\<rparr>]"
    using close_fd_drops_locks [OF vdemo_locktab_laws, of "vdemo_fs I_REGULAR" 0 0 0] by (simp add: vdemo_fs_def)
  then show ?thesis by (simp add: locks_exact_def count_slots_def lock_used_def)
qed

text \<open>The laws of creating a vnode.\<close>

definition create_laws :: "'w vfs_env \<Rightarrow> ('w \<Rightarrow> resource \<Rightarrow> int) \<Rightarrow> bool" where
  "create_laws e bal \<longleftrightarrow>
     (\<forall>fs. quiet bal fs (snd (get_free_vnode e fs)))
   \<and> (\<forall>v l fs. stable bal fs (lock_vnode e v l fs) \<and> (\<forall>y. bal (vworld (lock_vnode e v l fs)) y = bal (vworld fs) y + unit_of (VLock v) y))"

text \<open>A name that does not exist yet: what the two lookups of \<^verbatim>\<open>new_node\<close> and the search for a vnode find.\<close>

definition absent_in :: "'w vfs_env \<Rightarrow> string \<Rightarrow> u32 \<Rightarrow> 'w vfs \<Rightarrow> nat \<Rightarrow> nat \<Rightarrow> string \<Rightarrow> 'w vfs \<Rightarrow> bool" where
  "absent_in e path oflags fs d m name fs' \<longleftrightarrow>
     (\<exists>lr fs1 lr2. let fl = (if has oflags O_EXCL then {PATH_RET_SYMLINK} else {}) in
        last_dir e \<lparr>l_path = path, l_flags = fl, l_vmnt_lock = VMNT_WRITE, l_vnode_lock = VNODE_WRITE\<rparr> (fp e) fs = (lr, fs1)
      \<and> lk_found lr = Some d \<and> lk_vmnt lr = Some m
      \<and> advance e d \<lparr>l_path = lk_path lr, l_flags = fl, l_vmnt_lock = VMNT_WRITE,
          l_vnode_lock = (if has oflags O_TRUNC then VNODE_WRITE else VNODE_OPCL)\<rparr> (fp e) fs1 = (lr2, fs')
      \<and> lk_found lr2 = None \<and> verr fs' = Err ENOENT \<and> lk_path lr2 = name \<and> take 1 name \<noteq> ''/'')"

lemma absent_in_step:
  assumes "path_laws e bal" and "absent_in e path oflags fs d m name fs'"
  shows "new_node_step e path {} oflags bits fs = Some (node_create e d m bits name fs')"
proof -
  obtain lr fs1 lr2 where l1: "last_dir e \<lparr>l_path = path, l_flags = (if has oflags O_EXCL then {PATH_RET_SYMLINK} else {}), l_vmnt_lock = VMNT_WRITE, l_vnode_lock = VNODE_WRITE\<rparr> (fp e) fs = (lr, fs1)"
    and k: "lk_found lr = Some d" "lk_vmnt lr = Some m" "lk_found lr2 = None" "verr fs' = Err ENOENT" "lk_path lr2 = name" "take 1 name \<noteq> ''/''"
    and l2: "advance e d \<lparr>l_path = lk_path lr, l_flags = (if has oflags O_EXCL then {PATH_RET_SYMLINK} else {}), l_vmnt_lock = VMNT_WRITE,
          l_vnode_lock = (if has oflags O_TRUNC then VNODE_WRITE else VNODE_OPCL)\<rparr> (fp e) fs1 = (lr2, fs')"
    using assms(2) unfolding absent_in_def Let_def by blast
  have "lk_vmnt lr2 = None" using advance_law [OF assms(1) l2] k(3) by (simp add: lookup_law_def)
  then show ?thesis using l1 k l2 by (cases "has oflags O_EXCL") (simp_all add: new_node_step_def Let_def)
qed

lemma absent_in_held:
  assumes laws: "path_laws e bal" and id0: "idle bal fs" and ab: "absent_in e path oflags fs d m name fs'"
  shows "node_held bal (\<lambda>_. 0) fs fs' d m"
proof -
  obtain lk lk2 lr fs1 lr2 where l1: "last_dir e lk (fp e) fs = (lr, fs1)" and k: "lk_found lr = Some d" "lk_vmnt lr = Some m" "lk_found lr2 = None"
    and l2: "advance e d lk2 (fp e) fs1 = (lr2, fs')" using ab unfolding absent_in_def Let_def by metis
  have "node_held bal (\<lambda>_. 0) fs fs1 d m" using first_lookup [OF last_dir_law [OF laws l1] id0 k(1) refl] k(2) by (metis option.inject)
  moreover have "bal (vworld fs') = bal (vworld fs1)"
    using advance_law [OF laws l2] k(3) by (simp add: lookup_law_def gained_def fun_eq_iff)
  ultimately show ?thesis by (simp add: node_held_def)
qed

lemma node_create_ok:
  assumes laws: "path_laws e bal" "lock_laws e bal" "create_laws e bal" and held: "node_held bal (\<lambda>_. 0) fs0 fs d m" and id0: "idle bal fs0"
    and gf: "get_free_vnode e fs = (Some v, fs1)" and vd: "v \<noteq> d"
    and fb: "forbidden e (fp e) d (W_BIT OR X_BIT) (upgrade_vmnt_lock e m (lock_vnode e v VNODE_OPCL fs1)) = (OK, fs2)"
    and rq: "fs_req e (v_fs_e (vnodes fs2 d)) (Req_create (v_inode_nr (vnodes fs2 d)) bits (fp_effuid (fprocs fs2 (fp e))) (fp_effgid (fprocs fs2 (fp e))) name) fs2 = (rep, fs3)"
    and ok: "rp_ret rep = OK"
  shows "\<exists>fs'. node_create e d m bits name fs = Done (Some v) name fs'
    \<and> vkey (vnodes fs' v) = (nd_fmode (rp_node rep), nd_fs_e (rp_node rep), nd_inode_nr (rp_node rep), nd_fsize (rp_node rep), nd_uid (rp_node rep), nd_dev (rp_node rep))
    \<and> (\<forall>y. bal (vworld fs') y = bal (vworld fs0) y + unit_of (VLock v) y)"
proof -
  let ?l = "lock_vnode e v VNODE_OPCL fs1"
  define fs4 where "fs4 = set_err OK (node_created v d (rp_node rep) fs3)"
  define fs5 where "fs5 = unlock_vnode e d fs4"
  define fs6 where "fs6 = unlock_vmnt e m fs5"
  have "quiet bal fs fs1" using laws(3) gf by (metis create_laws_def snd_conv)
  then have b1: "bal (vworld ?l) y = bal (vworld fs) y + unit_of (VLock v) y" for y using laws(3) by (simp add: create_laws_def quiet_def)
  have b3: "bal (vworld fs3) = bal (vworld ?l)"
    using quiet_bal [OF fs_req_quiet [OF laws(1) rq]] quiet_bal [OF forbidden_quiet [OF laws(1) fb]] quiet_bal [OF upgrade_vmnt_quiet [OF laws(2)]] by simp
  have b4: "bal (vworld fs4) y = bal (vworld fs) y + unit_of (VLock v) y" for y using b1 b3 by (simp add: fs4_def node_created_def)
  have b: "bal (vworld fs4) y = bal (vworld fs0) y + unit_of (VRef d) y + unit_of (VLock d) y + unit_of (MLock m) y + unit_of (VLock v) y" for y
    using b4 held by (simp add: node_held_def)
  have b5: "bal (vworld fs5) y = bal (vworld fs0) y + unit_of (VRef d) y + unit_of (MLock m) y + unit_of (VLock v) y" for y
    unfolding fs5_def by (simp add: lock_lawsD [OF laws(2)] b)
  have b6: "bal (vworld fs6) y = bal (vworld fs0) y + unit_of (VRef d) y + unit_of (VLock v) y" for y
    unfolding fs6_def by (simp add: lock_lawsD [OF laws(2)] b5)
  have b7: "bal (vworld (put_vnode e d fs6)) y = bal (vworld fs0) y + unit_of (VLock v) y" for y
    by (simp add: lock_lawsD [OF laws(2)] b6)
  have st: "stable bal fs4 fs5" "stable bal fs5 fs6" "stable bal fs6 (put_vnode e d fs6)"
    unfolding fs5_def fs6_def using laws(2) by (simp_all add: lock_laws_def)
  have "0 < bal (vworld fs4) (VLock v)" "0 < bal (vworld fs5) (VLock v)" "0 < bal (vworld fs6) (VLock v)"
    unfolding b b5 b6 using vd id0 by (simp_all add: idle_def)
  then have "vkey (vnodes (put_vnode e d fs6) v) = vkey (vnodes fs4 v)" using st by (simp add: stable_def)
  also have "\<dots> = (nd_fmode (rp_node rep), nd_fs_e (rp_node rep), nd_inode_nr (rp_node rep), nd_fsize (rp_node rep), nd_uid (rp_node rep), nd_dev (rp_node rep))"
    by (simp add: fs4_def node_created_def vfs_upd_defs vkey_def)
  finally have key: "vkey (vnodes (put_vnode e d fs6) v)
      = (nd_fmode (rp_node rep), nd_fs_e (rp_node rep), nd_inode_nr (rp_node rep), nd_fsize (rp_node rep), nd_uid (rp_node rep), nd_dev (rp_node rep))" .
  have "node_create e d m bits name fs = Done (Some v) name (put_vnode e d fs6)"
    using gf fb rq ok vd by (simp add: node_create_def Let_def node_finish_def fs6_def fs5_def fs4_def)
  then show ?thesis using key b7 by blast
qed

lemma new_node_Done: "new_node_step e path fl oflags bits fs = Some (Done vp path1 fs1) \<Longrightarrow> new_node e path fl oflags bits fs = Some (vp, fs1)"
  by (simp add: new_node.simps)

text \<open>
  Creating a file: when the name does not exist in a directory the caller may write, \<^verbatim>\<open>new_node\<close> returns
  the vnode it found free, described by what the file system answered to the request to create an entry
  of that directory with the given mode, and holds nothing but the lock of the new vnode.\<close>

theorem new_node_creates:
  assumes "path_laws e bal" "lock_laws e bal" "create_laws e bal" and "idle bal fs" and "absent_in e path oflags fs d m name fs0"
    and "get_free_vnode e fs0 = (Some v, fs1)" "v \<noteq> d"
    and "forbidden e (fp e) d (W_BIT OR X_BIT) (upgrade_vmnt_lock e m (lock_vnode e v VNODE_OPCL fs1)) = (OK, fs2)"
    and "fs_req e (v_fs_e (vnodes fs2 d)) (Req_create (v_inode_nr (vnodes fs2 d)) bits (fp_effuid (fprocs fs2 (fp e))) (fp_effgid (fprocs fs2 (fp e))) name) fs2 = (rep, fs3)"
    and "rp_ret rep = OK"
  shows "\<exists>fs'. new_node e path {} oflags bits fs = Some (Some v, fs')
    \<and> v_mode (vnodes fs' v) = nd_fmode (rp_node rep) \<and> v_inode_nr (vnodes fs' v) = nd_inode_nr (rp_node rep) \<and> v_size (vnodes fs' v) = nd_fsize (rp_node rep)
    \<and> (\<forall>y. bal (vworld fs') y = bal (vworld fs) y + (if y = VLock v then 1 else 0))"
proof -
  obtain fs' where nc: "node_create e d m bits name fs0 = Done (Some v) name fs'"
    and k: "vkey (vnodes fs' v) = (nd_fmode (rp_node rep), nd_fs_e (rp_node rep), nd_inode_nr (rp_node rep), nd_fsize (rp_node rep), nd_uid (rp_node rep), nd_dev (rp_node rep))"
    and b: "\<And>y. bal (vworld fs') y = bal (vworld fs) y + unit_of (VLock v) y"
    using node_create_ok [OF assms(1-3) absent_in_held [OF assms(1,4,5)] assms(4,6-10)] by blast
  have "new_node e path {} oflags bits fs = Some (Some v, fs')"
    by (rule new_node_Done) (simp add: absent_in_step [OF assms(1,5)] nc)
  then show ?thesis using k b by (auto simp: vkey_def unit_of_def)
qed

lemma vdemo_create_laws: "create_laws vdemo_absent (\<lambda>w. w)"
  by (simp add: create_laws_def vdemo_absent_def vdemo_env_def quiet_def)

theorem new_node_creates_witness:
  "\<exists>fs'. new_node vdemo_absent ''d/f'' {} O_CREAT I_IMMEDIATE vdemo_dir_fs = Some (Some 9, fs') \<and> v_mode (vnodes fs' 9) = I_IMMEDIATE"
proof -
  have id: "idle (\<lambda>w. w) vdemo_dir_fs" by (simp add: idle_def vdemo_dir_fs_def vdemo_fs_def)
  obtain fs0 where fs0: "absent_in vdemo_absent ''d/f'' O_CREAT vdemo_dir_fs 1 0 ''f'' fs0"
    by (simp add: absent_in_def vdemo_absent_def vdemo_env_def vdemo_lookup_def Let_def vdemo_dir_fs_def vdemo_fs_def set_err_def has_def oflag_defs)
  have env: "get_free_vnode vdemo_absent x = (Some 9, x)" "forbidden vdemo_absent p q r x = (OK, x)" "fs_req vdemo_absent ep rq x = (vdemo_reply rq, x)" for p q r x ep rq
    by (simp_all add: vdemo_absent_def vdemo_env_def)
  show ?thesis
    using new_node_creates [OF vdemo_absent_laws vdemo_create_laws id fs0 env(1) _ env(2) env(3), of I_IMMEDIATE] by (auto simp: vdemo_node_def)
qed


text \<open>A dangling link: the name \<^verbatim>\<open>d/f\<close> is a link to \<^verbatim>\<open>x/y\<close>, and there is no directory \<^verbatim>\<open>x\<close>.\<close>

definition ldemo_env :: "(resource \<Rightarrow> int) vfs_env" where
  "ldemo_env = vdemo_env\<lparr>
     last_dir := (\<lambda>lk p fs. if l_path lk = ''d/f'' then vdemo_lookup 1 fs
                  else (\<lparr>lk_found = None, lk_vmnt = None, lk_vnode = None, lk_path = l_path lk\<rparr>, set_err (Err ENOENT) fs)),
     advance := (\<lambda>d lk p fs. if PATH_RET_SYMLINK \<in> l_flags lk then vdemo_advance 2 fs
                  else (\<lparr>lk_found = None, lk_vmnt = None, lk_vnode = None, lk_path = l_path lk\<rparr>, set_err (Err ENOENT) fs)),
     fs_req := (\<lambda>ep rq fs. (case rq of
                  Req_rdlink ino q b n dr \<Rightarrow> \<lparr>rp_ret = Ret 3, rp_pos = 0, rp_cum_io = 0, rp_node = vdemo_node, rp_link = ''x/y''\<rparr>
                | _ \<Rightarrow> \<lparr>rp_ret = Err EEXIST, rp_pos = 0, rp_cum_io = 0, rp_node = vdemo_node, rp_link = []\<rparr>, fs))\<rparr>"


end
