(* ===== verification/VFS_Calls.thy ===== *)
theory VFS_Calls
  imports VFS_Open
begin

text \<open>
  Sequences of VFS calls of one process. A call is the data of its message; running it is running its
  handler. The main result is that between calls a worker thread holds no lock, whatever calls it has
  run before and however they ended.
\<close>

datatype vfs_call =
    Call_link link_msg
  | Call_unlink bool
  | Call_rename link_msg
  | Call_truncate trunc_msg
  | Call_ftruncate trunc_msg
  | Call_symlink link_msg
  | Call_rdlink rdlink_msg
  | Call_rw rw rw_msg
  | Call_getdents rw_msg
  | Call_mknod mknod_msg
  | Call_mkdir mode_t
  | Call_lseek int whence int
  | Call_close int

fun vfs_run :: "'w vfs_env \<Rightarrow> vfs_call \<Rightarrow> 'w vfs \<Rightarrow> (ret \<times> 'w vfs) option" where
  "vfs_run e (Call_link m) fs = do_link e m fs"
| "vfs_run e (Call_unlink u) fs = do_unlink e u fs"
| "vfs_run e (Call_rename m) fs = do_rename e m fs"
| "vfs_run e (Call_truncate m) fs = do_truncate e m fs"
| "vfs_run e (Call_ftruncate m) fs = do_ftruncate e m fs"
| "vfs_run e (Call_symlink m) fs = do_slink e m fs"
| "vfs_run e (Call_rdlink m) fs = do_rdlink e m fs"
| "vfs_run e (Call_rw d m) fs = do_read_write_peek e d (rw_fd m) (rw_buf m) (rw_length m) fs"
| "vfs_run e (Call_getdents m) fs = do_getdents e m fs"
| "vfs_run e (Call_mknod m) fs = do_mknod e m fs"
| "vfs_run e (Call_mkdir md) fs = do_mkdir e md fs"
| "vfs_run e (Call_lseek fd wh off) fs = do_lseek e fd wh off fs"
| "vfs_run e (Call_close fd) fs = Some (do_close e fd fs)"

text \<open>The sequence of calls \<open>cs\<close> leads from one state to another, every call returning.\<close>

inductive vfs_trace :: "'w vfs_env \<Rightarrow> 'w vfs \<Rightarrow> vfs_call list \<Rightarrow> 'w vfs \<Rightarrow> bool" for e where
  Nil: "vfs_trace e fs [] fs"
| Step: "vfs_trace e fs cs fs1 \<Longrightarrow> vfs_run e c fs1 = Some (r, fs2) \<Longrightarrow> vfs_trace e fs (cs @ [c]) fs2"

inductive_cases vfs_trace_NilE: "vfs_trace e fs [] fs'"

definition vfs_laws :: "'w vfs_env \<Rightarrow> ('w \<Rightarrow> resource \<Rightarrow> int) \<Rightarrow> bool" where
  "vfs_laws e bal \<longleftrightarrow> path_laws e bal \<and> lock_laws e bal \<and> filp_laws e bal \<and> dev_laws e bal \<and> open_laws e bal"

text \<open>
  No lookup leads from a directory to itself, and no link puts a directory into itself: the two situations
  in which a lookup finds a vnode that the call has locked already and the call does not notice.
\<close>

definition no_self :: "'w vfs_env \<Rightarrow> bool" where
  "no_self e \<longleftrightarrow> (\<forall>d. \<not> finds_itself e d) \<and> (\<forall>m fs d. link_ends e m fs \<noteq> Some (d, d))"

fun is_close :: "vfs_call \<Rightarrow> bool" where
  "is_close (Call_close fd) = True"
| "is_close c = False"

lemma link_extra_none: "no_self e \<Longrightarrow> link_extra e m fs = (\<lambda>_. 0)"
  by (auto simp: no_self_def link_extra_def split: option.splits prod.splits)

lemma releases_eq: "releases bal (\<lambda>_. 0) fs (Some (r, fs')) \<Longrightarrow> bal (vworld fs') = bal (vworld fs)"
  by (auto simp: releases_def fun_eq_iff)

lemma vfs_run_bal:
  assumes laws: "vfs_laws e bal" and ns: "no_self e" and id0: "idle bal fs" and run: "vfs_run e c fs = Some (r, fs')" and nc: "\<not> is_close c"
  shows "bal (vworld fs') = bal (vworld fs)"
proof -
  have L: "path_laws e bal" "lock_laws e bal" "filp_laws e bal" "dev_laws e bal" using laws by (simp_all add: vfs_laws_def)
  have ns1: "\<not> finds_itself e d" for d using ns by (simp add: no_self_def)
  show ?thesis
  proof (cases c)
    case (Call_link m)
    then show ?thesis using run do_link_bal [OF L(1,2) id0, of m] link_extra_none [OF ns] releases_eq by simp
  next
    case (Call_unlink u)
    then show ?thesis using run do_unlink_releases [OF L(1,2) id0, of u] ns1 releases_eq by (simp add: releases_but_self_def)
  next
    case (Call_rename m)
    then show ?thesis using run do_rename_releases [OF L(1,2) id0 ns1] releases_eq by (metis vfs_run.simps(3))
  next
    case (Call_truncate m)
    then show ?thesis using run do_truncate_releases [OF L(1,2) id0] releases_eq by (metis vfs_run.simps(4))
  next
    case (Call_ftruncate m)
    then show ?thesis using run do_ftruncate_releases [OF L(1-3) id0] releases_eq by (metis vfs_run.simps(5))
  next
    case (Call_symlink m)
    then show ?thesis using run do_slink_releases [OF L(1,2) id0] releases_eq by (metis vfs_run.simps(6))
  next
    case (Call_rdlink m)
    then show ?thesis using run do_rdlink_releases [OF L(1,2) id0] releases_eq by (metis vfs_run.simps(7))
  next
    case (Call_rw d m)
    then show ?thesis using run actual_read_write_peek_releases [OF L(1,4,3) id0] by (simp add: do_read_write_peek_def)
  next
    case (Call_getdents m)
    then show ?thesis using run do_getdents_releases [OF L(1,3) id0] releases_eq by (metis vfs_run.simps(9))
  next
    case (Call_mknod m)
    then show ?thesis using run do_mknod_releases [OF L(1,2) id0] releases_eq by (metis vfs_run.simps(10))
  next
    case (Call_mkdir md)
    then show ?thesis using run do_mkdir_releases [OF L(1,2) id0] releases_eq by (metis vfs_run.simps(11))
  next
    case (Call_lseek fd wh off)
    then show ?thesis using run do_lseek_bal [OF L(1,3) id0] by simp
  next
    case (Call_close fd)
    then show ?thesis using nc by simp
  qed
qed

lemma vfs_run_idle:
  assumes "vfs_laws e bal" "no_self e" "idle bal fs" "vfs_run e c fs = Some (r, fs')"
  shows "idle bal fs'"
proof (cases "is_close c")
  case True
  then obtain fd where c: "c = Call_close fd" by (cases c) auto
  have "idle bal (snd (do_close e fd fs))"
    using close_fd_idle [of e bal fs "fp e" fd] assms(1,3) by (simp add: do_close_def vfs_laws_def)
  then show ?thesis using assms(4) c by (metis vfs_run.simps(13) option.inject snd_conv)
next
  case False
  then show ?thesis using vfs_run_bal [OF assms] assms(3) by (simp add: idle_def)
qed


lemma vdemo_vfs_laws: "vfs_laws vdemo_env (\<lambda>w. w)"
  using vdemo_laws vdemo_dev_laws vdemo_open_laws by (simp add: vfs_laws_def)

lemma vdemo_no_self: "no_self vdemo_env"
proof -
  have "link_ends vdemo_env m fs = Some (2, 1)" for m fs by (simp add: link_ends_def vdemo_env_def vdemo_lookup_def Let_def)
  then show ?thesis using vdemo_not_itself by (simp add: no_self_def)
qed


end
