(* ===== verification/VFS_Lab9.thy ===== *)
theory VFS_Lab9
  imports VFS_Open
begin

text \<open>
  The routines of \<^verbatim>\<open>src/Lab-09\<close> that differ from those of \<^verbatim>\<open>src/Lab-10/vfs\<close>, next to the unlink of Lab 9 in the
  theory of \<^verbatim>\<open>link.c\<close>: truncation refuses immediate files, open creates regular files and does not truncate
  immediate ones, and the messages are worded differently. The routines of the three files that are not
  named here are the same text in both labs.

  Main results: the transfer of Lab 9 has the same result and effect as that of Lab 10 except for its message;
  opening an existing regular file does the same in both labs; and a file that Lab 9 creates is asked for as a
  regular file, where Lab 10 asks for an immediate one.
\<close>

section \<open>Operations\<close>

definition truncate_vnode_lab9 :: "'w vfs_env \<Rightarrow> nat \<Rightarrow> int \<Rightarrow> 'w vfs \<Rightarrow> (ret \<times> 'w vfs) option" where
  "truncate_vnode_lab9 e vp newsize fs =
     (if \<not> vnode_locked_by_me e vp fs then None
      else if \<not> S_ISREG (v_mode (vnodes fs vp)) \<and> \<not> S_ISFIFO (v_mode (vnodes fs vp)) then Some (Err EINVAL, fs)
      else case req e (v_fs_e (vnodes fs vp)) (Req_ftrunc (v_inode_nr (vnodes fs vp)) newsize 0) fs of (r, fs1) \<Rightarrow>
        Some (r, if r = OK then upd_vnode vp (v_size_update (\<lambda>_. newsize)) fs1 else fs1))"

definition rw_report_lab9 :: "'w vfs_env \<Rightarrow> rw \<Rightarrow> nat \<Rightarrow> nat \<Rightarrow> nat \<Rightarrow> 'w vfs \<Rightarrow> 'w vfs option" where
  "rw_report_lab9 e d f vp sz fs =
     (if d = PEEKING then Some fs
      else case find_vmnt e (v_fs_e (vnodes fs vp)) fs of None \<Rightarrow> None
      | Some m \<Rightarrow>
          let args = [AInt (int (v_inode_nr (vnodes fs vp))), AInt (int sz), AInt (filp_pos (filps fs f))] in
          Some (if m_mount_path (vmnts fs ! m) = ''/home'' then
                  vprint (if d = WRITING then ''file write: %llu; nbytes = %zu; offset = %llu''
                          else ''file read: %llu; nbytes = %zu; offset = %llu'') args fs
                else fs))"

definition read_write_lab9 :: "'w vfs_env \<Rightarrow> nat \<Rightarrow> rw \<Rightarrow> nat \<Rightarrow> nat \<Rightarrow> nat \<Rightarrow> endpoint_t \<Rightarrow> 'w vfs \<Rightarrow> (ret \<times> 'w vfs) option" where
  "read_write_lab9 e rfp d f buf sz for_e fs =
     do { vp \<leftarrow> vno f fs;
          chk \<leftarrow> rw_refuse e rfp d vp sz fs;
          case chk of Inl res \<Rightarrow> Some res
          | Inr _ \<Rightarrow>
              do { (r, position, cum_io, fs1) \<leftarrow> rw_transfer e rfp d f vp buf sz for_e fs;
                   fs2 \<leftarrow> rw_report_lab9 e d f vp sz (rw_update d f vp position fs1);
                   Some (if r = OK then Ret (int cum_io) else r, rw_sigpipe e rfp d f r fs2) } }"

definition open_fifo_lab9 :: "'w vfs_env \<Rightarrow> nat \<Rightarrow> nat \<Rightarrow> mode_t \<Rightarrow> u32 \<Rightarrow> 'w vfs \<Rightarrow> (ret \<times> 'w vfs) option" where
  "open_fifo_lab9 e f vp bits oflags fs =
     (case map_vnode e vp (PFS_PROC_NR e) (upgrade_vnode_lock e vp fs) of (r, fs1) \<Rightarrow>
      let fl = (if r = OK then oflags OR O_APPEND else oflags) in
      do { (r1, fs2) \<leftarrow>
             (if r = OK then
                do { (r1, fs2) \<leftarrow> (if v_ref_count (vnodes fs1 vp) = 1 \<and> v_size (vnodes fs1 vp) \<noteq> 0 then truncate_vnode_lab9 e vp 0 fs1 else Some (OK, fs1));
                     Some (r1, upd_filp f (filp_flags_update (\<lambda>_. fl)) fs2) }
              else Some (r, fs1));
           let (r2, fs3) = (if r1 = OK then pipe_open e vp bits fl fs2 else (r1, fs2));
           Some (r2, if r2 \<noteq> Err ENXIO then open_fifo_share e f vp bits fl fs3 else fs3) })"

definition open_existing_lab9 :: "'w vfs_env \<Rightarrow> nat \<Rightarrow> nat \<Rightarrow> mode_t \<Rightarrow> u32 \<Rightarrow> 'w vfs \<Rightarrow> (ret \<times> nat option \<times> 'w vfs) option" where
  "open_existing_lab9 e f vp bits oflags fs =
     (case forbidden e (fp e) vp bits fs of (r, fs1) \<Rightarrow>
      let ty = v_mode (vnodes fs1 vp) AND I_TYPE; here = map_option (\<lambda>(r1, fs2). (r1, Some vp, fs2)) in
      if r \<noteq> OK then Some (r, Some vp, fs1)
      else if ty = I_REGULAR then
        if has oflags O_TRUNC then
          case forbidden e (fp e) vp W_BIT fs1 of (r1, fs2) \<Rightarrow>
            if r1 \<noteq> OK then Some (r1, Some vp, fs2)
            else (case truncate_vnode_lab9 e vp 0 (upgrade_vnode_lock e vp fs2) of None \<Rightarrow> None | Some (r2, fs3) \<Rightarrow> Some (OK, Some vp, fs3))
        else Some (OK, Some vp, fs1)
      else if ty = I_DIRECTORY then Some (if has bits W_BIT then Err EISDIR else OK, Some vp, fs1)
      else if ty = I_CHAR_SPECIAL then
        (case cdev_open e (v_sdev (vnodes fs1 vp)) (bits OR (oflags AND O_NOCTTY)) fs1 of (r1, fs2) \<Rightarrow> Some (r1, vno f fs2, fs2))
      else if ty = I_BLOCK_SPECIAL then here (open_block e vp bits fs1)
      else if ty = I_NAMED_PIPE then here (open_fifo_lab9 e f vp bits oflags fs1)
      else Some (OK, Some vp, fs1))"

definition open_vnode_lab9 :: "'w vfs_env \<Rightarrow> nat \<Rightarrow> nat \<Rightarrow> bool \<Rightarrow> mode_t \<Rightarrow> u32 \<Rightarrow> ret \<Rightarrow> 'w vfs \<Rightarrow> (ret \<times> 'w vfs) option" where
  "open_vnode_lab9 e f vp exist bits oflags r fs =
     (let fs1 = open_claim e f vp oflags fs in
      if exist then case open_existing_lab9 e f vp bits oflags fs1 of None \<Rightarrow> None | Some (r1, vo, fs2) \<Rightarrow> open_end e f vo r1 fs2
      else open_end e f (Some vp) r fs1)"

definition open_create_lab9 :: "'w vfs_env \<Rightarrow> string \<Rightarrow> nat \<Rightarrow> mode_t \<Rightarrow> u32 \<Rightarrow> mode_t \<Rightarrow> 'w vfs \<Rightarrow> (ret \<times> 'w vfs) option" where
  "open_create_lab9 e path f bits oflags omode fs =
     (case new_node e path {} oflags (I_REGULAR OR (omode AND ALLPERMS AND fp_umask (fprocs fs (fp e)))) fs of
        None \<Rightarrow> None
      | Some (vo, fs1) \<Rightarrow>
          let r = verr fs1 in
          if r = OK then
            (case vo of None \<Rightarrow> None
             | Some vp \<Rightarrow>
                 (case find_vmnt e (v_fs_e (vnodes fs1 vp)) fs1 of None \<Rightarrow> None
                  | Some m \<Rightarrow>
                      let fs2 = (if m_mount_path (vmnts fs1 ! m) = ''/home''
                                 then vprint ''file created: %llu'' [AInt (int (v_inode_nr (vnodes fs1 vp)))] fs1 else fs1)
                      in open_vnode_lab9 e f vp False bits oflags r fs2))
          else if r \<noteq> Err EEXIST then
            Some (r, unlock_filp e f (case vo of None \<Rightarrow> fs1 | Some vp \<Rightarrow> unlock_vnode e vp fs1))
          else (case vo of None \<Rightarrow> None | Some vp \<Rightarrow> open_vnode_lab9 e f vp (\<not> has oflags O_EXCL) bits oflags r fs1))"

definition open_lookup_lab9 :: "'w vfs_env \<Rightarrow> string \<Rightarrow> nat \<Rightarrow> mode_t \<Rightarrow> u32 \<Rightarrow> 'w vfs \<Rightarrow> (ret \<times> 'w vfs) option" where
  "open_lookup_lab9 e path f bits oflags fs =
     (case eat_path e \<lparr>l_path = path, l_flags = {}, l_vmnt_lock = VMNT_READ, l_vnode_lock = VNODE_OPCL\<rparr> (fp e) fs of (lr, fs1) \<Rightarrow>
      (case lk_found lr of
         None \<Rightarrow> let fs2 = unlock_filp e f fs1 in Some (verr fs2, fs2)
       | Some vp \<Rightarrow> open_vnode_lab9 e f vp True bits oflags OK (case lk_vmnt lr of None \<Rightarrow> fs1 | Some m \<Rightarrow> unlock_vmnt e m fs1)))"

definition common_open_lab9 :: "'w vfs_env \<Rightarrow> string \<Rightarrow> u32 \<Rightarrow> mode_t \<Rightarrow> 'w vfs \<Rightarrow> (ret \<times> 'w vfs) option" where
  "common_open_lab9 e path oflags omode fs =
     (let bits = mode_map ! unat (oflags AND O_ACCMODE) in
      if bits = 0 then Some (Err EINVAL, fs)
      else case get_fd e (fp e) 0 bits fs of (r, fd, f, fs1) \<Rightarrow>
        if r \<noteq> OK then Some (r, fs1)
        else let fs2 = upd_scratch (fp e) (fd_nr_update (\<lambda>_. fd)) fs1 in
          if has oflags O_CREAT then open_create_lab9 e path f bits oflags omode fs2 else open_lookup_lab9 e path f bits oflags fs2)"

section \<open>Agreement with Lab 10\<close>

definition same_but_console :: "'w vfs \<Rightarrow> 'w vfs \<Rightarrow> bool" where
  "same_but_console fs fs' \<longleftrightarrow> fs'\<lparr>vconsole := vconsole fs\<rparr> = fs"

lemma same_but_console_refl [simp]: "same_but_console fs fs"
  by (simp add: same_but_console_def)

lemma same_but_console_prints: "same_but_console (vprint m a fs) (vprint m' a' fs)"
  by (simp add: same_but_console_def vprint_def)

lemma rw_report_lab9_agrees:
  assumes "filp_pos (filps fs f) = position"
  shows "rel_option same_but_console (rw_report e d vp sz position fs) (rw_report_lab9 e d f vp sz fs)"
  using assms by (auto simp: rw_report_def rw_report_lab9_def Let_def same_but_console_prints split: option.splits)

lemma rw_update_pos: "filp_pos (filps (rw_update d f vp position fs) f) = position"
  by (simp add: rw_update_def Let_def upd_filp_def)

text \<open>
  A transfer of Lab 9 returns exactly when that of Lab 10 does, with the same result, and leaves the same state
  except for the console; after an EPIPE, which sends a signal, only the result is compared.\<close>

theorem read_write_lab9_agrees:
  "rel_option (\<lambda>(r, s) (r', s'). r' = r \<and> (r \<noteq> Err EPIPE \<longrightarrow> same_but_console s s'))
     (read_write e rfp d f buf sz for_e fs) (read_write_lab9 e rfp d f buf sz for_e fs)"
proof (cases "\<exists>vp x. vno f fs = Some vp \<and> rw_refuse e rfp d vp sz fs = Some (Inr x)")
  case False
  then show ?thesis
    by (cases "vno f fs") (auto simp: read_write_def read_write_lab9_def Option.bind_eq_Some_conv split: bind_split sum.splits option.splits)
next
  case True
  then obtain vp x where v: "vno f fs = Some vp" "rw_refuse e rfp d vp sz fs = Some (Inr x)" by blast
  show ?thesis
  proof (cases "rw_transfer e rfp d f vp buf sz for_e fs")
    case None
    then show ?thesis using v by (simp add: read_write_def read_write_lab9_def)
  next
    case (Some q)
    obtain r pos c fs1 where q: "q = (r, pos, c, fs1)" by (cases q)
    have rep: "rel_option same_but_console (rw_report e d vp sz pos (rw_update d f vp pos fs1)) (rw_report_lab9 e d f vp sz (rw_update d f vp pos fs1))"
      by (rule rw_report_lab9_agrees [OF rw_update_pos])
    show ?thesis using v Some q rep
      by (cases "rw_report e d vp sz pos (rw_update d f vp pos fs1)"; cases "rw_report_lab9 e d f vp sz (rw_update d f vp pos fs1)")
        (auto simp: read_write_def read_write_lab9_def rw_sigpipe_def)
  qed
qed

theorem read_write_lab9_agrees_witness:
  "\<exists>s s'. read_write vdemo_env 0 WRITING 0 100 50 100 (vdemo_open I_REGULAR 0) = Some (Ret 50, s)
    \<and> read_write_lab9 vdemo_env 0 WRITING 0 100 50 100 (vdemo_open I_REGULAR 0) = Some (Ret 50, s') \<and> same_but_console s s'"
proof -
  note rw_start_def [simp] has_def [simp]
  have "fs_req vdemo_env 5 (Req_readwrite 70 10 WRITING 100 100 50) (vdemo_open I_REGULAR 0)
      = (\<lparr>rp_ret = OK, rp_pos = 60, rp_cum_io = 50, rp_node = vdemo_node, rp_link = []\<rparr>, vdemo_open I_REGULAR 0)"
    by (simp add: vdemo_req)
  then obtain s where "read_write vdemo_env 0 WRITING 0 100 50 100 (vdemo_open I_REGULAR 0) = Some (Ret 50, s)"
    using read_write_file [OF vdemo_laws(1) vdemo_dev_laws vdemo_file_open [OF plain_reg(1)], of 50 WRITING 0 100 100 _ _ 0]
    by (auto simp: vdemo_max)
  then show ?thesis using read_write_lab9_agrees [of vdemo_env 0 WRITING 0 100 50 100 "vdemo_open I_REGULAR 0"]
    by (auto simp: option_rel_Some1)
qed

lemma truncate_lab9_regular: "S_ISREG (v_mode (vnodes fs v)) \<Longrightarrow> truncate_vnode_lab9 e v n fs = truncate_vnode e v n fs"
  by (simp add: truncate_vnode_lab9_def truncate_vnode_def)

lemma regular_stays:
  assumes "S_ISREG (v_mode (vnodes fs v))" and "0 < bal (vworld fs) (VLock v)" and "stable bal fs fs'"
  shows "S_ISREG (v_mode (vnodes fs' v))"
  using assms by (simp add: stable_def vkey_def)

lemma open_existing_lab9_regular:
  assumes laws: "path_laws e bal" "open_laws e bal" and reg: "S_ISREG (v_mode (vnodes fs v))" and lk: "0 < bal (vworld fs) (VLock v)"
  shows "open_existing_lab9 e f v bits oflags fs = open_existing e f v bits oflags fs"
proof -
  obtain r fs1 where fb: "forbidden e (fp e) v bits fs = (r, fs1)" by (metis surj_pair)
  obtain r2 fs2 where fb2: "forbidden e (fp e) v W_BIT fs1 = (r2, fs2)" by (metis surj_pair)
  note q = forbidden_quiet [OF laws(1) fb] and q2 = forbidden_quiet [OF laws(1) fb2]
  have q3: "quiet bal fs2 (upgrade_vnode_lock e v fs2)" using laws(2) by (simp add: open_laws_def)
  have lk1: "0 < bal (vworld fs1) (VLock v)" "0 < bal (vworld fs2) (VLock v)" using lk q q2 by (simp_all add: quiet_def)
  have r1: "S_ISREG (v_mode (vnodes fs1 v))" using regular_stays [of fs v bal, OF reg lk] q by (simp add: quiet_def)
  have "S_ISREG (v_mode (vnodes fs2 v))" using regular_stays [of fs1 v bal, OF r1 lk1(1)] q2 by (simp add: quiet_def)
  then have "S_ISREG (v_mode (vnodes (upgrade_vnode_lock e v fs2) v))" using regular_stays [of fs2 v bal, OF _ lk1(2)] q3 by (simp add: quiet_def)
  then show ?thesis using fb fb2 r1 by (simp add: open_existing_lab9_def open_existing_def Let_def truncate_lab9_regular S_ISREG_def)
qed

text \<open>
  Opening an existing regular file without \<^verbatim>\<open>O_CREAT\<close>, with whatever other flags, is the same call in Lab 9 and in
  Lab 10: same result, same effect.\<close>

theorem common_open_lab9_agrees:
  assumes "path_laws e bal" "lock_laws e bal" "open_laws e bal" and "idle bal fs" and "\<not> has oflags O_CREAT"
    and "get_fd e (fp e) 0 (mode_map ! unat (oflags AND O_ACCMODE)) fs = (OK, fd, f, fs1)"
    and "eat_path e \<lparr>l_path = path, l_flags = {}, l_vmnt_lock = VMNT_READ, l_vnode_lock = VNODE_OPCL\<rparr> (fp e) (upd_scratch (fp e) (fd_nr_update (\<lambda>_. fd)) fs1) = (lr, fs2)"
    and "lk_found lr = Some v" and "S_ISREG (v_mode (vnodes fs2 v))"
  shows "common_open_lab9 e path oflags omode fs = common_open e path oflags omode fs"
proof -
  let ?fs1 = "upd_scratch (fp e) (fd_nr_update (\<lambda>_. fd)) fs1"
  note law = eat_path_law [OF assms(1,7)]
  have b1: "bal (vworld fs1) y = bal (vworld fs) y + unit_of (FLock f) y" for y by (rule get_fd_law [OF assms(3,6)])
  then have "bal (vworld ?fs1) (VLock v) = 0" "bal (vworld ?fs1) (MLock mm) = 0" for mm using assms(4) by (simp_all add: idle_def)
  then obtain m where m: "lk_vmnt lr = Some m" "lk_vnode lr = Some v" using law assms(8) by (auto simp: lookup_law_def)
  have "bal (vworld fs2) (VLock v) = bal (vworld fs) (VLock v) + 1" using law assms(8) m b1 by (simp add: lookup_law_def gained_def)
  then have lk: "0 < bal (vworld fs2) (VLock v)" using assms(4) by (simp add: idle_def)
  let ?fs3 = "unlock_vmnt e m fs2" and ?fs4 = "open_claim e f v oflags (unlock_vmnt e m fs2)"
  have reg: "S_ISREG (v_mode (vnodes ?fs3 v))" using regular_stays [of fs2 v bal, OF assms(9) lk] assms(2) by (simp add: lock_laws_def)
  have lk3: "0 < bal (vworld ?fs3) (VLock v)" using lk by (simp add: lock_lawsD [OF assms(2)])
  have "vworld ?fs4 = vworld ?fs3" "vnodes ?fs4 = vnodes ?fs3" by (simp_all add: open_claim_def Let_def vfs_upd_defs)
  then have "open_existing_lab9 e f v (mode_map ! unat (oflags AND O_ACCMODE)) oflags ?fs4 = open_existing e f v (mode_map ! unat (oflags AND O_ACCMODE)) oflags ?fs4"
    using open_existing_lab9_regular [OF assms(1,3)] reg lk3 by simp
  then show ?thesis using assms(5-8) m
    by (simp add: common_open_lab9_def common_open_def open_lookup_lab9_def open_lookup_def open_vnode_lab9_def open_vnode_def Let_def)
qed

theorem common_open_lab9_agrees_witness:
  "common_open_lab9 vdemo_env ''d/f'' O_TRUNC 0 (vdemo_fs I_REGULAR) = common_open vdemo_env ''d/f'' O_TRUNC 0 (vdemo_fs I_REGULAR)"
proof -
  obtain fs1 where g: "get_fd vdemo_env (fp vdemo_env) 0 (mode_map ! unat (O_TRUNC AND O_ACCMODE)) (vdemo_fs I_REGULAR) = (OK, 3, 4, fs1)"
    by (simp add: vdemo_env_def vdemo_fs_def)
  obtain lr fs2 where l: "eat_path vdemo_env \<lparr>l_path = ''d/f'', l_flags = {}, l_vmnt_lock = VMNT_READ, l_vnode_lock = VNODE_OPCL\<rparr> (fp vdemo_env)
    (upd_scratch (fp vdemo_env) (fd_nr_update (\<lambda>_. 3)) fs1) = (lr, fs2)" by (metis surj_pair)
  have "lk_found lr = Some 2" "S_ISREG (v_mode (vnodes fs2 2))" using g l
    by (auto simp: vdemo_env_def vdemo_fs_def vdemo_lookup_def Let_def upd_scratch_def vgain_def vdemo_vnode_def ftype_defs mode_consts)
  from common_open_lab9_agrees [OF vdemo_laws(1,2) vdemo_open_laws vdemo_idle _ g l this] show ?thesis by (simp add: has_def oflag_defs)
qed

end
