(* ===== verification/Lab2.thy ===== *)
theory Lab2
  imports Minix_Prelude "HOL-Library.Signed_Division"
begin

text \<open>
  The user programs of Lab 2: \<^verbatim>\<open>twice\<close>, \<^verbatim>\<open>square\<close> and \<^verbatim>\<open>half\<close> of \<^verbatim>\<open>src/Lab-02/part2\<close>, which hand a number
  along a chain of \<^verbatim>\<open>execvp\<close> calls, and the chain of forks of \<^verbatim>\<open>src/Lab-02/part1/part_1.c\<close>.

  A C \<^verbatim>\<open>int\<close> is an \<^typ>\<open>int\<close> in the range of 32 bits; a result outside it, a store outside an array and the
  use of an undefined value are \<^const>\<open>None\<close>. The array \<^verbatim>\<open>args\<close> has \<^verbatim>\<open>argc - 1\<close> entries; the parameter \<open>slack\<close> is
  the number of entries behind it that the program happens to be able to write, so that \<open>slack = 0\<close> is
  the language's rule and \<open>slack = 1\<close> what the programs need.
\<close>

section \<open>Numbers as text\<close>

definition c_int :: "int \<Rightarrow> int option" where
  "c_int n = (if - (2 ^ 31) \<le> n \<and> n < 2 ^ 31 then Some n else None)"

definition digit :: "nat \<Rightarrow> char" where
  "digit d = char_of (48 + d)"

fun show_nat :: "nat \<Rightarrow> string" where
  "show_nat n = (if n < 10 then [digit n] else show_nat (n div 10) @ [digit (n mod 10)])"

declare show_nat.simps [simp del]

text \<open>\<^verbatim>\<open>sprintf\<close> with the format \<^verbatim>\<open>%d\<close>.\<close>

definition show_int :: "int \<Rightarrow> string" where
  "show_int n = (if n < 0 then CHR ''-'' # show_nat (nat (- n)) else show_nat (nat n))"

definition is_digit :: "char \<Rightarrow> bool" where
  "is_digit c \<longleftrightarrow> 48 \<le> (of_char c :: nat) \<and> (of_char c :: nat) < 58"

definition is_space :: "char \<Rightarrow> bool" where
  "is_space c \<longleftrightarrow> of_char c = (32 :: nat) \<or> 9 \<le> (of_char c :: nat) \<and> (of_char c :: nat) \<le> 13"

fun read_digits :: "nat \<Rightarrow> string \<Rightarrow> nat" where
  "read_digits acc [] = acc"
| "read_digits acc (c # cs) = (if is_digit c then read_digits (10 * acc + (of_char c - 48)) cs else acc)"

text \<open>\<^verbatim>\<open>atoi\<close>: white space, a sign, digits; a value that is no \<^verbatim>\<open>int\<close> is undefined.\<close>

definition atoi :: "string \<Rightarrow> int option" where
  "atoi s =
     (case dropWhile is_space s of
        [] \<Rightarrow> Some 0
      | c # cs \<Rightarrow>
          c_int (if c = CHR ''-'' then - int (read_digits 0 cs)
                 else if c = CHR ''+'' then int (read_digits 0 cs) else int (read_digits 0 (c # cs))))"

lemma of_char_digit: "d < 10 \<Longrightarrow> of_char (digit d) = 48 + d"
  by (simp add: digit_def)

lemma is_digit_digit [simp]: "d < 10 \<Longrightarrow> is_digit (digit d)"
  by (simp add: is_digit_def of_char_digit)

lemma read_digits_app:
  "list_all is_digit s \<Longrightarrow> read_digits acc (s @ t) = read_digits (read_digits acc s) t"
  by (induction s arbitrary: acc) auto

lemma show_nat_digits: "list_all is_digit (show_nat n) \<and> show_nat n \<noteq> []"
proof (induction n rule: show_nat.induct)
  case (1 n)
  then show ?case by (subst (1 2) show_nat.simps) auto
qed

lemma read_digits_show_nat: "read_digits 0 (show_nat n) = n"
proof (induction n rule: show_nat.induct)
  case (1 n)
  show ?case
  proof (cases "n < 10")
    case True
    then show ?thesis by (subst show_nat.simps) (simp add: of_char_digit)
  next
    case False
    then have "show_nat n = show_nat (n div 10) @ [digit (n mod 10)]" by (subst show_nat.simps) simp
    moreover have "read_digits 0 (show_nat (n div 10)) = n div 10" using 1 False by simp
    ultimately show ?thesis using show_nat_digits [of "n div 10"] by (simp add: read_digits_app of_char_digit)
  qed
qed

lemma digit_not_special: "is_digit c \<Longrightarrow> \<not> is_space c \<and> c \<noteq> CHR ''-'' \<and> c \<noteq> CHR ''+''"
  by (auto simp: is_digit_def is_space_def)

lemma length_show_nat: "n < 10 ^ Suc k \<Longrightarrow> length (show_nat n) \<le> Suc k"
proof (induction k arbitrary: n)
  case 0
  then show ?case by (subst show_nat.simps) simp
next
  case (Suc k)
  have "n div 10 < 10 ^ Suc k" using Suc.prems by (simp add: less_mult_imp_div_less mult.commute)
  then have "length (show_nat (n div 10)) \<le> Suc k" by (rule Suc.IH)
  then show ?case by (subst show_nat.simps) simp
qed

text \<open>The text of an \<^verbatim>\<open>int\<close> fits \<^verbatim>\<open>number_str[100]\<close>, and the next program reads the same number back.\<close>

lemma length_show_int:
  assumes "c_int n = Some m"
  shows "length (show_int n) \<le> 11"
proof -
  have "nat (- n) < 10 ^ Suc 9" "nat n < 10 ^ Suc 9" using assms by (auto simp: c_int_def nat_less_iff split: if_splits)
  then have "length (show_nat (nat (- n))) \<le> Suc 9" "length (show_nat (nat n)) \<le> Suc 9" by (blast intro: length_show_nat)+
  then show ?thesis by (simp add: show_int_def)
qed

lemma atoi_show_int: "atoi (show_int n) = c_int n"
proof (cases "n < 0")
  case True
  then show ?thesis by (simp add: atoi_def show_int_def is_space_def read_digits_show_nat)
next
  case False
  obtain c cs where s: "show_nat (nat n) = c # cs" using show_nat_digits [of "nat n"] by (cases "show_nat (nat n)") auto
  then have "is_digit c" using show_nat_digits [of "nat n"] by simp
  note d = digit_not_special [OF this]
  have "read_digits 0 (c # cs) = nat n" using read_digits_show_nat [of "nat n"] s by simp
  then show ?thesis using False s d by (simp add: atoi_def show_int_def del: read_digits.simps)
qed

section \<open>The programs of part 2\<close>

datatype prog = Twice | Square | Half

datatype cell = Undef | NULL | Str string

datatype finish = Exit int | Execvp string "string list"

fun label :: "prog \<Rightarrow> string" where
  "label Twice = ''Twice''"
| "label Square = ''Square''"
| "label Half = ''Half''"

fun compute :: "prog \<Rightarrow> int \<Rightarrow> int option" where
  "compute Twice n = c_int (n * 2)"
| "compute Square n = c_int (n * n)"
| "compute Half n = Some (n sdiv 2)"

definition store :: "nat \<Rightarrow> cell \<Rightarrow> cell list \<Rightarrow> cell list option" where
  "store i v a = (if i < length a then Some (a[i := v]) else None)"

text \<open>The loop that copies the arguments.\<close>

fun copy_args :: "string list \<Rightarrow> nat list \<Rightarrow> cell list \<Rightarrow> cell list option" where
  "copy_args argv [] a = Some a"
| "copy_args argv (i # is) a = do { a1 \<leftarrow> store i (Str (argv ! (i + 1))) a; copy_args argv is a1 }"

text \<open>What \<^verbatim>\<open>execvp\<close> reads: the strings up to the \<^verbatim>\<open>NULL\<close>.\<close>

fun vector :: "cell list \<Rightarrow> string list option" where
  "vector (Str s # a) = do { ss \<leftarrow> vector a; Some (s # ss) }"
| "vector (NULL # a) = Some []"
| "vector _ = None"

definition fill_args :: "nat \<Rightarrow> string list \<Rightarrow> string \<Rightarrow> cell list option" where
  "fill_args slack argv number_str =
     (let argc = length argv in
      do { a1 \<leftarrow> copy_args argv [0..<argc - 1] (replicate (argc - 1 + slack) Undef);
           a2 \<leftarrow> store (argc - 2) (Str number_str) a1;
           store (argc - 1) NULL a2 })"

text \<open>The three \<^verbatim>\<open>main\<close> functions differ in the computation and in the name they print.\<close>

definition prog_main :: "prog \<Rightarrow> nat \<Rightarrow> int \<Rightarrow> string list \<Rightarrow> (finish \<times> console) option" where
  "prog_main p slack pid argv =
     (let argc = length argv in
      if argc = 1 then Some (Exit 1, printf ''Please provide a number as a command-line argument'' [] [])
      else if argc = 0 then None
      else do { number \<leftarrow> atoi (argv ! (argc - 1));
                number' \<leftarrow> compute p number;
                let number_str = show_int number' in
                if 100 < length number_str + 1 then None
                else do { args \<leftarrow> fill_args slack argv number_str;
                          v \<leftarrow> vector args;
                          (case v of [] \<Rightarrow> None
                           | file # _ \<Rightarrow> Some (Execvp file v,
                               printf (label p @ '': Current process id: %d, Current result: %s'') [AInt pid, AStr number_str] [])) } })"

definition twice_main :: "nat \<Rightarrow> int \<Rightarrow> string list \<Rightarrow> (finish \<times> console) option" where
  "twice_main = prog_main Twice"

definition square_main :: "nat \<Rightarrow> int \<Rightarrow> string list \<Rightarrow> (finish \<times> console) option" where
  "square_main = prog_main Square"

definition half_main :: "nat \<Rightarrow> int \<Rightarrow> string list \<Rightarrow> (finish \<times> console) option" where
  "half_main = prog_main Half"

fun main_of :: "prog \<Rightarrow> nat \<Rightarrow> int \<Rightarrow> string list \<Rightarrow> (finish \<times> console) option" where
  "main_of Twice = twice_main"
| "main_of Square = square_main"
| "main_of Half = half_main"

lemma main_of: "main_of p = prog_main p"
  by (cases p) (simp_all add: twice_main_def square_main_def half_main_def)

text \<open>The vector that is passed on: the arguments without the first, the last one replaced.\<close>

lemma copy_args_app: "copy_args argv (xs @ ys) a = do { a1 \<leftarrow> copy_args argv xs a; copy_args argv ys a1 }"
  by (induction xs arbitrary: a) (simp_all add: store_def)

lemma copy_args_upt:
  assumes "k < length argv" and "k \<le> length a"
  shows "copy_args argv [0..<k] a = Some (map Str (take k (tl argv)) @ drop k a)"
  using assms
proof (induction k)
  case (Suc k)
  have "(map Str (take k (tl argv)) @ drop k a)[k := Str (argv ! Suc k)] = map Str (take (Suc k) (tl argv)) @ drop (Suc k) a"
    using Suc.prems by (simp add: list_update_append take_Suc_conv_app_nth nth_tl Cons_nth_drop_Suc [symmetric])
  then show ?case using Suc by (simp add: copy_args_app store_def)
qed simp

lemma vector_strs: "vector (map Str ss @ NULL # a) = Some ss"
  by (induction ss) auto

lemma fill_args_vector:
  assumes "argv = f # fs @ [x]" and "0 < slack"
  shows "\<exists>args. fill_args slack argv s = Some args \<and> vector args = Some (fs @ [s])"
proof -
  obtain k where k: "slack = Suc k" using assms(2) by (cases slack) auto
  have c: "copy_args argv [0..<length argv - 1] (replicate (length argv - 1 + slack) Undef) = Some (map Str (fs @ [x]) @ replicate (Suc k) Undef)"
    using assms(1) k by (subst copy_args_upt) (simp_all del: replicate_Suc)
  have "fill_args slack argv s = Some (map Str (fs @ [s]) @ NULL # replicate k Undef)"
    using assms(1) unfolding fill_args_def Let_def c by (simp add: store_def list_update_append)
  then show ?thesis using vector_strs by blast
qed

lemma fill_args_overrun:
  assumes "0 < length argv"
  shows "fill_args 0 argv s = None"
proof -
  have "copy_args argv [0..<length argv - 1] (replicate (length argv - 1 + 0) Undef) = Some (map Str (tl argv))"
    using assms by (subst copy_args_upt) auto
  then show ?thesis by (simp add: fill_args_def Let_def store_def bind_eq_None_conv)
qed

lemma compute_int: "c_int n = Some m \<Longrightarrow> compute p n = Some r \<Longrightarrow> c_int r = Some r"
proof (cases p)
  case Half
  assume n: "c_int n = Some m" and r: "compute p n = Some r"
  have "r = sgn n * (\<bar>n\<bar> div 2)" using r Half by (simp add: signed_divide_int_def sgn_mult)
  then show ?thesis using n by (auto simp: c_int_def sgn_if split: if_splits)
qed (auto simp: c_int_def split: if_splits)

lemma atoi_int: "atoi s = Some n \<Longrightarrow> c_int n = Some n"
  by (auto simp: atoi_def c_int_def split: list.splits if_splits)

definition prog_line :: "prog \<Rightarrow> int \<Rightarrow> int \<Rightarrow> string \<times> parg list" where
  "prog_line p pid r = (label p @ '': Current process id: %d, Current result: %s'', [AInt pid, AStr (show_int r)])"

lemma prog_main_exec:
  assumes "argv = f # fs @ [x]" and "0 < slack" and "atoi x = Some n" and "compute p n = Some r"
  shows "prog_main p slack pid argv = Some (Execvp (hd (fs @ [show_int r])) (fs @ [show_int r]), [prog_line p pid r])"
proof -
  obtain args where a: "fill_args slack argv (show_int r) = Some args" "vector args = Some (fs @ [show_int r])"
    using fill_args_vector [OF assms(1,2)] by blast
  have "length (show_int r) \<le> 11" using length_show_int compute_int [OF atoi_int [OF assms(3)] assms(4)] by blast
  then show ?thesis using assms(1,3,4) a
    by (auto simp: prog_main_def Let_def printf_def prog_line_def nth_append split: list.splits)
qed

lemma first_last:
  assumes "2 \<le> length xs"
  obtains f fs where "xs = f # fs @ [last xs]"
proof -
  obtain f gs where g: "xs = f # gs" using assms by (cases xs) auto
  then have "gs \<noteq> []" using assms by auto
  then have "xs = f # butlast gs @ [last xs]" using g by simp
  then show ?thesis by (rule that)
qed

lemma prog_main_inv:
  assumes "prog_main p slack pid argv = Some (fin, out)" and "length argv \<noteq> 1"
  obtains f fs x n r where "argv = f # fs @ [x]" "0 < slack" "atoi x = Some n" "compute p n = Some r"
proof -
  have "length argv \<noteq> 0" using assms(1) by (auto simp: prog_main_def)
  with assms(2) have l: "2 \<le> length argv" by linarith
  then obtain f fs where a: "argv = f # fs @ [last argv]" by (rule first_last)
  obtain n r args where n: "atoi (argv ! (length argv - 1)) = Some n" "compute p n = Some r" "fill_args slack argv (show_int r) = Some args"
    using assms l by (auto simp: prog_main_def Let_def bind_eq_Some_conv split: if_splits)
  have "0 < length argv" using l by linarith
  then have "0 < slack" using n(3) fill_args_overrun [of argv "show_int r"] by (cases slack) auto
  moreover have "atoi (last argv) = Some n" using n(1) l by (subst last_conv_nth) auto
  ultimately show ?thesis using that [OF a] n(2) by blast
qed

lemma prog_main_shrinks:
  assumes "prog_main p slack pid argv = Some (Execvp file v, out)"
  shows "length v < length argv"
proof -
  have "length argv \<noteq> 1" using assms by (auto simp: prog_main_def)
  with assms obtain f fs x n r where a: "argv = f # fs @ [x]" "0 < slack" "atoi x = Some n" "compute p n = Some r" by (rule prog_main_inv)
  then show ?thesis using prog_main_exec [OF a, of pid] assms by auto
qed

section \<open>Chains of programs\<close>

text \<open>
  \<^verbatim>\<open>execvp\<close> runs the file it finds; it returns, and the program exits with status 0, only if there is none.
  The function \<open>img\<close> says what a name leads to: one of the three programs, something else, or nothing.
\<close>

datatype target = Program prog | Foreign | NoFile

datatype chain_end = Exited int | Replaced string "string list"

function run_chain :: "(string \<Rightarrow> target) \<Rightarrow> nat \<Rightarrow> int \<Rightarrow> prog \<Rightarrow> string list \<Rightarrow> (chain_end \<times> console) option" where
  "run_chain img slack pid p argv =
     (case main_of p slack pid argv of
        None \<Rightarrow> None
      | Some (Exit r, out) \<Rightarrow> Some (Exited r, out)
      | Some (Execvp file v, out) \<Rightarrow>
          (case img file of
             NoFile \<Rightarrow> Some (Exited 0, out)
           | Foreign \<Rightarrow> Some (Replaced file v, out)
           | Program q \<Rightarrow> (case run_chain img slack pid q v of None \<Rightarrow> None | Some (r, out') \<Rightarrow> Some (r, out @ out'))))"
  by auto
termination
  by (relation "measure (\<lambda>(_, _, _, _, argv). length argv)") (auto simp: main_of prog_main_shrinks)

declare run_chain.simps [simp del]

text \<open>The numbers that the programs of a chain compute, each from the one before.\<close>

fun results :: "prog list \<Rightarrow> int \<Rightarrow> int list option" where
  "results [] n = Some []"
| "results (p # ps) n = do { r \<leftarrow> compute p n; rs \<leftarrow> results ps r; Some (r # rs) }"

section \<open>Properties of part 2\<close>

text \<open>
  With at least one argument, a program of part 2 reaches its \<^verbatim>\<open>execvp\<close> only if there is room to write behind
  the end of its array \<^verbatim>\<open>args\<close>: by the rules of the language every such run is undefined. Apart from that it needs
  an argument that is an \<^verbatim>\<open>int\<close> and a result that is one.\<close>

theorem prog_main_defined:
  assumes "2 \<le> length argv"
  shows "main_of p slack pid argv \<noteq> None \<longleftrightarrow> 0 < slack \<and> (\<exists>n r. atoi (last argv) = Some n \<and> compute p n = Some r)"
proof
  assume "main_of p slack pid argv \<noteq> None"
  then obtain fin out where "prog_main p slack pid argv = Some (fin, out)" by (auto simp: main_of)
  with assms obtain f fs x n r where "argv = f # fs @ [x]" "0 < slack" "atoi x = Some n" "compute p n = Some r"
    using prog_main_inv by (metis One_nat_def Suc_1 not_less_eq_eq order_refl)
  then show "0 < slack \<and> (\<exists>n r. atoi (last argv) = Some n \<and> compute p n = Some r)" by simp
next
  assume *: "0 < slack \<and> (\<exists>n r. atoi (last argv) = Some n \<and> compute p n = Some r)"
  then obtain n r where n: "atoi (last argv) = Some n" "compute p n = Some r" by blast
  obtain f fs where "argv = f # fs @ [last argv]" using assms by (rule first_last)
  from prog_main_exec [OF this _ n, of slack pid] * show "main_of p slack pid argv \<noteq> None" unfolding main_of by blast
qed

theorem prog_main_defined_witness:
  "main_of Twice 0 7 [''./twice'', ''10''] = None"
  using prog_main_defined [of "[''./twice'', ''10'']" Twice 0 7] by (simp del: not_None_eq)


definition demo_img :: "string \<Rightarrow> target" where
  "demo_img s = (if s = ''./twice'' then Program Twice else if s = ''./square'' then Program Square else if s = ''./half'' then Program Half else NoFile)"


end
