(* ===== verification/Lab2_Fork.thy ===== *)
theory Lab2_Fork
  imports Minix_Prelude
begin

text \<open>
  The chain of processes of \<^verbatim>\<open>src/Lab-02/part1/part_1.c\<close>. The program forks before its loop over the letters
  of \<^verbatim>\<open>str\<close>; in every round a process prints a message if its last fork failed, prints a letter and forks if it
  is a child, and waits if it is a parent.

  The state holds every process that was created, with its place in the program, and the output. One step
  runs one process from one system call to the next, in any order; a fork may fail. The number returned by
  \<^verbatim>\<open>getpid\<close> in process \<open>k\<close> is \<open>pidf k\<close>. The sleep before a letter only delays the process. Output appears
  line by line, as on a terminal.
\<close>

section \<open>Model\<close>

datatype place = Begin | Loop | Forking | Done

record hproc =
  h_pc :: place
  h_i :: nat
  h_pid :: int
  h_parent :: "nat option"
  h_reaped :: bool

record hello =
  h_procs :: "hproc list"
  h_out :: console

definition hello_str :: string where
  "hello_str = ''Hello World''"

definition letter :: "(nat \<Rightarrow> int) \<Rightarrow> nat \<Rightarrow> nat \<Rightarrow> string \<times> parg list" where
  "letter pidf i k = (''%c %d'', [AStr [hello_str ! i], AInt (pidf k)])"

definition not_created :: "string \<times> parg list" where
  "not_created = (''** child not created **'', [])"

text \<open>A fork of process \<open>k\<close>; parent and child go on in the loop with the same counter.\<close>

definition fork_proc :: "(nat \<Rightarrow> int) \<Rightarrow> bool \<Rightarrow> nat \<Rightarrow> nat \<Rightarrow> hello \<Rightarrow> hello" where
  "fork_proc pidf ok k i s =
     (if ok then s\<lparr>h_procs := upd_at k (\<lambda>p. p\<lparr>h_pc := Loop, h_i := i, h_pid := pidf (length (h_procs s))\<rparr>) (h_procs s)
                    @ [\<lparr>h_pc = Loop, h_i = i, h_pid = 0, h_parent = Some k, h_reaped = False\<rparr>]\<rparr>
      else s\<lparr>h_procs := upd_at k (\<lambda>p. p\<lparr>h_pc := Loop, h_i := i, h_pid := -1\<rparr>) (h_procs s)\<rparr>)"

definition unreaped :: "nat \<Rightarrow> hello \<Rightarrow> nat list" where
  "unreaped k s = filter (\<lambda>c. h_parent (h_procs s ! c) = Some k \<and> \<not> h_reaped (h_procs s ! c)) [0..<length (h_procs s)]"

text \<open>\<^verbatim>\<open>wait\<close>: blocks while there are children and none has ended.\<close>

definition wait_proc :: "nat \<Rightarrow> hello \<Rightarrow> hello option" where
  "wait_proc k s =
     (case unreaped k s of
        [] \<Rightarrow> Some s
      | cs \<Rightarrow> (case filter (\<lambda>c. h_pc (h_procs s ! c) = Done) cs of
                  [] \<Rightarrow> None
                | c # _ \<Rightarrow> Some (s\<lparr>h_procs := upd_at c (\<lambda>p. p\<lparr>h_reaped := True\<rparr>) (h_procs s)\<rparr>)))"

definition next_round :: "nat \<Rightarrow> hello \<Rightarrow> hello" where
  "next_round k s = s\<lparr>h_procs := upd_at k (\<lambda>p. p\<lparr>h_i := Suc (h_i p)\<rparr>) (h_procs s)\<rparr>"

definition hello_next :: "(nat \<Rightarrow> int) \<Rightarrow> bool \<Rightarrow> nat \<Rightarrow> hello \<Rightarrow> hello option" where
  "hello_next pidf ok k s =
     (let p = h_procs s ! k in
      case h_pc p of
        Begin \<Rightarrow> Some (fork_proc pidf ok k 0 s)
      | Loop \<Rightarrow>
          (if \<not> h_i p < length hello_str then Some (s\<lparr>h_procs := upd_at k (\<lambda>p. p\<lparr>h_pc := Done\<rparr>) (h_procs s)\<rparr>)
           else if h_pid p < 0 then Some (next_round k (s\<lparr>h_out := h_out s @ [not_created]\<rparr>))
           else if h_pid p = 0
             then Some (s\<lparr>h_out := h_out s @ [letter pidf (h_i p) k], h_procs := upd_at k (\<lambda>p. p\<lparr>h_pc := Forking\<rparr>) (h_procs s)\<rparr>)
           else map_option (next_round k) (wait_proc k s))
      | Forking \<Rightarrow> Some (fork_proc pidf ok k (Suc (h_i p)) s)
      | Done \<Rightarrow> None)"

definition hello_init :: hello where
  "hello_init = \<lparr>h_procs = [\<lparr>h_pc = Begin, h_i = 0, h_pid = 0, h_parent = None, h_reaped = False\<rparr>], h_out = []\<rparr>"

inductive hello_step :: "(nat \<Rightarrow> int) \<Rightarrow> hello \<Rightarrow> hello \<Rightarrow> bool" for pidf where
  run: "k < length (h_procs s) \<Longrightarrow> hello_next pidf ok k s = Some t \<Longrightarrow> hello_step pidf s t"

inductive_cases hello_stepE: "hello_step pidf s t"

section \<open>The shape of the chain\<close>

text \<open>
  Process \<open>j\<close> is the parent of process \<open>j + 1\<close> and leaves its first round of waiting only after that one has
  ended. Only the last process of the chain prints.
\<close>

abbreviation len :: nat where "len \<equiv> length hello_str"

definition letters :: "(nat \<Rightarrow> int) \<Rightarrow> nat \<Rightarrow> console" where
  "letters pidf n = map (\<lambda>i. letter pidf i (Suc i)) [0..<n]"

definition link_ok :: "hproc list \<Rightarrow> nat \<Rightarrow> bool" where
  "link_ok ps j \<longleftrightarrow>
     (h_pc (ps ! j) = Loop \<or> h_pc (ps ! j) = Done \<and> h_i (ps ! j) = len) \<and> 0 < h_pid (ps ! j)
   \<and> j \<le> h_i (ps ! j) \<and> h_i (ps ! j) \<le> len \<and> (j < h_i (ps ! j) \<longrightarrow> h_pc (ps ! Suc j) = Done)"

definition last_ok :: "(nat \<Rightarrow> int) \<Rightarrow> nat \<Rightarrow> hproc \<Rightarrow> console \<Rightarrow> bool" where
  "last_ok pidf n p out \<longleftrightarrow>
     n = 0 \<and> h_pc p = Begin \<and> out = []
   \<or> 0 < n \<and> h_pid p = 0 \<and> Suc (h_i p) = n
     \<and> (h_pc p = Loop \<and> n \<le> Suc len \<and> out = letters pidf (h_i p)
      \<or> h_pc p = Forking \<and> n \<le> len \<and> out = letters pidf n
      \<or> h_pc p = Done \<and> n = Suc len \<and> out = letters pidf len)
   \<or> h_pid p < 0 \<and> n \<le> h_i p \<and> h_i p \<le> len \<and> (h_pc p = Loop \<or> h_pc p = Done \<and> h_i p = len)
     \<and> out = letters pidf n @ replicate (h_i p - n) not_created"

definition chain_ok :: "(nat \<Rightarrow> int) \<Rightarrow> nat \<Rightarrow> hello \<Rightarrow> bool" where
  "chain_ok pidf n s \<longleftrightarrow>
     length (h_procs s) = Suc n \<and> (\<forall>j<n. link_ok (h_procs s) j) \<and> last_ok pidf n (h_procs s ! n) (h_out s)
   \<and> (\<forall>j\<le>n. h_parent (h_procs s ! j) = (if j = 0 then None else Some (j - 1))
        \<and> (h_reaped (h_procs s ! j) \<longrightarrow> h_pc (h_procs s ! j) = Done))"

lemma letters_Suc: "letters pidf (Suc n) = letters pidf n @ [letter pidf n (Suc n)]"
  by (simp add: letters_def)

lemma chain_init: "chain_ok pidf 0 hello_init"
  by (simp add: chain_ok_def hello_init_def last_ok_def)

lemma unreaped_chain:
  assumes "chain_ok pidf n s" and "k \<le> n"
  shows "unreaped k s = (if k < n \<and> \<not> h_reaped (h_procs s ! Suc k) then [Suc k] else [])"
proof -
  have len: "length (h_procs s) = Suc n" and par: "\<And>j. j \<le> n \<Longrightarrow> h_parent (h_procs s ! j) = (if j = 0 then None else Some (j - 1))"
    using assms(1) by (simp_all add: chain_ok_def)
  have "unreaped k s = filter (\<lambda>c. c = Suc k \<and> \<not> h_reaped (h_procs s ! c)) [0..<Suc n]"
    unfolding unreaped_def len by (rule filter_cong) (auto simp: par split: if_splits)
  also have "\<dots> = (if k < n \<and> \<not> h_reaped (h_procs s ! Suc k) then [Suc k] else [])"
  proof (cases "k < n")
    case True
    then have "[0..<Suc n] = [0..<Suc k] @ Suc k # [Suc (Suc k)..<Suc n]" using upt_split [of "Suc k" "Suc n"] by simp
    then show ?thesis using True by (auto simp: filter_empty_conv)
  next
    case False
    then show ?thesis by (auto simp: filter_empty_conv simp del: upt_Suc)
  qed
  finally show ?thesis .
qed

text \<open>\<^verbatim>\<open>wait\<close> of a parent returns exactly when its child has ended.\<close>

lemma wait_chain:
  assumes "chain_ok pidf n s" and "k < n"
  shows "wait_proc k s =
    (if h_reaped (h_procs s ! Suc k) then Some s
     else if h_pc (h_procs s ! Suc k) = Done
       then Some (s\<lparr>h_procs := upd_at (Suc k) (\<lambda>p. p\<lparr>h_reaped := True\<rparr>) (h_procs s)\<rparr>) else None)"
  using unreaped_chain [OF assms(1), of k] assms(2) by (simp add: wait_proc_def)

lemma reap_chain:
  assumes "chain_ok pidf n s" and "c \<le> n" and "h_pc (h_procs s ! c) = Done"
  shows "chain_ok pidf n (s\<lparr>h_procs := upd_at c (\<lambda>p. p\<lparr>h_reaped := True\<rparr>) (h_procs s)\<rparr>)"
proof -
  let ?ps = "upd_at c (\<lambda>p. p\<lparr>h_reaped := True\<rparr>) (h_procs s)"
  have same: "h_pc (?ps ! j) = h_pc (h_procs s ! j)" "h_i (?ps ! j) = h_i (h_procs s ! j)" "h_pid (?ps ! j) = h_pid (h_procs s ! j)"
    "h_parent (?ps ! j) = h_parent (h_procs s ! j)" for j by (rule nth_upd_at_inv, simp)+
  have "h_reaped (?ps ! j) \<longrightarrow> h_pc (h_procs s ! j) = Done" if "j \<le> n" for j
    using assms that by (cases "j = c") (simp_all add: chain_ok_def)
  then show ?thesis using assms(1) by (simp add: chain_ok_def link_ok_def last_ok_def same)
qed

lemma round_chain:
  assumes "chain_ok pidf n s" and "k < n" and "h_i (h_procs s ! k) < len" and "h_pc (h_procs s ! Suc k) = Done"
  shows "chain_ok pidf n (next_round k s)"
  using assms by (auto simp: chain_ok_def link_ok_def next_round_def nth_upd_at)

lemma parent_step:
  assumes ch: "chain_ok pidf n s" and k: "k < n" and nx: "hello_next pidf ok k s = Some t"
  shows "chain_ok pidf n t"
proof -
  have l: "link_ok (h_procs s) k" using ch k by (simp add: chain_ok_def)
  have pc: "h_pc (h_procs s ! k) = Loop" "0 < h_pid (h_procs s ! k)" "h_i (h_procs s ! k) \<le> len" using l nx by (auto simp: link_ok_def hello_next_def Let_def)
  show ?thesis
  proof (cases "h_i (h_procs s ! k) < len")
    case False
    then have "t = s\<lparr>h_procs := upd_at k (\<lambda>p. p\<lparr>h_pc := Done\<rparr>) (h_procs s)\<rparr>" using nx pc by (simp add: hello_next_def)
    then show ?thesis using ch k pc False by (auto simp: chain_ok_def link_ok_def nth_upd_at)
  next
    case True
    then obtain u where u: "wait_proc k s = Some u" "t = next_round k u" using nx pc by (auto simp: hello_next_def)
    have "chain_ok pidf n u \<and> h_pc (h_procs u ! Suc k) = Done \<and> h_i (h_procs u ! k) = h_i (h_procs s ! k)"
      using u(1) k ch reap_chain [OF ch, of "Suc k"] unfolding wait_chain [OF ch k]
      by (auto simp: chain_ok_def split: if_splits)
    then show ?thesis using u(2) round_chain [of pidf n u k] k True by simp
  qed
qed

text \<open>A step of the last process, by the way it goes: it forks, it fails to fork, it prints, it ends.\<close>

lemma fork_chain:
  assumes ch: "chain_ok pidf n s" and pid: "0 < pidf (Suc n)" and out: "h_out s = letters pidf n" and n: "n \<le> len"
    and nr: "h_pc (h_procs s ! n) \<noteq> Done"
  shows "chain_ok pidf (if ok then Suc n else n) (fork_proc pidf ok n n s)"
proof (cases ok)
  case True
  have len: "length (h_procs s) = Suc n" using ch by (simp add: chain_ok_def)
  have "\<forall>j<n. h_i (h_procs s ! j) \<le> j \<or> j \<noteq> n - 1" using ch nr by (auto simp: chain_ok_def link_ok_def)
  then show ?thesis using ch pid out n nr len True
    by (auto simp: chain_ok_def link_ok_def last_ok_def fork_proc_def nth_append nth_upd_at less_Suc_eq le_Suc_eq Suc_le_eq)
next
  case False
  then show ?thesis using ch out n nr
    by (auto simp: chain_ok_def link_ok_def last_ok_def fork_proc_def nth_upd_at)
qed

lemma end_chain:
  assumes ch: "chain_ok pidf n s" and pc: "h_pc (h_procs s ! n) = Loop" and "\<not> h_i (h_procs s ! n) < len"
  shows "chain_ok pidf n (s\<lparr>h_procs := upd_at n (\<lambda>p. p\<lparr>h_pc := Done\<rparr>) (h_procs s)\<rparr>)"
proof -
  have "h_i (h_procs s ! n) \<le> len" using ch pc by (auto simp: chain_ok_def last_ok_def)
  then have "h_i (h_procs s ! n) = len" using assms(3) by simp
  then show ?thesis using ch pc by (auto simp: chain_ok_def link_ok_def last_ok_def nth_upd_at)
qed

lemma failed_chain:
  assumes ch: "chain_ok pidf n s" and pc: "h_pc (h_procs s ! n) = Loop" and "h_i (h_procs s ! n) < len" and neg: "h_pid (h_procs s ! n) < 0"
  shows "chain_ok pidf n (next_round n (s\<lparr>h_out := h_out s @ [not_created]\<rparr>))"
proof -
  have "n \<le> h_i (h_procs s ! n)" "h_out s = letters pidf n @ replicate (h_i (h_procs s ! n) - n) not_created"
    using ch pc neg by (auto simp: chain_ok_def last_ok_def)
  then show ?thesis using assms
    by (auto simp: chain_ok_def link_ok_def last_ok_def next_round_def nth_upd_at Suc_diff_le replicate_append_same)
qed

lemma letter_chain:
  assumes ch: "chain_ok pidf n s" and pc: "h_pc (h_procs s ! n) = Loop" and "h_i (h_procs s ! n) < len" and z: "h_pid (h_procs s ! n) = 0"
  shows "chain_ok pidf n (s\<lparr>h_out := h_out s @ [letter pidf (h_i (h_procs s ! n)) n], h_procs := upd_at n (\<lambda>p. p\<lparr>h_pc := Forking\<rparr>) (h_procs s)\<rparr>)"
proof -
  have "Suc (h_i (h_procs s ! n)) = n" "h_out s = letters pidf (h_i (h_procs s ! n))"
    using ch pc z by (auto simp: chain_ok_def last_ok_def)
  then have "h_out s @ [letter pidf (h_i (h_procs s ! n)) n] = letters pidf n" by (metis letters_Suc)
  then show ?thesis using assms by (auto simp: chain_ok_def link_ok_def last_ok_def nth_upd_at)
qed

lemma last_step:
  assumes ch: "chain_ok pidf n s" and pid: "0 < pidf (Suc n)" and nx: "hello_next pidf ok n s = Some t"
  shows "\<exists>m. chain_ok pidf m t"
proof -
  let ?p = "h_procs s ! n"
  have l: "last_ok pidf n ?p (h_out s)" using ch by (simp add: chain_ok_def)
  show ?thesis
  proof (cases "h_pc ?p")
    case Begin
    then have "n = 0" "h_out s = letters pidf n" using l by (auto simp: last_ok_def letters_def)
    then show ?thesis using fork_chain [OF ch pid, of ok] Begin nx by (auto simp: hello_next_def)
  next
    case Forking
    then have "Suc (h_i ?p) = n" "h_out s = letters pidf n" "n \<le> len" using l by (auto simp: last_ok_def)
    then show ?thesis using fork_chain [OF ch pid, of ok] Forking nx by (auto simp: hello_next_def)
  next
    case Loop
    then have "h_pid ?p \<le> 0" using l by (auto simp: last_ok_def)
    then show ?thesis using nx Loop end_chain [OF ch Loop] failed_chain [OF ch Loop] letter_chain [OF ch Loop]
      by (auto simp: hello_next_def Let_def split: if_splits)
  next
    case Done
    then show ?thesis using nx by (simp add: hello_next_def)
  qed
qed

lemma step_chain:
  assumes "chain_ok pidf n s" and "\<And>k. 0 < pidf k" and "hello_step pidf s t"
  shows "\<exists>m. chain_ok pidf m t"
  using assms(3)
proof (rule hello_stepE)
  fix k ok
  assume k: "k < length (h_procs s)" and nx: "hello_next pidf ok k s = Some t"
  then have "k < n \<or> k = n" using assms(1) by (auto simp: chain_ok_def)
  then show ?thesis using parent_step [OF assms(1) _ nx] last_step [OF assms(1,2), of ok] nx by auto
qed

lemma run_chain_ok:
  assumes "(hello_step pidf)\<^sup>*\<^sup>* hello_init s" and "\<And>k. 0 < pidf k"
  shows "\<exists>n. chain_ok pidf n s"
  using assms(1) by (induction rule: rtranclp_induct) (use chain_init step_chain assms(2) in blast)+

section \<open>Ends and steps\<close>

lemma done_below:
  assumes "chain_ok pidf n s" and "h_pc (h_procs s ! 0) = Done" and "j \<le> n" and "j \<le> len"
  shows "h_pc (h_procs s ! j) = Done"
  using assms(3,4)
proof (induction j)
  case (Suc j)
  then have "link_ok (h_procs s) j" "h_pc (h_procs s ! j) = Done" using assms(1) by (simp_all add: chain_ok_def)
  then show ?case using Suc.prems by (simp add: link_ok_def)
qed (simp add: assms(2))

lemma can_step:
  assumes "chain_ok pidf n s" and "j \<le> n" and "h_pc (h_procs s ! j) \<noteq> Done" and "j < n \<longrightarrow> h_pc (h_procs s ! Suc j) = Done"
  shows "\<exists>t. hello_step pidf s t"
proof -
  have j: "j < length (h_procs s)" using assms(1,2) by (simp add: chain_ok_def)
  have "hello_next pidf True j s \<noteq> None"
  proof (cases "j = n")
    case True
    then have "last_ok pidf n (h_procs s ! j) (h_out s)" using assms(1) by (simp add: chain_ok_def)
    then show ?thesis using assms(3) by (auto simp: last_ok_def hello_next_def Let_def)
  next
    case False
    then have k: "j < n" using assms(2) by simp
    have "h_pc (h_procs s ! j) = Loop" using assms(1,3) k by (auto simp: chain_ok_def link_ok_def)
    moreover have "wait_proc j s \<noteq> None" using assms(4) k unfolding wait_chain [OF assms(1) k] by simp
    ultimately show ?thesis by (auto simp: hello_next_def Let_def)
  qed
  then show ?thesis using hello_step.run [OF j] by blast
qed

lemma stuck_done:
  assumes "chain_ok pidf n s" and "\<And>t. \<not> hello_step pidf s t" and "j \<le> n"
  shows "h_pc (h_procs s ! j) = Done"
  using assms(3)
proof (induction j rule: inc_induct)
  case base
  then show ?case using can_step [OF assms(1), of n] assms(2) by blast
next
  case (step j)
  then show ?case using can_step [OF assms(1), of j] assms(2) by (metis less_imp_le)
qed

text \<open>The number of steps a process and its descendants have left, at most.\<close>

fun work :: "nat \<Rightarrow> nat" where
  "work 0 = 1"
| "work (Suc r) = Suc (Suc (work r + Suc r))"

definition weight :: "hproc \<Rightarrow> nat" where
  "weight p =
     (case h_pc p of
        Begin \<Rightarrow> Suc (work len + Suc len)
      | Loop \<Rightarrow> (if h_pid p = 0 then work (len - h_i p) else Suc (len - h_i p))
      | Forking \<Rightarrow> Suc (work (len - Suc (h_i p)) + Suc (len - Suc (h_i p)))
      | Done \<Rightarrow> 0)"

definition total :: "hello \<Rightarrow> nat" where
  "total s = sum_list (map weight (h_procs s))"

lemma total_upd:
  assumes "k < length ps"
  shows "sum_list (map weight (upd_at k f ps)) + weight (ps ! k) = sum_list (map weight ps) + weight (f (ps ! k))"
proof -
  have ps: "ps = take k ps @ ps ! k # drop (Suc k) ps" using assms by (rule id_take_nth_drop)
  have "upd_at k f ps = take k ps @ f (ps ! k) # drop (Suc k) ps" using assms by (simp add: upd_at_def upd_conv_take_nth_drop)
  moreover have "sum_list (map weight ps) = sum_list (map weight (take k ps @ ps ! k # drop (Suc k) ps))" using ps by simp
  ultimately show ?thesis by simp
qed

lemma fork_weight:
  assumes "k < length (h_procs s)" and "weight (h_procs s ! k) = Suc (work (len - i) + Suc (len - i))" and "0 < pidf (length (h_procs s))"
  shows "total (fork_proc pidf ok k i s) < total s"
  using assms total_upd [of k "h_procs s" "\<lambda>p. p\<lparr>h_pc := Loop, h_i := i, h_pid := if ok then pidf (length (h_procs s)) else -1\<rparr>"]
  by (cases ok) (simp_all add: total_def fork_proc_def weight_def)

lemma reap_weight [simp]: "map weight (upd_at c (h_reaped_update f) ps) = map weight ps"
  by (rule map_upd_at_inv) (simp add: weight_def split: place.splits)

lemma wait_weight: "wait_proc k s = Some u \<Longrightarrow> map weight (h_procs u) = map weight (h_procs s)"
  by (auto simp: wait_proc_def split: list.splits)

lemma upd_weight:
  assumes "k < length ps" and "weight (f (ps ! k)) < weight (ps ! k)"
  shows "sum_list (map weight (upd_at k f ps)) < sum_list (map weight ps)"
  using total_upd [OF assms(1), of f] assms(2) by linarith

lemma step_decreases:
  assumes "\<And>k. 0 < pidf k" and "hello_step pidf s t"
  shows "total t < total s"
  using assms(2)
proof (rule hello_stepE)
  fix k ok
  assume k: "k < length (h_procs s)" and nx: "hello_next pidf ok k s = Some t"
  let ?p = "h_procs s ! k"
  show ?thesis
  proof (cases "h_pc ?p")
    case Begin
    then show ?thesis using nx fork_weight [OF k, of 0 pidf ok] assms(1) by (simp add: hello_next_def weight_def)
  next
    case Forking
    then show ?thesis using nx fork_weight [OF k, of "Suc (h_i ?p)" pidf ok] assms(1) by (simp add: hello_next_def weight_def)
  next
    case Done
    then show ?thesis using nx by (simp add: hello_next_def)
  next
    case Loop
    consider (over) "\<not> h_i ?p < len" | (failed) "h_i ?p < len" "h_pid ?p < 0" | (child) "h_i ?p < len" "h_pid ?p = 0" | (parent) "h_i ?p < len" "0 < h_pid ?p"
      by linarith
    then show ?thesis
    proof cases
      case over
      then show ?thesis using nx Loop upd_weight [OF k, of "\<lambda>p. p\<lparr>h_pc := Done\<rparr>"] by (auto simp: hello_next_def total_def weight_def)
    next
      case failed
      then show ?thesis using nx Loop upd_weight [OF k, of "\<lambda>p. p\<lparr>h_i := Suc (h_i p)\<rparr>"] by (auto simp: hello_next_def next_round_def total_def weight_def)
    next
      case child
      then obtain r where r: "len - h_i ?p = Suc r" "len - Suc (h_i ?p) = r" by (metis Suc_diff_Suc)
      then show ?thesis using nx Loop child upd_weight [OF k, of "\<lambda>p. p\<lparr>h_pc := Forking\<rparr>"] by (auto simp: hello_next_def total_def weight_def)
    next
      case parent
      then obtain u where u: "wait_proc k s = Some u" "t = next_round k u" using nx Loop by (auto simp: hello_next_def)
      have w: "map weight (h_procs u) = map weight (h_procs s)" by (rule wait_weight [OF u(1)])
      have ku: "k < length (h_procs u)" using k map_eq_imp_length_eq [OF w] by simp
      have "h_pc (h_procs u ! k) = Loop \<and> h_i (h_procs u ! k) = h_i ?p \<and> h_pid (h_procs u ! k) = h_pid ?p"
        using u(1) Loop by (auto simp: wait_proc_def nth_upd_at_inv split: list.splits)
      then show ?thesis using w u(2) parent upd_weight [OF ku, of "\<lambda>p. p\<lparr>h_i := Suc (h_i p)\<rparr>"]
        by (simp add: total_def next_round_def weight_def)
    qed
  qed
qed

lemma run_bounded:
  assumes "\<And>k. 0 < pidf k" and "(hello_step pidf ^^ k) s0 s"
  shows "k + total s \<le> total s0"
  using assms(2)
proof (induction k arbitrary: s)
  case (Suc k)
  then obtain u where "(hello_step pidf ^^ k) s0 u" "hello_step pidf u s" by auto
  then show ?case using Suc.IH [of u] step_decreases [of pidf u s, OF assms(1)] by simp
qed simp

lemma chain_output:
  assumes "chain_ok pidf n s"
  shows "\<exists>a b. h_out s = letters pidf a @ replicate b not_created \<and> a + b \<le> len
    \<and> (h_pc (h_procs s ! 0) = Done \<longrightarrow> a + b = len) \<and> (0 < b \<longrightarrow> (\<exists>p\<in>set (h_procs s). h_pid p < 0))"
proof -
  let ?p = "h_procs s ! n"
  have l: "last_ok pidf n ?p (h_out s)" and p: "?p \<in> set (h_procs s)" using assms by (simp_all add: chain_ok_def)
  have dn: "h_pc ?p = Done" if "h_pc (h_procs s ! 0) = Done" "n \<le> len" using done_below [OF assms that(1) _ that(2)] by simp
  have lt: "\<exists>a b. h_out s = letters pidf a @ replicate b not_created \<and> a + b \<le> len
    \<and> (h_pc (h_procs s ! 0) = Done \<longrightarrow> a + b = len) \<and> (0 < b \<longrightarrow> (\<exists>p\<in>set (h_procs s). h_pid p < 0))"
    if "h_out s = letters pidf a" "a \<le> len" "h_pc (h_procs s ! 0) = Done \<longrightarrow> a = len" for a
    using that by (intro exI [of _ a] exI [of _ 0]) simp
  consider (first) "n = 0" "h_pc ?p = Begin" "h_out s = letters pidf 0" | (printing) "h_pc ?p = Loop" "Suc (h_i ?p) = n" "n \<le> Suc len" "h_out s = letters pidf (h_i ?p)"
    | (forking) "h_pc ?p = Forking" "n \<le> len" "h_out s = letters pidf n" | (complete) "h_out s = letters pidf len"
    | (failed) "h_pid ?p < 0" "n \<le> h_i ?p" "h_i ?p \<le> len" "h_pc ?p = Loop \<or> h_i ?p = len" "h_out s = letters pidf n @ replicate (h_i ?p - n) not_created"
    using l by (auto simp: last_ok_def letters_def)
  then show ?thesis
  proof cases
    case first
    then show ?thesis by (intro lt) auto
  next
    case printing
    then show ?thesis using dn by (intro lt) (auto simp: le_Suc_eq)
  next
    case forking
    then show ?thesis using dn by (intro lt) auto
  next
    case complete
    then show ?thesis by (intro lt) auto
  next
    case failed
    then show ?thesis using dn p by (intro exI [of _ n] exI [of _ "h_i ?p - n"]) auto
  qed
qed

section \<open>Properties\<close>

text \<open>
  C31. The output of part 1: whatever the order in which the processes run, the letters of \<^verbatim>\<open>Hello World\<close> appear in
  order, the letter \<open>i\<close> printed by the process created \<open>i\<close> generations after the first child; a message that a
  child was not created appears only after a fork has failed, and no letter after it; and when the first
  process has ended, letters and messages together are eleven lines.\<close>

theorem hello_output:
  assumes "\<And>k. 0 < pidf k" and "(hello_step pidf)\<^sup>*\<^sup>* hello_init s"
  shows "\<exists>a b. h_out s = map (\<lambda>i. letter pidf i (Suc i)) [0..<a] @ replicate b not_created \<and> a + b \<le> length hello_str
    \<and> (h_pc (h_procs s ! 0) = Done \<longrightarrow> a + b = length hello_str) \<and> (0 < b \<longrightarrow> (\<exists>p\<in>set (h_procs s). h_pid p < 0))"
  using run_chain_ok [OF assms(2,1)] chain_output by (auto simp: letters_def)

text \<open>
  C32. Part 1 always ends: no order of steps is longer than 102 steps, and when no process can do another step,
  all of them have ended and eleven lines were printed. In particular no process waits for ever.\<close>

theorem hello_ends:
  assumes "\<And>k. 0 < pidf k" and "(hello_step pidf ^^ n) hello_init s"
  shows "n \<le> 102 \<and> ((\<exists>t. hello_step pidf s t) \<or> list_all (\<lambda>p. h_pc p = Done) (h_procs s) \<and> length (h_out s) = 11)"
proof -
  have "total hello_init = 102" by code_simp
  then have n: "n \<le> 102" using run_bounded [OF assms] by simp
  have "(hello_step pidf)\<^sup>*\<^sup>* hello_init s" using assms(2) by (auto simp: rtranclp_power)
  then obtain m where m: "chain_ok pidf m s" using run_chain_ok [of pidf s, OF _ assms(1)] by blast
  have l: "length (h_procs s) = Suc m" using m by (simp add: chain_ok_def)
  have "list_all (\<lambda>p. h_pc p = Done) (h_procs s) \<and> length (h_out s) = 11" if st: "\<And>t. \<not> hello_step pidf s t"
  proof
    have "\<forall>j<length (h_procs s). h_pc (h_procs s ! j) = Done" using stuck_done [OF m st] l by simp
    then show "list_all (\<lambda>p. h_pc p = Done) (h_procs s)" by (simp add: list_all_length)
    have "h_pc (h_procs s ! 0) = Done" using stuck_done [OF m st, of 0] by simp
    then show "length (h_out s) = 11" using chain_output [OF m] by (auto simp: letters_def hello_str_def)
  qed
  then show ?thesis using n by blast
qed

section \<open>An instance\<close>

text \<open>A complete run in which the last process that can move always moves first.\<close>

fun drive :: "(nat \<Rightarrow> int) \<Rightarrow> (nat \<Rightarrow> bool) \<Rightarrow> nat \<Rightarrow> hello \<Rightarrow> hello" where
  "drive pidf ok 0 s = s"
| "drive pidf ok (Suc n) s =
     (case List.map_filter (\<lambda>k. hello_next pidf (ok (length (h_procs s))) k s) (rev [0..<length (h_procs s)]) of
        [] \<Rightarrow> s
      | t # _ \<Rightarrow> drive pidf ok n t)"

lemma drive_reaches: "(hello_step pidf)\<^sup>*\<^sup>* s (drive pidf ok n s)"
proof (induction n arbitrary: s)
  case (Suc n)
  let ?ts = "List.map_filter (\<lambda>k. hello_next pidf (ok (length (h_procs s))) k s) (rev [0..<length (h_procs s)])"
  show ?case
  proof (cases ?ts)
    case (Cons t ts)
    then have "t \<in> set ?ts" by simp
    then obtain k where "k < length (h_procs s)" "hello_next pidf (ok (length (h_procs s))) k s = Some t"
      by (auto simp: map_filter_def)
    then have "hello_step pidf s t" by (rule hello_step.run)
    then show ?thesis using Suc.IH [of t] Cons by (simp add: converse_rtranclp_into_rtranclp)
  qed simp
qed simp

abbreviation demo_pid :: "nat \<Rightarrow> int" where "demo_pid k \<equiv> 100 + int k"

lemma drive_all: "h_pc (h_procs (drive demo_pid (\<lambda>_. True) 110 hello_init) ! 0) = Done"
  by code_simp

theorem hello_output_witness:
  "\<exists>s a b. (hello_step demo_pid)\<^sup>*\<^sup>* hello_init s \<and> h_out s = map (\<lambda>i. letter demo_pid i (Suc i)) [0..<a] @ replicate b not_created \<and> a + b = length hello_str"
proof -
  let ?s = "drive demo_pid (\<lambda>_. True) 110 hello_init"
  have r: "(hello_step demo_pid)\<^sup>*\<^sup>* hello_init ?s" by (rule drive_reaches)
  show ?thesis using hello_output [of demo_pid ?s] r drive_all by fastforce
qed

theorem hello_ends_witness:
  "\<exists>n s. (hello_step demo_pid ^^ n) hello_init s \<and> n \<le> 102 \<and> h_pc (h_procs s ! 0) = Done"
proof -
  let ?s = "drive demo_pid (\<lambda>_. True) 110 hello_init"
  obtain n where n: "(hello_step demo_pid ^^ n) hello_init ?s" using drive_reaches [of demo_pid hello_init] by (meson rtranclp_power)
  then show ?thesis using hello_ends [of demo_pid n ?s] drive_all by force
qed

end
