(* ===== verification/Spec2Isabelle.thy ===== *)
theory Spec2Isabelle
  imports Sched_Kernel PM MFS_Seq VFS_Calls VFS_Lab9 Lab2 Lab2_Fork
begin

text \<open>
  \<^bold>\<open>The MINIX laboratory exercises: kernel, servers, file system\<close>

  The repository holds changed source files of the MINIX 3 operating system and small programs, one directory
  per exercise. This development models its C code and proves what the routines guarantee.

  \<^bold>\<open>The parts of the system and how they interact.\<close>
  MINIX is a set of processes that exchange messages. The \<^emph>\<open>kernel\<close> runs processes and offers kernel calls
  (\<^verbatim>\<open>src/Lab-05/system.c\<close>). The \<^emph>\<open>SCHED\<close> server decides on priorities and quanta and passes them to the kernel
  (\<^verbatim>\<open>src/Lab-05/schedule.c\<close>, and the variant of \<^verbatim>\<open>src/Lab-03\<close>). The \<^emph>\<open>process manager\<close> creates processes, ends
  them and lets parents wait (\<^verbatim>\<open>src/Lab-02/part3/forkexit.c\<close>). \<^emph>\<open>VFS\<close> carries out the file calls of
  processes: it finds the files a path names, keeps vnodes and open file descriptions locked while it works,
  and sends requests to the file systems (\<^verbatim>\<open>src/Lab-10/vfs\<close>, and the variants of \<^verbatim>\<open>src/Lab-09\<close>). The \<^emph>\<open>MINIX file
  system\<close> maps positions of files to disk blocks and moves the bytes (\<^verbatim>\<open>src/Lab-10/mfs\<close>, with \<^verbatim>\<open>fslib.c\<close> and
  \<^verbatim>\<open>const.h\<close>); Lab 10 adds immediate files, whose bytes are in the inode. The user programs of
  \<^verbatim>\<open>src/Lab-02/part1\<close> and \<^verbatim>\<open>part2\<close> use fork, wait and exec.

  \<^bold>\<open>Conventions.\<close>
  Static variables are a state record that every operation takes and returns. A pointer into a table is an
  index; a pointer that may be \<^verbatim>\<open>NULL\<close> is an option. A panic, a failed assertion, the use of a null pointer and
  an access outside an array make the operation \<^const>\<open>None\<close>; error numbers are values of the result type.
  Unsigned integers are words of their width where their arithmetic matters. Routines that the sources call but
  that are not in the repository (other MINIX files, the kernel behind a kernel call, drivers, the buffer cache)
  are fields of an environment record, an argument of every operation. What the proofs rely on is stated as
  named predicates on that record, which describe documented behaviour of those routines; for each there is a
  concrete environment that satisfies it, and every theorem with hypotheses is followed by its use on one.

  \<^bold>\<open>The theories.\<close>
  \<^item> \<open>Minix_Prelude\<close>: machine types, results, console, lemmas on tables and words, and the locale
    \<open>op_refinement\<close>, which lifts the refinement of single operations to sequences.
  \<^item> \<open>Sched\<close>: every routine of \<^verbatim>\<open>schedule.c\<close>. The locale \<open>quantum_policy\<close> is the contract of the two routines in
    which Lab 3 and Lab 5 differ; it is interpreted on Lab 3, and every reachable state of that scheduler has its
    priorities inside the queues. Lab 5 does not meet it: its unsigned priority wraps. Nice is all or nothing,
    the retry over dead CPUs ends, rebalancing converges.
  \<^item> \<open>Kernel\<close>: dispatch of kernel calls, their suspension and resumption, privileges, send masks, signals, the
    removal of a dead process from all queues, and \<^verbatim>\<open>sched_proc\<close>. The loop over a caller queue and the loop over
    pending asynchronous sends are partial functions, with proofs that they return on well-formed states.
  \<^item> \<open>Sched_Kernel\<close>: SCHED above the kernel. Under the Lab 3 policy the priorities and quanta of the two tables
    agree after every sequence of events; under Lab 5 a wrapped priority ends the agreement.
  \<^item> \<open>PM\<close>: fork, exit and wait, with the step relation \<open>pm_step\<close>. The counter of processes is exact in every
    reachable state, so a fork never searches a full table; exits disinherit all children; waits collect zombies.
  \<^item> \<open>MFS_Base\<close>, \<open>MFS_Map\<close>, \<open>MFS_IO\<close>, \<open>MFS_File\<close>, \<open>MFS_RW\<close>, \<open>MFS_Seq\<close>: the file system. \<open>MFS_Map\<close> holds
    \<^verbatim>\<open>write.c\<close> and the block map of \<^verbatim>\<open>read.c\<close>, and shows with the locale \<open>zone_map\<close> that the tree of indirect blocks
    is a finite map. \<open>MFS_IO\<close> holds the transfers, \<open>MFS_File\<close> relates one chunk and the chunk loop to the bytes of a
    file, \<open>MFS_RW\<close> does so for the whole call, for immediate files and for their conversion, and \<open>MFS_Seq\<close>
    interprets \<open>op_refinement\<close> on sequences of reads and writes.
  \<^item> \<open>VFS_Base\<close>, \<open>VFS_Link\<close>, \<open>VFS_Read\<close>, \<open>VFS_Open\<close>, \<open>VFS_Calls\<close>, \<open>VFS_Lab9\<close>: VFS. An observer \<open>bal\<close> counts the
    locks and references of the running thread; the lemmas on each call say what it does to these counts on every
    return. \<open>VFS_Calls\<close> puts the calls into sequences: between calls a thread holds no lock. Further results are on
    who may unlink, on file positions and sizes, pipes, record locks and seeking. \<open>VFS_Lab9\<close> holds the routines that
    differ in Lab 9 and their agreement with Lab 10. The recursion of \<^verbatim>\<open>new_node\<close> along symbolic links need not end and
    is a partial function.
  \<^item> \<open>Lab2\<close>, \<open>Lab2_Fork\<close>: the user programs: chains of exec calls with decimal text between the programs, and the
    chain of forks as a step relation over all interleavings, with its output, absence of deadlock and a bound on
    its length.
  \<^item> This theory: VFS above the file system. A write through both reaches the bytes of the file, and the two
    agree on its size; for an immediate file they do not, and appends overwrite each other.

  \<^bold>\<open>Loops and fuel.\<close>
  No operation has a fuel argument. Loops are structural or well-founded recursion with a measure (bytes left,
  slots left, arguments left); the loops named above as partial functions have separate proofs of when they
  return.

  \<^bold>\<open>Not modelled.\<close>
  \<^item> Reference counts of buffers and the allocation of the read-ahead queue; the number of buffers in use is.
  \<^item> The passing of time, interrupts and the switch between worker threads of VFS; an environment function of
    VFS may change whatever is not locked.
  \<^item> The handlers \<^verbatim>\<open>do_*\<close> behind the kernel call vector, which are in other files of MINIX.
  \<^item> UnixBench under \<^verbatim>\<open>src/Lab-03\<close> and \<^verbatim>\<open>src/Lab-05\<close>: a vendored benchmark suite.
  \<^item> The programs in C++ and Python of \<^verbatim>\<open>src/Lab-04\<close>, \<^verbatim>\<open>src/Lab-06\<close>, \<^verbatim>\<open>src/Lab-07\<close>, \<^verbatim>\<open>src/Lab-08\<close> and
    \<^verbatim>\<open>src/CS304-Assignment\<close>: separate exercises that share no code with the system.
\<close>

section \<open>VFS above the file system\<close>

text \<open>
  VFS and the MINIX file system are two processes. A transfer of VFS is one message to the file system, with a
  grant \<open>gid\<close> for the caller's buffer, and the reply carries what \<^verbatim>\<open>fs_readwrite\<close> returned: \<open>mf\<close> and \<open>mf'\<close> are
  the states of the file system before and after.
\<close>

definition mfs_request :: "rw \<Rightarrow> nat \<Rightarrow> nat \<Rightarrow> int \<Rightarrow> nat \<Rightarrow> rwreq" where
  "mfs_request d ino gid pos n =
     \<lparr>rq_type = (case d of READING \<Rightarrow> REQ_READ | WRITING \<Rightarrow> REQ_WRITE | PEEKING \<Rightarrow> REQ_PEEK), rq_inode = ino, rq_grant = gid, rq_pos = nat pos, rq_nbytes = n\<rparr>"

definition mfs_answers :: "'m mfs_env \<Rightarrow> rwreq \<Rightarrow> 'm mfs \<Rightarrow> fs_reply \<Rightarrow> 'm mfs \<Rightarrow> bool" where
  "mfs_answers me rq mf rep mf' \<longleftrightarrow>
     (\<exists>out. fs_readwrite me rq mf = Some (rp_ret rep, out, mf')
       \<and> (case out of None \<Rightarrow> True | Some (p, c) \<Rightarrow> rp_pos rep = int p \<and> rp_cum_io rep = c))"

text \<open>A vnode and the inode it stands for agree on the type and the size of the file.\<close>

definition in_step :: "vnode \<Rightarrow> inode \<Rightarrow> bool" where
  "in_step v rip \<longleftrightarrow> v_mode v = i_mode rip \<and> v_size v = int (i_size rip)"

lemma mfs_request_sel [simp]:
  "rq_type (mfs_request WRITING ino gid pos n) = REQ_WRITE" "rq_pos (mfs_request d ino gid pos n) = nat pos"
  "rq_nbytes (mfs_request d ino gid pos n) = n" "rq_grant (mfs_request d ino gid pos n) = gid" "rq_inode (mfs_request d ino gid pos n) = ino"
  by (simp_all add: mfs_request_def)

text \<open>
  C6. A write through VFS to a regular file of the MINIX file system: when vnode and inode agree on the size, and
  the file system reports success, the file afterwards holds the old contents with the caller's bytes
  written at the file position (or, for an appending write, at the end), the call returns the number of
  bytes, and vnode and inode agree again.\<close>

theorem vfs_write_reaches_file:
  assumes "path_laws e bal" "dev_laws e bal" "file_open e bal f vp fs" "n \<le> SSIZE_MAX e"
    and "fs_req e (v_fs_e (vnodes fs vp)) (Req_readwrite (v_inode_nr (vnodes fs vp)) (rw_start WRITING f vp fs) WRITING ep b n) fs = (rep, fs1)"
    and "mfs_answers me (mfs_request WRITING (v_inode_nr (vnodes fs vp)) gid (rw_start WRITING f vp fs) n) mf rep mf'" "rp_ret rep = OK"
    and "rw_laws me U M" "refers me (mfs_request WRITING (v_inode_nr (vnodes fs vp)) gid (rw_start WRITING f vp fs) n) mf i rip"
    and "i_mode rip AND I_TYPE = I_REGULAR" "file_ok me U rip mf" "io_ok me rip mf" "tail_zero me rip mf" "\<not> s_rd_only (superblock mf)"
    and "0 \<le> rw_start WRITING f vp fs" "rw_start WRITING f vp fs + int n \<le> s_max_size (superblock mf)" and "in_step (vnodes fs vp) rip"
  shows "\<exists>fs'. read_write e rfp WRITING f b n ep fs = Some (Ret (int n), fs') \<and> in_step (vnodes fs' vp) (inodes mf' ! i)
    \<and> contents me (inodes mf' ! i) mf' = overwrite (nat (rw_start WRITING f vp fs)) (take n (M (fs_world mf))) (contents me rip mf)"
proof -
  let ?s = "rw_start WRITING f vp fs"
  let ?rq = "mfs_request WRITING (v_inode_nr (vnodes fs vp)) gid ?s n"
  obtain out where ans: "fs_readwrite me ?rq mf = Some (OK, out, mf')" "case out of None \<Rightarrow> True | Some (p, c) \<Rightarrow> rp_pos rep = int p \<and> rp_cum_io rep = c"
    using assms(6,7) by (auto simp: mfs_answers_def)
  have fit: "int (rq_pos ?rq) + int (rq_nbytes ?rq) \<le> s_max_size (superblock mf)" using assms(15,16) by simp
  note W = fs_write_bytes [OF assms(8-13) mfs_request_sel(1) assms(14) fit]
  obtain r k t where w: "fs_readwrite me ?rq mf = Some (r, Some (rq_pos ?rq + k, k), t)"
    and ok: "r = OK \<longrightarrow> k = rq_nbytes ?rq \<and> rq_nbytes ?rq \<le> length (M (fs_world mf)) \<and> io_ok me (inodes t ! i) t \<and> i_mode (inodes t ! i) = i_mode rip
      \<and> contents me (inodes t ! i) t = overwrite (rq_pos ?rq) (take (rq_nbytes ?rq) (M (fs_world mf))) (contents me rip mf) \<and> tail_zero me (inodes t ! i) t"
    using W by (elim exE conjE) (rule that)
  have r: "r = OK" "t = mf'" "out = Some (rq_pos ?rq + k, k)" using w ans(1) by simp_all
  note ok = ok [rule_format, OF r(1), unfolded mfs_request_sel r(2)]
  have c: "contents me (inodes mf' ! i) mf' = overwrite (nat ?s) (take n (M (fs_world mf))) (contents me rip mf)"
    and md: "i_mode (inodes mf' ! i) = i_mode rip" and len: "n \<le> length (M (fs_world mf))" and k: "k = n" using ok by blast+
  have sz: "int (i_size (inodes mf' ! i)) = max (int (i_size rip)) (?s + int n)"
    using arg_cong [OF c, of length] len assms(15) by (simp add: length_overwrite)
  have rp: "rp_pos rep = ?s + int n" "rp_cum_io rep = n" using ans(2) r(3) k assms(15) by simp_all
  obtain fs' where run: "read_write e rfp WRITING f b n ep fs = Some (Ret (int n), fs')"
    and key: "vkey (vnodes fs' vp) = vkey (vnodes fs vp\<lparr>v_size := rw_size WRITING vp (?s + int n) fs\<rparr>)"
    using read_write_file [OF assms(1-4) _ assms(5), of rfp] assms(7) rp by (auto simp: rw_reached_def)
  have "S_ISREG (v_mode (vnodes fs vp))" using assms(10,17) by (simp add: S_ISREG_def in_step_def)
  then have "in_step (vnodes fs' vp) (inodes mf' ! i)"
    using vkey_sel [OF key] assms(17) sz md by (simp add: in_step_def rw_size_def)
  then show ?thesis using run c by blast
qed

text \<open>The instance of VFS with vnode 2 open on inode 5 of the instance of the file system.\<close>

definition sdemo_fs :: "mode_t \<Rightarrow> int \<Rightarrow> int \<Rightarrow> u32 \<Rightarrow> (resource \<Rightarrow> int) vfs" where
  "sdemo_fs md sz pos fl = upd_filp 0 (filp_pos_update (\<lambda>_. pos)) (upd_vnode 2 (\<lambda>v. v\<lparr>v_inode_nr := 5, v_size := sz\<rparr>) (vdemo_open md fl))"

lemma sdemo_sel [simp]:
  "v_inode_nr (vnodes (sdemo_fs md sz pos fl) 2) = 5" "v_size (vnodes (sdemo_fs md sz pos fl) 2) = sz" "v_mode (vnodes (sdemo_fs md sz pos fl) 2) = md"
  "filp_pos (filps (sdemo_fs md sz pos fl) 0) = pos" "filp_flags (filps (sdemo_fs md sz pos fl) 0) = fl"
  by (simp_all add: sdemo_fs_def upd_filp_def upd_vnode_def vdemo_open_def vdemo_fs_def vdemo_vnode_def)

lemma sdemo_open: "plain_file md \<Longrightarrow> file_open vdemo_env (\<lambda>w. w) 0 2 (sdemo_fs md sz pos fl)"
  using vdemo_file_open [of md fl] by (simp add: file_open_def sdemo_fs_def vfs_upd_defs)

theorem vfs_write_reaches_file_witness:
  "\<exists>fs' mf'. read_write vdemo_env 0 WRITING 0 100 2 100 (sdemo_fs I_REGULAR 0 3 0) = Some (Ret 2, fs')
    \<and> contents mdemo_env (inodes mf' ! 0) mf' = overwrite 3 [7, 8] (contents mdemo_env wdemo_inode (wdemo_fs [7, 8]))"
proof -
  let ?fs = "sdemo_fs I_REGULAR 0 3 0" and ?mf = "wdemo_fs [7, 8]"
  have st: "rw_start WRITING 0 2 ?fs = 3" by (simp add: rw_start_def has_def)
  have rqe: "mfs_request WRITING (v_inode_nr (vnodes ?fs 2)) 1 (rw_start WRITING 0 2 ?fs) 2 = demo_rq REQ_WRITE 3 2"
    by (simp add: st) (simp add: mfs_request_def demo_rq_def)
  have fits: "\<not> s_rd_only (superblock ?mf)" "s_max_size (superblock ?mf) = 4600" "mem (fs_world ?mf) = [7, 8]"
    by (simp_all add: wdemo_fs_def mdemo_fs_def mdemo_sb_def)
  obtain out mf' where run: "fs_readwrite mdemo_env (demo_rq REQ_WRITE 3 2) ?mf = Some (OK, out, mf')"
    using wdemo_write by (auto simp: map_option_eq_Some)
  have fit: "int (rq_pos (demo_rq REQ_WRITE 3 2)) + int (rq_nbytes (demo_rq REQ_WRITE 3 2)) \<le> s_max_size (superblock ?mf)"
    using fits(2) by (simp add: demo_rq_def)
  have ty: "rq_type (demo_rq REQ_WRITE 3 2) = REQ_WRITE" by (simp add: demo_rq_def)
  have "out = Some (5, 2)"
    using fs_write_bytes [OF mdemo_rw_laws wdemo_ok(4,5,1,2,3) ty fits(1) fit] run by (elim exE conjE) (simp add: demo_rq_def)
  then have ans: "mfs_answers mdemo_env (mfs_request WRITING (v_inode_nr (vnodes ?fs 2)) 1 (rw_start WRITING 0 2 ?fs) 2) ?mf
      (vdemo_reply (Req_readwrite (v_inode_nr (vnodes ?fs 2)) (rw_start WRITING 0 2 ?fs) WRITING 100 100 2)) mf'"
    unfolding rqe using run by (simp add: mfs_answers_def st)
  have rf: "refers mdemo_env (mfs_request WRITING (v_inode_nr (vnodes ?fs 2)) 1 (rw_start WRITING 0 2 ?fs) 2) ?mf 0 wdemo_inode"
    unfolding rqe by (rule wdemo_ok(4))
  have stp: "in_step (vnodes ?fs 2) wdemo_inode" by (simp add: in_step_def wdemo_inode_def mdemo_inode_def)
  have "\<exists>fs'. read_write vdemo_env 0 WRITING 0 100 2 100 ?fs = Some (Ret (int 2), fs') \<and> in_step (vnodes fs' 2) (inodes mf' ! 0)
    \<and> contents mdemo_env (inodes mf' ! 0) mf' = overwrite (nat (rw_start WRITING 0 2 ?fs)) (take 2 (mem (fs_world ?mf))) (contents mdemo_env wdemo_inode ?mf)"
    by (rule vfs_write_reaches_file [OF vdemo_laws(1) vdemo_dev_laws sdemo_open [OF plain_reg(1)] _ vdemo_req ans _ mdemo_rw_laws rf wdemo_ok(5,1,2,3) fits(1) _ _ stp])
       (simp_all add: vdemo_max fits st)
  then show ?thesis using st fits(3) by auto
qed

text \<open>
  C24. An appending write through VFS to an immediate file of the MINIX file system, with vnode and inode in
  agreement and the result still fitting into the inode: the bytes arrive at the end of the file, but the
  vnode does not follow. The next appending write starts where this one started, before the end of the
  file, so it overwrites the bytes just written.\<close>

theorem vfs_append_not_at_end:
  assumes "path_laws e bal" "dev_laws e bal" "file_open e bal f vp fs" "n \<le> SSIZE_MAX e" "has (filp_flags (filps fs f)) O_APPEND"
    and "fs_req e (v_fs_e (vnodes fs vp)) (Req_readwrite (v_inode_nr (vnodes fs vp)) (v_size (vnodes fs vp)) WRITING ep b n) fs = (rep, fs1)"
    and "mfs_answers me (mfs_request WRITING (v_inode_nr (vnodes fs vp)) gid (v_size (vnodes fs vp)) n) mf rep mf'"
    and "rw_laws me U M" "refers me (mfs_request WRITING (v_inode_nr (vnodes fs vp)) gid (v_size (vnodes fs vp)) n) mf i rip"
    and "imm_ok rip" "\<not> s_rd_only (superblock mf)" "s_log_zone_size (superblock mf) = 0" "32 \<le> s_max_size (superblock mf)"
    and "granted me M gid" "n \<le> length (M (fs_world mf))" and "in_step (vnodes fs vp) rip" "i_size rip + n \<le> 32" "0 < n"
  shows "\<exists>fs'. read_write e rfp WRITING f b n ep fs = Some (Ret (int n), fs')
    \<and> imm_bytes (inodes mf' ! i) = imm_bytes rip @ take n (M (fs_world mf))
    \<and> rw_start WRITING f vp fs' = int (i_size rip) \<and> int (i_size rip) < int (i_size (inodes mf' ! i))"
proof -
  let ?rq = "mfs_request WRITING (v_inode_nr (vnodes fs vp)) gid (v_size (vnodes fs vp)) n"
  have sz: "v_size (vnodes fs vp) = int (i_size rip)" using assms(16) by (simp add: in_step_def)
  have st: "rw_start WRITING f vp fs = v_size (vnodes fs vp)" using assms(5) by (simp add: rw_start_def)
  have fit: "rq_pos ?rq + rq_nbytes ?rq \<le> 32" "int (rq_pos ?rq) + int (rq_nbytes ?rq) \<le> s_max_size (superblock mf)"
    using sz assms(13,17) by simp_all
  have mem: "granted me M (rq_grant ?rq)" "rq_nbytes ?rq \<le> length (M (fs_world mf))" using assms(14,15) by simp_all
  obtain t where w: "fs_readwrite me ?rq mf = Some (OK, Some (rq_pos ?rq + rq_nbytes ?rq, rq_nbytes ?rq), t)" and im: "imm_ok (inodes t ! i)"
    and ovw: "imm_bytes (inodes t ! i) = overwrite (rq_pos ?rq) (take (rq_nbytes ?rq) (M (fs_world mf))) (imm_bytes rip)"
    using imm_write_bytes [OF assms(8-10) mfs_request_sel(1) fit(1) assms(11) fit(2) assms(12) mem] by (elim exE conjE) (rule that)
  have rp: "rp_ret rep = OK" "mf' = t" "rp_pos rep = int (i_size rip) + int n" "rp_cum_io rep = n"
    using assms(7) w sz by (auto simp: mfs_answers_def)
  have len: "length (imm_bytes rip) = i_size rip" using assms(10) by (simp add: imm_ok_def imm_bytes_def)
  have ib: "imm_bytes (inodes mf' ! i) = imm_bytes rip @ take n (M (fs_world mf))"
    using ovw rp(2) sz len by (simp add: overwrite_def)
  have "length (imm_bytes (inodes mf' ! i)) = i_size (inodes mf' ! i)" using im rp(2) by (simp add: imm_ok_def imm_bytes_def)
  then have gr: "i_size (inodes mf' ! i) = i_size rip + n" using ib len assms(15) by simp
  obtain fs' where run: "read_write e rfp WRITING f b n ep fs = Some (Ret (int n), fs')"
    and key: "vkey (vnodes fs' vp) = vkey (vnodes fs vp\<lparr>v_size := rw_size WRITING vp (int (i_size rip) + int n) fs\<rparr>)"
    and fl: "filps fs' f = (filps fs f)\<lparr>filp_pos := int (i_size rip) + int n\<rparr>"
    using read_write_file [OF assms(1-4) _ assms(6) [folded st], of rfp] rp by (auto simp: rw_reached_def)
  have md: "v_mode (vnodes fs vp) AND I_TYPE = I_IMMEDIATE" using assms(10,16) by (simp add: imm_ok_def in_step_def)
  have "\<not> S_ISREG (v_mode (vnodes fs vp))" "\<not> S_ISDIR (v_mode (vnodes fs vp))"
    unfolding S_ISREG_def S_ISDIR_def md by (simp_all add: mode_consts)
  then have "v_size (vnodes fs' vp) = int (i_size rip)" using vkey_sel [OF key] sz by (simp add: rw_size_def)
  then have "rw_start WRITING f vp fs' = int (i_size rip)" using fl assms(5) by (simp add: rw_start_def)
  then show ?thesis using run ib gr assms(18) by simp
qed

theorem vfs_append_not_at_end_witness:
  "\<exists>fs' (mf' :: mworld mfs). read_write vdemo_env 0 WRITING 0 100 2 100 (sdemo_fs I_IMMEDIATE 3 3 O_APPEND) = Some (Ret 2, fs')
    \<and> imm_bytes (inodes mf' ! 0) = [1, 2, 3, 7, 8] \<and> rw_start WRITING 0 2 fs' = 3"
proof -
  let ?fs = "sdemo_fs I_IMMEDIATE 3 3 O_APPEND" and ?mf = "idemo_fs [7, 8]"
  have rqe: "mfs_request WRITING (v_inode_nr (vnodes ?fs 2)) 1 (v_size (vnodes ?fs 2)) 2 = demo_rq REQ_WRITE 3 2"
    by simp (simp add: mfs_request_def demo_rq_def)
  have m: "mem (fs_world ?mf) = [7, 8]" by (simp add: idemo_fs_def mdemo_fs_def)
  have w: "\<exists>mf'. fs_readwrite mdemo_env (demo_rq REQ_WRITE 3 2) ?mf = Some (OK, Some (5, 2), mf')"
    using imm_write_bytes [OF mdemo_rw_laws idemo_ok(4,1) _ _ idemo_ok(5) _ idemo_ok(7) mdemo_granted, of REQ_WRITE 3 2 "[7, 8]"] idemo_ok(6) m
    by (auto simp: demo_rq_def)
  then obtain mf' where ans: "mfs_answers mdemo_env (mfs_request WRITING (v_inode_nr (vnodes ?fs 2)) 1 (v_size (vnodes ?fs 2)) 2) ?mf
      (vdemo_reply (Req_readwrite (v_inode_nr (vnodes ?fs 2)) (v_size (vnodes ?fs 2)) WRITING 100 100 2)) mf'"
    unfolding rqe by (auto simp: mfs_answers_def)
  have rf: "refers mdemo_env (mfs_request WRITING (v_inode_nr (vnodes ?fs 2)) 1 (v_size (vnodes ?fs 2)) 2) ?mf 0 idemo_inode"
    unfolding rqe by (rule idemo_ok(4))
  have stp: "in_step (vnodes ?fs 2) idemo_inode" by (simp add: in_step_def idemo_inode_def mdemo_inode_def)
  have s3: "i_size idemo_inode = 3" by (simp add: idemo_inode_def)
  have "\<exists>fs'. read_write vdemo_env 0 WRITING 0 100 2 100 ?fs = Some (Ret (int 2), fs')
    \<and> imm_bytes (inodes mf' ! 0) = imm_bytes idemo_inode @ take 2 (mem (fs_world ?mf))
    \<and> rw_start WRITING 0 2 fs' = int (i_size idemo_inode) \<and> int (i_size idemo_inode) < int (i_size (inodes mf' ! 0))"
    by (rule vfs_append_not_at_end [OF vdemo_laws(1) vdemo_dev_laws sdemo_open [OF plain_reg(2)] _ _ vdemo_req ans mdemo_rw_laws rf idemo_ok(1,5,7) _ mdemo_granted _ stp])
       (simp_all add: vdemo_max s3 m idemo_ok(6) has_def oflag_defs)
  then show ?thesis using s3 m idemo_ok(8) by auto
qed

end
